(* ===== verification/Prelude.thy ===== *)
theory Prelude
  imports Main "HOL-Library.Word" "HOL-Library.Multiset"
begin

text \<open>
  Shared vocabulary of the development: bytes and C integers, the outcome of a piece of kernel
  code (a result, a call of \<open>panic\<close> of src/kernel/panic.c, the end of the task by \<open>do_exit\<close>, an
  access outside an array, or a task put to sleep), and the generic facts on lists and wrapped integers that the components share.
\<close>

named_theorems outcome_simps
named_theorems wrap_simps

section \<open>Bytes and integers\<close>

type_synonym byte = "8 word"

text \<open>
  A C \<open>char\<close> of this compiler is a signed 8-bit value: comparisons read a byte through
  \<open>sint\<close>. The 32-bit \<open>unsigned long\<close> and \<open>int\<close> values are kept as \<open>int\<close>, with the
  wrap-around written out by \<open>u32\<close> and \<open>s32\<close>; \<open>u16\<close> and \<open>u8\<close> are the conversions to
  \<open>unsigned short\<close> and \<open>unsigned char\<close>. Division and remainder of signed values truncate
  towards zero.
\<close>

definition u32 :: "int \<Rightarrow> int" where
  "u32 x = x mod 4294967296"

definition s32 :: "int \<Rightarrow> int" where
  "s32 x = (x + 2147483648) mod 4294967296 - 2147483648"

definition u16 :: "int \<Rightarrow> int" where
  "u16 x = x mod 65536"

definition u8 :: "int \<Rightarrow> int" where
  "u8 x = x mod 256"

definition cdiv :: "int \<Rightarrow> int \<Rightarrow> int" where
  "cdiv a b = sgn a * sgn b * (\<bar>a\<bar> div \<bar>b\<bar>)"

definition cmod :: "int \<Rightarrow> int \<Rightarrow> int" where
  "cmod a b = a - cdiv a b * b"

section \<open>Outcomes\<close>

text \<open>
  \<open>Fuel\<close> is the outcome of a model whose bound on the rounds of a loop was too small; a theorem
  that such code returns says that enough fuel gives a result.
\<close>

datatype 'a outcome = Done 'a | Panic string | Exit int | Oob | Sleep | Fuel

fun obind :: "'a outcome \<Rightarrow> ('a \<Rightarrow> 'b outcome) \<Rightarrow> 'b outcome" where
  "obind (Done x) f = f x"
| "obind (Panic m) f = Panic m"
| "obind (Exit n) f = Exit n"
| "obind Oob f = Oob"
| "obind Sleep f = Sleep"
| "obind Fuel f = Fuel"

text \<open>A loop over the elements of a list that stops at the first failure.\<close>

fun omap :: "('a \<Rightarrow> 'b outcome) \<Rightarrow> 'a list \<Rightarrow> 'b list outcome" where
  "omap f [] = Done []"
| "omap f (x # xs) = obind (f x) (\<lambda>y. obind (omap f xs) (\<lambda>ys. Done (y # ys)))"

text \<open>A statement repeated a given number of times.\<close>

fun orep :: "nat \<Rightarrow> ('a \<Rightarrow> 'a outcome) \<Rightarrow> 'a \<Rightarrow> 'a outcome" where
  "orep 0 f s = Done s"
| "orep (Suc n) f s = obind (f s) (orep n f)"

section \<open>Array accesses\<close>

text \<open>Reads and writes of a C array of \<open>length xs\<close> elements, with the access outside it.\<close>

definition rd :: "'a list \<Rightarrow> nat \<Rightarrow> 'a outcome" where
  "rd xs i = (if i < length xs then Done (xs ! i) else Oob)"

definition wr :: "'a list \<Rightarrow> nat \<Rightarrow> 'a \<Rightarrow> 'a list outcome" where
  "wr xs i v = (if i < length xs then Done (xs[i := v]) else Oob)"

text \<open>The exchange of two elements through a temporary.\<close>

definition swap :: "'a list \<Rightarrow> nat \<Rightarrow> nat \<Rightarrow> 'a list" where
  "swap xs i j = (xs[i := xs ! j])[j := xs ! i]"

section \<open>Facts on wrapped integers\<close>

lemma u32_id [wrap_simps]: "0 \<le> x \<Longrightarrow> x < 4294967296 \<Longrightarrow> u32 x = x"
  by (simp add: u32_def)

lemma u32_range: "0 \<le> u32 x" "u32 x < 4294967296"
  by (simp_all add: u32_def)

lemma s32_id [wrap_simps]: "-2147483648 \<le> x \<Longrightarrow> x < 2147483648 \<Longrightarrow> s32 x = x"
  by (simp add: s32_def)

lemma s32_range: "-2147483648 \<le> s32 x" "s32 x < 2147483648"
  by (simp_all add: s32_def add.commute pos_mod_bound [THEN less_le_trans])

lemma u16_id [wrap_simps]: "0 \<le> x \<Longrightarrow> x < 65536 \<Longrightarrow> u16 x = x"
  by (simp add: u16_def)

lemma u16_range: "0 \<le> u16 x" "u16 x < 65536"
  by (simp_all add: u16_def)

lemma u8_id [wrap_simps]: "0 \<le> x \<Longrightarrow> x < 256 \<Longrightarrow> u8 x = x"
  by (simp add: u8_def)

lemma cdiv_nonneg [wrap_simps]: "0 \<le> a \<Longrightarrow> 0 < b \<Longrightarrow> cdiv a b = a div b"
  by (cases "a = 0") (simp_all add: cdiv_def)

lemma cmod_nonneg [wrap_simps]: "0 \<le> a \<Longrightarrow> 0 < b \<Longrightarrow> cmod a b = a mod b"
  by (simp add: cmod_def cdiv_nonneg minus_div_mult_eq_mod)

section \<open>Facts on outcomes\<close>

lemma obind_Done_iff [outcome_simps]:
  "obind m f = Done y \<longleftrightarrow> (\<exists>x. m = Done x \<and> f x = Done y)"
  by (cases m) auto

lemma orep_invariant:
  assumes "\<And>s. P s \<Longrightarrow> \<exists>s'. f s = Done s' \<and> P s'"
  shows "P s \<Longrightarrow> \<exists>s'. orep n f s = Done s' \<and> P s'"
proof (induction n arbitrary: s)
  case (Suc n)
  then show ?case using assms [OF Suc.prems] by auto
qed simp

lemma obind_assoc: "obind (obind m f) g = obind m (\<lambda>x. obind (f x) g)"
  by (cases m) auto

lemma rd_Done_iff [outcome_simps]: "rd xs i = Done v \<longleftrightarrow> i < length xs \<and> v = xs ! i"
  by (auto simp: rd_def)

lemma wr_Done_iff [outcome_simps]: "wr xs i v = Done ys \<longleftrightarrow> i < length xs \<and> ys = xs[i := v]"
  by (auto simp: wr_def)

section \<open>Facts on exchanges\<close>

lemma length_swap [simp]: "length (swap xs i j) = length xs"
  by (simp add: swap_def)

lemma nth_swap:
  "i < length xs \<Longrightarrow> j < length xs \<Longrightarrow> k < length xs \<Longrightarrow>
   swap xs i j ! k = (if k = j then xs ! i else if k = i then xs ! j else xs ! k)"
  by (auto simp: swap_def nth_list_update)

lemma mset_swap_eq:
  "i < length xs \<Longrightarrow> j < length xs \<Longrightarrow> mset (swap xs i j) = mset xs"
  by (simp add: swap_def mset_swap)

lemma zip_swap:
  assumes "length xs = length ys" "i < length xs" "j < length xs"
  shows "zip (swap xs i j) (swap ys i j) = swap (zip xs ys) i j"
  by (rule nth_equalityI) (use assms in \<open>auto simp: nth_swap\<close>)

section \<open>Permutations of a range\<close>

lemma mset_mid:
  "a \<le> b \<Longrightarrow> b \<le> length xs \<Longrightarrow>
   mset xs = mset (take a xs) + mset (take (b - a) (drop a xs)) + mset (drop b xs)"
  by (metis append_take_drop_id drop_drop le_add_diff_inverse2 mset_append union_assoc)

text \<open>
  When a permutation of a list leaves everything outside \<open>a..b\<close> in place, it permutes that
  range.
\<close>

lemma range_perm:
  assumes m: "mset ys = mset xs"
    and out: "\<And>k. k < length xs \<Longrightarrow> k < a \<or> b < k \<Longrightarrow> ys ! k = xs ! k"
    and k: "a \<le> k" "k \<le> b" "b < length xs"
  shows "\<exists>k'. a \<le> k' \<and> k' \<le> b \<and> ys ! k = xs ! k'"
proof -
  have len: "length ys = length xs" using m by (metis size_mset)
  let ?mid = "\<lambda>zs. take (Suc b - a) (drop a zs)"
  have t: "take a ys = take a xs" using len k out by (intro nth_equalityI) auto
  have d: "drop (Suc b) ys = drop (Suc b) xs" using len k out by (intro nth_equalityI) auto
  have "mset (?mid ys) = mset (?mid xs)"
    using mset_mid [of a "Suc b" xs] mset_mid [of a "Suc b" ys] m t d len k by simp
  then have s: "set (?mid ys) = set (?mid xs)" by (rule mset_eq_setD)
  have "?mid ys ! (k - a) = ys ! k" using len k by simp
  moreover have "k - a < length (?mid ys)" using len k by simp
  ultimately have "ys ! k \<in> set (?mid ys)" by (metis nth_mem)
  then obtain n where "n < length (?mid xs)" "?mid xs ! n = ys ! k"
    using s by (metis in_set_conv_nth)
  then show ?thesis using k by (intro exI [of _ "a + n"]) auto
qed

lemma mset_zip_projections:
  assumes "mset (zip xs ys) = mset (zip xs' ys')" "length xs = length ys" "length xs' = length ys'"
  shows "mset xs = mset xs'" "mset ys = mset ys'"
proof -
  show "mset xs = mset xs'"
    using assms arg_cong [OF assms(1), of "image_mset fst"] by (metis map_fst_zip mset_map)
  show "mset ys = mset ys'"
    using assms arg_cong [OF assms(1), of "image_mset snd"] by (metis map_snd_zip mset_map)
qed

section \<open>Loops that fill an array\<close>

lemma take_Suc_drop: "i < length xs \<Longrightarrow> take (Suc k) (drop i xs) = xs ! i # take k (drop (Suc i) xs)"
  by (metis Cons_nth_drop_Suc take_Suc_Cons)

lemma take_Suc_update: "i < length xs \<Longrightarrow> take (Suc i) (xs[i := v]) = take i xs @ [v]"
  by (simp add: take_Suc_conv_app_nth)

lemma nth_update_cases: "xs[i := x] ! j = (if i = j \<and> i < length xs then x else xs ! j)"
  by (cases "i < length xs") (auto simp: nth_list_update list_update_beyond)

section \<open>Congruence of the bind\<close>

text \<open>The rule that lets a termination proof use the result of the first computation.\<close>

lemma obind_cong [fundef_cong]:
  "m = m' \<Longrightarrow> (\<And>x. m' = Done x \<Longrightarrow> f x = g x) \<Longrightarrow> obind m f = obind m' g"
  by (cases m') auto

end
