(* ===== verification/KeySort.thy ===== *)
theory KeySort
  imports Prelude
begin

text \<open>
  The in-place quicksort of src/kernel/sys.c that sorts the letters of the key and carries their
  indices along (\<open>partition\<close>, \<open>sort_index_and_global\<close>), with the usual four groups of facts:
  bounds of the split point, the pairing of the two arrays as a multiset, the frame outside the
  range, and sortedness.
\<close>

section \<open>The quicksort of the key\<close>

text \<open>
  \<open>partition\<close> and \<open>sort_index_and_global\<close> exchange the elements of two arrays in
  parallel; the bounds \<open>low\<close>, \<open>high\<close> and \<open>i\<close> are C integers that start at or reach
  \<open>-1\<close>. The arrays are indexed inside their bounds only (\<open>sort_index_and_global\<close> is called
  with \<open>0 \<le> low\<close> and \<open>high < length\<close>), as the lemmas below on lengths and bounds show.
\<close>

function partition_loop ::
  "byte \<Rightarrow> int \<Rightarrow> int \<Rightarrow> int \<Rightarrow> nat list \<Rightarrow> byte list \<Rightarrow> int \<times> nat list \<times> byte list" where
  "partition_loop pivot i j high ia ks =
     (if j < high then
        (if sint (ks ! nat j) \<le> sint pivot then
           partition_loop pivot (i + 1) (j + 1) high
             (swap ia (nat (i + 1)) (nat j)) (swap ks (nat (i + 1)) (nat j))
         else partition_loop pivot i (j + 1) high ia ks)
      else (i, ia, ks))"
  by pat_completeness auto
termination
  by (relation "measure (\<lambda>(p, i, j, high, ia, ks). nat (high - j))") auto

definition partition :: "nat list \<Rightarrow> byte list \<Rightarrow> int \<Rightarrow> int \<Rightarrow> int \<times> nat list \<times> byte list" where
  "partition ia ks low high =
     (let (i, ia, ks) = partition_loop (ks ! nat high) (low - 1) low high ia ks
      in (i + 1, swap ia (nat (i + 1)) (nat high), swap ks (nat (i + 1)) (nat high)))"

declare partition_loop.simps [simp del]

lemma partition_loop_end: "\<not> j < high \<Longrightarrow> partition_loop p i j high ia ks = (i, ia, ks)"
  by (simp add: partition_loop.simps)

lemma partition_loop_skip:
  "j < high \<Longrightarrow> \<not> sint (ks ! nat j) \<le> sint p \<Longrightarrow>
   partition_loop p i j high ia ks = partition_loop p i (j + 1) high ia ks"
  by (simp add: partition_loop.simps [of p i j])

lemma partition_loop_take:
  "j < high \<Longrightarrow> sint (ks ! nat j) \<le> sint p \<Longrightarrow>
   partition_loop p i j high ia ks =
   partition_loop p (i + 1) (j + 1) high
     (swap ia (nat (i + 1)) (nat j)) (swap ks (nat (i + 1)) (nat j))"
  by (simp add: partition_loop.simps [of p i j])

lemma partition_loop_bounds:
  assumes "partition_loop p i j high ia ks = (i', ia', ks')" "j \<le> high"
  shows "i \<le> i' \<and> i' - i \<le> high - j"
  using assms
proof (induction p i j high ia ks rule: partition_loop.induct)
  case (1 p i j high ia ks)
  show ?case
  proof (cases "j < high")
    case True
    then show ?thesis
      using 1 by (cases "sint (ks ! nat j) \<le> sint p")
        (auto simp: partition_loop_skip partition_loop_take)
  next
    case False
    then show ?thesis using 1 by (simp add: partition_loop_end)
  qed
qed

lemma partition_bounds:
  assumes "partition ia ks low high = (part, ia', ks')" "low < high"
  shows "low \<le> part \<and> part \<le> high"
  using assms partition_loop_bounds [of "ks ! nat high" "low - 1" low high ia ks]
  by (auto simp: partition_def split: prod.splits)

function sort_index_and_global ::
  "nat list \<Rightarrow> byte list \<Rightarrow> int \<Rightarrow> int \<Rightarrow> nat list \<times> byte list" where
  "sort_index_and_global ia ks low high =
     (if low < high then
        (case partition ia ks low high of (part, ia1, ks1) \<Rightarrow>
         case sort_index_and_global ia1 ks1 low (part - 1) of (ia2, ks2) \<Rightarrow>
           sort_index_and_global ia2 ks2 (part + 1) high)
      else (ia, ks))"
  by pat_completeness auto
termination
  by (relation "measure (\<lambda>(ia, ks, low, high). nat (high - low))")
     (auto dest!: partition_bounds [OF sym])

declare sort_index_and_global.simps [simp del]

text \<open>
  The invariant of the loop: the two arrays stay paired (the multiset of pairs is kept), nothing
  outside the unscanned and exchanged part changes, and the scanned part is split at \<open>i\<close>.
\<close>

lemma partition_loop_frame:
  assumes "partition_loop p i j high ia ks = (i', ia', ks')"
    "length ia = length ks" "-1 \<le> i" "i < j" "j \<le> high" "high < int (length ks)"
  shows "length ia' = length ks \<and> length ks' = length ks \<and>
    mset (zip ks' ia') = mset (zip ks ia) \<and>
    (\<forall>k < length ks. int k \<le> i \<or> high \<le> int k \<longrightarrow> ks' ! k = ks ! k \<and> ia' ! k = ia ! k)"
  using assms
proof (induction p i j high ia ks rule: partition_loop.induct)
  case (1 p i j high ia ks)
  consider (stop) "\<not> j < high" | (skip) "j < high" "\<not> sint (ks ! nat j) \<le> sint p"
    | (exch) "j < high" "sint (ks ! nat j) \<le> sint p" by blast
  then show ?case
  proof cases
    case stop
    then show ?thesis using 1 by (simp add: partition_loop_end)
  next
    case skip
    then show ?thesis using 1 by (auto simp: partition_loop_skip)
  next
    case exch
    let ?ia = "swap ia (nat (i + 1)) (nat j)" and ?ks = "swap ks (nat (i + 1)) (nat j)"
    have b: "nat (i + 1) < length ks" "nat j < length ks" using 1 exch by auto
    have "length ia' = length ?ks \<and> length ks' = length ?ks \<and>
      mset (zip ks' ia') = mset (zip ?ks ?ia) \<and>
      (\<forall>k < length ?ks. int k \<le> i + 1 \<or> high \<le> int k \<longrightarrow> ks' ! k = ?ks ! k \<and> ia' ! k = ?ia ! k)"
      using exch "1.prems" by (intro "1.IH"(1)) (auto simp: partition_loop_take)
    moreover have "mset (zip ?ks ?ia) = mset (zip ks ia)"
      using b "1.prems" by (simp add: zip_swap mset_swap_eq)
    ultimately show ?thesis using b "1.prems" exch by (auto simp: nth_swap)
  qed
qed

lemma partition_loop_split:
  assumes "partition_loop p i j high ia ks = (i', ia', ks')"
    "length ia = length ks" "-1 \<le> i" "i < j" "j \<le> high" "high < int (length ks)"
    "\<forall>k. i < int k \<and> int k < j \<longrightarrow> sint p < sint (ks ! k)"
  shows "(\<forall>k. i < int k \<and> int k \<le> i' \<longrightarrow> sint (ks' ! k) \<le> sint p) \<and>
    (\<forall>k. i' < int k \<and> int k < high \<longrightarrow> sint p < sint (ks' ! k))"
  using assms
proof (induction p i j high ia ks rule: partition_loop.induct)
  case (1 p i j high ia ks)
  consider (stop) "\<not> j < high" | (skip) "j < high" "\<not> sint (ks ! nat j) \<le> sint p"
    | (exch) "j < high" "sint (ks ! nat j) \<le> sint p" by blast
  then show ?case
  proof cases
    case stop
    then show ?thesis using 1 by (auto simp: partition_loop_end)
  next
    case skip
    have "\<forall>k. i < int k \<and> int k < j + 1 \<longrightarrow> sint p < sint (ks ! k)"
      using "1.prems" skip by (metis add1_zle_eq add_le_cancel_right nat_int not_le order_le_less)
    then show ?thesis using "1.IH"(2) "1.prems" skip by (auto simp: partition_loop_skip)
  next
    case exch
    let ?ia = "swap ia (nat (i + 1)) (nat j)" and ?ks = "swap ks (nat (i + 1)) (nat j)"
    have eq: "partition_loop p (i + 1) (j + 1) high ?ia ?ks = (i', ia', ks')"
      using "1.prems"(1) exch by (simp add: partition_loop_take)
    have b: "nat (i + 1) < length ks" "nat j < length ks" using 1 exch by auto
    have gt: "\<forall>k. i + 1 < int k \<and> int k < j + 1 \<longrightarrow> sint p < sint (?ks ! k)"
      using "1.prems" exch b by (auto simp: nth_swap)
    have first: "sint (ks' ! nat (i + 1)) \<le> sint p"
      using partition_loop_frame [OF eq] "1.prems" exch b by (auto simp: nth_swap)
    have "(\<forall>k. i + 1 < int k \<and> int k \<le> i' \<longrightarrow> sint (ks' ! k) \<le> sint p) \<and>
      (\<forall>k. i' < int k \<and> int k < high \<longrightarrow> sint p < sint (ks' ! k))"
      using exch eq gt "1.prems" by (intro "1.IH"(1)) auto
    then show ?thesis using first
      by (metis add1_zle_eq nat_int order_le_less)
  qed
qed

lemma partition_frame:
  assumes "partition ia ks low high = (part, ia', ks')"
    "length ia = length ks" "0 \<le> low" "low < high" "high < int (length ks)"
  shows "length ia' = length ks \<and> length ks' = length ks \<and>
    mset (zip ks' ia') = mset (zip ks ia) \<and>
    (\<forall>k < length ks. int k < low \<or> high < int k \<longrightarrow> ks' ! k = ks ! k \<and> ia' ! k = ia ! k)"
proof -
  obtain i ia1 ks1 where
    l: "partition_loop (ks ! nat high) (low - 1) low high ia ks = (i, ia1, ks1)"
    by (metis prod_cases3)
  have e: "part = i + 1" "ia' = swap ia1 (nat (i + 1)) (nat high)"
    "ks' = swap ks1 (nat (i + 1)) (nat high)"
    using assms(1) l by (auto simp: partition_def)
  have "low \<le> part \<and> part \<le> high" using partition_bounds assms by blast
  with e have b: "low - 1 \<le> i" "nat (i + 1) < length ks" "nat high < length ks" "i + 1 \<le> high"
    using assms by auto
  note f = partition_loop_frame [OF l]
  then show ?thesis using assms b e
    by (auto simp: zip_swap mset_swap_eq nth_swap)
qed

lemma partition_split:
  assumes "partition ia ks low high = (part, ia', ks')"
    "length ia = length ks" "0 \<le> low" "low < high" "high < int (length ks)"
  shows "(\<forall>k. low \<le> int k \<and> int k < part \<longrightarrow> sint (ks' ! k) \<le> sint (ks' ! nat part)) \<and>
    (\<forall>k. part < int k \<and> int k \<le> high \<longrightarrow> sint (ks' ! nat part) < sint (ks' ! k))"
proof -
  obtain i ia1 ks1 where
    l: "partition_loop (ks ! nat high) (low - 1) low high ia ks = (i, ia1, ks1)"
    by (metis prod_cases3)
  have e: "part = i + 1" "ks' = swap ks1 (nat (i + 1)) (nat high)"
    using assms(1) l by (auto simp: partition_def)
  have "low \<le> part \<and> part \<le> high" using partition_bounds assms by blast
  with e have b: "low - 1 \<le> i" "nat (i + 1) < length ks" "nat high < length ks" "i + 1 \<le> high"
    using assms by auto
  have f: "length ks1 = length ks" "ks1 ! nat high = ks ! nat high"
    using partition_loop_frame [OF l] assms by auto
  have s: "\<forall>k. low - 1 < int k \<and> int k \<le> i \<longrightarrow> sint (ks1 ! k) \<le> sint (ks ! nat high)"
    "\<forall>k. i < int k \<and> int k < high \<longrightarrow> sint (ks ! nat high) < sint (ks1 ! k)"
    using partition_loop_split [OF l] assms by auto
  have p: "ks' ! nat part = ks ! nat high" using e f b by (simp add: nth_swap)
  have "sint (ks' ! k) \<le> sint (ks ! nat high)" if "low \<le> int k" "int k < part" for k
  proof -
    have "k \<noteq> nat high" "k \<noteq> nat (i + 1)" "k < length ks" "int k \<le> i"
      using that e b assms by auto
    then show ?thesis using s(1) that e b f by (simp add: nth_swap)
  qed
  moreover have "sint (ks ! nat high) < sint (ks' ! k)" if "part < int k" "int k \<le> high" for k
  proof (cases "int k = high")
    case True
    then have "k = nat high" "nat high \<noteq> nat (i + 1)" using that e b assms by auto
    then show ?thesis using s(2) that e b f assms by (auto simp: nth_swap)
  next
    case False
    then have "k \<noteq> nat high" "k \<noteq> nat (i + 1)" "k < length ks" "i < int k"
      using that e b assms by auto
    then show ?thesis using s(2) that e b f False by (simp add: nth_swap)
  qed
  ultimately show ?thesis using p by auto
qed

lemma sort_frame:
  assumes "sort_index_and_global ia ks low high = (ia', ks')"
    "length ia = length ks" "0 \<le> low" "high < int (length ks)"
  shows "length ia' = length ks \<and> length ks' = length ks \<and>
    mset (zip ks' ia') = mset (zip ks ia) \<and>
    (\<forall>k < length ks. int k < low \<or> high < int k \<longrightarrow> ks' ! k = ks ! k \<and> ia' ! k = ia ! k)"
  using assms
proof (induction ia ks low high arbitrary: ia' ks' rule: sort_index_and_global.induct)
  case (1 ia ks low high)
  show ?case
  proof (cases "low < high")
    case False
    then show ?thesis using 1 by (simp add: sort_index_and_global.simps [of ia])
  next
    case True
    obtain part ia1 ks1 where p: "partition ia ks low high = (part, ia1, ks1)"
      by (metis prod_cases3)
    obtain ia2 ks2 where q: "sort_index_and_global ia1 ks1 low (part - 1) = (ia2, ks2)"
      by fastforce
    have r: "sort_index_and_global ia2 ks2 (part + 1) high = (ia', ks')"
      using "1.prems"(1) True p q by (simp add: sort_index_and_global.simps [of ia])
    have b: "low \<le> part" "part \<le> high" using partition_bounds [OF p True] by auto
    have f1: "length ia1 = length ks \<and> length ks1 = length ks \<and>
      mset (zip ks1 ia1) = mset (zip ks ia) \<and>
      (\<forall>k < length ks. int k < low \<or> high < int k \<longrightarrow> ks1 ! k = ks ! k \<and> ia1 ! k = ia ! k)"
      using partition_frame [OF p] "1.prems" True by blast
    have f2: "length ia2 = length ks1 \<and> length ks2 = length ks1 \<and>
      mset (zip ks2 ia2) = mset (zip ks1 ia1) \<and> (\<forall>k < length ks1.
        int k < low \<or> part - 1 < int k \<longrightarrow> ks2 ! k = ks1 ! k \<and> ia2 ! k = ia1 ! k)"
      using "1.IH"(1) [OF True p [symmetric] refl q] f1 "1.prems" b by auto
    have f3: "length ia' = length ks2 \<and> length ks' = length ks2 \<and>
      mset (zip ks' ia') = mset (zip ks2 ia2) \<and> (\<forall>k < length ks2.
        int k < part + 1 \<or> high < int k \<longrightarrow> ks' ! k = ks2 ! k \<and> ia' ! k = ia2 ! k)"
      using "1.IH"(2) [OF True p [symmetric] refl q [symmetric] r] f1 f2 "1.prems" b by auto
    show ?thesis using f1 f2 f3 b by auto
  qed
qed

text \<open>
  A list split at \<open>part\<close> of which the left side and then the right side are permuted and sorted
  is sorted.
\<close>

lemma sorted_join:
  assumes b: "0 \<le> low" "low \<le> part" "part \<le> high" "high < int (length xs)"
    and sp: "\<And>k. low \<le> int k \<Longrightarrow> int k < part \<Longrightarrow> sint (xs ! k) \<le> sint (xs ! nat part)"
      "\<And>k. part < int k \<Longrightarrow> int k \<le> high \<Longrightarrow> sint (xs ! nat part) < sint (xs ! k)"
    and m2: "mset ys = mset xs"
    and f2: "\<And>k. k < length xs \<Longrightarrow> int k < low \<or> part - 1 < int k \<Longrightarrow> ys ! k = xs ! k"
    and m3: "mset zs = mset ys"
    and f3: "\<And>k. k < length ys \<Longrightarrow> int k < part + 1 \<or> high < int k \<Longrightarrow> zs ! k = ys ! k"
    and left: "int b < part \<Longrightarrow> sint (ys ! a) \<le> sint (ys ! b)"
    and right: "part < int a \<Longrightarrow> sint (zs ! a) \<le> sint (zs ! b)"
    and ab: "low \<le> int a" "a \<le> b" "int b \<le> high"
  shows "sint (zs ! a) \<le> sint (zs ! b)"
proof -
  have len: "length ys = length xs" using m2 by (metis size_mset)
  have mid: "zs ! nat part = xs ! nat part"
    using f2 [of "nat part"] f3 [of "nat part"] b len by simp
  have lo: "sint (zs ! k) \<le> sint (xs ! nat part)" if k: "low \<le> int k" "int k < part" for k
  proof -
    have "\<exists>k'. nat low \<le> k' \<and> k' \<le> nat (part - 1) \<and> ys ! k = xs ! k'"
      using k b by (intro range_perm [OF m2]) (auto intro!: f2)
    then show ?thesis using sp(1) f3 [of k] k b len by auto
  qed
  have hi: "sint (xs ! nat part) \<le> sint (zs ! k)" if k: "part < int k" "int k \<le> high" for k
  proof -
    have "\<exists>k'. nat (part + 1) \<le> k' \<and> k' \<le> nat high \<and> zs ! k = ys ! k'"
      using k b len by (intro range_perm [OF m3]) (auto intro!: f3)
    then obtain k' where k': "nat (part + 1) \<le> k'" "k' \<le> nat high" "zs ! k = ys ! k'" by blast
    then have "part < int k'" "int k' \<le> high" using b by linarith+
    then have "part < int k'" "int k' \<le> high" "zs ! k = ys ! k'" using k' by simp_all
    then show ?thesis using sp(2) [of k'] f2 [of k'] b by simp
  qed
  consider "int b < part" | "part < int a" | "int a \<le> part" "part \<le> int b" by linarith
  then show ?thesis
  proof cases
    case 1
    then show ?thesis using left f3 [of a] f3 [of b] ab b len by simp
  next
    case 3
    have "sint (zs ! a) \<le> sint (xs ! nat part)"
      using lo [of a] mid 3 ab by (cases "int a = part") auto
    moreover have "sint (xs ! nat part) \<le> sint (zs ! b)"
      using hi [of b] mid 3 ab by (cases "int b = part") auto
    ultimately show ?thesis by simp
  qed (use right in simp)
qed

lemma sort_sorted:
  assumes "sort_index_and_global ia ks low high = (ia', ks')"
    "length ia = length ks" "0 \<le> low" "high < int (length ks)"
    "low \<le> int a" "a \<le> b" "int b \<le> high"
  shows "sint (ks' ! a) \<le> sint (ks' ! b)"
  using assms
proof (induction ia ks low high arbitrary: ia' ks' a b rule: sort_index_and_global.induct)
  case (1 ia ks low high)
  show ?case
  proof (cases "low < high")
    case False
    with "1.prems" have "a = b" by simp
    then show ?thesis by simp
  next
    case True
    obtain part ia1 ks1 where p: "partition ia ks low high = (part, ia1, ks1)"
      by (metis prod_cases3)
    obtain ia2 ks2 where q: "sort_index_and_global ia1 ks1 low (part - 1) = (ia2, ks2)"
      by fastforce
    have r: "sort_index_and_global ia2 ks2 (part + 1) high = (ia', ks')"
      using "1.prems"(1) True p q by (simp add: sort_index_and_global.simps [of ia])
    have b: "low \<le> part" "part \<le> high" using partition_bounds [OF p True] by auto
    have l1: "length ia1 = length ks" "length ks1 = length ks"
      using partition_frame [OF p] "1.prems" True by auto
    note f2 = sort_frame [OF q] and sp = partition_split [OF p]
    have l2: "length ia2 = length ks" "length ks2 = length ks" using f2 l1 "1.prems" b by auto
    note f3 = sort_frame [OF r]
    show ?thesis
    proof (rule sorted_join [where xs = ks1 and ys = ks2 and low = low and part = part and high = high])
      show "mset ks2 = mset ks1"
        using f2 l1 "1.prems" b by (intro mset_zip_projections(1) [of ks2 ia2 ks1 ia1]) auto
      show "mset ks' = mset ks2"
        using f3 l2 "1.prems" b by (intro mset_zip_projections(1) [of ks' ia' ks2 ia2]) auto
      show "sint (ks2 ! a) \<le> sint (ks2 ! b)" if "int b < part"
        using "1.IH"(1) [OF True p [symmetric] refl q] l1 "1.prems" that b by auto
      show "sint (ks' ! a) \<le> sint (ks' ! b)" if "part < int a"
        using "1.IH"(2) [OF True p [symmetric] refl q [symmetric] r] l2 "1.prems" that b by auto
    qed (use b l1 l2 f2 f3 sp "1.prems" True in auto)
  qed
qed

section \<open>The sort is correct\<close>

text \<open>
  C10: \<open>sort_index_and_global(index_array, keys, 0, n - 1)\<close> terminates with the letters in ascending
  order of their signed values, and the pairs of a letter and its index are a permutation of the
  pairs it was given: the index array follows the letters.
\<close>

theorem sort_index_and_global_correct:
  assumes "length ia = length ks"
  shows "case sort_index_and_global ia ks 0 (int (length ks) - 1) of (ia', ks') \<Rightarrow>
    sorted (map sint ks') \<and> mset (zip ks' ia') = mset (zip ks ia)"
proof -
  obtain ia' ks' where r: "sort_index_and_global ia ks 0 (int (length ks) - 1) = (ia', ks')"
    by fastforce
  have f: "length ks' = length ks" "mset (zip ks' ia') = mset (zip ks ia)"
    using sort_frame [OF r] assms by auto
  have "sorted (map sint ks')"
    unfolding sorted_iff_nth_mono using sort_sorted [OF r] assms f by auto
  then show ?thesis using r f by simp
qed

theorem sort_index_and_global_correct_witness:
  "case sort_index_and_global [0, 1, 2] [99, 97, 98] 0 2 of (ia', ks') \<Rightarrow>
    sorted (map sint ks') \<and> mset (zip ks' ia') = mset (zip [99, 97, 98] [0, 1, 2])"
  using sort_index_and_global_correct [of "[0, 1, 2]" "[99, 97, 98]"] by simp

end
