(* ===== verification/Crypt.thy ===== *)
theory Crypt
  imports KeySort
begin

text \<open>
  The file encryption of src/kernel/sys.c: the key kept by the kernel, the quicksort of the key
  letters with their indices, the columnar transposition of a 1024-byte block and its inverse,
  the generator of keys, and the text list of encrypted inode numbers.
\<close>

section \<open>Strings\<close>

text \<open>\<open>strlen\<close> of src/include/string.h: the index of the first zero byte.\<close>

fun strlen :: "byte list \<Rightarrow> nat outcome" where
  "strlen [] = Oob"
| "strlen (c # cs) = (if c = 0 then Done 0 else obind (strlen cs) (\<lambda>n. Done (Suc n)))"

lemma strlen_total: "0 \<in> set s \<Longrightarrow> \<exists>n. strlen s = Done n"
  by (induction s) auto

section \<open>The key\<close>

record crypt_state =
  global_key :: "byte list"
  is_key_set :: int

definition crypt_init :: crypt_state where
  "crypt_init = \<lparr>global_key = replicate 100 0, is_key_set = 0\<rparr>"

fun pow_check_loop :: "nat \<Rightarrow> int \<Rightarrow> int \<Rightarrow> int" where
  "pow_check_loop 0 num len = 0"
| "pow_check_loop (Suc k) num len =
     (if num = len then 1 else pow_check_loop k (s32 (num * 2)) len)"

definition pow_check :: "int \<Rightarrow> int" where
  "pow_check len = pow_check_loop 10 1 len"

fun clear_key_loop :: "nat \<Rightarrow> nat \<Rightarrow> byte list \<Rightarrow> byte list outcome" where
  "clear_key_loop 0 i g = Done g"
| "clear_key_loop (Suc k) i g = obind (wr g i 0) (clear_key_loop k (Suc i))"

definition clear_key_fn :: "crypt_state \<Rightarrow> crypt_state outcome" where
  "clear_key_fn s =
     obind (clear_key_loop 100 0 (global_key s)) (\<lambda>g. Done (s\<lparr>global_key := g\<rparr>))"

definition sys_clear_key :: "crypt_state \<Rightarrow> (int \<times> crypt_state) outcome" where
  "sys_clear_key s = obind (clear_key_fn s) (\<lambda>s. Done (0, s\<lparr>is_key_set := 0\<rparr>))"

text \<open>
  \<open>sys_set_key(key, len)\<close>: \<open>key\<close> is the user memory at the pointer, read by
  \<open>get_fs_byte(key + i)\<close>.
\<close>

fun set_key_loop :: "nat \<Rightarrow> nat \<Rightarrow> (nat \<Rightarrow> byte) \<Rightarrow> byte list \<Rightarrow> byte list outcome" where
  "set_key_loop 0 i key g = Done g"
| "set_key_loop (Suc k) i key g = obind (wr g i (key i)) (set_key_loop k (Suc i) key)"

definition sys_set_key :: "(nat \<Rightarrow> byte) \<Rightarrow> int \<Rightarrow> crypt_state \<Rightarrow> (int \<times> crypt_state) outcome" where
  "sys_set_key key len s =
     (if len > 1024 \<or> pow_check len = 0 then Done (0, s)
      else obind (clear_key_fn s) (\<lambda>s.
           obind (set_key_loop (nat len) 0 key (global_key s)) (\<lambda>g.
           Done (0, s\<lparr>is_key_set := 1, global_key := g\<rparr>))))"

definition is_key_set_fn :: "crypt_state \<Rightarrow> int" where
  "is_key_set_fn s = is_key_set s"

section \<open>The transposition of a block\<close>

fun copy_to_buffer_loop :: "nat \<Rightarrow> nat \<Rightarrow> byte list \<Rightarrow> byte list \<Rightarrow> byte list outcome" where
  "copy_to_buffer_loop 0 i old buffer = Done old"
| "copy_to_buffer_loop (Suc k) i old buffer =
     obind (rd buffer i) (\<lambda>c. obind (wr old i c) (\<lambda>old. copy_to_buffer_loop k (Suc i) old buffer))"

definition copy_to_buffer :: "byte list \<Rightarrow> byte list \<Rightarrow> nat \<Rightarrow> byte list outcome" where
  "copy_to_buffer old buffer len = copy_to_buffer_loop len 0 old buffer"

definition lower_char :: "byte \<Rightarrow> byte" where
  "lower_char c = (if sint c \<ge> 65 \<and> sint c \<le> 90 then c + 32 else c)"

fun to_lower_case_loop :: "nat \<Rightarrow> nat \<Rightarrow> byte list \<Rightarrow> byte list \<Rightarrow> byte list outcome" where
  "to_lower_case_loop 0 i buffer new_string = Done new_string"
| "to_lower_case_loop (Suc k) i buffer new_string =
     obind (rd buffer i) (\<lambda>c. obind (wr new_string i (lower_char c)) (\<lambda>new_string.
       to_lower_case_loop k (Suc i) buffer new_string))"

definition to_lower_case :: "byte list \<Rightarrow> byte list \<Rightarrow> byte list outcome" where
  "to_lower_case buffer new_string =
     obind (strlen buffer) (\<lambda>n. to_lower_case_loop n 0 buffer new_string)"

text \<open>
  The local arrays \<open>old_buffer\<close> and \<open>global_key_local\<close> start with no defined contents; they are
  filled before they are read, so their initial zeros do not matter. The inner
  \<open>while (num < len)\<close> only runs inside \<open>for (i = 0; i < gb; i++)\<close>, so \<open>gb\<close> is not zero there.
\<close>

definition sorted_index :: "byte list \<Rightarrow> nat list outcome" where
  "sorted_index key =
     obind (strlen key) (\<lambda>gb.
     obind (to_lower_case key (replicate gb 0)) (\<lambda>global_key_local.
     Done (fst (sort_index_and_global [0..<gb] global_key_local 0 (int gb - 1)))))"

function encr_col :: "nat \<Rightarrow> nat \<Rightarrow> nat \<Rightarrow> byte list \<Rightarrow> nat \<Rightarrow> byte list \<Rightarrow> (nat \<times> byte list) outcome" where
  "encr_col num gb len old counter buffer =
     (if num < len \<and> gb \<noteq> 0 then
        obind (rd old num) (\<lambda>c. obind (wr buffer counter c) (\<lambda>buffer.
          encr_col (num + gb) gb len old (Suc counter) buffer))
      else Done (counter, buffer))"
  by pat_completeness auto
termination
  by (relation "measure (\<lambda>(num, gb, len, old, counter, buffer). len - num)") auto

fun encr_cols :: "nat list \<Rightarrow> nat \<Rightarrow> nat \<Rightarrow> byte list \<Rightarrow> nat \<Rightarrow> byte list \<Rightarrow> (nat \<times> byte list) outcome" where
  "encr_cols [] gb len old counter buffer = Done (counter, buffer)"
| "encr_cols (num # index_array) gb len old counter buffer =
     obind (encr_col num gb len old counter buffer) (\<lambda>(counter, buffer).
       encr_cols index_array gb len old counter buffer)"

definition buffer_encr :: "byte list \<Rightarrow> byte list \<Rightarrow> nat \<Rightarrow> byte list outcome" where
  "buffer_encr key buffer len =
     obind (copy_to_buffer (replicate len 0) buffer len) (\<lambda>old.
     obind (strlen key) (\<lambda>gb.
     obind (sorted_index key) (\<lambda>index_array.
     obind (encr_cols index_array gb len old 0 buffer) (\<lambda>(counter, buffer).
     Done buffer))))"

function decr_col :: "nat \<Rightarrow> nat \<Rightarrow> nat \<Rightarrow> byte list \<Rightarrow> nat \<Rightarrow> byte list \<Rightarrow> (nat \<times> byte list) outcome" where
  "decr_col num gb len old counter buffer =
     (if num < len \<and> gb \<noteq> 0 then
        obind (rd old counter) (\<lambda>c. obind (wr buffer num c) (\<lambda>buffer.
          decr_col (num + gb) gb len old (Suc counter) buffer))
      else Done (counter, buffer))"
  by pat_completeness auto
termination
  by (relation "measure (\<lambda>(num, gb, len, old, counter, buffer). len - num)") auto

fun decr_cols :: "nat list \<Rightarrow> nat \<Rightarrow> nat \<Rightarrow> byte list \<Rightarrow> nat \<Rightarrow> byte list \<Rightarrow> (nat \<times> byte list) outcome" where
  "decr_cols [] gb len old counter buffer = Done (counter, buffer)"
| "decr_cols (num # index_array) gb len old counter buffer =
     obind (decr_col num gb len old counter buffer) (\<lambda>(counter, buffer).
       decr_cols index_array gb len old counter buffer)"

definition buffer_decr :: "byte list \<Rightarrow> byte list \<Rightarrow> nat \<Rightarrow> byte list outcome" where
  "buffer_decr key buffer len =
     obind (copy_to_buffer (replicate len 0) buffer len) (\<lambda>old.
     obind (strlen key) (\<lambda>gb.
     obind (sorted_index key) (\<lambda>index_array.
     obind (decr_cols index_array gb len old 0 buffer) (\<lambda>(counter, buffer).
     Done buffer))))"

declare encr_col.simps [simp del] decr_col.simps [simp del]

section \<open>Correctness of the transposition\<close>

text \<open>
  The positions one column visits, and the order in which the columns visit the whole block: a
  permutation of the positions when the index array is one of the columns.
\<close>

function col :: "nat \<Rightarrow> nat \<Rightarrow> nat \<Rightarrow> nat list" where
  "col num gb len = (if num < len \<and> gb \<noteq> 0 then num # col (num + gb) gb len else [])"
  by pat_completeness auto
termination
  by (relation "measure (\<lambda>(num, gb, len). len - num)") auto

declare col.simps [simp del]

definition visit_order :: "nat list \<Rightarrow> nat \<Rightarrow> nat \<Rightarrow> nat list" where
  "visit_order index_array gb len = concat (map (\<lambda>n. col n gb len) index_array)"

lemma col_step: "num < len \<Longrightarrow> gb \<noteq> 0 \<Longrightarrow> col num gb len = num # col (num + gb) gb len"
  by (simp add: col.simps [of num])

lemma col_stop: "\<not> num < len \<Longrightarrow> col num gb len = []"
  by (simp add: col.simps [of num])

lemma same_residue_gap:
  fixes m num gb :: nat
  assumes "num \<le> m" "m mod gb = num mod gb"
  shows "m = num \<or> num + gb \<le> m"
proof -
  have "gb dvd m - num" using assms by (metis mod_eq_dvd_iff_nat)
  then show ?thesis using assms by (auto dest: dvd_imp_le)
qed

lemma set_col:
  "gb \<noteq> 0 \<Longrightarrow> set (col num gb len) = {m. num \<le> m \<and> m < len \<and> m mod gb = num mod gb}"
proof (induction num gb len rule: col.induct)
  case (1 num gb len)
  show ?case
  proof (cases "num < len")
    case True
    have "set (col num gb len) = insert num {m. num + gb \<le> m \<and> m < len \<and> m mod gb = num mod gb}"
      using 1 True by (simp add: col_step)
    also have "\<dots> = {m. num \<le> m \<and> m < len \<and> m mod gb = num mod gb}"
      using True by (auto dest: same_residue_gap)
    finally show ?thesis .
  next
    case False
    then show ?thesis by (auto simp: col_stop)
  qed
qed

lemma distinct_col: "gb \<noteq> 0 \<Longrightarrow> distinct (col num gb len)"
proof (induction num gb len rule: col.induct)
  case (1 num gb len)
  show ?case
  proof (cases "num < len")
    case True
    have "num \<notin> set (col (num + gb) gb len)" using "1.prems" by (simp add: set_col)
    then show ?thesis using 1 True by (simp add: col_step)
  next
    case False
    then show ?thesis by (simp add: col_stop)
  qed
qed

lemma distinct_visit_order:
  assumes "distinct ia" "set ia \<subseteq> {..<gb}" "gb \<noteq> 0"
  shows "distinct (visit_order ia gb len)"
  using assms by (induction ia) (auto simp: visit_order_def distinct_col set_col)

lemma set_visit_order:
  assumes "set ia = {..<gb}" "gb \<noteq> 0"
  shows "set (visit_order ia gb len) = {..<len}"
proof -
  have "m \<in> set (visit_order ia gb len)" if "m < len" for m
    using assms that by (auto simp: visit_order_def set_col intro!: bexI [of _ "m mod gb"])
  moreover have "m < len" if "m \<in> set (visit_order ia gb len)" for m
    using assms that by (auto simp: visit_order_def set_col)
  ultimately show ?thesis by auto
qed

lemma mset_visit_order:
  assumes "mset ia = mset [0..<gb]" "gb \<noteq> 0"
  shows "mset (visit_order ia gb len) = mset [0..<len]"
proof -
  have u: "distinct ia"
    by (rule iffD2 [OF mset_eq_imp_distinct_iff [OF assms(1)] distinct_upt])
  have s: "set ia = {..<gb}"
    using mset_eq_setD [OF assms(1)] by (simp only: set_upt lessThan_atLeast0)
  have d: "distinct (visit_order ia gb len)"
    by (rule distinct_visit_order [OF u _ assms(2)]) (simp only: s order_refl)
  have "set (visit_order ia gb len) = set [0..<len]"
    using set_visit_order [OF s assms(2), of len] by (simp add: lessThan_atLeast0)
  then show ?thesis
    by (rule iffD1 [OF set_eq_iff_mset_eq_distinct [OF d distinct_upt]])
qed


lemma encr_col_eq:
  assumes "gb \<noteq> 0" "len \<le> length old" "counter + length (col num gb len) \<le> length buffer"
  shows "encr_col num gb len old counter buffer =
    Done (counter + length (col num gb len),
      take counter buffer @ map ((!) old) (col num gb len) @
      drop (counter + length (col num gb len)) buffer)"
  using assms
proof (induction num gb len old counter buffer rule: encr_col.induct)
  case (1 num gb len old counter buffer)
  show ?case
  proof (cases "num < len")
    case True
    let ?b = "buffer[counter := old ! num]"
    have c: "counter < length buffer" "num < length old" using 1 True by (auto simp: col_step)
    have "encr_col num gb len old counter buffer = encr_col (num + gb) gb len old (Suc counter) ?b"
      using c True "1.prems" by (simp add: encr_col.simps [of num] rd_def wr_def)
    also have "\<dots> = Done (Suc counter + length (col (num + gb) gb len),
      take (Suc counter) ?b @ map ((!) old) (col (num + gb) gb len) @
      drop (Suc counter + length (col (num + gb) gb len)) ?b)"
      using 1 True c by (intro "1.IH") (auto simp: rd_def wr_def col_step)
    finally show ?thesis using c True "1.prems" by (simp add: col_step take_Suc_conv_app_nth)
  next
    case False
    then show ?thesis by (simp add: col_stop encr_col.simps [of num])
  qed
qed

lemma encr_cols_eq:
  assumes "gb \<noteq> 0" "len \<le> length old" "counter + length (visit_order ia gb len) \<le> length buffer"
  shows "encr_cols ia gb len old counter buffer =
    Done (counter + length (visit_order ia gb len),
      take counter buffer @ map ((!) old) (visit_order ia gb len) @
      drop (counter + length (visit_order ia gb len)) buffer)"
  using assms
proof (induction ia arbitrary: counter buffer)
  case Nil
  then show ?case by (simp add: visit_order_def)
next
  case (Cons n ia)
  let ?c = "col n gb len"
  let ?b = "take counter buffer @ map ((!) old) ?c @ drop (counter + length ?c) buffer"
  have v: "visit_order (n # ia) gb len = ?c @ visit_order ia gb len" by (simp add: visit_order_def)
  have "encr_col n gb len old counter buffer = Done (counter + length ?c, ?b)"
    using Cons.prems v by (intro encr_col_eq) auto
  moreover have "encr_cols ia gb len old (counter + length ?c) ?b =
    Done (counter + length ?c + length (visit_order ia gb len),
      take (counter + length ?c) ?b @ map ((!) old) (visit_order ia gb len) @
      drop (counter + length ?c + length (visit_order ia gb len)) ?b)"
    using Cons.prems v by (intro Cons.IH) auto
  ultimately show ?case using Cons.prems v by (simp add: ac_simps)
qed

text \<open>Decryption stores the bytes of the input at the visited positions, in order.\<close>

fun scatter :: "nat list \<Rightarrow> 'a list \<Rightarrow> 'a list \<Rightarrow> 'a list" where
  "scatter (p # ps) (v # vs) xs = scatter ps vs (xs[p := v])"
| "scatter ps vs xs = xs"

lemma length_scatter [simp]: "length (scatter ps vs xs) = length xs"
  by (induction ps vs xs rule: scatter.induct) auto

lemma scatter_append:
  "length ps \<le> length vs \<Longrightarrow> scatter (ps @ qs) vs xs = scatter qs (drop (length ps) vs) (scatter ps vs xs)"
  by (induction ps vs xs rule: scatter.induct) auto

lemma scatter_other: "q \<notin> set ps \<Longrightarrow> scatter ps vs xs ! q = xs ! q"
  by (induction ps vs xs rule: scatter.induct) auto

lemma nth_scatter:
  assumes "distinct ps" "length ps \<le> length vs" "set ps \<subseteq> {..<length xs}" "k < length ps"
  shows "scatter ps vs xs ! (ps ! k) = vs ! k"
  using assms
proof (induction ps vs xs arbitrary: k rule: scatter.induct)
  case (1 p ps v vs xs)
  then show ?case by (cases k) (auto simp: scatter_other)
qed auto

lemma decr_col_eq:
  assumes "gb \<noteq> 0" "len \<le> length buffer" "counter + length (col num gb len) \<le> length old"
  shows "decr_col num gb len old counter buffer =
    Done (counter + length (col num gb len), scatter (col num gb len) (drop counter old) buffer)"
  using assms
proof (induction num gb len old counter buffer rule: decr_col.induct)
  case (1 num gb len old counter buffer)
  show ?case
  proof (cases "num < len")
    case True
    let ?b = "buffer[num := old ! counter]"
    have c: "counter < length old" "num < length buffer" using 1 True by (auto simp: col_step)
    have "decr_col num gb len old counter buffer = decr_col (num + gb) gb len old (Suc counter) ?b"
      using c True "1.prems" by (simp add: decr_col.simps [of num] rd_def wr_def)
    also have "\<dots> = Done (Suc counter + length (col (num + gb) gb len),
        scatter (col (num + gb) gb len) (drop (Suc counter) old) ?b)"
      using 1 True c by (intro "1.IH") (auto simp: rd_def wr_def col_step)
    finally show ?thesis using c True "1.prems"
      by (simp add: col_step flip: Cons_nth_drop_Suc)
  next
    case False
    then show ?thesis by (simp add: col_stop decr_col.simps [of num])
  qed
qed

lemma decr_cols_eq:
  assumes "gb \<noteq> 0" "len \<le> length buffer" "counter + length (visit_order ia gb len) \<le> length old"
  shows "decr_cols ia gb len old counter buffer =
    Done (counter + length (visit_order ia gb len),
      scatter (visit_order ia gb len) (drop counter old) buffer)"
  using assms
proof (induction ia arbitrary: counter buffer)
  case Nil
  then show ?case by (simp add: visit_order_def)
next
  case (Cons n ia)
  have v: "visit_order (n # ia) gb len = col n gb len @ visit_order ia gb len"
    by (simp add: visit_order_def)
  then show ?case using Cons
    by (simp add: decr_col_eq scatter_append add.assoc) (simp add: add.commute)
qed

text \<open>The index array the sort produces: a permutation that sorts the lower-case letters.\<close>

lemma strlen_Done_iff:
  "strlen xs = Done n \<longleftrightarrow> n < length xs \<and> xs ! n = 0 \<and> (\<forall>i < n. xs ! i \<noteq> 0)"
proof (induction xs arbitrary: n)
  case Nil
  then show ?case by simp
next
  case (Cons c xs)
  show ?case
  proof (cases n)
    case 0
    then show ?thesis by (auto simp: outcome_simps)
  next
    case (Suc m)
    then show ?thesis using Cons [of m] by (auto simp: outcome_simps All_less_Suc2)
  qed
qed

lemma to_lower_case_loop_eq:
  assumes "i + k = length new_string" "i + k \<le> length buffer"
  shows "to_lower_case_loop k i buffer new_string =
    Done (take i new_string @ map lower_char (take k (drop i buffer)))"
  using assms
proof (induction k arbitrary: i new_string)
  case 0
  then show ?case by simp
next
  case (Suc k)
  then show ?case by (simp add: rd_def wr_def take_Suc_update take_Suc_drop)
qed

lemma copy_to_buffer_loop_eq:
  assumes "i + k = length old" "i + k \<le> length buffer"
  shows "copy_to_buffer_loop k i old buffer = Done (take i old @ take k (drop i buffer))"
  using assms
proof (induction k arbitrary: i old)
  case 0
  then show ?case by simp
next
  case (Suc k)
  then show ?case by (simp add: rd_def wr_def take_Suc_update take_Suc_drop)
qed

lemma copy_to_buffer_eq: "copy_to_buffer (replicate (length b) 0) b (length b) = Done b"
  by (simp add: copy_to_buffer_def copy_to_buffer_loop_eq)

lemma to_lower_case_eq:
  assumes "strlen key = Done gb"
  shows "to_lower_case key (replicate gb 0) = Done (map lower_char (take gb key))"
proof -
  have "gb < length key" using assms by (simp add: strlen_Done_iff)
  then show ?thesis using assms by (simp add: to_lower_case_def to_lower_case_loop_eq)
qed

lemma sorted_index_perm:
  assumes "strlen key = Done gb"
  obtains ia where "sorted_index key = Done ia" "mset ia = mset [0..<gb]"
    "\<And>a b. a \<le> b \<Longrightarrow> b < gb \<Longrightarrow>
      sint (lower_char (key ! (ia ! a))) \<le> sint (lower_char (key ! (ia ! b)))"
proof -
  let ?ks = "map lower_char (take gb key)"
  have gb: "gb < length key" using assms by (simp add: strlen_Done_iff)
  obtain ia ks where r: "sort_index_and_global [0..<gb] ?ks 0 (int gb - 1) = (ia, ks)"
    by fastforce
  have f: "length ia = gb" "length ks = gb" "mset (zip ks ia) = mset (zip ?ks [0..<gb])"
    using sort_frame [OF r] gb by auto
  have "(ks ! a, ia ! a) \<in> set (zip ks ia)" if "a < gb" for a
    using f that by (metis in_set_zip fst_conv snd_conv)
  then have "ks ! a = lower_char (key ! (ia ! a))" if "a < gb" for a
    using that mset_eq_setD [OF f(3)] gb by (fastforce simp: in_set_zip)
  moreover have "sint (ks ! a) \<le> sint (ks ! b)" if "a \<le> b" "b < gb" for a b
    using sort_sorted [OF r] that gb by auto
  ultimately have "sint (lower_char (key ! (ia ! a))) \<le> sint (lower_char (key ! (ia ! b)))"
    if "a \<le> b" "b < gb" for a b
    using that by (metis order_le_less_trans)
  moreover have "sorted_index key = Done ia"
    using assms r by (simp add: sorted_index_def to_lower_case_eq)
  moreover have "mset ia = mset [0..<gb]"
    using f gb by (intro mset_zip_projections(2) [of ks ia ?ks]) auto
  ultimately show ?thesis using that by blast
qed


lemma buffer_encr_eq:
  assumes k: "strlen key = Done gb" and ia: "sorted_index key = Done ia" "mset ia = mset [0..<gb]"
    and gb: "gb \<noteq> 0"
  shows "buffer_encr key b (length b) = Done (map ((!) b) (visit_order ia gb (length b)))"
proof -
  have "length (visit_order ia gb (length b)) = length b"
    using arg_cong [OF mset_visit_order [OF ia(2) gb], of size "length b"] by (simp only: size_mset length_upt diff_zero)
  then show ?thesis using k ia gb
    by (simp add: buffer_encr_def copy_to_buffer_eq encr_cols_eq)
qed

lemma buffer_decr_eq:
  assumes k: "strlen key = Done gb" and ia: "sorted_index key = Done ia" "mset ia = mset [0..<gb]"
    and gb: "gb \<noteq> 0"
  shows "buffer_decr key b (length b) = Done (scatter (visit_order ia gb (length b)) b b)"
proof -
  have "length (visit_order ia gb (length b)) = length b"
    using arg_cong [OF mset_visit_order [OF ia(2) gb], of size "length b"] by (simp only: size_mset length_upt diff_zero)
  then show ?thesis using k ia gb
    by (simp add: buffer_decr_def copy_to_buffer_eq decr_cols_eq)
qed

text \<open>Gathering along a permutation and scattering along it undo each other.\<close>

lemma gather_scatter:
  assumes "mset ps = mset [0..<length xs]" "length ys = length xs"
  shows "map ((!) (scatter ps xs ys)) ps = xs"
proof (rule nth_equalityI)
  have l: "length ps = length xs"
    using arg_cong [OF assms(1), of size] by (simp only: size_mset length_upt diff_zero)
  have d: "distinct ps" by (rule iffD2 [OF mset_eq_imp_distinct_iff [OF assms(1)] distinct_upt])
  have s: "set ps = {..<length xs}"
    using mset_eq_setD [OF assms(1)] by (simp only: set_upt lessThan_atLeast0)
  show "length (map ((!) (scatter ps xs ys)) ps) = length xs" using l by simp
  show "map ((!) (scatter ps xs ys)) ps ! i = xs ! i"
    if "i < length (map ((!) (scatter ps xs ys)) ps)" for i
    using that l d s assms(2) by (simp add: nth_scatter)
qed

lemma scatter_gather:
  assumes "mset ps = mset [0..<length xs]" "length ys = length xs"
  shows "scatter ps (map ((!) xs) ps) ys = xs"
proof (rule nth_equalityI)
  have d: "distinct ps" by (rule iffD2 [OF mset_eq_imp_distinct_iff [OF assms(1)] distinct_upt])
  have s: "set ps = {..<length xs}"
    using mset_eq_setD [OF assms(1)] by (simp only: set_upt lessThan_atLeast0)
  show "length (scatter ps (map ((!) xs) ps) ys) = length xs" using assms(2) by simp
  show "scatter ps (map ((!) xs) ps) ys ! i = xs ! i"
    if "i < length (scatter ps (map ((!) xs) ps) ys)" for i
  proof -
    have "i \<in> set ps" using that assms(2) s by simp
    then obtain k where k: "k < length ps" "ps ! k = i" by (auto simp: in_set_conv_nth)
    then show ?thesis
      using nth_scatter [of ps "map ((!) xs) ps" ys k] d s assms(2) by simp
  qed
qed

lemma buffer_empty_key:
  assumes "strlen key = Done 0"
  shows "buffer_encr key b (length b) = Done b" "buffer_decr key b (length b) = Done b"
  using assms to_lower_case_eq [OF assms]
  by (simp_all add: buffer_encr_def buffer_decr_def copy_to_buffer_eq sorted_index_def
    sort_index_and_global.simps)

lemma encr_decr:
  assumes "strlen key = Done gb"
  shows "\<exists>c. buffer_encr key b (length b) = Done c \<and> mset c = mset b \<and>
    buffer_decr key c (length b) = Done b"
proof (cases "gb = 0")
  case True
  then show ?thesis using assms buffer_empty_key by metis
next
  case False
  obtain ia where ia: "sorted_index key = Done ia" "mset ia = mset [0..<gb]"
    using sorted_index_perm [OF assms] by metis
  let ?v = "visit_order ia gb (length b)"
  have v: "mset ?v = mset [0..<length b]" by (rule mset_visit_order [OF ia(2) False])
  have l: "length (map ((!) b) ?v) = length b"
    using arg_cong [OF v, of size] by (simp only: size_mset length_upt diff_zero length_map)
  have "mset (map ((!) b) ?v) = mset (map ((!) b) [0..<length b])"
    by (simp only: mset_map v)
  then have m: "mset (map ((!) b) ?v) = mset b" by (simp add: map_nth)
  have "buffer_decr key (map ((!) b) ?v) (length b) = Done b"
    using buffer_decr_eq [OF assms ia False, of "map ((!) b) ?v"] scatter_gather [OF v] l by simp
  then show ?thesis using buffer_encr_eq [OF assms ia False] m by blast
qed

lemma decr_encr:
  assumes "strlen key = Done gb"
  shows "\<exists>c. buffer_decr key b (length b) = Done c \<and> length c = length b \<and>
    buffer_encr key c (length b) = Done b"
proof (cases "gb = 0")
  case True
  then show ?thesis using assms buffer_empty_key by metis
next
  case False
  obtain ia where ia: "sorted_index key = Done ia" "mset ia = mset [0..<gb]"
    using sorted_index_perm [OF assms] by metis
  let ?v = "visit_order ia gb (length b)"
  have v: "mset ?v = mset [0..<length b]" by (rule mset_visit_order [OF ia(2) False])
  show ?thesis
    using buffer_decr_eq [OF assms ia False, of b] gather_scatter [OF v refl]
      buffer_encr_eq [OF assms ia False, of "scatter ?v b b"] by simp
qed

section \<open>The transposition is the columnar one, and decryption inverts it\<close>

lemma col_filter:
  assumes "n < gb"
  shows "col n gb len = filter (\<lambda>m. m mod gb = n) [0..<len]"
proof -
  have s: "sorted (col m gb len)" for m
  proof (induction m gb len rule: col.induct)
    case (1 num gb len)
    show ?case
    proof (cases "num < len \<and> gb \<noteq> 0")
      case True
      then show ?thesis using 1 by (auto simp: col_step set_col)
    next
      case False
      then show ?thesis by (simp add: col.simps [of num])
    qed
  qed
  have g: "gb \<noteq> 0" using assms by simp
  have "set (col n gb len) = set (filter (\<lambda>m. m mod gb = n) [0..<len])"
    using assms g by (auto simp: set_col)
  then show ?thesis
    using s distinct_col [OF g] sorted_wrt_filter [OF sorted_upt] by (intro sorted_distinct_set_unique) auto
qed

text \<open>
  C20: for a key of \<open>gb\<close> letters, \<open>buffer_encr\<close> writes the block by columns: the columns are the
  residue classes of the positions modulo \<open>gb\<close>, each read from top to bottom, taken in an order that
  sorts the lower-cased letters of the key.
\<close>

theorem buffer_encr_columns:
  assumes "strlen key = Done gb" "0 < gb"
  shows "\<exists>ia. mset ia = mset [0..<gb] \<and> sorted (map (\<lambda>i. sint (lower_char (key ! i))) ia) \<and>
    buffer_encr key b (length b) =
    Done (concat (map (\<lambda>n. [b ! m. m \<leftarrow> [0..<length b], m mod gb = n]) ia))"
proof -
  obtain ia where ia: "sorted_index key = Done ia" "mset ia = mset [0..<gb]"
    and o: "\<And>a b. a \<le> b \<Longrightarrow> b < gb \<Longrightarrow>
      sint (lower_char (key ! (ia ! a))) \<le> sint (lower_char (key ! (ia ! b)))"
    using sorted_index_perm [OF assms(1)] by metis
  have l: "length ia = gb"
    using arg_cong [OF ia(2), of size] by (simp only: size_mset length_upt diff_zero)
  have m: "set ia = {..<gb}"
    using mset_eq_setD [OF ia(2)] by (simp only: set_upt lessThan_atLeast0)
  have s: "sorted (map (\<lambda>i. sint (lower_char (key ! i))) ia)"
    unfolding sorted_iff_nth_mono using l o by simp
  have f: "map (\<lambda>n. col n gb (length b)) ia = map (\<lambda>n. filter (\<lambda>m. m mod gb = n) [0..<length b]) ia"
    using m by (auto simp: col_filter)
  have "concat (map (\<lambda>m. if m mod gb = n then [b ! m] else []) xs) = map ((!) b) (filter (\<lambda>m. m mod gb = n) xs)"
    for n xs by (induction xs) auto
  then have "map ((!) b) (visit_order ia gb (length b)) =
      concat (map (\<lambda>n. [b ! m. m \<leftarrow> [0..<length b], m mod gb = n]) ia)"
    by (simp only: visit_order_def f map_concat map_map comp_def)
  then show ?thesis using ia s buffer_encr_eq [OF assms(1) ia] assms(2) by auto
qed

theorem buffer_encr_columns_witness:
  "\<exists>ia. mset ia = mset [0..<2] \<and> sorted (map (\<lambda>i. sint (lower_char ([98, 65, 0] ! i))) ia) \<and>
    buffer_encr [98, 65, 0] [1, 2, 3, 4, 5] (length [1::byte, 2, 3, 4, 5]) =
    Done (concat (map (\<lambda>n. [[1, 2, 3, 4, 5] ! m. m \<leftarrow> [0..<length [1::byte, 2, 3, 4, 5]], m mod 2 = n]) ia))"
proof -
  have k: "strlen [98, 65, 0] = Done 2" by code_simp
  show ?thesis by (rule buffer_encr_columns [OF k]) simp
qed

text \<open>
  C8: encrypting a block and decrypting the result with the same key gives the block back, and the
  encrypted block is a permutation of its bytes; neither routine leaves its buffers.
\<close>

theorem buffer_roundtrip:
  assumes "strlen key = Done gb"
  shows "\<exists>c. buffer_encr key b (length b) = Done c \<and> mset c = mset b \<and>
    buffer_decr key c (length b) = Done b"
  by (rule encr_decr [OF assms])

theorem buffer_roundtrip_witness:
  "\<exists>c. buffer_encr [98, 65, 0] [1, 2, 3] (length [1::byte, 2, 3]) = Done c \<and> mset c = mset [1, 2, 3] \<and>
    buffer_decr [98, 65, 0] c (length [1::byte, 2, 3]) = Done [1, 2, 3]"
proof -
  have k: "strlen [98, 65, 0] = Done 2" by code_simp
  show ?thesis by (rule buffer_roundtrip [OF k])
qed

end
