(* ===== verification/EncrList.thy ===== *)
theory EncrList
  imports Crypt
begin

text \<open>
  The list of encrypted files of src/kernel/sys.c: the block of \<open>.fileList.txt\<close> holds the inode
  numbers of the encrypted files in decimal, each followed by a space. \<open>mark\<close> adds a number,
  \<open>i_node_check\<close> looks one up, \<open>unmark\<close> is meant to remove one.
\<close>

section \<open>Definitions\<close>

definition space :: byte where
  "space = 32"

text \<open>\<open>(char)(n % 10) + '0'\<close>\<close>

definition digit_char :: "int \<Rightarrow> byte" where
  "digit_char n = word_of_int (cmod n 10 + 48)"

lemma cdiv10_less: "n \<noteq> 0 \<Longrightarrow> \<bar>cdiv n 10\<bar> < \<bar>n\<bar>"
  by (auto simp: cdiv_def abs_mult abs_sgn_eq)

function reverse_num_loop :: "int \<Rightarrow> int \<Rightarrow> int" where
  "reverse_num_loop num acc =
     (if num \<noteq> 0 then reverse_num_loop (cdiv num 10) (s32 (acc * 10 + cmod num 10)) else acc)"
  by pat_completeness auto
termination
  by (relation "measure (\<lambda>(num, acc). nat \<bar>num\<bar>)") (auto simp: cdiv10_less)

definition reverse_num :: "int \<Rightarrow> int" where
  "reverse_num num = reverse_num_loop num 0"

text \<open>The loop \<open>while (inode_num != 0) buffer[counter++] = (inode_num % 10) + '0', ...\<close>\<close>

function put_digits :: "int \<Rightarrow> nat \<Rightarrow> byte list \<Rightarrow> (nat \<times> byte list) outcome" where
  "put_digits n counter buffer =
     (if n \<noteq> 0 then obind (wr buffer counter (digit_char n)) (\<lambda>buffer.
        put_digits (cdiv n 10) (Suc counter) buffer)
      else Done (counter, buffer))"
  by pat_completeness auto
termination
  by (relation "measure (\<lambda>(n, counter, buffer). nat \<bar>n\<bar>)") (auto simp: cdiv10_less)

text \<open>\<open>while (buffer[counter] != ' ') counter++;\<close>\<close>

function find_space :: "byte list \<Rightarrow> nat \<Rightarrow> nat outcome" where
  "find_space buffer counter =
     (if counter < length buffer then
        (if buffer ! counter \<noteq> space then find_space buffer (Suc counter) else Done counter)
      else Oob)"
  by pat_completeness auto
termination
  by (relation "measure (\<lambda>(buffer, counter). length buffer - counter)") auto

declare reverse_num_loop.simps [simp del] put_digits.simps [simp del] find_space.simps [simp del]

lemma find_space_Done:
  "find_space buffer counter = Done c \<Longrightarrow>
   counter \<le> c \<and> c < length buffer \<and> buffer ! c = space \<and>
   (\<forall>k. counter \<le> k \<and> k < c \<longrightarrow> buffer ! k \<noteq> space)"
proof (induction buffer counter rule: find_space.induct)
  case (1 buffer counter)
  then show ?case
    by (auto simp: find_space.simps [of buffer counter] split: if_splits)
       (metis Suc_leI le_neq_implies_less)
qed

text \<open>The \<open>while (set != 1)\<close> loop: the first space that is followed by a space.\<close>

function mark_scan :: "byte list \<Rightarrow> nat \<Rightarrow> nat outcome" where
  "mark_scan buffer counter =
     obind (find_space buffer counter) (\<lambda>c.
     obind (rd buffer (Suc c)) (\<lambda>x.
     if x \<noteq> space then mark_scan buffer (Suc c) else Done c))"
  by pat_completeness auto
termination
  by (relation "measure (\<lambda>(buffer, counter). length buffer - counter)")
     (auto dest!: find_space_Done)

definition mark :: "byte list \<Rightarrow> int \<Rightarrow> byte list outcome" where
  "mark buffer inode_num =
     obind (rd buffer 0) (\<lambda>b0.
     if sint b0 < 48 \<or> sint b0 > 57 then
       obind (put_digits (reverse_num inode_num) 0 buffer) (\<lambda>(counter, buffer).
       wr buffer counter space)
     else
       obind (mark_scan buffer 0) (\<lambda>counter.
       obind (put_digits (reverse_num inode_num) (Suc counter) buffer) (\<lambda>(counter, buffer).
       wr buffer counter space)))"

text \<open>\<open>num\<close> of \<open>i_node_check\<close> is an \<open>unsigned short\<close>.\<close>

fun i_node_check_loop :: "byte list \<Rightarrow> int \<Rightarrow> int \<Rightarrow> int" where
  "i_node_check_loop [] num i_num = 0"
| "i_node_check_loop (c # cs) num i_num =
     (if c = space then
        (if num = i_num then 1 else i_node_check_loop cs 0 i_num)
      else i_node_check_loop cs (u16 (num * 10 + (sint c - 48))) i_num)"

definition i_node_check :: "byte list \<Rightarrow> int \<Rightarrow> int" where
  "i_node_check buffer i_num = i_node_check_loop buffer 0 i_num"

text \<open>
  \<open>unmark\<close>. Its comparison loop ends with \<open>if (found = 1 || counter >= len) break;\<close>, an
  assignment: \<open>found\<close> becomes 1 and the loop is left after its first round.
\<close>

function unmark_match :: "int \<Rightarrow> nat \<Rightarrow> nat \<Rightarrow> int \<Rightarrow> byte list \<Rightarrow> (nat \<times> nat \<times> int) outcome" where
  "unmark_match tmp num_count counter found buffer =
     (if tmp \<noteq> 0 then
        obind (rd buffer counter) (\<lambda>b.
        unmark_match (cdiv tmp 10) (Suc num_count) (Suc counter)
          (if digit_char tmp \<noteq> b then 0 else found) buffer)
      else Done (num_count, counter, found))"
  by pat_completeness auto
termination
  by (relation "measure (\<lambda>(tmp, n, c, f, b). nat \<bar>tmp\<bar>)") (auto simp: cdiv10_less)

fun put_spaces :: "nat \<Rightarrow> nat \<Rightarrow> byte list \<Rightarrow> byte list outcome" where
  "put_spaces 0 counter buffer = Done buffer"
| "put_spaces (Suc k) counter buffer = obind (wr buffer counter space) (put_spaces k (Suc counter))"

function unmark_inner ::
  "nat \<Rightarrow> nat \<Rightarrow> nat \<Rightarrow> byte list \<Rightarrow> byte list \<Rightarrow> (nat \<times> nat \<times> byte list) outcome" where
  "unmark_inner i j counter old buffer =
     (if i \<le> counter then
        obind (rd old j) (\<lambda>c. obind (wr buffer i c) (\<lambda>buffer.
        unmark_inner (Suc i) (Suc j) counter old buffer))
      else Done (i, j, buffer))"
  by pat_completeness auto
termination
  by (relation "measure (\<lambda>(i, j, counter, old, buffer). Suc counter - i)") auto

declare mark_scan.simps [simp del] unmark_match.simps [simp del] unmark_inner.simps [simp del]

lemma unmark_inner_index:
  "unmark_inner i j counter old buffer = Done (i', j', b') \<Longrightarrow> i \<le> counter \<Longrightarrow> i' = Suc counter"
proof (induction i j counter old buffer rule: unmark_inner.induct)
  case (1 i j counter old buffer)
  show ?case
  proof (cases "i = counter")
    case True
    then show ?thesis using "1.prems"
      by (subst (asm) unmark_inner.simps) (auto simp: unmark_inner.simps [of "Suc counter"] outcome_simps)
  next
    case False
    then show ?thesis using 1 by (auto simp: unmark_inner.simps [of i] outcome_simps)
  qed
qed

function unmark_shift ::
  "nat \<Rightarrow> nat \<Rightarrow> nat \<Rightarrow> nat \<Rightarrow> nat \<Rightarrow> nat \<Rightarrow> byte list \<Rightarrow> byte list \<Rightarrow> byte list outcome" where
  "unmark_shift i j len found_mark counter num_count old buffer =
     (if i < len then
        (if i < found_mark \<or> i > counter then
           obind (rd old j) (\<lambda>c. obind (wr buffer i c) (\<lambda>buffer.
           unmark_shift (Suc i) (Suc j) len found_mark counter num_count old buffer))
         else
           obind (unmark_inner i (j + num_count + 1) counter old buffer) (\<lambda>(i, j, buffer).
           unmark_shift i j len found_mark counter num_count old buffer))
      else Done buffer)"
  by pat_completeness auto
termination
  by (relation "measure (\<lambda>(i, j, len, found_mark, counter, num_count, old, buffer). len - i)")
     (auto dest!: unmark_inner_index)

declare unmark_shift.simps [simp del]

definition unmark :: "byte list \<Rightarrow> nat \<Rightarrow> int \<Rightarrow> byte list outcome" where
  "unmark buffer len inode_num =
     obind (unmark_match (reverse_num inode_num) 0 0 1 buffer) (\<lambda>(num_count, counter, found).
     let counter = Suc counter; found = (1 :: int) in
     if found = 1 then
       obind (rd buffer (counter + 1 + num_count)) (\<lambda>c.
       if c = space then put_spaces (Suc num_count) (counter - 1) buffer
       else
         obind (copy_to_buffer (replicate len 0) buffer len) (\<lambda>old.
         unmark_shift 0 0 len (counter - 1 - num_count) (counter - 1) num_count old buffer))
     else Done buffer)"

section \<open>Decimal digits\<close>

text \<open>The digits of a number, least significant first, and the number a digit sequence spells.\<close>

fun digs :: "nat \<Rightarrow> nat list" where
  "digs n = (if n = 0 then [] else (n mod 10) # digs (n div 10))"

declare digs.simps [simp del]

definition spell :: "nat list \<Rightarrow> nat" where
  "spell ds = foldl (\<lambda>a d. a * 10 + d) 0 ds"

lemma digs_0 [simp]: "digs 0 = []"
  by (simp add: digs.simps)

lemma digs_pos: "n \<noteq> 0 \<Longrightarrow> digs n = (n mod 10) # digs (n div 10)"
  by (simp add: digs.simps [of n])

lemma spell_snoc [simp]: "spell (ds @ [d]) = spell ds * 10 + d"
  by (simp add: spell_def)

lemma digs_less: "d \<in> set (digs n) \<Longrightarrow> d < 10"
proof (induction n rule: digs.induct)
  case (1 n)
  then show ?case by (cases "n = 0") (auto simp: digs_pos)
qed

lemma spell_rev_digs: "spell (rev (digs n)) = n"
proof (induction n rule: digs.induct)
  case (1 n)
  then show ?case by (cases "n = 0") (auto simp: digs_pos spell_def)
qed

lemma spell_pos: "ds \<noteq> [] \<Longrightarrow> hd ds \<noteq> 0 \<Longrightarrow> spell ds \<noteq> 0"
  by (induction ds rule: rev_induct) (auto simp: spell_def hd_append split: if_splits)

lemma digs_spell:
  "\<forall>d \<in> set ds. d < 10 \<Longrightarrow> ds \<noteq> [] \<longrightarrow> hd ds \<noteq> 0 \<Longrightarrow> digs (spell ds) = rev ds"
proof (induction ds rule: rev_induct)
  case Nil
  then show ?case by (simp add: spell_def)
next
  case (snoc d ds)
  then have "spell (ds @ [d]) \<noteq> 0" by (intro spell_pos) auto
  moreover have "digs (spell ds) = rev ds" using snoc by (cases "ds = []") auto
  ultimately show ?case using snoc by (simp add: digs_pos)
qed

lemma length_digs: "n < 10 ^ k \<Longrightarrow> length (digs n) \<le> k"
proof (induction n arbitrary: k rule: digs.induct)
  case (1 n)
  show ?case
  proof (cases "n = 0")
    case False
    then obtain k' where k: "k = Suc k'" using "1.prems" by (cases k) auto
    then have "n div 10 < 10 ^ k'" using "1.prems" by (simp add: div_less_iff_less_mult mult.commute)
    then show ?thesis using 1 False k by (simp add: digs_pos)
  qed simp
qed

section \<open>The loops over digits\<close>

lemma reverse_num_loop_eq:
  "a < 10 ^ k \<Longrightarrow> k + length (digs n) \<le> 9 \<Longrightarrow>
   reverse_num_loop (int n) (int a) = int (foldl (\<lambda>a d. a * 10 + d) a (digs n))"
proof (induction n arbitrary: a k rule: digs.induct)
  case (1 n)
  show ?case
  proof (cases "n = 0")
    case True
    then show ?thesis by (simp add: reverse_num_loop.simps)
  next
    case False
    let ?a = "a * 10 + n mod 10"
    have k: "Suc k + length (digs (n div 10)) \<le> 9" using 1 False by (simp add: digs_pos)
    have a: "?a < 10 ^ Suc k" using 1 by simp
    have "(10::nat) ^ Suc k \<le> 10 ^ 9" using k by (intro power_increasing) auto
    then have "?a < 1000000000" using order_less_le_trans [OF a] by simp
    then have "int ?a < 2147483648" by linarith
    then have w: "s32 (int a * 10 + cmod (int n) 10) = int ?a"
      by (simp add: cmod_nonneg s32_id zmod_int)
    have "reverse_num_loop (int n) (int a) = reverse_num_loop (int (n div 10)) (int ?a)"
      using False w by (simp add: reverse_num_loop.simps [of "int n"] cdiv_nonneg zdiv_int)
    also have "\<dots> = int (foldl (\<lambda>a d. a * 10 + d) ?a (digs (n div 10)))"
      by (rule "1.IH" [OF False a k])
    finally show ?thesis using False by (simp add: digs_pos)
  qed
qed

lemma reverse_num_eq: "n < 65536 \<Longrightarrow> reverse_num (int n) = int (spell (digs n))"
  using length_digs [of n 5] reverse_num_loop_eq [of 0 0 n]
  by (simp add: reverse_num_def spell_def)

definition dchar :: "nat \<Rightarrow> byte" where
  "dchar d = word_of_int (int d + 48)"

lemma sint_dchar: "d < 10 \<Longrightarrow> sint (dchar d) = int d + 48"
  unfolding dchar_def by (subst signed_of_int) (simp add: signed_take_bit_int_eq_self)

lemma dchar_not_space: "d < 10 \<Longrightarrow> dchar d \<noteq> space"
  using sint_dchar [of d] by (auto simp: space_def)

lemma digit_char_eq: "digit_char (int n) = dchar (n mod 10)"
  unfolding digit_char_def dchar_def by (simp only: cmod_nonneg zmod_int of_nat_0_le_iff) simp

lemma put_digits_eq:
  assumes "counter + length (digs n) \<le> length buffer"
  shows "put_digits (int n) counter buffer = Done (counter + length (digs n),
    take counter buffer @ map dchar (digs n) @ drop (counter + length (digs n)) buffer)"
  using assms
proof (induction n arbitrary: counter buffer rule: digs.induct)
  case (1 n)
  show ?case
  proof (cases "n = 0")
    case True
    then show ?thesis by (simp add: put_digits.simps)
  next
    case False
    let ?b = "buffer[counter := dchar (n mod 10)]"
    have c: "counter < length buffer" using 1 False by (simp add: digs_pos)
    have "put_digits (int n) counter buffer = put_digits (int (n div 10)) (Suc counter) ?b"
      using False c
      by (simp add: put_digits.simps [of "int n"] wr_def cdiv_nonneg zdiv_int digit_char_eq)
    also have "\<dots> = Done (Suc counter + length (digs (n div 10)),
      take (Suc counter) ?b @ map dchar (digs (n div 10)) @ drop (Suc counter + length (digs (n div 10))) ?b)"
      using 1 False by (intro "1.IH") (auto simp: digs_pos)
    finally show ?thesis using False c by (simp add: digs_pos take_Suc_update)
  qed
qed

section \<open>Looking a number up\<close>

lemma foldl_digits_ge: "(v :: nat) \<le> foldl (\<lambda>a d. a * 10 + d) v ds"
proof (induction ds arbitrary: v)
  case (Cons d ds)
  show ?case using Cons [of "v * 10 + d"] by simp
qed simp

lemma check_digits:
  assumes "\<forall>d \<in> set ds. d < 10" "foldl (\<lambda>a d. a * 10 + d) v ds = n" "n < 65536"
  shows "i_node_check_loop (map dchar ds @ space # ys) (int v) (int n) = 1"
  using assms
proof (induction ds arbitrary: v)
  case Nil
  then show ?case by simp
next
  case (Cons d ds)
  have "v * 10 + d \<le> foldl (\<lambda>a d. a * 10 + d) (v * 10 + d) ds" by (rule foldl_digits_ge)
  then have "u16 (int v * 10 + (sint (dchar d) - 48)) = int (v * 10 + d)"
    using Cons.prems by (simp add: sint_dchar u16_id)
  then show ?case using Cons.IH [of "v * 10 + d"] Cons.prems by (simp add: dchar_not_space)
qed

lemma check_skip:
  "i_node_check_loop ys 0 n = 1 \<Longrightarrow> i_node_check_loop (xs @ space # ys) v n = 1"
  by (induction xs arbitrary: v) auto


section \<open>Marking a file\<close>

text \<open>What \<open>mark\<close> writes: the digits of the number without its trailing zeros.\<close>

definition mark_at :: "byte list \<Rightarrow> nat \<Rightarrow> nat \<Rightarrow> byte list" where
  "mark_at buffer counter n = take counter buffer @ map dchar (digs (spell (digs n))) @
     space # drop (Suc (counter + length (digs (spell (digs n))))) buffer"

lemma put_digits_room:
  "put_digits (int n) counter buffer = Done r \<Longrightarrow> n \<noteq> 0 \<Longrightarrow>
   counter + length (digs n) \<le> length buffer"
proof (induction n arbitrary: counter buffer rule: digs.induct)
  case (1 n)
  from "1.prems" have c: "counter < length buffer"
    and r: "put_digits (int (n div 10)) (Suc counter) (buffer[counter := digit_char (int n)]) = Done r"
    by (auto simp: put_digits.simps [of "int n"] outcome_simps cdiv_nonneg zdiv_int)
  show ?case
  proof (cases "n div 10 = 0")
    case True
    then show ?thesis using c "1.prems" by (simp add: digs_pos)
  next
    case False
    then show ?thesis using "1.IH" [OF "1.prems"(2) r False] "1.prems" by (simp add: digs_pos)
  qed
qed

lemma spell_digs_pos: "0 < n \<Longrightarrow> spell (digs n) \<noteq> 0"
proof -
  have "foldl (\<lambda>a d. a * 10 + d) a ds \<noteq> 0" if "a \<noteq> 0 \<or> (\<exists>d \<in> set ds. d \<noteq> 0)" for a :: nat and ds
    using that by (induction ds arbitrary: a) auto
  moreover assume "0 < n"
  moreover have "\<forall>d \<in> set (digs n). d = 0 \<Longrightarrow> n = 0"
    by (induction n rule: digs.induct) (metis digs_pos div_mult_mod_eq list.set_intros add_0 mult_zero_left)
  ultimately show ?thesis unfolding spell_def by blast
qed

lemma put_number:
  assumes n: "0 < n" "n < 65536"
    and p: "obind (put_digits (reverse_num (int n)) counter buffer) (\<lambda>(c, b). wr b c space) = Done b'"
  shows "b' = mark_at buffer counter n"
proof -
  have "counter + length (digs (spell (digs n))) \<le> length buffer"
    using p n by (auto simp: outcome_simps reverse_num_eq intro!: put_digits_room dest: spell_digs_pos)
  then show ?thesis using p n
    by (auto simp: reverse_num_eq put_digits_eq outcome_simps mark_at_def list_update_append
        Cons_nth_drop_Suc [symmetric] split: nat.splits)
qed

lemma mark_scan_Done:
  "mark_scan buffer counter = Done c \<Longrightarrow> counter \<le> c \<and> c < length buffer \<and> buffer ! c = space"
proof (induction buffer counter rule: mark_scan.induct)
  case (1 buffer counter)
  from "1.prems" obtain c' x where f: "find_space buffer counter = Done c'"
    and r: "rd buffer (Suc c') = Done x"
    and m: "(if x \<noteq> space then mark_scan buffer (Suc c') else Done c') = Done c"
    by (auto simp: mark_scan.simps [of buffer counter] outcome_simps)
  show ?case
  proof (cases "x = space")
    case True
    then show ?thesis using m find_space_Done [OF f] by simp
  next
    case False
    then show ?thesis using m "1.IH" [OF f r False] find_space_Done [OF f] by simp
  qed
qed

lemma mark_Done:
  assumes "0 < n" "n < 65536" "mark buffer (int n) = Done b'"
  shows "\<exists>c \<le> length buffer. b' = mark_at buffer c n \<and> (c = 0 \<or> buffer ! (c - 1) = space)"
proof -
  obtain b0 where b0: "rd buffer 0 = Done b0" using assms(3) by (auto simp: mark_def outcome_simps)
  show ?thesis
  proof (cases "sint b0 < 48 \<or> sint b0 > 57")
    case True
    then have "b' = mark_at buffer 0 n"
      using assms b0 by (intro put_number) (auto simp: mark_def)
    then show ?thesis by blast
  next
    case False
    then obtain c where c: "mark_scan buffer 0 = Done c"
      and p: "obind (put_digits (reverse_num (int n)) (Suc c) buffer) (\<lambda>(c, b). wr b c space) = Done b'"
      using assms(3) b0 by (auto simp: mark_def outcome_simps)
    show ?thesis
      using put_number [OF assms(1,2) p] mark_scan_Done [OF c]
      by (intro exI [of _ "Suc c"]) auto
  qed
qed

lemma mark_at_check:
  assumes n: "0 < n" "n < 65536" "n mod 10 \<noteq> 0"
    and c: "c \<le> length buffer" "c = 0 \<or> buffer ! (c - 1) = space"
  shows "i_node_check (mark_at buffer c n) (int n) = 1"
proof -
  have ds: "digs (spell (digs n)) = rev (digs n)"
    using n by (intro digs_spell) (auto simp: digs_pos dest: digs_less)
  have d: "i_node_check_loop (map dchar (rev (digs n)) @ space # ys) (int 0) (int n) = 1" for ys
    using n spell_rev_digs [of n] by (intro check_digits) (auto simp: spell_def dest: digs_less)
  show ?thesis
  proof (cases c)
    case 0
    then show ?thesis using d by (simp add: i_node_check_def mark_at_def ds)
  next
    case (Suc c')
    then have "take c buffer = take c' buffer @ [space]"
      using c by (simp add: take_Suc_conv_app_nth)
    then show ?thesis using check_skip [OF d [simplified]]
      by (simp add: i_node_check_def mark_at_def ds)
  qed
qed

section \<open>Unmarking a file\<close>

lemma unmark_match_eq:
  assumes "unmark_match (int n) k counter f buffer = Done (k', counter', f')"
  shows "k' = k + length (digs n) \<and> counter' = counter + length (digs n)"
  using assms
proof (induction n arbitrary: k counter f rule: digs.induct)
  case (1 n)
  show ?case
  proof (cases "n = 0")
    case True
    then show ?thesis using "1.prems" by (simp add: unmark_match.simps)
  next
    case False
    then show ?thesis using 1
      by (fastforce simp: unmark_match.simps [of "int n"] digs_pos outcome_simps cdiv_nonneg zdiv_int)
  qed
qed

lemma unmark_match_total:
  "counter + length (digs n) \<le> length buffer \<Longrightarrow> \<exists>r. unmark_match (int n) k counter f buffer = Done r"
proof (induction n arbitrary: k counter f rule: digs.induct)
  case (1 n)
  show ?case
  proof (cases "n = 0")
    case True
    then show ?thesis by (simp add: unmark_match.simps)
  next
    case False
    then show ?thesis using 1
      by (simp add: unmark_match.simps [of "int n"] digs_pos rd_def cdiv_nonneg zdiv_int)
  qed
qed

lemma put_spaces_eq:
  "counter + k \<le> length buffer \<Longrightarrow>
   put_spaces k counter buffer = Done (take counter buffer @ replicate k space @ drop (counter + k) buffer)"
proof (induction k arbitrary: counter buffer)
  case 0
  then show ?case by simp
next
  case (Suc k)
  then show ?case by (simp add: wr_def take_Suc_update)
qed

lemma put_spaces_room: "put_spaces (Suc k) counter buffer = Done b \<Longrightarrow> counter + Suc k \<le> length buffer"
proof (induction k arbitrary: counter buffer)
  case 0
  then show ?case by (simp add: outcome_simps)
next
  case (Suc k)
  then have "put_spaces (Suc k) (Suc counter) (buffer[counter := space]) = Done b"
    by (subst (asm) (2) put_spaces.simps) (simp only: outcome_simps, blast)
  from Suc.IH [OF this] show ?case by simp
qed

lemma unmark_shift_tail:
  "counter < i \<Longrightarrow> i < len \<Longrightarrow> unmark_shift i j len found_mark counter num_count old buffer =
   obind (rd old j) (\<lambda>c. obind (wr buffer i c) (\<lambda>buffer.
     unmark_shift (Suc i) (Suc j) len found_mark counter num_count old buffer))"
  by (subst unmark_shift.simps) simp

lemma unmark_shift_gap:
  "0 < len \<Longrightarrow> unmark_shift 0 0 len 0 counter num_count old buffer =
   obind (unmark_inner 0 (num_count + 1) counter old buffer) (\<lambda>(i, j, buffer).
     unmark_shift i j len 0 counter num_count old buffer)"
  by (subst unmark_shift.simps) simp

lemma shift_tail_oob:
  "counter < i \<Longrightarrow> i < len \<Longrightarrow> length old + i < j + len \<Longrightarrow>
   unmark_shift i j len found_mark counter num_count old buffer \<noteq> Done b"
proof (induction "len - i" arbitrary: i j buffer)
  case 0
  then show ?case by simp
next
  case (Suc k)
  show ?case
  proof
    assume d: "unmark_shift i j len found_mark counter num_count old buffer = Done b"
    have j: "j < length old" and r: "unmark_shift (Suc i) (Suc j) len found_mark counter num_count old
        (buffer[i := old ! j]) = Done b"
      using d [unfolded unmark_shift_tail [OF Suc.prems(1,2)]] by (auto simp: outcome_simps)
    show False
    proof (cases "Suc i < len")
      case True
      then show ?thesis using Suc.hyps(1) [of "Suc i" "Suc j"] Suc.hyps(2) Suc.prems r by simp
    next
      case False
      then show ?thesis using Suc.prems j by simp
    qed
  qed
qed

lemma unmark_inner_Done:
  "unmark_inner i j counter old buffer = Done (i', j', b') \<Longrightarrow> i \<le> counter \<Longrightarrow>
   i' = Suc counter \<and> j' = j + (Suc counter - i) \<and> j' \<le> length old"
proof (induction i j counter old buffer rule: unmark_inner.induct)
  case (1 i j counter old buffer)
  have j: "j < length old" using "1.prems" by (auto simp: unmark_inner.simps [of i] outcome_simps)
  show ?case
  proof (cases "i = counter")
    case True
    then show ?thesis using "1.prems" j
      by (subst (asm) unmark_inner.simps) (auto simp: unmark_inner.simps [of "Suc counter"] outcome_simps)
  next
    case False
    then show ?thesis using 1 j by (auto simp: unmark_inner.simps [of i] outcome_simps)
  qed
qed

lemma shift_oob:
  assumes "length old = len" "counter < len"
  shows "unmark_shift 0 0 len 0 counter num_count old buffer \<noteq> Done b"
proof
  assume d: "unmark_shift 0 0 len 0 counter num_count old buffer = Done b"
  have "0 < len" using assms by simp
  then obtain i' j' b1 where r: "unmark_inner 0 (num_count + 1) counter old buffer = Done (i', j', b1)"
    and s: "unmark_shift i' j' len 0 counter num_count old b1 = Done b"
    using d by (auto simp: unmark_shift_gap outcome_simps)
  have "i' = Suc counter" "j' = num_count + 1 + Suc counter" "j' \<le> len"
    using unmark_inner_Done [OF r] assms by auto
  then show False using shift_tail_oob [of counter i' len old j'] s assms by auto
qed

lemma unmark_Done:
  assumes n: "n < 65536" and u: "unmark buffer (length buffer) (int n) = Done b'"
  defines "k \<equiv> length (digs (spell (digs n)))"
  shows "b' = take k buffer @ replicate (Suc k) space @ drop (k + Suc k) buffer"
proof -
  obtain k' c f where m: "unmark_match (int (spell (digs n))) 0 0 1 buffer = Done (k', c, f)"
    using u n by (auto simp: unmark_def reverse_num_eq outcome_simps)
  have kc: "k' = k" "c = k" using unmark_match_eq [OF m] by (auto simp: k_def)
  have p: "put_spaces (Suc k) k buffer = Done b'"
    using u n m kc shift_oob [of buffer "length buffer"]
    by (auto simp: unmark_def reverse_num_eq outcome_simps copy_to_buffer_eq split: if_splits)
  then show ?thesis using put_spaces_room [OF p] by (simp add: put_spaces_eq del: put_spaces.simps)
qed

section \<open>What the list promises\<close>

text \<open>
  C23: after a successful \<open>mark\<close> of an inode number that is not a multiple of ten,
  \<open>i_node_check\<close> finds the number in the list, whatever the list held before.
\<close>

theorem mark_then_check:
  assumes "0 < n" "n < 65536" "n mod 10 \<noteq> 0" "mark buffer (int n) = Done b'"
  shows "i_node_check b' (int n) = 1"
  using mark_Done [OF assms(1,2,4)] mark_at_check [OF assms(1,2,3)] by blast

theorem mark_then_check_witness:
  "i_node_check [49, 50, 32, 51, 52, 32] (int 34) = 1"
  by (rule mark_then_check [where buffer = "[49, 50, 32, 32, 32, 32]"]) (simp, simp, simp, code_simp)

lemma digs_mult_10: "0 < m \<Longrightarrow> spell (digs (10 * m)) = spell (digs m)"
  by (simp add: digs_pos [of "10 * m"] spell_def)

text \<open>
  \<open>mark\<close> writes the digits of the reversed number, so a trailing zero is lost: marking inode
  \<open>10 * m\<close> is marking inode \<open>m\<close>.
\<close>

theorem mark_drops_zero:
  assumes "0 < m" "10 * m < 65536"
  shows "mark buffer (int (10 * m)) = mark buffer (int m)"
proof -
  have "reverse_num (int (10 * m)) = reverse_num (int m)"
    using assms digs_mult_10 [of m] reverse_num_eq [of "10 * m"] reverse_num_eq [of m] by simp
  then show ?thesis by (simp only: mark_def)
qed

theorem mark_drops_zero_witness:
  "mark [32, 32, 32, 32] (int (10 * 13)) = mark [32, 32, 32, 32] (int 13)"
  by (rule mark_drops_zero) simp_all

lemma unmark_first_entry:
  assumes "0 < n" "n < 65536" "n mod 10 \<noteq> 0" "unmark (mark_at buffer 0 n) (length (mark_at buffer 0 n)) (int n) = Done b'"
  shows "i_node_check b' (int n) = 1"
proof -
  have ds: "digs (spell (digs n)) = rev (digs n)"
    using assms by (intro digs_spell) (auto simp: digs_pos dest: digs_less)
  have d: "i_node_check_loop (map dchar (rev (digs n)) @ space # ys) (int 0) (int n) = 1" for ys
    using assms spell_rev_digs [of n] by (intro check_digits) (auto simp: spell_def dest: digs_less)
  have "b' = map dchar (rev (digs n)) @ space # replicate (length (digs n)) space @
      drop (length (digs n) + Suc (length (digs n))) (mark_at buffer 0 n)"
    using unmark_Done [OF assms(2,4)] by (simp add: ds) (simp add: mark_at_def ds)
  then show ?thesis using d by (simp add: i_node_check_def)
qed

text \<open>
  \<open>unmark\<close> does not remove the entry it is asked to remove: on a list whose first entry was
  just written by \<open>mark\<close>, every \<open>unmark\<close> of that number that returns leaves the number listed.
\<close>

theorem unmark_keeps_number:
  assumes "0 < n" "n < 65536" "n mod 10 \<noteq> 0" "sint (hd buffer) < 48"
    and "mark buffer (int n) = Done b" "unmark b (length b) (int n) = Done b'"
  shows "i_node_check b' (int n) = 1"
proof -
  have "b = mark_at buffer 0 n"
    using assms by (intro put_number [OF assms(1,2)]) (auto simp: mark_def outcome_simps hd_conv_nth)
  then show ?thesis using unmark_first_entry assms by simp
qed

theorem unmark_keeps_number_witness:
  "i_node_check [49, 51, 32, 32, 32, 32, 32] (int 13) = 1"
  by (rule unmark_keeps_number [where buffer = "replicate 7 32" and b = "[49, 51, 32, 32, 32, 32, 32]"])
     (simp, simp, simp, code_simp, code_simp, code_simp)

end
