(* ===== verification/KeyGen.thy ===== *)
theory KeyGen
  imports Crypt
begin

text \<open>
  The key generator of src/kernel/sys.c. It peels pairs of decimal digits off a number made from
  the clock and prints those that are letters; when the number is used up it takes the next one,
  4375 further on. The clock is read once per number: \<open>clk t\<close> is its \<open>t\<close>-th reading. The loop has
  no bound of its own, so it is a partial function whose value \<open>None\<close> is not returning; the printed
  characters are its result.
\<close>

section \<open>Definitions\<close>

fun gen_count :: "nat \<Rightarrow> int \<Rightarrow> int" where
  "gen_count 0 cnt = cnt"
| "gen_count (Suc k) cnt = gen_count k (s32 (cnt * 2))"

definition key_letter :: "int \<Rightarrow> bool" where
  "key_letter get_number \<longleftrightarrow>
     (get_number \<ge> 65 \<and> get_number \<le> 90) \<or> (get_number \<ge> 97 \<and> get_number \<le> 122)"

partial_function (option) gen_loop ::
  "(nat \<Rightarrow> int) \<Rightarrow> nat \<Rightarrow> int \<Rightarrow> int \<Rightarrow> int \<Rightarrow> int list \<Rightarrow> int list option" where
  "gen_loop clk t number add_number cnt out =
     (if cnt > 0 then
        let (t, number, add_number) =
          (if number = 0
           then (Suc t, s32 (s32 (clk t * (-1)) + add_number), s32 (add_number + 4375))
           else (t, number, add_number));
          get_number = cmod number 100;
          number = cdiv number 100
        in if key_letter get_number
           then gen_loop clk t number add_number (cnt - 1) (out @ [get_number])
           else gen_loop clk t number add_number cnt out
      else Some out)"

definition sys_generate_key :: "(nat \<Rightarrow> int) \<Rightarrow> int \<Rightarrow> int list option" where
  "sys_generate_key clk level =
     gen_loop clk 1 (s32 (clk 0 * (-1))) 4375 (gen_count (nat (level - 1)) 4) []"

section \<open>The loop ends\<close>

lemma gen_stop: "cnt \<le> 0 \<Longrightarrow> gen_loop clk t number add_number cnt out = Some out"
  by (simp add: gen_loop.simps)

lemma gen_nonzero:
  "0 < cnt \<Longrightarrow> number \<noteq> 0 \<Longrightarrow> gen_loop clk t number add_number cnt out =
   (if key_letter (cmod number 100)
    then gen_loop clk t (cdiv number 100) add_number (cnt - 1) (out @ [cmod number 100])
    else gen_loop clk t (cdiv number 100) add_number cnt out)"
  by (subst gen_loop.simps) (simp add: Let_def)

lemma cdiv_cmod_neg:
  assumes "number < 0"
  shows "cmod number 100 \<le> 0" "cdiv number 100 \<le> 0" "- cdiv number 100 < - number"
proof -
  have d: "cdiv number 100 = - ((- number) div 100)" using assms by (simp add: cdiv_def)
  have "cmod number 100 = - ((- number) mod 100)"
    unfolding cmod_def d using minus_div_mult_eq_mod [of "- number" 100] by linarith
  then show "cmod number 100 \<le> 0" using pos_mod_sign [of 100 "- number"] by linarith
  show "cdiv number 100 \<le> 0" unfolding d using assms by (simp add: pos_imp_zdiv_nonneg_iff)
  show "- cdiv number 100 < - number" unfolding d minus_minus using assms
    by (intro int_div_less_self) auto
qed

lemma gen_drain: "number \<le> 0 \<Longrightarrow> gen_loop clk t number a cnt out = gen_loop clk t 0 a cnt out"
proof (induction "nat (- number)" arbitrary: number rule: less_induct)
  case less
  show ?case
  proof (cases "number = 0 \<or> cnt \<le> 0")
    case True
    then show ?thesis by (auto simp: gen_stop)
  next
    case False
    then have "number < 0" using less.prems by simp
    from cdiv_cmod_neg [OF this] show ?thesis
      using False less.prems less.hyps [of "cdiv number 100"] by (simp add: gen_nonzero key_letter_def)
  qed
qed

text \<open>A non-negative number yields its letters, at most as many as still wanted.\<close>

lemma gen_digits:
  assumes "0 \<le> number" "0 < cnt"
  shows "\<exists>ls. (\<forall>l \<in> set ls. key_letter l) \<and> int (length ls) \<le> cnt \<and>
    (key_letter (number mod 100) \<longrightarrow> ls \<noteq> []) \<and>
    gen_loop clk t number a cnt out = gen_loop clk t 0 a (cnt - int (length ls)) (out @ ls)"
  using assms
proof (induction "nat number" arbitrary: number cnt out rule: less_induct)
  case less
  show ?case
  proof (cases "number = 0")
    case True
    then show ?thesis using less.prems by (intro exI [of _ "[]"]) (auto simp: key_letter_def)
  next
    case False
    let ?l = "number mod 100" and ?n = "number div 100"
    have n: "nat ?n < nat number" "0 \<le> ?n" using less.prems False by auto
    let ?c = "if key_letter ?l then cnt - 1 else cnt"
    let ?o = "if key_letter ?l then out @ [?l] else out"
    have s: "gen_loop clk t number a cnt out = gen_loop clk t ?n a ?c ?o"
      using less.prems False by (simp add: gen_nonzero cdiv_nonneg cmod_nonneg)
    show ?thesis
    proof (cases "?c = 0")
      case True
      then have "key_letter ?l" "cnt = 1" using less.prems by (auto split: if_splits)
      then show ?thesis using s True by (intro exI [of _ "[?l]"]) (simp add: gen_stop)
    next
      case c: False
      then have "0 < ?c" using less.prems by (auto split: if_splits)
      from less.hyps [OF n this, of ?o] obtain ls where
        ls: "\<forall>l \<in> set ls. key_letter l" "int (length ls) \<le> ?c"
          "gen_loop clk t ?n a ?c ?o = gen_loop clk t 0 a (?c - int (length ls)) (?o @ ls)" by blast
      show ?thesis
        using s ls by (intro exI [of _ "(if key_letter ?l then [?l] else []) @ ls"])
          (auto simp: algebra_simps split: if_splits)
    qed
  qed
qed

lemma gen_refill:
  assumes "0 < cnt"
  shows "gen_loop clk t 0 a cnt out =
    gen_loop clk (Suc t) (s32 (s32 (clk t * (-1)) + a)) (s32 (a + 4375)) cnt out"
proof (cases "s32 (s32 (clk t * (-1)) + a) = 0")
  case True
  then show ?thesis using assms by (subst gen_loop.simps) (simp add: key_letter_def cmod_def cdiv_def)
next
  case False
  then show ?thesis using assms by (subst gen_loop.simps) (simp add: gen_nonzero)
qed

lemma letter_near: "\<exists>d < 4. key_letter ((x + 4375 * int d) mod 100)"
proof -
  define y q where "y = x mod 100" and "q = x div 100"
  have y: "0 \<le> y" "y < 100" and x: "x = y + 100 * q" by (simp_all add: y_def q_def)
  have k: "key_letter ((x + 4375 * int d) mod 100)"
    if "x + 4375 * int d = z + 100 * k" "65 \<le> z" "z \<le> 90" for d z k
    using that by (simp add: key_letter_def)
  consider "65 \<le> y \<and> y \<le> 90" | "90 < y" | "40 \<le> y \<and> y < 65" | "15 \<le> y \<and> y < 40" | "y < 15"
    by linarith
  then show ?thesis
  proof cases
    case 1
    then show ?thesis using k [of 0 y q] x by (intro exI [of _ 0]) auto
  next
    case 2
    then show ?thesis using k [of 1 "y - 25" "q + 44"] x y by (intro exI [of _ 1]) auto
  next
    case 3
    then show ?thesis using k [of 3 "y + 25" "q + 131"] x by (intro exI [of _ 3]) auto
  next
    case 4
    then show ?thesis using k [of 2 "y + 50" "q + 87"] x by (intro exI [of _ 2]) auto
  next
    case 5
    then show ?thesis using k [of 1 "y + 75" "q + 43"] x y by (intro exI [of _ 1]) auto
  qed
qed

lemma gen_positive:
  assumes T: "0 < T" "\<And>t. clk t = T"
  shows "T < a \<Longrightarrow> 0 \<le> cnt \<Longrightarrow> key_letter ((a - T + 4375 * int d) mod 100) \<Longrightarrow>
    a + 4375 * (4 * cnt + int d) < 2147483648 \<Longrightarrow>
    \<exists>ls. gen_loop clk t 0 a cnt out = Some (out @ ls) \<and> int (length ls) = cnt \<and>
      (\<forall>l \<in> set ls. key_letter l)"
proof (induction "nat (4 * cnt + int d)" arbitrary: t a cnt d out rule: less_induct)
  case less
  show ?case
  proof (cases "cnt = 0")
    case True
    then show ?thesis by (simp add: gen_stop)
  next
    case False
    then have c: "0 < cnt" using less.prems by simp
    have r: "gen_loop clk t 0 a cnt out = gen_loop clk (Suc t) (a - T) (a + 4375) cnt out"
      using c T less.prems by (simp add: gen_refill s32_id)
    obtain ls where ls: "\<forall>l \<in> set ls. key_letter l" "int (length ls) \<le> cnt"
        "key_letter ((a - T) mod 100) \<longrightarrow> ls \<noteq> []"
      and g: "gen_loop clk (Suc t) (a - T) (a + 4375) cnt out =
        gen_loop clk (Suc t) 0 (a + 4375) (cnt - int (length ls)) (out @ ls)"
      using gen_digits [of "a - T" cnt clk "Suc t" "a + 4375" out] c less.prems by auto
    obtain d' where d': "key_letter ((a + 4375 - T + 4375 * int d') mod 100)"
      and m: "4 * (cnt - int (length ls)) + int d' < 4 * cnt + int d"
    proof (cases "ls = []")
      case True
      then obtain e where "d = Suc e" using ls less.prems(3) by (cases d) auto
      then show thesis using that [of e] less.prems(3) True by (simp add: algebra_simps)
    next
      case False
      then have "1 \<le> int (length ls)" by (cases ls) auto
      moreover obtain e where "e < 4" "key_letter ((a + 4375 - T + 4375 * int e) mod 100)"
        using letter_near by blast
      ultimately show thesis by (intro that [of e]) auto
    qed
    from less.hyps [OF _ _ _ d', of "cnt - int (length ls)" "Suc t" "out @ ls"] m ls less.prems(1,4)
    obtain ls' where "gen_loop clk (Suc t) 0 (a + 4375) (cnt - int (length ls)) (out @ ls) =
        Some ((out @ ls) @ ls')" "int (length ls') = cnt - int (length ls)" "\<forall>l \<in> set ls'. key_letter l"
      by auto
    then show ?thesis using r g ls by (intro exI [of _ "ls @ ls'"]) auto
  qed
qed

lemma gen_from_zero:
  assumes T: "0 < T" "\<And>t. clk t = T" and c: "0 < cnt" "T + 4375 * (4 * cnt + 8) < 2147483648"
  shows "0 < a \<Longrightarrow> a \<le> T + 4375 \<Longrightarrow>
    \<exists>ls. gen_loop clk t 0 a cnt [] = Some ls \<and> int (length ls) = cnt \<and> (\<forall>l \<in> set ls. key_letter l)"
proof (induction "nat (T + 4375 - a)" arbitrary: t a rule: less_induct)
  case less
  show ?case
  proof (cases "T < a")
    case True
    obtain d where d: "d < 4" "key_letter ((a - T + 4375 * int d) mod 100)" using letter_near by blast
    have "int d \<le> 3" using d by simp
    then have "a + 4375 * (4 * cnt + int d) < 2147483648" using c less.prems by (simp add: algebra_simps)
    then show ?thesis using gen_positive [where cnt = cnt and t = t and out = "[]", OF T True _ d(2)] c by simp
  next
    case False
    have "T + 17500 * cnt < 2147448648" using c by simp
    then have "T < 2147440000" using c by linarith
    then have s: "s32 (T * (-1)) = - T" "s32 (- T + a) = a - T" "s32 (a + 4375) = a + 4375"
      using T less.prems False by (simp_all add: s32_id)
    have "gen_loop clk t 0 a cnt [] = gen_loop clk (Suc t) 0 (a + 4375) cnt []"
      using False by (subst gen_refill [OF c(1)]) (simp only: T(2) s, rule gen_drain, simp)
    then show ?thesis using less.hyps [of "a + 4375" "Suc t"] less.prems False by simp
  qed
qed

lemma gen_count_eq: "4 * 2 ^ k * c < 2147483648 \<Longrightarrow> 0 \<le> c \<Longrightarrow> gen_count k (4 * c) = 4 * 2 ^ k * c"
proof (induction k arbitrary: c)
  case (Suc k)
  have "(1::int) \<le> 2 ^ k" by simp
  then have "c \<le> 2 ^ k * c" using Suc.prems(2) by (simp add: mult_le_cancel_right1)
  moreover have "8 * (2 ^ k * c) < 2147483648" using Suc.prems(1) by (simp add: algebra_simps)
  ultimately have "8 * c < 2147483648" by linarith
  then have "s32 (4 * c * 2) = 4 * (2 * c)" using Suc.prems by (simp add: s32_id)
  then show ?case using Suc.IH [of "2 * c"] Suc.prems by simp
qed simp



end
