(* ===== verification/KeySys.thy ===== *)
theory KeySys
  imports Crypt
begin

text \<open>
  The key kept by src/kernel/sys.c through its system calls, and the interface of a block cipher
  that the transposition of \<open>Crypt\<close> implements for every key the kernel can hold.
\<close>

section \<open>The key of the kernel\<close>

lemma clear_key_loop_eq:
  "i + k \<le> length g \<Longrightarrow> clear_key_loop k i g = Done (take i g @ replicate k 0 @ drop (i + k) g)"
proof (induction k arbitrary: i g)
  case (Suc k)
  then show ?case by (simp add: wr_def take_Suc_update)
qed simp

lemma set_key_loop_eq:
  "i + k \<le> length g \<Longrightarrow> set_key_loop k i key g = Done (take i g @ map key [i..<i + k] @ drop (i + k) g)"
proof (induction k arbitrary: i g)
  case (Suc k)
  have "[i..<i + Suc k] = i # [Suc i..<i + Suc k]" by (simp add: upt_conv_Cons)
  then show ?case using Suc by (simp add: wr_def take_Suc_update del: upt_Suc)
qed simp

lemma set_key_loop_oob: "i \<le> length g \<Longrightarrow> length g < i + k \<Longrightarrow> set_key_loop k i key g = Oob"
  by (induction k arbitrary: i g) (auto simp: wr_def)

lemma pow_check_iff: "pow_check len = 1 \<longleftrightarrow> len \<in> {1, 2, 4, 8, 16, 32, 64, 128, 256, 512}"
  "pow_check len = 0 \<longleftrightarrow> len \<notin> {1, 2, 4, 8, 16, 32, 64, 128, 256, 512}"
  by (auto simp: pow_check_def eval_nat_numeral s32_id)

lemma clear_key_fn_eq:
  "length (global_key s) = 100 \<Longrightarrow> clear_key_fn s = Done (s\<lparr>global_key := replicate 100 0\<rparr>)"
  by (simp add: clear_key_fn_def clear_key_loop_eq)

text \<open>The key array has its 100 bytes and a terminating zero.\<close>

definition crypt_wf :: "crypt_state \<Rightarrow> bool" where
  "crypt_wf s \<longleftrightarrow> length (global_key s) = 100 \<and> 0 \<in> set (global_key s)"

lemma set_key_eq:
  assumes "length (global_key s) = 100"
  shows "sys_set_key key len s =
    (if len \<in> {1, 2, 4, 8, 16, 32, 64}
     then Done (0, s\<lparr>is_key_set := 1,
            global_key := map key [0..<nat len] @ replicate (100 - nat len) 0\<rparr>)
     else if len \<in> {128, 256, 512} then Oob else Done (0, s))"
proof -
  let ?z = "replicate 100 (0::byte)"
  have "sys_set_key key len s = obind (set_key_loop (nat len) 0 key ?z) (\<lambda>g.
      Done (0, s\<lparr>is_key_set := 1, global_key := g\<rparr>))"
    if "len \<in> {1, 2, 4, 8, 16, 32, 64, 128, 256, 512}"
    using that assms by (auto simp: sys_set_key_def pow_check_iff clear_key_fn_eq)
  moreover have "set_key_loop (nat len) 0 key ?z = Done (map key [0..<nat len] @ replicate (100 - nat len) 0)"
    if "len \<in> {1, 2, 4, 8, 16, 32, 64}"
    using that by (subst set_key_loop_eq) auto
  moreover have "set_key_loop (nat len) 0 key ?z = Oob" if "len \<in> {128, 256, 512}"
    using that by (intro set_key_loop_oob) auto
  moreover have "sys_set_key key len s = Done (0, s)"
    if "len \<notin> {1, 2, 4, 8, 16, 32, 64, 128, 256, 512}"
    using that by (simp add: sys_set_key_def pow_check_iff del: insert_iff)
  ultimately show ?thesis by auto
qed

lemma crypt_init_wf: "crypt_wf crypt_init"
  by (simp add: crypt_wf_def crypt_init_def)

lemma set_key_wf:
  assumes "crypt_wf s" "sys_set_key key len s = Done (r, s')"
  shows "crypt_wf s'"
proof -
  have l: "length (global_key s) = 100" using assms(1) by (simp add: crypt_wf_def)
  have "length (map key [0..<nat len] @ replicate (100 - nat len) (0::byte)) = 100"
    "0 \<in> set (replicate (100 - nat len) (0::byte))" if "len \<in> {1, 2, 4, 8, 16, 32, 64}"
    using that by auto
  then show ?thesis
    using assms set_key_eq [OF l, of key len] by (auto simp: crypt_wf_def split: if_splits)
qed

lemma clear_key_wf: "crypt_wf s \<Longrightarrow> sys_clear_key s = Done (r, s') \<Longrightarrow> crypt_wf s'"
  by (auto simp: sys_clear_key_def clear_key_fn_eq crypt_wf_def)

lemma crypt_wf_strlen: "crypt_wf s \<Longrightarrow> \<exists>gb. strlen (global_key s) = Done gb"
  unfolding crypt_wf_def by (meson strlen_total)

text \<open>The states the key system calls can reach from the initial one.\<close>

inductive crypt_reachable :: "crypt_state \<Rightarrow> bool" where
  reach_init: "crypt_reachable crypt_init"
| reach_set: "crypt_reachable s \<Longrightarrow> sys_set_key key len s = Done (r, s') \<Longrightarrow> crypt_reachable s'"
| reach_clear: "crypt_reachable s \<Longrightarrow> sys_clear_key s = Done (r, s') \<Longrightarrow> crypt_reachable s'"

lemma crypt_reachable_wf: "crypt_reachable s \<Longrightarrow> crypt_wf s"
  by (induction rule: crypt_reachable.induct)
     (auto intro: crypt_init_wf set_key_wf clear_key_wf)

section \<open>The interface of a block cipher\<close>

locale block_cipher =
  fixes valid_key :: "'k \<Rightarrow> bool"
    and block :: "'b \<Rightarrow> bool"
    and enc dec :: "'k \<Rightarrow> 'b \<Rightarrow> 'b outcome"
  assumes enc_dec: "valid_key k \<Longrightarrow> block b \<Longrightarrow> \<exists>c. enc k b = Done c \<and> block c \<and> dec k c = Done b"
    and dec_enc: "valid_key k \<Longrightarrow> block b \<Longrightarrow> \<exists>c. dec k b = Done c \<and> block c \<and> enc k c = Done b"
begin

lemma blocks_enc_dec:
  "valid_key k \<Longrightarrow> list_all block bs \<Longrightarrow>
   \<exists>cs. omap (enc k) bs = Done cs \<and> list_all block cs \<and> omap (dec k) cs = Done bs"
proof (induction bs)
  case (Cons b bs)
  then obtain cs where "omap (enc k) bs = Done cs" "list_all block cs" "omap (dec k) cs = Done bs"
    by auto
  moreover obtain c where "enc k b = Done c" "block c" "dec k c = Done b"
    using Cons.prems enc_dec by fastforce
  ultimately show ?case by (intro exI [of _ "c # cs"]) simp
qed simp

lemma enc_inj: "valid_key k \<Longrightarrow> block b \<Longrightarrow> block b' \<Longrightarrow> enc k b = enc k b' \<Longrightarrow> b = b'"
  using enc_dec by (metis outcome.inject(1))

lemma enc_surj: "valid_key k \<Longrightarrow> block c \<Longrightarrow> \<exists>b. block b \<and> enc k b = Done c"
  using dec_enc by blast

end

text \<open>The kernel key and the 1024-byte buffers of the block cache.\<close>

definition key_ok :: "byte list \<Rightarrow> bool" where
  "key_ok key \<longleftrightarrow> 0 \<in> set key"

definition data_block :: "byte list \<Rightarrow> bool" where
  "data_block b \<longleftrightarrow> length b = 1024"

lemma key_ok_strlen: "key_ok key \<Longrightarrow> \<exists>gb. strlen key = Done gb"
  unfolding key_ok_def by (rule strlen_total)

interpretation kernel_cipher: block_cipher key_ok data_block
  "\<lambda>key b. buffer_encr key b 1024" "\<lambda>key b. buffer_decr key b 1024"
proof
  fix key b assume k: "key_ok key" and b: "data_block b"
  obtain gb where gb: "strlen key = Done gb" using key_ok_strlen [OF k] by blast
  show "\<exists>c. buffer_encr key b 1024 = Done c \<and> data_block c \<and> buffer_decr key c 1024 = Done b"
    using encr_decr [OF gb, of b] b unfolding data_block_def by (metis size_mset)
  show "\<exists>c. buffer_decr key b 1024 = Done c \<and> data_block c \<and> buffer_encr key c 1024 = Done b"
    using decr_encr [OF gb, of b] b unfolding data_block_def by metis
qed

text \<open>
  C22: \<open>sys_set_key\<close> on every length: a power of two up to 64 stores exactly the caller's bytes,
  followed by zeros, and marks the key as set; 128, 256 and 512 pass its check and write past the
  100 bytes of \<open>global_key\<close>; every other length is refused and changes nothing.
\<close>

theorem set_key_cases:
  assumes "crypt_wf s"
  shows "sys_set_key key len s =
    (if len \<in> {1, 2, 4, 8, 16, 32, 64}
     then Done (0, s\<lparr>is_key_set := 1,
            global_key := map key [0..<nat len] @ replicate (100 - nat len) 0\<rparr>)
     else if len \<in> {128, 256, 512} then Oob else Done (0, s))"
  using set_key_eq assms unfolding crypt_wf_def by blast

theorem set_key_cases_witness:
  "sys_set_key (\<lambda>i. 98) 2 crypt_init =
    Done (0, \<lparr>global_key = [98, 98] @ replicate 98 0, is_key_set = 1\<rparr>) \<and>
   sys_set_key (\<lambda>i. 98) 256 crypt_init = Oob"
proof -
  have w: "crypt_wf crypt_init" by (simp add: crypt_wf_def crypt_init_def)
  show ?thesis
    using set_key_cases [OF w, of "\<lambda>i. 98" 2] set_key_cases [OF w, of "\<lambda>i. 98" 256]
    by (simp add: crypt_init_def numeral_2_eq_2)
qed

text \<open>
  C9: in every state the key calls can reach, encrypting the blocks of a file and decrypting them
  gives the file back, block for block, and the blocks keep their size.
\<close>

theorem reachable_roundtrip:
  assumes "crypt_reachable s" "list_all (\<lambda>b. length b = 1024) bs"
  shows "\<exists>cs. omap (\<lambda>b. buffer_encr (global_key s) b 1024) bs = Done cs \<and>
    list_all (\<lambda>b. length b = 1024) cs \<and>
    omap (\<lambda>b. buffer_decr (global_key s) b 1024) cs = Done bs"
  using kernel_cipher.blocks_enc_dec [of "global_key s" bs] crypt_reachable_wf [OF assms(1)] assms(2)
  by (simp add: key_ok_def crypt_wf_def data_block_def [abs_def])

theorem reachable_roundtrip_witness:
  "\<exists>cs. omap (\<lambda>b. buffer_encr ([98, 97] @ replicate 98 0) b 1024) [replicate 1024 7] = Done cs \<and>
    list_all (\<lambda>b. length b = 1024) cs \<and>
    omap (\<lambda>b. buffer_decr ([98, 97] @ replicate 98 0) b 1024) cs = Done [replicate 1024 7]"
proof -
  let ?s = "\<lparr>global_key = [98, 97] @ replicate 98 0, is_key_set = 1\<rparr>"
  have "sys_set_key (\<lambda>i. if i = 0 then 98 else 97) 2 crypt_init = Done (0, ?s)"
    by (subst set_key_eq) (simp_all add: crypt_init_def numeral_2_eq_2)
  then have "crypt_reachable ?s" by (rule reach_set [OF reach_init])
  from reachable_roundtrip [OF this, of "[replicate 1024 7]"] show ?thesis by simp
qed

end
