(* ===== verification/Fifo.thy ===== *)
theory Fifo
  imports Prelude
begin

text \<open>
  The interface of a bounded first-in first-out queue, which the terminal queues and the pipes both
  provide: what is put comes out once and in order. \<open>enc\<close> is what storing does to an element.
\<close>

locale fifo =
  fixes wf :: "'q \<Rightarrow> bool" and seq :: "'q \<Rightarrow> 'c list" and cap :: nat
    and put :: "'c \<Rightarrow> 'q \<Rightarrow> 'q" and get :: "'q \<Rightarrow> 'c \<times> 'q"
    and enc :: "'c \<Rightarrow> 'c"
  assumes seq_bound: "wf q \<Longrightarrow> length (seq q) \<le> cap"
    and put_law: "wf q \<Longrightarrow> length (seq q) < cap \<Longrightarrow> wf (put c q) \<and> seq (put c q) = seq q @ [enc c]"
    and get_law: "wf q \<Longrightarrow> seq q \<noteq> [] \<Longrightarrow>
      fst (get q) = hd (seq q) \<and> wf (snd (get q)) \<and> seq (snd (get q)) = tl (seq q)"
begin

fun put_all :: "'c list \<Rightarrow> 'q \<Rightarrow> 'q" where
  "put_all [] q = q"
| "put_all (c # cs) q = put_all cs (put c q)"

fun get_n :: "nat \<Rightarrow> 'q \<Rightarrow> 'c list \<times> 'q" where
  "get_n 0 q = ([], q)"
| "get_n (Suc n) q = (case get q of (c, q) \<Rightarrow> case get_n n q of (cs, q) \<Rightarrow> (c # cs, q))"

lemma put_all_seq:
  "wf q \<Longrightarrow> length (seq q) + length cs \<le> cap \<Longrightarrow> wf (put_all cs q) \<and> seq (put_all cs q) = seq q @ map enc cs"
proof (induction cs arbitrary: q)
  case (Cons c cs)
  have "length (seq q) < cap" using Cons.prems by simp
  from put_law [OF Cons.prems(1) this, of c] show ?case using Cons by auto
qed simp

lemma get_n_seq:
  "wf q \<Longrightarrow> n \<le> length (seq q) \<Longrightarrow>
   fst (get_n n q) = take n (seq q) \<and> wf (snd (get_n n q)) \<and> seq (snd (get_n n q)) = drop n (seq q)"
proof (induction n arbitrary: q)
  case (Suc n)
  have ne: "seq q \<noteq> []" using Suc.prems by auto
  obtain c q' where g: "get q = (c, q')" by fastforce
  have q': "c = hd (seq q)" "wf q'" "seq q' = tl (seq q)" using get_law [OF Suc.prems(1) ne] g by auto
  have "n \<le> length (seq q')" using Suc.prems q' by simp
  then have "fst (get_n n q') = take n (tl (seq q)) \<and> wf (snd (get_n n q')) \<and> seq (snd (get_n n q')) = drop n (tl (seq q))"
    using Suc.IH [of q'] q' by simp
  then show ?case using ne q'(1) g by (cases "seq q") (auto split: prod.splits)
qed simp

text \<open>Characters come out in the order they went in, and nothing else changes.\<close>

lemma in_order:
  assumes "wf q" "length (seq q) + length cs \<le> cap"
  shows "fst (get_n (length (seq q) + length cs) (put_all cs q)) = seq q @ map enc cs \<and>
    seq (snd (get_n (length (seq q) + length cs) (put_all cs q))) = []"
proof -
  have p: "wf (put_all cs q)" "seq (put_all cs q) = seq q @ map enc cs"
    using put_all_seq [OF assms] by simp_all
  have n: "length (seq q) + length cs \<le> length (seq (put_all cs q))" by (simp add: p(2))
  show ?thesis using get_n_seq [OF p(1) n] by (simp add: p(2))
qed

end

end
