(* ===== verification/TtyQueue.thy ===== *)
theory TtyQueue
  imports Fifo
begin

text \<open>
  The character queues of src/include/linux/tty.h: a ring of 1024 bytes between \<open>tail\<close>, where
  characters are taken, and \<open>head\<close>, where they are put, with the macros that work on it. One slot
  stays free, so that equal indices mean an empty queue. The theory states what clients rely on as a
  locale over a sequence abstraction, and interprets it on the macros.
\<close>

definition TTY_BUF_SIZE :: nat where "TTY_BUF_SIZE = 1024"

record tty_queue =
  tq_data :: int
  tq_head :: nat
  tq_tail :: nat
  tq_proc_list :: "nat option"
  tq_buf :: "int list"

text \<open>The conversion to \<open>signed char\<close>.\<close>

definition s8 :: "int \<Rightarrow> int" where
  "s8 x = (x + 128) mod 256 - 128"

text \<open>The masks \<open>& (TTY_BUF_SIZE-1)\<close>, on unsigned numbers below the size.\<close>

definition INC :: "nat \<Rightarrow> nat" where "INC a = (a + 1) mod TTY_BUF_SIZE"
definition DEC :: "nat \<Rightarrow> nat" where "DEC a = (a + TTY_BUF_SIZE - 1) mod TTY_BUF_SIZE"

definition EMPTY :: "tty_queue \<Rightarrow> bool" where "EMPTY q \<longleftrightarrow> tq_head q = tq_tail q"

definition LEFTQ :: "tty_queue \<Rightarrow> nat" where
  "LEFTQ q = (tq_tail q + 2 * TTY_BUF_SIZE - tq_head q - 1) mod TTY_BUF_SIZE"

definition FULL :: "tty_queue \<Rightarrow> bool" where "FULL q \<longleftrightarrow> LEFTQ q = 0"

definition LAST :: "tty_queue \<Rightarrow> int" where "LAST q = tq_buf q ! DEC (tq_head q)"

definition CHARS :: "tty_queue \<Rightarrow> nat" where
  "CHARS q = (tq_head q + TTY_BUF_SIZE - tq_tail q) mod TTY_BUF_SIZE"

definition GETCH :: "tty_queue \<Rightarrow> int \<times> tty_queue" where
  "GETCH q = (tq_buf q ! tq_tail q, q\<lparr>tq_tail := INC (tq_tail q)\<rparr>)"

definition PUTCH :: "int \<Rightarrow> tty_queue \<Rightarrow> tty_queue" where
  "PUTCH c q = q\<lparr>tq_head := INC (tq_head q), tq_buf := (tq_buf q)[tq_head q := s8 c]\<rparr>"

text \<open>\<open>DEC(queue.head)\<close>, the removal of the last character.\<close>

definition UNPUT :: "tty_queue \<Rightarrow> tty_queue" where
  "UNPUT q = q\<lparr>tq_head := DEC (tq_head q)\<rparr>"

definition flush_queue :: "tty_queue \<Rightarrow> tty_queue" where
  "flush_queue q = q\<lparr>tq_head := tq_tail q\<rparr>"

definition empty_queue :: "int \<Rightarrow> tty_queue" where
  "empty_queue d = \<lparr>tq_data = d, tq_head = 0, tq_tail = 0, tq_proc_list = None, tq_buf = replicate 1024 0\<rparr>"

section \<open>The abstraction\<close>

definition tq_wf :: "tty_queue \<Rightarrow> bool" where
  "tq_wf q \<longleftrightarrow> tq_head q < TTY_BUF_SIZE \<and> tq_tail q < TTY_BUF_SIZE \<and> length (tq_buf q) = TTY_BUF_SIZE"

definition tq_seq :: "tty_queue \<Rightarrow> int list" where
  "tq_seq q = map (\<lambda>i. tq_buf q ! ((tq_tail q + i) mod TTY_BUF_SIZE)) [0..<CHARS q]"

section \<open>The interface\<close>

text \<open>
  What the terminal code relies on: a bounded first-in first-out queue whose last character can be
  read and removed.
\<close>

locale char_queue = fifo wf seq cap put get enc
  for wf :: "'q \<Rightarrow> bool" and seq :: "'q \<Rightarrow> int list" and cap :: nat
    and put :: "int \<Rightarrow> 'q \<Rightarrow> 'q" and get :: "'q \<Rightarrow> int \<times> 'q" and enc :: "int \<Rightarrow> int" +
  fixes unput :: "'q \<Rightarrow> 'q" and lastch :: "'q \<Rightarrow> int"
  assumes unput_law: "wf q \<Longrightarrow> seq q \<noteq> [] \<Longrightarrow> wf (unput q) \<and> seq (unput q) = butlast (seq q)"
    and last_law: "wf q \<Longrightarrow> seq q \<noteq> [] \<Longrightarrow> lastch q = last (seq q)"
begin

lemma put_unput: "wf q \<Longrightarrow> length (seq q) < cap \<Longrightarrow> seq (unput (put c q)) = seq q"
  using put_law [of q c] unput_law [of "put c q"] by simp

end

section \<open>The macros keep their promise\<close>

lemma CHARS_lt: "CHARS q < 1024"
  by (simp add: CHARS_def TTY_BUF_SIZE_def)

lemma length_tq_seq [simp]: "length (tq_seq q) = CHARS q"
  by (simp add: tq_seq_def)

lemma CHARS_cases:
  "tq_wf q \<Longrightarrow> CHARS q = (if tq_tail q \<le> tq_head q then tq_head q - tq_tail q else tq_head q + 1024 - tq_tail q)"
  unfolding tq_wf_def CHARS_def TTY_BUF_SIZE_def by (auto simp: mod_if)

lemma LEFTQ_CHARS: "tq_wf q \<Longrightarrow> LEFTQ q = 1023 - CHARS q"
  by (simp add: CHARS_cases) (auto simp: tq_wf_def LEFTQ_def TTY_BUF_SIZE_def mod_if)

lemma EMPTY_seq: "tq_wf q \<Longrightarrow> EMPTY q \<longleftrightarrow> tq_seq q = []"
  using CHARS_cases [of q] by (auto simp: EMPTY_def tq_seq_def tq_wf_def TTY_BUF_SIZE_def split: if_splits)

lemma FULL_seq: "tq_wf q \<Longrightarrow> FULL q \<longleftrightarrow> length (tq_seq q) = 1023"
  using CHARS_lt [of q] by (auto simp: FULL_def LEFTQ_CHARS)

lemma head_pos: "tq_wf q \<Longrightarrow> (tq_tail q + CHARS q) mod 1024 = tq_head q"
  by (auto simp: CHARS_cases) (auto simp: tq_wf_def TTY_BUF_SIZE_def)

lemma nth_tq_seq: "i < CHARS q \<Longrightarrow> tq_seq q ! i = tq_buf q ! ((tq_tail q + i) mod 1024)"
  by (simp add: tq_seq_def TTY_BUF_SIZE_def)

lemma PUTCH_seq:
  assumes "tq_wf q" "length (tq_seq q) < 1023"
  shows "tq_wf (PUTCH c q) \<and> tq_seq (PUTCH c q) = tq_seq q @ [s8 c]"
proof -
  let ?q = "PUTCH c q"
  have w: "tq_wf ?q" using assms by (auto simp: tq_wf_def PUTCH_def INC_def TTY_BUF_SIZE_def)
  have n: "CHARS ?q = CHARS q + 1"
    using assms CHARS_cases [OF w] CHARS_cases [OF assms(1)]
    by (auto simp: PUTCH_def INC_def TTY_BUF_SIZE_def tq_wf_def mod_if split: if_splits)
  have "tq_seq ?q ! i = (tq_seq q @ [s8 c]) ! i" if i: "i < CHARS q + 1" for i
  proof (cases "i = CHARS q")
    case True
    then show ?thesis using assms n i head_pos [OF assms(1)]
      by (simp add: nth_tq_seq nth_append) (simp add: PUTCH_def tq_wf_def TTY_BUF_SIZE_def)
  next
    case False
    then have l: "i < CHARS q" using i by simp
    have "(tq_tail q + i) mod 1024 \<noteq> tq_head q"
    proof
      assume "(tq_tail q + i) mod 1024 = tq_head q"
      then have "(tq_tail q + i) mod 1024 = (tq_tail q + CHARS q) mod 1024" using head_pos [OF assms(1)] by simp
      then have "1024 dvd tq_tail q + CHARS q - (tq_tail q + i)"
        using l mod_eq_dvd_iff_nat [of "tq_tail q + i" "tq_tail q + CHARS q" 1024] by simp
      then have "1024 dvd CHARS q - i" by simp
      then show False using l CHARS_lt [of q] by (auto dest: dvd_imp_le)
    qed
    then show ?thesis using l n by (simp add: nth_tq_seq nth_append) (simp add: PUTCH_def)
  qed
  then show ?thesis using w n by (auto intro!: nth_equalityI)
qed

text \<open>A character put into a full queue leaves it empty: all that was queued is lost.\<close>

lemma PUTCH_full: "tq_wf q \<Longrightarrow> FULL q \<Longrightarrow> tq_seq (PUTCH c q) = []"
proof -
  assume w: "tq_wf q" "FULL q"
  then have "CHARS q = 1023" by (simp add: FULL_seq)
  then have "INC (tq_head q) = tq_tail q"
    using w CHARS_cases [of q] by (auto simp: INC_def TTY_BUF_SIZE_def tq_wf_def mod_if split: if_splits)
  then show ?thesis by (simp add: tq_seq_def CHARS_def PUTCH_def TTY_BUF_SIZE_def)
qed

lemma GETCH_seq:
  assumes "tq_wf q" "tq_seq q \<noteq> []"
  shows "fst (GETCH q) = hd (tq_seq q) \<and> tq_wf (snd (GETCH q)) \<and> tq_seq (snd (GETCH q)) = tl (tq_seq q)"
proof -
  let ?q = "snd (GETCH q)"
  have c: "0 < CHARS q" using assms(2) by (metis length_tq_seq length_greater_0_conv)
  have w: "tq_wf ?q" using assms by (auto simp: tq_wf_def GETCH_def INC_def TTY_BUF_SIZE_def)
  have n: "CHARS q = CHARS ?q + 1"
    using c CHARS_cases [OF w] CHARS_cases [OF assms(1)] assms(1)
    by (auto simp: GETCH_def INC_def TTY_BUF_SIZE_def tq_wf_def mod_if split: if_splits)
  have "tq_seq ?q ! i = tq_seq q ! Suc i" if "i < CHARS ?q" for i
    using that n by (simp add: nth_tq_seq) (simp add: GETCH_def INC_def TTY_BUF_SIZE_def mod_simps)
  then have "tq_seq ?q = tl (tq_seq q)" using n by (auto intro!: nth_equalityI simp: nth_tl)
  moreover have "fst (GETCH q) = hd (tq_seq q)"
    using c assms by (simp add: hd_conv_nth nth_tq_seq) (simp add: GETCH_def tq_wf_def TTY_BUF_SIZE_def)
  ultimately show ?thesis using w by simp
qed

lemma UNPUT_seq:
  assumes "tq_wf q" "tq_seq q \<noteq> []"
  shows "tq_wf (UNPUT q) \<and> tq_seq (UNPUT q) = butlast (tq_seq q)"
proof -
  have c: "0 < CHARS q" using assms(2) by (metis length_tq_seq length_greater_0_conv)
  have w: "tq_wf (UNPUT q)" using assms by (auto simp: tq_wf_def UNPUT_def DEC_def TTY_BUF_SIZE_def)
  have n: "CHARS q = CHARS (UNPUT q) + 1"
    using c CHARS_cases [OF w] CHARS_cases [OF assms(1)] assms(1)
    by (auto simp: UNPUT_def DEC_def TTY_BUF_SIZE_def tq_wf_def mod_if split: if_splits)
  then have "tq_seq (UNPUT q) = butlast (tq_seq q)"
    by (auto intro!: nth_equalityI simp: nth_butlast nth_tq_seq) (simp add: UNPUT_def)
  then show ?thesis using w by simp
qed

lemma LAST_seq:
  assumes "tq_wf q" "tq_seq q \<noteq> []"
  shows "LAST q = last (tq_seq q)"
proof -
  have c: "0 < CHARS q" using assms(2) by (metis length_tq_seq length_greater_0_conv)
  have "(tq_tail q + (CHARS q - 1)) mod 1024 = DEC (tq_head q)"
    using c CHARS_cases [OF assms(1)] assms(1)
    by (auto simp: DEC_def TTY_BUF_SIZE_def tq_wf_def mod_if split: if_splits)
  then show ?thesis using c assms by (simp add: last_conv_nth nth_tq_seq LAST_def)
qed

interpretation tq: char_queue tq_wf tq_seq 1023 PUTCH GETCH s8 UNPUT LAST
proof
  show "tq_wf q \<Longrightarrow> length (tq_seq q) \<le> 1023" for q using CHARS_lt [of q] by simp
qed (use PUTCH_seq GETCH_seq UNPUT_seq LAST_seq in \<open>blast+\<close>)

end
