(* ===== verification/Sched.thy ===== *)
theory Sched
  imports Prelude
begin

text \<open>
  Tasks and the scheduler: \<open>struct task_struct\<close> of src/include/linux/sched.h and the functions of
  src/kernel/sched.c. A task pointer is the number of its slot in \<open>task[]\<close>; slot 0 is the idle
  task. The co-processor state, the interrupt gates and the timer chip are hardware and are left
  out, as are the descriptor tables. A function that goes on after \<open>schedule()\<close> is split there: its
  first part ends with the task switch, its second part is what the task does when it runs again.
\<close>

unbundle bit_operations_syntax

section \<open>Tasks\<close>

record tss_struct =
  tss_back_link :: int
  tss_esp0 :: int
  tss_ss0 :: int
  tss_eip :: int
  tss_eflags :: int
  tss_eax :: int
  tss_ecx :: int
  tss_edx :: int
  tss_ebx :: int
  tss_esp :: int
  tss_ebp :: int
  tss_esi :: int
  tss_edi :: int
  tss_es :: int
  tss_cs :: int
  tss_ss :: int
  tss_ds :: int
  tss_fs :: int
  tss_gs :: int
  tss_ldt :: int
  tss_trace_bitmap :: int

text \<open>
  \<open>ldt[1]\<close> and \<open>ldt[2]\<close> by the base and the limit of the segment they describe, \<open>pwd\<close>, \<open>root\<close> and
  \<open>filp\<close> by the slots of the inode and file tables.
\<close>

record task_struct =
  t_state :: int
  t_counter :: int
  t_priority :: int
  t_signal :: "32 word"
  t_sig_restorer :: int
  t_sig_fn :: "int list"
  t_exit_code :: int
  t_end_code :: int
  t_end_data :: int
  t_brk :: int
  t_start_stack :: int
  t_pid :: int
  t_father :: int
  t_pgrp :: int
  t_session :: int
  t_leader :: int
  t_uid :: int
  t_euid :: int
  t_suid :: int
  t_gid :: int
  t_egid :: int
  t_sgid :: int
  t_alarm :: int
  t_utime :: int
  t_stime :: int
  t_cutime :: int
  t_cstime :: int
  t_start_time :: int
  t_used_math :: int
  t_tty :: int
  t_umask :: int
  t_pwd :: "nat option"
  t_root :: "nat option"
  t_close_on_exec :: "32 word"
  t_filp :: "nat option list"
  t_code_base :: int
  t_code_limit :: int
  t_data_base :: int
  t_data_limit :: int
  t_tss :: tss_struct

definition NR_TASKS :: nat where "NR_TASKS = 64"
definition HZ :: int where "HZ = 100"

definition TASK_RUNNING :: int where "TASK_RUNNING = 0"
definition TASK_INTERRUPTIBLE :: int where "TASK_INTERRUPTIBLE = 1"
definition TASK_UNINTERRUPTIBLE :: int where "TASK_UNINTERRUPTIBLE = 2"
definition TASK_ZOMBIE :: int where "TASK_ZOMBIE = 3"

lemmas task_states = TASK_RUNNING_def TASK_INTERRUPTIBLE_def TASK_UNINTERRUPTIBLE_def TASK_ZOMBIE_def

text \<open>The bit of a signal in the mask, \<open>1 << (sig - 1)\<close>.\<close>

definition sig_bit :: "int \<Rightarrow> 32 word" where
  "sig_bit sig = push_bit (nat (sig - 1)) 1"

definition SIGINT :: int where "SIGINT = 2"
definition SIGALRM :: int where "SIGALRM = 14"
definition SIGCHLD :: int where "SIGCHLD = 17"

record sched_state =
  tasks :: "task_struct option list"
  current :: nat
  jiffies :: int
  startup_time :: int
  last_task_used_math :: "nat option"
  last_pid :: int

text \<open>The running task, and an update of it.\<close>

definition cur :: "sched_state \<Rightarrow> task_struct" where
  "cur s = the (tasks s ! current s)"

definition upd_task :: "nat \<Rightarrow> (task_struct \<Rightarrow> task_struct) \<Rightarrow> sched_state \<Rightarrow> sched_state" where
  "upd_task i f s = s\<lparr>tasks := (tasks s)[i := map_option f (tasks s ! i)]\<rparr>"

definition upd_cur :: "(task_struct \<Rightarrow> task_struct) \<Rightarrow> sched_state \<Rightarrow> sched_state" where
  "upd_cur f s = upd_task (current s) f s"

text \<open>\<open>CURRENT_TIME\<close>\<close>

definition current_time :: "sched_state \<Rightarrow> int" where
  "current_time s = s32 (startup_time s + cdiv (jiffies s) HZ)"

section \<open>The scheduler\<close>

text \<open>The loops \<open>for (p = &LAST_TASK; p > &FIRST_TASK; --p) if (*p) ...\<close> treat each task alone.\<close>

fun each_task :: "(task_struct \<Rightarrow> task_struct) \<Rightarrow> task_struct option list \<Rightarrow> task_struct option list" where
  "each_task f [] = []"
| "each_task f (t0 # ts) = t0 # map (map_option f) ts"

definition check_alarm :: "int \<Rightarrow> task_struct \<Rightarrow> task_struct" where
  "check_alarm now t =
     (let t = (if t_alarm t \<noteq> 0 \<and> t_alarm t < now
               then t\<lparr>t_signal := t_signal t OR sig_bit SIGALRM, t_alarm := 0\<rparr> else t) in
      if t_signal t \<noteq> 0 \<and> t_state t = TASK_INTERRUPTIBLE then t\<lparr>t_state := TASK_RUNNING\<rparr> else t)"

fun pick :: "nat \<Rightarrow> task_struct option list \<Rightarrow> int \<Rightarrow> nat \<Rightarrow> int \<times> nat" where
  "pick 0 ts c next = (c, next)"
| "pick (Suc i) ts c next =
     (case ts ! Suc i of
        None \<Rightarrow> pick i ts c next
      | Some t \<Rightarrow> if t_state t = TASK_RUNNING \<and> t_counter t > c
                  then pick i ts (t_counter t) (Suc i) else pick i ts c next)"

definition recharge :: "task_struct \<Rightarrow> task_struct" where
  "recharge t = t\<lparr>t_counter := s32 (t_counter t div 2 + t_priority t)\<rparr>"

partial_function (option) sched_loop :: "task_struct option list \<Rightarrow> (nat \<times> task_struct option list) option" where
  "sched_loop ts =
     (case pick (NR_TASKS - 1) ts (-1) 0 of (c, next) \<Rightarrow>
        if c \<noteq> 0 then Some (next, ts) else sched_loop (each_task recharge ts))"

definition schedule :: "sched_state \<Rightarrow> sched_state option" where
  "schedule s =
     (case sched_loop (each_task (check_alarm (jiffies s)) (tasks s)) of
        None \<Rightarrow> None
      | Some (next, ts) \<Rightarrow> Some (s\<lparr>tasks := ts, current := next\<rparr>))"

section \<open>Sleeping and waking up\<close>

definition sys_pause :: "sched_state \<Rightarrow> sched_state option" where
  "sys_pause s = schedule (upd_cur (\<lambda>t. t\<lparr>t_state := TASK_INTERRUPTIBLE\<rparr>) s)"

text \<open>
  \<open>sleep_on\<close> up to its task switch: the new contents of the wait queue pointer, and the pointer
  \<open>tmp\<close> the sleeper keeps; then what it does when it runs again.
\<close>

definition sleep_on :: "nat option \<Rightarrow> sched_state \<Rightarrow> (nat option \<times> nat option \<times> sched_state) outcome" where
  "sleep_on p s =
     (if current s = 0 then Panic ''task[0] trying to sleep''
      else (case schedule (upd_cur (\<lambda>t. t\<lparr>t_state := TASK_UNINTERRUPTIBLE\<rparr>) s) of
              None \<Rightarrow> Fuel
            | Some s' \<Rightarrow> Done (p, Some (current s), s')))"

definition set_running :: "nat option \<Rightarrow> sched_state \<Rightarrow> sched_state" where
  "set_running p s = (case p of None \<Rightarrow> s | Some i \<Rightarrow> upd_task i (\<lambda>t. t\<lparr>t_state := TASK_RUNNING\<rparr>) s)"

definition sleep_on_resume :: "nat option \<Rightarrow> sched_state \<Rightarrow> sched_state" where
  "sleep_on_resume tmp s = set_running tmp s"

definition interruptible_sleep_on :: "nat option \<Rightarrow> sched_state \<Rightarrow> (nat option \<times> nat option \<times> sched_state) outcome" where
  "interruptible_sleep_on p s =
     (if current s = 0 then Panic ''task[0] trying to sleep''
      else (case schedule (upd_cur (\<lambda>t. t\<lparr>t_state := TASK_INTERRUPTIBLE\<rparr>) s) of
              None \<Rightarrow> Fuel
            | Some s' \<Rightarrow> Done (p, Some (current s), s')))"

text \<open>
  The part after the task switch: when another task is at the head of the queue, that one is made
  runnable and the task sleeps again (\<open>None\<close> as the first component of the result).
\<close>

definition interruptible_resume ::
  "nat option \<Rightarrow> nat option \<Rightarrow> sched_state \<Rightarrow> (nat option option \<times> sched_state) outcome" where
  "interruptible_resume tmp p s =
     (if p \<noteq> None \<and> p \<noteq> Some (current s) then
        (case schedule (upd_cur (\<lambda>t. t\<lparr>t_state := TASK_INTERRUPTIBLE\<rparr>) (set_running p s)) of
           None \<Rightarrow> Fuel | Some s' \<Rightarrow> Done (None, s'))
      else Done (Some None, set_running tmp s))"

definition wake_up :: "nat option \<Rightarrow> sched_state \<Rightarrow> nat option \<times> sched_state" where
  "wake_up p s = (None, set_running p s)"

section \<open>Time and identity\<close>

definition do_timer :: "int \<Rightarrow> sched_state \<Rightarrow> sched_state option" where
  "do_timer cpl s =
     (let s = upd_cur (if cpl \<noteq> 0 then (\<lambda>t. t\<lparr>t_utime := s32 (t_utime t + 1)\<rparr>)
                       else (\<lambda>t. t\<lparr>t_stime := s32 (t_stime t + 1)\<rparr>)) s;
          s = upd_cur (\<lambda>t. t\<lparr>t_counter := s32 (t_counter t - 1)\<rparr>) s in
      if t_counter (cur s) > 0 then Some s
      else let s = upd_cur (\<lambda>t. t\<lparr>t_counter := 0\<rparr>) s in
           if cpl = 0 then Some s else schedule s)"

definition sys_alarm :: "int \<Rightarrow> sched_state \<Rightarrow> int \<times> sched_state" where
  "sys_alarm seconds s =
     (seconds, upd_cur (\<lambda>t. t\<lparr>t_alarm := (if seconds > 0 then s32 (jiffies s + HZ * seconds) else 0)\<rparr>) s)"

definition sys_getpid :: "sched_state \<Rightarrow> int" where "sys_getpid s = t_pid (cur s)"
definition sys_getppid :: "sched_state \<Rightarrow> int" where "sys_getppid s = t_father (cur s)"
definition sys_getuid :: "sched_state \<Rightarrow> int" where "sys_getuid s = t_uid (cur s)"
definition sys_geteuid :: "sched_state \<Rightarrow> int" where "sys_geteuid s = t_euid (cur s)"
definition sys_getgid :: "sched_state \<Rightarrow> int" where "sys_getgid s = t_gid (cur s)"
definition sys_getegid :: "sched_state \<Rightarrow> int" where "sys_getegid s = t_egid (cur s)"

definition sys_nice :: "int \<Rightarrow> sched_state \<Rightarrow> int \<times> sched_state" where
  "sys_nice increment s =
     (0, if s32 (t_priority (cur s) - increment) > 0
         then upd_cur (\<lambda>t. t\<lparr>t_priority := s32 (t_priority t - increment)\<rparr>) s else s)"

definition catchable :: "int list" where
  "catchable = [1, 2, 3, 4, 5, 6, 8, 10, 11, 12, 13, 14, 17]"

definition sys_signal :: "int \<Rightarrow> int \<Rightarrow> int \<Rightarrow> sched_state \<Rightarrow> (int \<times> sched_state) outcome" where
  "sys_signal sig addr restorer s =
     (if sig \<in> set catchable then
        obind (rd (t_sig_fn (cur s)) (nat (sig - 1))) (\<lambda>i.
        Done (i, upd_cur (\<lambda>t. t\<lparr>t_sig_fn := (t_sig_fn t)[nat (sig - 1) := addr], t_sig_restorer := restorer\<rparr>) s))
      else Done (-1, s))"

section \<open>The first task\<close>

text \<open>\<open>INIT_TASK\<close>, and the task table after \<open>sched_init\<close>.\<close>

definition init_tss :: tss_struct where
  "init_tss = \<lparr>tss_back_link = 0, tss_esp0 = 4096, tss_ss0 = 0x10, tss_eip = 0, tss_eflags = 0,
     tss_eax = 0, tss_ecx = 0, tss_edx = 0, tss_ebx = 0, tss_esp = 0, tss_ebp = 0, tss_esi = 0,
     tss_edi = 0, tss_es = 0x17, tss_cs = 0x17, tss_ss = 0x17, tss_ds = 0x17, tss_fs = 0x17,
     tss_gs = 0x17, tss_ldt = 40, tss_trace_bitmap = 0x80000000\<rparr>"

definition init_task :: task_struct where
  "init_task = \<lparr>t_state = 0, t_counter = 15, t_priority = 15, t_signal = 0, t_sig_restorer = 0,
     t_sig_fn = replicate 32 0, t_exit_code = 0, t_end_code = 0, t_end_data = 0, t_brk = 0,
     t_start_stack = 0, t_pid = 0, t_father = -1, t_pgrp = 0, t_session = 0, t_leader = 0,
     t_uid = 0, t_euid = 0, t_suid = 0, t_gid = 0, t_egid = 0, t_sgid = 0, t_alarm = 0,
     t_utime = 0, t_stime = 0, t_cutime = 0, t_cstime = 0, t_start_time = 0, t_used_math = 0,
     t_tty = -1, t_umask = 91, t_pwd = None, t_root = None, t_close_on_exec = 0,
     t_filp = replicate 20 None, t_code_base = 0, t_code_limit = 0xa0000, t_data_base = 0,
     t_data_limit = 0xa0000, t_tss = init_tss\<rparr>"

definition sched_init :: sched_state where
  "sched_init = \<lparr>tasks = Some init_task # replicate 63 None, current = 0, jiffies = 0,
     startup_time = 0, last_task_used_math = None, last_pid = 0\<rparr>"

section \<open>The scheduler returns, and picks well\<close>

definition task_ok :: "task_struct \<Rightarrow> bool" where
  "task_ok t \<longleftrightarrow> 0 \<le> t_counter t \<and> t_counter t < 2 ^ 31 \<and> 0 < t_priority t \<and> t_priority t < 2 ^ 30"

definition tasks_ok :: "task_struct option list \<Rightarrow> bool" where
  "tasks_ok ts \<longleftrightarrow> length ts = NR_TASKS \<and> ts ! 0 \<noteq> None \<and> (\<forall>t. Some t \<in> set ts \<longrightarrow> task_ok t)"

definition runnable :: "task_struct option list \<Rightarrow> nat \<Rightarrow> bool" where
  "runnable ts i \<longleftrightarrow> 0 < i \<and> i < length ts \<and> (\<exists>t. ts ! i = Some t \<and> t_state t = TASK_RUNNING)"

lemma length_each_task [simp]: "length (each_task f ts) = length ts"
  by (cases ts) auto

lemma nth_each_task:
  "i < length ts \<Longrightarrow> each_task f ts ! i = (if i = 0 then ts ! 0 else map_option f (ts ! i))"
  by (cases ts; cases i) auto

lemma each_task_ok:
  assumes "tasks_ok ts" "\<And>t. task_ok t \<Longrightarrow> task_ok (f t)"
  shows "tasks_ok (each_task f ts)"
proof -
  have n: "task_ok t" if "i < length ts" "ts ! i = Some t" for i t
    using assms(1) that unfolding tasks_ok_def by (metis nth_mem)
  have "task_ok t" if m: "Some t \<in> set (each_task f ts)" for t
  proof -
    obtain i where i: "i < length ts" "each_task f ts ! i = Some t" using m by (auto simp: in_set_conv_nth)
    then show ?thesis using n [OF i(1)] assms(2) by (cases "i = 0") (auto simp: nth_each_task)
  qed
  then show ?thesis using assms(1) by (auto simp: tasks_ok_def nth_each_task NR_TASKS_def)
qed

lemma recharge_ok: "task_ok t \<Longrightarrow> task_ok (recharge t) \<and> 0 < t_counter (recharge t)"
  by (auto simp: task_ok_def recharge_def s32_id)

lemma check_alarm_ok: "task_ok t \<Longrightarrow> task_ok (check_alarm now t)"
  by (auto simp: task_ok_def check_alarm_def Let_def)

lemma pick_spec:
  assumes "pick i ts c next = (c', next')"
  shows "c \<le> c' \<and> ((c' = c \<and> next' = next) \<or>
      (c < c' \<and> 0 < next' \<and> next' \<le> i \<and>
        (\<exists>t. ts ! next' = Some t \<and> t_state t = TASK_RUNNING \<and> t_counter t = c'))) \<and>
    (\<forall>j t. 0 < j \<and> j \<le> i \<and> ts ! j = Some t \<and> t_state t = TASK_RUNNING \<longrightarrow> t_counter t \<le> c')"
  using assms
proof (induction i arbitrary: c "next")
  case 0
  then show ?case by auto
next
  case (Suc i)
  let ?go = "\<exists>t. ts ! Suc i = Some t \<and> t_state t = TASK_RUNNING \<and> t_counter t > c"
  define d n where "d = (if ?go then t_counter (the (ts ! Suc i)) else c)" and "n = (if ?go then Suc i else next)"
  have "pick i ts d n = (c', next')"
    using Suc.prems by (auto simp: d_def n_def split: option.splits if_splits)
  from Suc.IH [OF this] have r: "d \<le> c'"
      "(c' = d \<and> next' = n) \<or> (d < c' \<and> 0 < next' \<and> next' \<le> i \<and>
        (\<exists>t. ts ! next' = Some t \<and> t_state t = TASK_RUNNING \<and> t_counter t = c'))"
      "\<forall>j t. 0 < j \<and> j \<le> i \<and> ts ! j = Some t \<and> t_state t = TASK_RUNNING \<longrightarrow> t_counter t \<le> c'" by auto
  have dc: "c \<le> d" and top: "\<And>t. ts ! Suc i = Some t \<Longrightarrow> t_state t = TASK_RUNNING \<Longrightarrow> t_counter t \<le> d"
    by (auto simp: d_def)
  have "t_counter t \<le> c'" if "0 < j" "j \<le> Suc i" "ts ! j = Some t" "t_state t = TASK_RUNNING" for j t
    using that r(1) r(3) [rule_format, of j t] top [of t] by (cases "j = Suc i") auto
  moreover have "(c' = c \<and> next' = next) \<or> (c < c' \<and> 0 < next' \<and> next' \<le> Suc i \<and>
      (\<exists>t. ts ! next' = Some t \<and> t_state t = TASK_RUNNING \<and> t_counter t = c'))"
    using r dc by (cases ?go) (auto simp: d_def n_def)
  ultimately show ?case using r dc by auto
qed

text \<open>What the choice of the next task is.\<close>

definition good_choice :: "task_struct option list \<Rightarrow> nat \<Rightarrow> bool" where
  "good_choice ts n \<longleftrightarrow>
     (n = 0 \<and> (\<forall>i. \<not> runnable ts i)) \<or>
     (runnable ts n \<and> 0 < t_counter (the (ts ! n)) \<and>
      (\<forall>i. runnable ts i \<longrightarrow> t_counter (the (ts ! i)) \<le> t_counter (the (ts ! n))))"

lemma pick_good:
  assumes "tasks_ok ts" "pick 63 ts (-1) 0 = (c, n)" "c \<noteq> 0"
  shows "good_choice ts n"
proof -
  note p = pick_spec [OF assms(2)]
  have l: "length ts = 64" using assms(1) by (auto simp: tasks_ok_def NR_TASKS_def)
  have ok: "0 \<le> t_counter t" if "ts ! i = Some t" "i < length ts" for i t
    using assms(1) that unfolding tasks_ok_def task_ok_def by (metis nth_mem)
  have b: "t_counter (the (ts ! i)) \<le> c \<and> 0 \<le> t_counter (the (ts ! i))" if r: "runnable ts i" for i
  proof -
    obtain t where t: "0 < i" "i \<le> 63" "ts ! i = Some t" "t_state t = TASK_RUNNING"
      using r l by (auto simp: runnable_def)
    then show ?thesis using p ok [of i t] l by auto
  qed
  show ?thesis
  proof (cases "c = -1")
    case True
    then have "n = 0" using p by auto
    moreover have "\<not> runnable ts i" for i using b [of i] True by auto
    ultimately show ?thesis by (simp add: good_choice_def)
  next
    case False
    then obtain t where t: "0 < n" "n \<le> 63" "ts ! n = Some t" "t_state t = TASK_RUNNING" "t_counter t = c"
      using p by auto
    then have "runnable ts n" using l by (auto simp: runnable_def)
    then show ?thesis using t b False p assms(3) by (auto simp: good_choice_def)
  qed
qed

lemma sched_loop_eq:
  "sched_loop ts = (case pick 63 ts (-1) 0 of (c, next) \<Rightarrow>
     if c \<noteq> 0 then Some (next, ts) else sched_loop (each_task recharge ts))"
  by (subst sched_loop.simps) (simp add: NR_TASKS_def)

lemma sched_loop_ok:
  assumes "tasks_ok ts"
  shows "\<exists>n ts'. sched_loop ts = Some (n, ts') \<and> tasks_ok ts' \<and> good_choice ts' n \<and>
    (ts' = ts \<or> ts' = each_task recharge ts)"
proof -
  obtain c n where p: "pick 63 ts (-1) 0 = (c, n)" by fastforce
  show ?thesis
  proof (cases "c = 0")
    case False
    then have "sched_loop ts = Some (n, ts)" using p by (subst sched_loop_eq) simp
    then show ?thesis using pick_good [OF assms p False] assms by blast
  next
    case True
    let ?ts = "each_task recharge ts"
    have ok: "tasks_ok ?ts" using each_task_ok [OF assms] recharge_ok by blast
    obtain c' n' where p': "pick 63 ?ts (-1) 0 = (c', n')" by fastforce
    obtain t where t: "0 < n" "n \<le> 63" "ts ! n = Some t" "t_state t = TASK_RUNNING"
      using pick_spec [OF p] True by auto
    have "Some t \<in> set ts" using t assms nth_mem [of n ts] by (auto simp: tasks_ok_def NR_TASKS_def)
    then have "task_ok t" using assms by (auto simp: tasks_ok_def)
    then have "0 < t_counter (recharge t)" using recharge_ok by blast
    moreover have "?ts ! n = Some (recharge t)" "t_state (recharge t) = TASK_RUNNING"
      using t assms by (simp_all add: nth_each_task tasks_ok_def NR_TASKS_def recharge_def)
    ultimately have "t_counter (recharge t) \<le> c'" using pick_spec [OF p'] t(1,2) by blast
    then have "0 < c'" using \<open>0 < t_counter (recharge t)\<close> by simp
    moreover have "sched_loop ts = sched_loop ?ts" using p True by (subst sched_loop_eq) simp
    moreover have "sched_loop ?ts = Some (n', ?ts)" using p' \<open>0 < c'\<close> by (subst sched_loop_eq) simp
    ultimately show ?thesis using pick_good [OF ok p'] ok by auto
  qed
qed


lemma schedule_ok:
  assumes "tasks_ok (tasks s)"
  shows "\<exists>s'. schedule s = Some s' \<and> tasks_ok (tasks s') \<and> good_choice (tasks s') (current s')"
proof -
  have "tasks_ok (each_task (check_alarm (jiffies s)) (tasks s))"
    using assms check_alarm_ok by (intro each_task_ok)
  from sched_loop_ok [OF this] show ?thesis by (auto simp: schedule_def)
qed

section \<open>Wait queues\<close>

text \<open>
  A wait queue links its sleepers through the local variables \<open>tmp\<close> of their calls of \<open>sleep_on\<close>:
  \<open>tmp i\<close> is the one of the task in slot \<open>i\<close>. The sleepers, latest first.
\<close>

inductive sleepers :: "nat option \<Rightarrow> (nat \<Rightarrow> nat option) \<Rightarrow> nat list \<Rightarrow> sched_state \<Rightarrow> bool" where
  sl_none: "sleepers None tmp [] s"
| sl_sleep: "sleepers p tmp is s \<Longrightarrow> current s \<notin> set is \<Longrightarrow> sleep_on p s = Done (t, p', s') \<Longrightarrow>
    sleepers p' (tmp(current s := t)) (current s # is) s'"
| sl_other: "sleepers p tmp is s \<Longrightarrow> sleepers p tmp is s'"

fun linked :: "nat option \<Rightarrow> (nat \<Rightarrow> nat option) \<Rightarrow> nat list \<Rightarrow> bool" where
  "linked p tmp [] \<longleftrightarrow> p = None"
| "linked p tmp (i # is) \<longleftrightarrow> p = Some i \<and> linked (tmp i) tmp is"

lemma linked_other: "i \<notin> set is \<Longrightarrow> linked p (tmp(i := t)) is = linked p tmp is"
  by (induction "is" arbitrary: p) auto

lemma sleepers_linked: "sleepers p tmp is s \<Longrightarrow> linked p tmp is"
  by (induction rule: sleepers.induct) (auto simp: sleep_on_def linked_other linked_other [unfolded fun_upd_def] split: if_splits option.splits)

text \<open>The sleepers run again one after the other, each waking the one before it.\<close>

fun resume_all :: "(nat \<Rightarrow> nat option) \<Rightarrow> nat list \<Rightarrow> sched_state \<Rightarrow> sched_state" where
  "resume_all tmp [] s = s"
| "resume_all tmp (i # is) s = resume_all tmp is (sleep_on_resume (tmp i) s)"

definition running :: "nat \<Rightarrow> sched_state \<Rightarrow> bool" where
  "running i s \<longleftrightarrow> (\<forall>t. tasks s ! i = Some t \<longrightarrow> t_state t = TASK_RUNNING)"

lemma set_running_runs: "i < length (tasks s) \<Longrightarrow> running i (set_running (Some i) s)"
  by (auto simp: running_def set_running_def upd_task_def)

lemma set_running_keeps: "running i s \<Longrightarrow> running i (set_running p s)"
  by (cases p) (auto simp: running_def set_running_def upd_task_def nth_update_cases)

lemma set_running_length [simp]: "length (tasks (set_running p s)) = length (tasks s)"
  by (cases p) (auto simp: set_running_def upd_task_def)

lemma resume_all_keeps: "running i s \<Longrightarrow> running i (resume_all tmp is s)"
  by (induction "is" arbitrary: s) (auto simp: sleep_on_resume_def set_running_keeps)

lemma resume_all_runs:
  "linked p tmp is \<Longrightarrow> (\<forall>i \<in> set is. i < length (tasks s)) \<Longrightarrow> i \<in> set is \<Longrightarrow>
   running i (resume_all tmp is (set_running p s))"
proof (induction "is" arbitrary: p s)
  case (Cons j js)
  let ?s = "set_running p s"
  have r: "running j ?s" using Cons.prems set_running_runs by simp
  show ?case
  proof (cases "i = j")
    case True
    then show ?thesis using r resume_all_keeps set_running_keeps by (auto simp: sleep_on_resume_def)
  next
    case False
    then show ?thesis using Cons.IH [of "tmp j" ?s] Cons.prems by (simp add: sleep_on_resume_def)
  qed
qed simp

lemma set_running_frame: "p \<noteq> Some i \<Longrightarrow> tasks (set_running p s) ! i = tasks s ! i"
  by (cases p) (auto simp: set_running_def upd_task_def)

lemma resume_all_frame:
  "linked p tmp is \<Longrightarrow> i \<notin> set is \<Longrightarrow> tasks (resume_all tmp is (set_running p s)) ! i = tasks s ! i"
proof (induction "is" arbitrary: p s)
  case Nil
  then show ?case by (simp add: set_running_def)
next
  case (Cons j js)
  then show ?case using Cons.IH [of "tmp j" "set_running p s"]
    by (simp add: sleep_on_resume_def set_running_frame)
qed


section \<open>Properties of the scheduler\<close>

text \<open>
  C17: \<open>schedule\<close> returns whenever every task has a positive priority and its counter in range, and
  it switches to a runnable task whose remaining time is positive and the largest of all runnable
  tasks, or to the idle task when none is runnable; the tasks stay in range.
\<close>

theorem schedule_returns_best:
  assumes "tasks_ok (tasks s)"
  shows "\<exists>s'. schedule s = Some s' \<and> tasks_ok (tasks s') \<and>
    ((current s' = 0 \<and> (\<forall>i. \<not> runnable (tasks s') i)) \<or>
     (runnable (tasks s') (current s') \<and> 0 < t_counter (cur s') \<and>
      (\<forall>i. runnable (tasks s') i \<longrightarrow> t_counter (the (tasks s' ! i)) \<le> t_counter (cur s'))))"
  using schedule_ok [OF assms] by (auto simp: good_choice_def cur_def)

theorem schedule_returns_best_witness:
  "\<exists>s'. schedule sched_init = Some s' \<and> tasks_ok (tasks s') \<and>
    ((current s' = 0 \<and> (\<forall>i. \<not> runnable (tasks s') i)) \<or>
     (runnable (tasks s') (current s') \<and> 0 < t_counter (cur s') \<and>
      (\<forall>i. runnable (tasks s') i \<longrightarrow> t_counter (the (tasks s' ! i)) \<le> t_counter (cur s'))))"
proof -
  have "tasks_ok (tasks sched_init)"
    by (auto simp: tasks_ok_def sched_init_def init_task_def task_ok_def NR_TASKS_def)
  then show ?thesis by (rule schedule_returns_best)
qed

text \<open>
  C18: every task that called \<open>sleep_on\<close> on a wait queue is runnable again after one \<open>wake_up\<close> of
  the queue and the resumption of the sleepers, latest first, and no other task is touched: the
  chain through the sleepers' local variables loses nobody.
\<close>

theorem wake_up_reaches_all:
  assumes "sleepers p tmp is s" "length (tasks s') = NR_TASKS" "\<forall>i \<in> set is. i < NR_TASKS"
  shows "(\<forall>i \<in> set is. running i (resume_all tmp is (snd (wake_up p s')))) \<and>
    (\<forall>i. i \<notin> set is \<longrightarrow> tasks (resume_all tmp is (snd (wake_up p s'))) ! i = tasks s' ! i)"
  using resume_all_runs [OF sleepers_linked [OF assms(1)], of s'] resume_all_frame [OF sleepers_linked [OF assms(1)], of _ s'] assms
  by (simp add: wake_up_def)

theorem wake_up_reaches_all_witness:
  "\<exists>p tmp s. sleepers p tmp [1] s \<and> running 1 (resume_all tmp [1] (snd (wake_up p s)))"
proof -
  let ?s = "sched_init\<lparr>tasks := Some init_task # Some init_task # replicate 62 None, current := 1\<rparr>"
  let ?u = "upd_cur (\<lambda>t. t\<lparr>t_state := TASK_UNINTERRUPTIBLE\<rparr>) ?s"
  have "tasks_ok (tasks ?u)"
    by (auto simp: tasks_ok_def upd_cur_def upd_task_def init_task_def task_ok_def NR_TASKS_def)
  then obtain s' where s': "schedule ?u = Some s'" "tasks_ok (tasks s')" using schedule_ok by blast
  have "sleep_on None ?s = Done (None, Some 1, s')" using s' by (simp add: sleep_on_def)
  then have "sleepers (Some 1) ((\<lambda>i. None)(current ?s := None)) (current ?s # []) s'"
    by (intro sl_sleep [OF sl_none]) simp_all
  then have sl: "sleepers (Some 1) (\<lambda>i. None) [1] s'" by simp
  have "length (tasks s') = NR_TASKS" using s'(2) by (simp add: tasks_ok_def)
  from wake_up_reaches_all [OF sl this] sl show ?thesis by (auto simp: NR_TASKS_def)
qed


end
