(* ===== verification/Console.thy ===== *)
theory Console
  imports Prelude
begin

text \<open>
  The VT102 console driver of src/kernel/console.c: the cursor, the scrolling region, the window
  of the video memory that is on screen, and the state machine of \<open>con_write\<close> that interprets one
  character at a time. The string instructions of the assembly are loops over 16-bit cells of
  the video memory, and an access outside that memory is an outcome of its own.
\<close>

section \<open>The state of the driver\<close>

definition SCREEN_START :: int where "SCREEN_START = 753664"
definition SCREEN_END :: int where "SCREEN_END = 786432"

text \<open>\<open>lines\<close> and \<open>columns\<close> are variables of the source that nothing assigns.\<close>

definition lines :: int where "lines = 25"
definition columns :: int where "columns = 80"

text \<open>
  The variables of the driver, with the video memory as a map from the address of a cell to its
  contents (attribute in the high byte, character in the low one), and the registers of the video
  controller that \<open>set_origin\<close> and \<open>set_cursor\<close> program.
\<close>

record console =
  con_origin :: int
  con_scr_end :: int
  con_pos :: int
  con_x :: int
  con_y :: int
  con_top :: int
  con_bottom :: int
  con_state :: int
  con_npar :: int
  con_par :: "int list"
  con_ques :: bool
  con_attr :: int
  con_saved_x :: int
  con_saved_y :: int
  con_vmem :: "int \<Rightarrow> int"
  con_crtc :: "int \<Rightarrow> int"

definition blank :: int where "blank = 0x0720"

section \<open>Video memory\<close>

definition vid_ok :: "int \<Rightarrow> bool" where
  "vid_ok a \<longleftrightarrow> SCREEN_START \<le> a \<and> a + 2 \<le> SCREEN_END \<and> even a"

definition vget :: "int \<Rightarrow> (int \<Rightarrow> int) \<Rightarrow> int outcome" where
  "vget a m = (if vid_ok a then Done (m a) else Oob)"

definition vput :: "int \<Rightarrow> int \<Rightarrow> (int \<Rightarrow> int) \<Rightarrow> (int \<Rightarrow> int) outcome" where
  "vput a v m = (if vid_ok a then Done (m(a := v)) else Oob)"

text \<open>
  \<open>rep stosw\<close> stores a word \<open>n\<close> times, \<open>rep movsl\<close> moves \<open>n\<close> double words; the last argument but
  the memory is the step, negative after \<open>std\<close>.
\<close>

fun stosw :: "nat \<Rightarrow> int \<Rightarrow> int \<Rightarrow> int \<Rightarrow> (int \<Rightarrow> int) \<Rightarrow> (int \<Rightarrow> int) outcome" where
  "stosw 0 v edi d m = Done m"
| "stosw (Suc n) v edi d m = obind (vput edi v m) (stosw n v (edi + d) d)"

fun movsl :: "nat \<Rightarrow> int \<Rightarrow> int \<Rightarrow> int \<Rightarrow> (int \<Rightarrow> int) \<Rightarrow> (int \<Rightarrow> int) outcome" where
  "movsl 0 esi edi d m = Done m"
| "movsl (Suc n) esi edi d m =
     obind (vget esi m) (\<lambda>v0. obind (vget (esi + 2) m) (\<lambda>v1.
     obind (vput edi v0 m) (\<lambda>m. obind (vput (edi + 2) v1 m) (\<lambda>m.
     movsl n (esi + d) (edi + d) d m))))"

section \<open>Cursor and scrolling\<close>

definition gotoxy :: "int \<Rightarrow> int \<Rightarrow> console \<Rightarrow> console" where
  "gotoxy new_x new_y s =
     (if u32 new_x \<ge> columns \<or> u32 new_y \<ge> lines then s
      else s\<lparr>con_x := u32 new_x, con_y := u32 new_y,
             con_pos := u32 (con_origin s + (u32 new_y * columns + u32 new_x) * 2)\<rparr>)"

definition set_origin :: "console \<Rightarrow> console" where
  "set_origin s =
     (let a = u32 (con_origin s - SCREEN_START) in
      s\<lparr>con_crtc := (con_crtc s)(12 := (a div 512) mod 256, 13 := (a div 2) mod 256)\<rparr>)"

definition set_cursor :: "console \<Rightarrow> console" where
  "set_cursor s =
     (let a = u32 (con_pos s - SCREEN_START) in
      s\<lparr>con_crtc := (con_crtc s)(14 := (a div 512) mod 256, 15 := (a div 2) mod 256)\<rparr>)"

definition scrup :: "console \<Rightarrow> console outcome" where
  "scrup s =
     (if con_top s = 0 \<and> con_bottom s = lines then
        let s = s\<lparr>con_origin := u32 (con_origin s + columns * 2),
                  con_pos := u32 (con_pos s + columns * 2),
                  con_scr_end := u32 (con_scr_end s + columns * 2)\<rparr> in
        obind
          (if con_scr_end s > SCREEN_END then
             let n = nat ((lines - 1) * columns div 2) in
             obind (movsl n (con_origin s) SCREEN_START 4 (con_vmem s)) (\<lambda>m.
             obind (stosw (nat columns) blank (SCREEN_START + 4 * int n) 2 m) (\<lambda>m.
             let d = con_origin s - SCREEN_START in
             Done (s\<lparr>con_vmem := m, con_scr_end := u32 (con_scr_end s - d),
                      con_pos := u32 (con_pos s - d), con_origin := SCREEN_START\<rparr>)))
           else
             obind (stosw (nat columns) blank (con_scr_end s - columns * 2) 2 (con_vmem s)) (\<lambda>m.
             Done (s\<lparr>con_vmem := m\<rparr>)))
          (\<lambda>s. Done (set_origin s))
      else
        let n = nat (u32 (u32 (con_bottom s - con_top s - 1) * columns) div 2);
            edi = con_origin s + columns * 2 * con_top s in
        obind (movsl n (con_origin s + columns * 2 * (con_top s + 1)) edi 4 (con_vmem s)) (\<lambda>m.
        obind (stosw (nat columns) blank (edi + 4 * int n) 2 m) (\<lambda>m.
        Done (s\<lparr>con_vmem := m\<rparr>))))"

definition scrdown :: "console \<Rightarrow> console outcome" where
  "scrdown s =
     (let n = nat (u32 (u32 (con_bottom s - con_top s - 1) * columns) div 2);
          edi = con_origin s + columns * 2 * con_bottom s - 4 in
      obind (movsl n (con_origin s + columns * 2 * (con_bottom s - 1) - 4) edi (-4) (con_vmem s)) (\<lambda>m.
      obind (stosw (nat columns) blank (edi - 4 * int n + 2) (-2) m) (\<lambda>m.
      Done (s\<lparr>con_vmem := m\<rparr>))))"

definition lf :: "console \<Rightarrow> console outcome" where
  "lf s =
     (if u32 (con_y s + 1) < con_bottom s
      then Done (s\<lparr>con_y := u32 (con_y s + 1), con_pos := u32 (con_pos s + columns * 2)\<rparr>)
      else scrup s)"

definition ri :: "console \<Rightarrow> console outcome" where
  "ri s =
     (if con_y s > con_top s
      then Done (s\<lparr>con_y := u32 (con_y s - 1), con_pos := u32 (con_pos s - columns * 2)\<rparr>)
      else scrdown s)"

definition cr :: "console \<Rightarrow> console" where
  "cr s = s\<lparr>con_pos := u32 (con_pos s - con_x s * 2), con_x := 0\<rparr>"

definition del :: "console \<Rightarrow> console outcome" where
  "del s =
     (if con_x s \<noteq> 0 then
        let s = s\<lparr>con_pos := u32 (con_pos s - 2), con_x := con_x s - 1\<rparr> in
        obind (vput (con_pos s) blank (con_vmem s)) (\<lambda>m. Done (s\<lparr>con_vmem := m\<rparr>))
      else Done s)"

section \<open>Erasing, inserting and deleting\<close>

text \<open>The count goes into \<open>ecx\<close> as an unsigned number.\<close>

definition erase :: "int \<Rightarrow> int \<Rightarrow> console \<Rightarrow> console outcome" where
  "erase cnt start s =
     obind (stosw (nat (u32 cnt)) blank start 2 (con_vmem s)) (\<lambda>m. Done (s\<lparr>con_vmem := m\<rparr>))"

definition csi_J :: "int \<Rightarrow> console \<Rightarrow> console outcome" where
  "csi_J p s =
     (if p = 0 then erase (u32 (con_scr_end s - con_pos s) div 2) (con_pos s) s
      else if p = 1 then erase (u32 (con_pos s - con_origin s) div 2) (con_origin s) s
      else if p = 2 then erase (columns * lines) (con_origin s) s
      else Done s)"

definition csi_K :: "int \<Rightarrow> console \<Rightarrow> console outcome" where
  "csi_K p s =
     (if p = 0 then
        (if con_x s \<ge> columns then Done s else erase (columns - con_x s) (con_pos s) s)
      else if p = 1 then
        erase (if con_x s < columns then con_x s else columns) (con_pos s - con_x s * 2) s
      else if p = 2 then erase columns (con_pos s - con_x s * 2) s
      else Done s)"

definition sgr_attr :: "int \<Rightarrow> int \<Rightarrow> int" where
  "sgr_attr p a =
     (if p = 0 then 0x07 else if p = 1 then 0x0f else if p = 4 then 0x0f
      else if p = 7 then 0x70 else if p = 27 then 0x07 else a)"

fun csi_m_loop :: "nat \<Rightarrow> nat \<Rightarrow> int list \<Rightarrow> int \<Rightarrow> int outcome" where
  "csi_m_loop 0 i ps a = Done a"
| "csi_m_loop (Suc k) i ps a = obind (rd ps i) (\<lambda>p. csi_m_loop k (Suc i) ps (sgr_attr p a))"

definition csi_m :: "console \<Rightarrow> console outcome" where
  "csi_m s =
     obind (csi_m_loop (nat (con_npar s + 1)) 0 (con_par s) (con_attr s)) (\<lambda>a.
     Done (s\<lparr>con_attr := a\<rparr>))"

fun insert_char_loop :: "nat \<Rightarrow> int \<Rightarrow> int \<Rightarrow> (int \<Rightarrow> int) \<Rightarrow> (int \<Rightarrow> int) outcome" where
  "insert_char_loop 0 p old m = Done m"
| "insert_char_loop (Suc n) p old m =
     obind (vget p m) (\<lambda>tmp. obind (vput p old m) (\<lambda>m. insert_char_loop n (p + 2) tmp m))"

definition insert_char :: "console \<Rightarrow> console outcome" where
  "insert_char s =
     obind (insert_char_loop (nat (columns - con_x s)) (con_pos s) blank (con_vmem s)) (\<lambda>m.
     Done (s\<lparr>con_vmem := m\<rparr>))"

definition insert_line :: "console \<Rightarrow> console outcome" where
  "insert_line s =
     obind (scrdown (s\<lparr>con_top := con_y s, con_bottom := lines\<rparr>)) (\<lambda>s'.
     Done (s'\<lparr>con_top := con_top s, con_bottom := con_bottom s\<rparr>))"

fun delete_char_loop :: "nat \<Rightarrow> int \<Rightarrow> (int \<Rightarrow> int) \<Rightarrow> (int \<times> (int \<Rightarrow> int)) outcome" where
  "delete_char_loop 0 p m = Done (p, m)"
| "delete_char_loop (Suc n) p m =
     obind (vget (p + 2) m) (\<lambda>v. obind (vput p v m) (\<lambda>m. delete_char_loop n (p + 2) m))"

definition delete_char :: "console \<Rightarrow> console outcome" where
  "delete_char s =
     (if con_x s \<ge> columns then Done s
      else obind (delete_char_loop (nat (columns - con_x s - 1)) (con_pos s) (con_vmem s)) (\<lambda>(p, m).
           obind (vput p blank m) (\<lambda>m. Done (s\<lparr>con_vmem := m\<rparr>))))"

definition delete_line :: "console \<Rightarrow> console outcome" where
  "delete_line s =
     obind (scrup (s\<lparr>con_top := con_y s, con_bottom := lines\<rparr>)) (\<lambda>s'.
     Done (s'\<lparr>con_top := con_top s, con_bottom := con_bottom s\<rparr>))"

text \<open>
  \<open>nr > columns\<close> compares an \<open>int\<close> with an \<open>unsigned long\<close>, so as unsigned numbers.
\<close>

definition clamp_nr :: "int \<Rightarrow> int \<Rightarrow> nat" where
  "clamp_nr nr limit = (if u32 nr > limit then nat limit else if nr = 0 then 1 else nat nr)"

definition csi_at :: "int \<Rightarrow> console \<Rightarrow> console outcome" where
  "csi_at nr s = orep (clamp_nr nr columns) insert_char s"

definition csi_L :: "int \<Rightarrow> console \<Rightarrow> console outcome" where
  "csi_L nr s = orep (clamp_nr nr lines) insert_line s"

definition csi_P :: "int \<Rightarrow> console \<Rightarrow> console outcome" where
  "csi_P nr s = orep (clamp_nr nr columns) delete_char s"

definition csi_M :: "int \<Rightarrow> console \<Rightarrow> console outcome" where
  "csi_M nr s = orep (clamp_nr nr lines) delete_line s"

definition save_cur :: "console \<Rightarrow> console" where
  "save_cur s = s\<lparr>con_saved_x := s32 (con_x s), con_saved_y := s32 (con_y s)\<rparr>"

definition restore_cur :: "console \<Rightarrow> console" where
  "restore_cur s =
     s\<lparr>con_x := u32 (con_saved_x s), con_y := u32 (con_saved_y s),
       con_pos := u32 (con_origin s + (u32 (con_saved_y s) * columns + u32 (con_saved_x s)) * 2)\<rparr>"

section \<open>The state machine of \<open>con_write\<close>\<close>

text \<open>\<open>movb attr,%ah; movw %ax,*pos\<close> with the character in \<open>al\<close>.\<close>

definition put_cell :: "int \<Rightarrow> int \<Rightarrow> console \<Rightarrow> console outcome" where
  "put_cell a c s =
     obind (vput (con_pos s) (u8 a * 256 + u8 c) (con_vmem s)) (\<lambda>m. Done (s\<lparr>con_vmem := m\<rparr>))"

text \<open>The wrap of a line: \<open>x -= columns; pos -= columns<<1; lf();\<close>\<close>

definition wrap_line :: "console \<Rightarrow> console outcome" where
  "wrap_line s =
     lf (s\<lparr>con_x := u32 (con_x s - columns), con_pos := u32 (con_pos s - columns * 2)\<rparr>)"

text \<open>
  \<open>c\<close> is the signed character, \<open>erase_char\<close> is \<open>ERASE_CHAR(tty)\<close>.
\<close>

definition con_state0 :: "int \<Rightarrow> int \<Rightarrow> console \<Rightarrow> console outcome" where
  "con_state0 erase_char c s =
     (if c > 31 \<and> c < 127 then
        obind (if con_x s \<ge> columns then wrap_line s else Done s) (\<lambda>s.
        obind (put_cell (con_attr s) c s) (\<lambda>s.
        Done (s\<lparr>con_pos := u32 (con_pos s + 2), con_x := u32 (con_x s + 1)\<rparr>)))
      else if c = 27 then Done (s\<lparr>con_state := 1\<rparr>)
      else if c = 10 \<or> c = 11 \<or> c = 12 then lf s
      else if c = 13 then Done (cr s)
      else if c = erase_char then del s
      else if c = 8 then
        Done (if con_x s \<noteq> 0 then s\<lparr>con_x := con_x s - 1, con_pos := u32 (con_pos s - 2)\<rparr> else s)
      else if c = 9 then
        let t = 8 - con_x s mod 8;
            s = s\<lparr>con_x := u32 (con_x s + t), con_pos := u32 (con_pos s + t * 2)\<rparr> in
        if con_x s > columns then wrap_line s else Done s
      else Done s)"

text \<open>
  After ESC. The last two tests of the source compare the column \<open>x\<close> with the characters 7 and 8.
  The flag of the result is a call of \<open>respond(tty)\<close>.
\<close>

definition con_state1 :: "int \<Rightarrow> console \<Rightarrow> (bool \<times> console) outcome" where
  "con_state1 c s =
     (let s = s\<lparr>con_state := 0\<rparr> in
      if c = 91 then Done (False, s\<lparr>con_state := 2\<rparr>)
      else if c = 69 then Done (False, gotoxy 0 (con_y s + 1) s)
      else if c = 77 then obind (ri s) (\<lambda>s. Done (False, s))
      else if c = 68 then obind (lf s) (\<lambda>s. Done (False, s))
      else if c = 90 then Done (True, s)
      else if con_x s = 55 then Done (False, save_cur s)
      else if con_x s = 56 then Done (False, restore_cur s)
      else Done (False, s))"

text \<open>\<open>if (par[i]) par[i]--;\<close> and \<open>if (!par[0]) par[0]++;\<close>\<close>

definition par_dec :: "nat \<Rightarrow> console \<Rightarrow> console" where
  "par_dec i s = (if con_par s ! i \<noteq> 0 then s\<lparr>con_par := (con_par s)[i := con_par s ! i - 1]\<rparr> else s)"

definition par_one :: "console \<Rightarrow> console" where
  "par_one s = (if con_par s ! 0 = 0 then s\<lparr>con_par := (con_par s)[0 := 1]\<rparr> else s)"

definition con_state4 :: "int \<Rightarrow> console \<Rightarrow> console outcome" where
  "con_state4 c s =
     (let s = s\<lparr>con_state := 0\<rparr>; p0 = con_par s ! 0 in
      if c = 71 \<or> c = 96 then (let s = par_dec 0 s in Done (gotoxy (con_par s ! 0) (con_y s) s))
      else if c = 65 then (let s = par_one s in Done (gotoxy (con_x s) (con_y s - con_par s ! 0) s))
      else if c = 66 \<or> c = 101 then
        (let s = par_one s in Done (gotoxy (con_x s) (con_y s + con_par s ! 0) s))
      else if c = 67 \<or> c = 97 then
        (let s = par_one s in Done (gotoxy (con_x s + con_par s ! 0) (con_y s) s))
      else if c = 68 then (let s = par_one s in Done (gotoxy (con_x s - con_par s ! 0) (con_y s) s))
      else if c = 69 then (let s = par_one s in Done (gotoxy 0 (con_y s + con_par s ! 0) s))
      else if c = 70 then (let s = par_one s in Done (gotoxy 0 (con_y s - con_par s ! 0) s))
      else if c = 100 then (let s = par_dec 0 s in Done (gotoxy (con_x s) (con_par s ! 0) s))
      else if c = 72 \<or> c = 102 then
        (let s = par_dec 1 (par_dec 0 s) in Done (gotoxy (con_par s ! 1) (con_par s ! 0) s))
      else if c = 74 then csi_J (s32 p0) s
      else if c = 75 then csi_K (s32 p0) s
      else if c = 76 then csi_L (s32 p0) s
      else if c = 77 then csi_M (s32 p0) s
      else if c = 80 then csi_P (s32 p0) s
      else if c = 64 then csi_at (s32 p0) s
      else if c = 109 then csi_m s
      else if c = 114 then
        (let s = par_dec 0 s;
             s = (if con_par s ! 1 = 0 then s\<lparr>con_par := (con_par s)[1 := lines]\<rparr> else s) in
         Done (if con_par s ! 0 < con_par s ! 1 \<and> con_par s ! 1 \<le> lines
               then s\<lparr>con_top := con_par s ! 0, con_bottom := con_par s ! 1\<rparr> else s))
      else if c = 115 then Done (save_cur s)
      else if c = 117 then Done (restore_cur s)
      else Done s)"

definition con_state3 :: "int \<Rightarrow> console \<Rightarrow> console outcome" where
  "con_state3 c s =
     (if c = 59 \<and> con_npar s < 15 then Done (s\<lparr>con_npar := con_npar s + 1\<rparr>)
      else if c \<ge> 48 \<and> c \<le> 57 then
        obind (rd (con_par s) (nat (con_npar s))) (\<lambda>p.
        Done (s\<lparr>con_par := (con_par s)[nat (con_npar s) := u32 (10 * p + c - 48)]\<rparr>))
      else con_state4 c (s\<lparr>con_state := 4\<rparr>))"

definition con_state2 :: "int \<Rightarrow> console \<Rightarrow> console outcome" where
  "con_state2 c s =
     (let s = s\<lparr>con_par := replicate 16 0, con_npar := 0, con_state := 3, con_ques := (c = 63)\<rparr> in
      if con_ques s then Done s else con_state3 c s)"

text \<open>One round of the loop of \<open>con_write\<close>, after its \<open>GETCH\<close>.\<close>

definition con_char :: "int \<Rightarrow> int \<Rightarrow> console \<Rightarrow> (bool \<times> console) outcome" where
  "con_char erase_char c s =
     (let quiet = (\<lambda>r. obind r (\<lambda>s. Done (False, s))) in
      if con_state s = 0 then quiet (con_state0 erase_char c s)
      else if con_state s = 1 then con_state1 c s
      else if con_state s = 2 then quiet (con_state2 c s)
      else if con_state s = 3 then quiet (con_state3 c s)
      else if con_state s = 4 then quiet (con_state4 c s)
      else Done (False, s))"

end
