(* ===== verification/ConsoleWf.thy ===== *)
theory ConsoleWf
  imports Console
begin

text \<open>
  The console driver never leaves the video memory. The effect of the string instructions as maps
  on the memory, the grid of rows and columns on screen with the scrolls of a region of it, and
  the invariant of the driver's variables, which every operation and every character keeps.
\<close>

section \<open>What the string instructions do\<close>

definition fill :: "int \<Rightarrow> int \<Rightarrow> int \<Rightarrow> (int \<Rightarrow> int) \<Rightarrow> (int \<Rightarrow> int)" where
  "fill lo n v m = (\<lambda>a. if lo \<le> a \<and> a < lo + 2 * n \<and> even a then v else m a)"

definition shift :: "int \<Rightarrow> int \<Rightarrow> int \<Rightarrow> (int \<Rightarrow> int) \<Rightarrow> (int \<Rightarrow> int)" where
  "shift lo n off m = (\<lambda>a. if lo \<le> a \<and> a < lo + 4 * n \<and> even a then m (a + off) else m a)"

lemma vid_okI: "SCREEN_START \<le> a \<Longrightarrow> a + 2 \<le> SCREEN_END \<Longrightarrow> even a \<Longrightarrow> vid_ok a"
  by (simp add: vid_ok_def)

lemma even_step: "even (a::int) \<Longrightarrow> even b \<Longrightarrow> a < b \<Longrightarrow> a + 2 \<le> b"
  by presburger

lemma stosw_fill:
  "SCREEN_START \<le> e \<Longrightarrow> e + 2 * int n \<le> SCREEN_END \<Longrightarrow> even e \<Longrightarrow>
   stosw n v e 2 m = Done (fill e (int n) v m)"
proof (induction n arbitrary: e m)
  case 0
  then show ?case by (auto simp: fill_def)
next
  case (Suc n)
  have "fill (e + 2) (int n) v (m(e := v)) = fill e (int (Suc n)) v m"
    using Suc.prems(3) even_step [of e] by (fastforce simp: fill_def fun_eq_iff)
  moreover have "stosw n v (e + 2) 2 (m(e := v)) = Done (fill (e + 2) (int n) v (m(e := v)))"
    using Suc.prems by (intro Suc.IH) auto
  moreover have "stosw (Suc n) v e 2 m = stosw n v (e + 2) 2 (m(e := v))"
    using Suc.prems by (simp add: vput_def vid_okI)
  ultimately show ?case by (simp only:)
qed

lemma stosw_fill_down:
  "SCREEN_START \<le> e + 2 - 2 * int n \<Longrightarrow> e + 2 \<le> SCREEN_END \<Longrightarrow> even e \<Longrightarrow>
   stosw n v e (-2) m = Done (fill (e + 2 - 2 * int n) (int n) v m)"
proof (induction n arbitrary: e m)
  case 0
  then show ?case by (auto simp: fill_def)
next
  case (Suc n)
  have "fill (e - 2 * int n) (int n) v (m(e := v)) = fill (e - 2 * int n) (int (Suc n)) v m"
    using Suc.prems(3) even_step [of e] by (fastforce simp: fill_def fun_eq_iff)
  moreover have "stosw n v (e - 2) (-2) (m(e := v)) = Done (fill (e - 2 * int n) (int n) v (m(e := v)))"
    using Suc.prems by (subst Suc.IH) simp_all
  moreover have "stosw (Suc n) v e (-2) m = stosw n v (e - 2) (-2) (m(e := v))"
    using Suc.prems by (simp add: vput_def vid_okI)
  moreover have "e + 2 - 2 * int (Suc n) = e - 2 * int n" by simp
  ultimately show ?case by (simp only:)
qed

lemma movsl_shift:
  "SCREEN_START \<le> d \<Longrightarrow> d \<le> e \<Longrightarrow> e + 4 * int n \<le> SCREEN_END \<Longrightarrow> even d \<Longrightarrow> even e \<Longrightarrow>
   movsl n e d 4 m = Done (shift d (int n) (e - d) m)"
proof (induction n arbitrary: e d m)
  case 0
  then show ?case by (auto simp: shift_def)
next
  case (Suc n)
  let ?m = "m(d := m e, d + 2 := m (e + 2))"
  have "movsl n (e + 4) (d + 4) 4 ?m = Done (shift (d + 4) (int n) (e - d) ?m)"
    using Suc.prems by (subst Suc.IH) simp_all
  moreover have "shift (d + 4) (int n) (e - d) ?m = shift d (int (Suc n)) (e - d) m" (is "?l = ?r")
  proof
    fix a
    consider "odd a" | "a < d" | "a = d" | "a = d + 2" | "d + 4 \<le> a" "even a"
      using Suc.prems(4) even_step [of d a] even_step [of "d + 2" a] by fastforce
    then show "?l a = ?r a" using Suc.prems by cases (auto simp: shift_def add.commute [of 2])
  qed
  moreover have "movsl (Suc n) e d 4 m = movsl n (e + 4) (d + 4) 4 ?m"
    using Suc.prems by (simp add: vput_def vget_def vid_okI)
  ultimately show ?case by (simp only:)
qed

lemma movsl_shift_down:
  "SCREEN_START \<le> e + 4 - 4 * int n \<Longrightarrow> e \<le> d \<Longrightarrow> d + 4 \<le> SCREEN_END \<Longrightarrow> even d \<Longrightarrow> even e \<Longrightarrow>
   movsl n e d (-4) m = Done (shift (d + 4 - 4 * int n) (int n) (e - d) m)"
proof (induction n arbitrary: e d m)
  case 0
  then show ?case by (auto simp: shift_def)
next
  case (Suc n)
  let ?m = "m(d := m e, d + 2 := m (e + 2))" and ?lo = "d - 4 * int n"
  have "movsl n (e - 4) (d - 4) (-4) ?m = Done (shift ?lo (int n) (e - d) ?m)"
    using Suc.prems by (subst Suc.IH) simp_all
  moreover have "shift ?lo (int n) (e - d) ?m = shift ?lo (int (Suc n)) (e - d) m" (is "?l = ?r")
  proof
    fix a
    consider "odd a" | "a < d" | "a = d" | "a = d + 2" | "d + 4 \<le> a" "even a"
      using Suc.prems(4) even_step [of d a] even_step [of "d + 2" a] by fastforce
    then show "?l a = ?r a" using Suc.prems by cases (auto simp: shift_def add.commute [of 2])
  qed
  moreover have "movsl (Suc n) e d (-4) m = movsl n (e - 4) (d - 4) (-4) ?m"
    using Suc.prems by (simp add: vput_def vget_def vid_okI)
  moreover have "d + 4 - 4 * int (Suc n) = ?lo" by simp
  ultimately show ?case by (simp only:)
qed


section \<open>The invariant of the driver\<close>

definition con_wf :: "console \<Rightarrow> bool" where
  "con_wf s \<longleftrightarrow>
     SCREEN_START \<le> con_origin s \<and> even (con_origin s) \<and>
     con_scr_end s = con_origin s + 2 * (columns * lines) \<and> con_scr_end s \<le> SCREEN_END \<and>
     0 \<le> con_x s \<and> con_x s \<le> columns \<and> 0 \<le> con_y s \<and> con_y s < lines \<and>
     con_pos s = con_origin s + 2 * (columns * con_y s + con_x s) \<and>
     0 \<le> con_top s \<and> con_top s < con_bottom s \<and> con_bottom s \<le> lines \<and>
     con_state s \<in> {0, 1, 2, 3} \<and>
     0 \<le> con_npar s \<and> con_npar s < 16 \<and> length (con_par s) = 16 \<and> (\<forall>p \<in> set (con_par s). 0 \<le> p) \<and>
     0 \<le> con_saved_x s \<and> con_saved_x s \<le> columns \<and> 0 \<le> con_saved_y s \<and> con_saved_y s < lines"

lemmas con_consts = SCREEN_START_def SCREEN_END_def lines_def columns_def

lemma gotoxy_wf: "con_wf s \<Longrightarrow> con_wf (gotoxy a b s)"
  using u32_range [of a] u32_range [of b]
  by (auto simp: gotoxy_def con_wf_def con_consts u32_id)

lemma cr_wf: "con_wf s \<Longrightarrow> con_wf (cr s)"
  by (auto simp: cr_def con_wf_def con_consts u32_id)

lemma save_cur_wf: "con_wf s \<Longrightarrow> con_wf (save_cur s)"
  by (auto simp: save_cur_def con_wf_def con_consts s32_id)

lemma restore_cur_wf: "con_wf s \<Longrightarrow> con_wf (restore_cur s)"
  by (auto simp: restore_cur_def con_wf_def con_consts u32_id)

text \<open>The scrolls, with the memory they leave.\<close>

definition up_mem :: "int \<Rightarrow> int \<Rightarrow> int \<Rightarrow> (int \<Rightarrow> int) \<Rightarrow> (int \<Rightarrow> int)" where
  "up_mem origin t b m =
     fill (origin + 160 * (b - 1)) 80 blank (shift (origin + 160 * t) (40 * (b - t - 1)) 160 m)"

definition down_mem :: "int \<Rightarrow> int \<Rightarrow> int \<Rightarrow> (int \<Rightarrow> int) \<Rightarrow> (int \<Rightarrow> int)" where
  "down_mem origin t b m =
     fill (origin + 160 * t) 80 blank (shift (origin + 160 * (t + 1)) (40 * (b - t - 1)) (- 160) m)"

lemma scrup_region:
  assumes "con_wf s" "\<not> (con_top s = 0 \<and> con_bottom s = lines)"
  shows "scrup s = Done (s\<lparr>con_vmem := up_mem (con_origin s) (con_top s) (con_bottom s) (con_vmem s)\<rparr>)"
proof -
  let ?o = "con_origin s" and ?t = "con_top s" and ?b = "con_bottom s"
  let ?n = "nat (40 * (?b - ?t - 1))"
  note w = assms(1) [unfolded con_wf_def con_consts]
  have n: "int ?n = 40 * (?b - ?t - 1)" using w by simp
  have u: "nat (u32 (u32 (?b - ?t - 1) * 80) div 2) = ?n" using w by (simp add: u32_id)
  have m: "movsl ?n (?o + 160 * (?t + 1)) (?o + 160 * ?t) 4 (con_vmem s) =
      Done (shift (?o + 160 * ?t) (40 * (?b - ?t - 1)) 160 (con_vmem s))"
    using w n by (subst movsl_shift) (auto simp: con_consts)
  have f: "stosw 80 blank (?o + 160 * ?t + 4 * int ?n) 2 mm = Done (fill (?o + 160 * (?b - 1)) 80 blank mm)" for mm
    using w n by (subst stosw_fill) (auto simp: con_consts algebra_simps)
  have "(con_top s = 0 \<and> con_bottom s = 25) = False" using assms(2) by (simp add: lines_def)
  then show ?thesis
    using m f u by (simp only: scrup_def con_consts Let_def up_mem_def if_False obind.simps) simp
qed

lemma scrdown_eq:
  assumes "con_wf s"
  shows "scrdown s = Done (s\<lparr>con_vmem := down_mem (con_origin s) (con_top s) (con_bottom s) (con_vmem s)\<rparr>)"
proof -
  let ?o = "con_origin s" and ?t = "con_top s" and ?b = "con_bottom s"
  let ?n = "nat (40 * (?b - ?t - 1))"
  note w = assms(1) [unfolded con_wf_def con_consts]
  have n: "int ?n = 40 * (?b - ?t - 1)" using w by simp
  have u: "nat (u32 (u32 (?b - ?t - 1) * 80) div 2) = ?n" using w by (simp add: u32_id)
  have m: "movsl ?n (?o + 160 * (?b - 1) - 4) (?o + 160 * ?b - 4) (-4) (con_vmem s) =
      Done (shift (?o + 160 * (?t + 1)) (40 * (?b - ?t - 1)) (- 160) (con_vmem s))"
    using w n by (subst movsl_shift_down) (auto simp: con_consts algebra_simps)
  have f: "stosw 80 blank (?o + 160 * ?b - 4 - 4 * int ?n + 2) (-2) mm = Done (fill (?o + 160 * ?t) 80 blank mm)" for mm
    using w n by (subst stosw_fill_down) (auto simp: con_consts algebra_simps)
  show ?thesis
    using m f u by (simp add: scrdown_def con_consts Let_def down_mem_def)
qed


text \<open>
  The grid of 25 rows and 80 columns that is on screen, and the scrolls of a region of it as the
  terminal defines them.
\<close>

definition cell :: "console \<Rightarrow> int \<Rightarrow> int \<Rightarrow> int" where
  "cell s r c = con_vmem s (con_origin s + 2 * (columns * r + c))"

definition on_grid :: "int \<Rightarrow> int \<Rightarrow> bool" where
  "on_grid r c \<longleftrightarrow> 0 \<le> r \<and> r < lines \<and> 0 \<le> c \<and> c < columns"

definition grid_up :: "int \<Rightarrow> int \<Rightarrow> (int \<Rightarrow> int \<Rightarrow> int) \<Rightarrow> int \<Rightarrow> int \<Rightarrow> int" where
  "grid_up t b g r c =
     (if t \<le> r \<and> r < b - 1 then g (r + 1) c else if r = b - 1 then blank else g r c)"

definition grid_down :: "int \<Rightarrow> int \<Rightarrow> (int \<Rightarrow> int \<Rightarrow> int) \<Rightarrow> int \<Rightarrow> int \<Rightarrow> int" where
  "grid_down t b g r c =
     (if t < r \<and> r < b then g (r - 1) c else if r = t then blank else g r c)"

text \<open>What only moves the window or the contents of the memory leaves alone.\<close>

definition con_frame :: "console \<Rightarrow> console \<Rightarrow> bool" where
  "con_frame s s' \<longleftrightarrow>
     con_x s' = con_x s \<and> con_y s' = con_y s \<and> con_top s' = con_top s \<and> con_bottom s' = con_bottom s \<and>
     con_state s' = con_state s \<and> con_npar s' = con_npar s \<and> con_par s' = con_par s \<and>
     con_ques s' = con_ques s \<and> con_attr s' = con_attr s \<and>
     con_saved_x s' = con_saved_x s \<and> con_saved_y s' = con_saved_y s"

lemma scrup_move:
  assumes "con_wf s" "con_top s = 0" "con_bottom s = lines" "con_scr_end s + 160 > SCREEN_END"
  shows "\<exists>s'. scrup s = Done s' \<and> con_wf s' \<and> con_frame s s' \<and>
    (\<forall>r c. on_grid r c \<longrightarrow> cell s' r c = grid_up 0 lines (cell s) r c)"
proof -
  note w = assms(1) [unfolded con_wf_def con_consts]
  let ?o = "con_origin s + 160"
  let ?m = "fill (SCREEN_START + 3840) 80 blank (shift SCREEN_START 960 (?o - SCREEN_START) (con_vmem s))"
  let ?s = "set_origin (s\<lparr>con_vmem := ?m, con_scr_end := SCREEN_START + 4000,
    con_pos := con_pos s + 160 - (?o - SCREEN_START), con_origin := SCREEN_START\<rparr>)"
  have m: "movsl 960 ?o 753664 4 (con_vmem s) = Done (shift 753664 960 (?o - 753664) (con_vmem s))"
    using w by (subst movsl_shift) (auto simp: con_consts)
  have f: "stosw 80 blank 757504 2 mm = Done (fill 757504 80 blank mm)" for mm
    by (subst stosw_fill) (auto simp: con_consts)
  have r: "scrup s = Done ?s"
    using assms w m f by (simp add: scrup_def con_consts Let_def u32_id)
  have "con_wf ?s" using w by (simp add: con_wf_def con_consts set_origin_def Let_def)
  moreover have "cell ?s r c = grid_up 0 lines (cell s) r c" if "on_grid r c" for r c
    using that w by (auto simp: cell_def on_grid_def grid_up_def set_origin_def Let_def fill_def
      shift_def con_consts algebra_simps)
  ultimately show ?thesis using r by (auto simp: set_origin_def Let_def con_frame_def)
qed

lemma scrup_slide:
  assumes "con_wf s" "con_top s = 0" "con_bottom s = lines" "\<not> con_scr_end s + 160 > SCREEN_END"
  shows "\<exists>s'. scrup s = Done s' \<and> con_wf s' \<and> con_frame s s' \<and>
    (\<forall>r c. on_grid r c \<longrightarrow> cell s' r c = grid_up 0 lines (cell s) r c)"
proof -
  note w = assms(1) [unfolded con_wf_def con_consts]
  let ?s = "set_origin (s\<lparr>con_origin := con_origin s + 160, con_pos := con_pos s + 160,
    con_scr_end := con_scr_end s + 160, con_vmem := fill (con_scr_end s) 80 blank (con_vmem s)\<rparr>)"
  have f: "stosw 80 blank (con_scr_end s) 2 (con_vmem s) = Done (fill (con_scr_end s) 80 blank (con_vmem s))"
    using w assms(4) by (subst stosw_fill) (auto simp: con_consts)
  have r: "scrup s = Done ?s"
    using assms w f by (simp add: scrup_def con_consts Let_def u32_id add.commute)
  have "con_wf ?s" using w assms(4) by (simp add: con_wf_def con_consts set_origin_def Let_def)
  moreover have "cell ?s r c = grid_up 0 lines (cell s) r c" if "on_grid r c" for r c
    using that w by (auto simp: cell_def on_grid_def grid_up_def set_origin_def Let_def fill_def
      con_consts algebra_simps)
  ultimately show ?thesis using r by (auto simp: set_origin_def Let_def con_frame_def)
qed

lemma con_wf_vmem [simp]: "con_wf (s\<lparr>con_vmem := m\<rparr>) = con_wf s"
  by (simp add: con_wf_def)

lemma con_frame_vmem [simp]: "con_frame s (s\<lparr>con_vmem := m\<rparr>)"
  by (simp add: con_frame_def)

lemma up_mem_cell:
  assumes "on_grid r c" "0 \<le> t" "t < b" "b \<le> lines" "even a"
  shows "up_mem a t b m (a + 2 * (columns * r + c)) =
    grid_up t b (\<lambda>r c. m (a + 2 * (columns * r + c))) r c"
proof -
  let ?p = "a + 2 * (columns * r + c)"
  have 1: "a + 160 * (b - 1) \<le> ?p \<and> ?p < a + 160 * (b - 1) + 160 \<longleftrightarrow> r = b - 1"
    using assms by (auto simp: on_grid_def con_consts)
  have 2: "a + 160 * t \<le> ?p \<and> ?p < a + 160 * t + 160 * (b - t - 1) \<longleftrightarrow> t \<le> r \<and> r < b - 1"
    using assms by (auto simp: on_grid_def con_consts)
  have 3: "even ?p" using assms by simp
  have 4: "?p + 160 = a + 2 * (columns * (r + 1) + c)" by (simp add: con_consts)
  show ?thesis using 1 2 3 by (simp only: up_mem_def fill_def shift_def grid_up_def 4 [symmetric]) auto
qed

lemma down_mem_cell:
  assumes "on_grid r c" "0 \<le> t" "t < b" "b \<le> lines" "even a"
  shows "down_mem a t b m (a + 2 * (columns * r + c)) =
    grid_down t b (\<lambda>r c. m (a + 2 * (columns * r + c))) r c"
proof -
  let ?p = "a + 2 * (columns * r + c)"
  have 1: "a + 160 * t \<le> ?p \<and> ?p < a + 160 * t + 160 \<longleftrightarrow> r = t"
    using assms by (auto simp: on_grid_def con_consts)
  have 2: "a + 160 * (t + 1) \<le> ?p \<and> ?p < a + 160 * (t + 1) + 160 * (b - t - 1) \<longleftrightarrow> t < r \<and> r < b"
    using assms by (auto simp: on_grid_def con_consts)
  have 3: "even ?p" using assms by simp
  have 4: "?p - 160 = a + 2 * (columns * (r - 1) + c)" by (simp add: con_consts)
  show ?thesis using 1 2 3 by (simp only: down_mem_def fill_def shift_def grid_down_def 4 [symmetric]) auto
qed

lemma scrup_grid:
  assumes "con_wf s"
  shows "\<exists>s'. scrup s = Done s' \<and> con_wf s' \<and> con_frame s s' \<and>
    (\<forall>r c. on_grid r c \<longrightarrow> cell s' r c = grid_up (con_top s) (con_bottom s) (cell s) r c)"
proof (cases "con_top s = 0 \<and> con_bottom s = lines")
  case True
  then show ?thesis using scrup_move [OF assms] scrup_slide [OF assms] by metis
next
  case False
  have "cell (s\<lparr>con_vmem := up_mem (con_origin s) (con_top s) (con_bottom s) (con_vmem s)\<rparr>) r c =
      grid_up (con_top s) (con_bottom s) (cell s) r c" if "on_grid r c" for r c
    using up_mem_cell [OF that] assms by (simp add: cell_def [abs_def] con_wf_def)
  then show ?thesis using scrup_region [OF assms False] assms by simp
qed

lemma scrdown_grid:
  assumes "con_wf s"
  shows "\<exists>s'. scrdown s = Done s' \<and> con_wf s' \<and> con_frame s s' \<and>
    (\<forall>r c. on_grid r c \<longrightarrow> cell s' r c = grid_down (con_top s) (con_bottom s) (cell s) r c)"
proof -
  have "cell (s\<lparr>con_vmem := down_mem (con_origin s) (con_top s) (con_bottom s) (con_vmem s)\<rparr>) r c =
      grid_down (con_top s) (con_bottom s) (cell s) r c" if "on_grid r c" for r c
    using down_mem_cell [OF that] assms by (simp add: cell_def [abs_def] con_wf_def)
  then show ?thesis using scrdown_eq [OF assms] assms by simp
qed


section \<open>Erasing and shifting a row\<close>

definition ins_mem :: "int \<Rightarrow> int \<Rightarrow> int \<Rightarrow> (int \<Rightarrow> int) \<Rightarrow> (int \<Rightarrow> int)" where
  "ins_mem p n old m = (\<lambda>a. if p \<le> a \<and> a < p + 2 * n \<and> even a then (if a = p then old else m (a - 2)) else m a)"

definition del_mem :: "int \<Rightarrow> int \<Rightarrow> (int \<Rightarrow> int) \<Rightarrow> (int \<Rightarrow> int)" where
  "del_mem p n m = (\<lambda>a. if p \<le> a \<and> a < p + 2 * n \<and> even a then m (a + 2) else m a)"

lemma even_three: "even (a::int) \<Longrightarrow> even p \<Longrightarrow> a < p \<or> a = p \<or> p + 2 \<le> a"
  by presburger

lemma insert_char_loop_eq:
  "SCREEN_START \<le> p \<Longrightarrow> p + 2 * int n \<le> SCREEN_END \<Longrightarrow> even p \<Longrightarrow>
   insert_char_loop n p old m = Done (ins_mem p (int n) old m)"
proof (induction n arbitrary: p old m)
  case 0
  then show ?case by (auto simp: ins_mem_def)
next
  case (Suc n)
  have "insert_char_loop n (p + 2) (m p) (m(p := old)) = Done (ins_mem (p + 2) (int n) (m p) (m(p := old)))"
    using Suc.prems by (subst Suc.IH) simp_all
  moreover have "ins_mem (p + 2) (int n) (m p) (m(p := old)) = ins_mem p (int (Suc n)) old m" (is "?l = ?r")
  proof
    fix a
    show "?l a = ?r a" using Suc.prems(3) even_three [of a p]
      by (cases "even a") (auto simp: ins_mem_def)
  qed
  moreover have "insert_char_loop (Suc n) p old m = insert_char_loop n (p + 2) (m p) (m(p := old))"
    using Suc.prems by (simp add: vput_def vget_def vid_okI)
  ultimately show ?case by (simp only:)
qed

lemma delete_char_loop_eq:
  "SCREEN_START \<le> p \<Longrightarrow> p + 2 * int n + 2 \<le> SCREEN_END \<Longrightarrow> even p \<Longrightarrow>
   delete_char_loop n p m = Done (p + 2 * int n, del_mem p (int n) m)"
proof (induction n arbitrary: p m)
  case 0
  then show ?case by (auto simp: del_mem_def)
next
  case (Suc n)
  let ?m = "m(p := m (p + 2))"
  have "delete_char_loop n (p + 2) ?m = Done (p + 2 + 2 * int n, del_mem (p + 2) (int n) ?m)"
    using Suc.prems by (subst Suc.IH) simp_all
  moreover have "del_mem (p + 2) (int n) ?m = del_mem p (int (Suc n)) m" (is "?l = ?r")
  proof
    fix a
    show "?l a = ?r a" using Suc.prems(3) even_three [of a p]
      by (cases "even a") (auto simp: del_mem_def)
  qed
  moreover have "delete_char_loop (Suc n) p m = delete_char_loop n (p + 2) ?m"
    using Suc.prems by (simp add: vput_def vget_def vid_okI)
  moreover have "p + 2 + 2 * int n = p + 2 * int (Suc n)" by simp
  ultimately show ?case by (simp only:)
qed

text \<open>A result that is reached, in a well-formed state.\<close>

definition con_safe :: "console outcome \<Rightarrow> bool" where
  "con_safe r \<longleftrightarrow> (\<exists>s. r = Done s \<and> con_wf s)"

lemma con_safe_Done [simp]: "con_safe (Done s) = con_wf s"
  by (simp add: con_safe_def)

lemma con_safe_bind: "con_safe r \<Longrightarrow> (\<And>s. con_wf s \<Longrightarrow> con_safe (f s)) \<Longrightarrow> con_safe (obind r f)"
  by (auto simp: con_safe_def)

lemma con_safe_orep: "(\<And>s. con_wf s \<Longrightarrow> con_safe (f s)) \<Longrightarrow> con_wf s \<Longrightarrow> con_safe (orep n f s)"
  using orep_invariant [of con_wf f s n] by (simp add: con_safe_def)

lemma scrup_safe: "con_wf s \<Longrightarrow> con_safe (scrup s)"
  using scrup_grid con_safe_def by blast

lemma scrdown_safe: "con_wf s \<Longrightarrow> con_safe (scrdown s)"
  using scrdown_grid con_safe_def by blast

lemma lf_safe: "con_wf s \<Longrightarrow> con_safe (lf s)"
  by (auto simp: lf_def scrup_safe con_wf_def con_consts u32_id)

lemma ri_safe: "con_wf s \<Longrightarrow> con_safe (ri s)"
  by (auto simp: ri_def scrdown_safe con_wf_def con_consts u32_id)

lemma vput_safe: "SCREEN_START \<le> a \<Longrightarrow> a + 2 \<le> SCREEN_END \<Longrightarrow> even a \<Longrightarrow> vput a v m = Done (m(a := v))"
  by (simp add: vput_def vid_okI)

lemma del_safe: "con_wf s \<Longrightarrow> con_safe (del s)"
  by (auto simp: del_def con_wf_def con_consts u32_id vput_safe Let_def)

lemma put_cell_safe: "con_wf s \<Longrightarrow> con_x s < columns \<Longrightarrow> con_safe (put_cell a c s)"
  by (simp add: put_cell_def vput_safe con_wf_def con_consts)

lemma erase_eq:
  assumes "SCREEN_START \<le> a" "a + 2 * n \<le> SCREEN_END" "even a" "0 \<le> n"
  shows "erase n a s = Done (s\<lparr>con_vmem := fill a n blank (con_vmem s)\<rparr>)"
proof -
  have "u32 n = n" using assms by (simp add: u32_id con_consts)
  then show ?thesis using assms by (simp add: erase_def stosw_fill)
qed

lemma csi_J_safe: "con_wf s \<Longrightarrow> con_safe (csi_J p s)"
  by (auto simp: csi_J_def erase_eq u32_id con_wf_def con_consts)

lemma csi_K_safe: "con_wf s \<Longrightarrow> con_safe (csi_K p s)"
  by (auto simp: csi_K_def erase_eq u32_id con_wf_def con_consts)

lemma csi_m_loop_total: "i + k \<le> length ps \<Longrightarrow> \<exists>a'. csi_m_loop k i ps a = Done a'"
  by (induction k arbitrary: i a) (simp_all add: rd_def)

lemma csi_m_safe:
  assumes "con_wf s"
  shows "con_safe (csi_m s)"
proof -
  have "nat (con_npar s + 1) \<le> length (con_par s)" using assms by (auto simp: con_wf_def)
  then obtain a where "csi_m_loop (nat (con_npar s + 1)) 0 (con_par s) (con_attr s) = Done a"
    using csi_m_loop_total [of 0 "nat (con_npar s + 1)"] by auto
  then show ?thesis using assms by (simp add: csi_m_def con_wf_def)
qed

lemma insert_char_eq:
  assumes "con_wf s"
  shows "insert_char s =
    Done (s\<lparr>con_vmem := ins_mem (con_pos s) (columns - con_x s) blank (con_vmem s)\<rparr>)"
  using assms by (simp add: insert_char_def insert_char_loop_eq con_wf_def con_consts)

lemma delete_char_eq:
  assumes "con_wf s" "con_x s < columns"
  shows "delete_char s =
    Done (s\<lparr>con_vmem := (del_mem (con_pos s) (columns - con_x s - 1) (con_vmem s))
      (con_pos s + 2 * (columns - con_x s - 1) := blank)\<rparr>)"
  using assms by (simp add: delete_char_def delete_char_loop_eq vput_safe con_wf_def con_consts)

lemma insert_char_safe: "con_wf s \<Longrightarrow> con_safe (insert_char s)"
  by (simp add: insert_char_eq)

lemma delete_char_safe: "con_wf s \<Longrightarrow> con_safe (delete_char s)"
  by (cases "con_x s < columns") (simp add: delete_char_eq, simp add: delete_char_def)

lemma region_wf: "con_wf s \<Longrightarrow> 0 \<le> t \<Longrightarrow> t < b \<Longrightarrow> b \<le> lines \<Longrightarrow> con_wf (s\<lparr>con_top := t, con_bottom := b\<rparr>)"
  by (simp add: con_wf_def)

lemma insert_line_safe: "con_wf s \<Longrightarrow> con_safe (insert_line s)"
  unfolding insert_line_def by (intro con_safe_bind scrdown_safe) (auto simp: con_wf_def)

lemma delete_line_safe: "con_wf s \<Longrightarrow> con_safe (delete_line s)"
  unfolding delete_line_def by (intro con_safe_bind scrup_safe) (auto simp: con_wf_def)

lemmas con_op_safe = csi_J_safe csi_K_safe csi_m_safe lf_safe ri_safe del_safe

lemma con_rep_safe:
  "con_wf s \<Longrightarrow> con_safe (csi_at n s)" "con_wf s \<Longrightarrow> con_safe (csi_L n s)"
  "con_wf s \<Longrightarrow> con_safe (csi_P n s)" "con_wf s \<Longrightarrow> con_safe (csi_M n s)"
  by (simp_all add: csi_at_def csi_L_def csi_P_def csi_M_def con_safe_orep insert_char_safe
    insert_line_safe delete_char_safe delete_line_safe)


section \<open>The state machine keeps the invariant\<close>

lemma con_wf_state: "con_wf s \<Longrightarrow> k \<in> {0, 1, 2, 3} \<Longrightarrow> con_wf (s\<lparr>con_state := k\<rparr>)"
  by (simp add: con_wf_def)

lemma wrap_line_eq:
  assumes "con_wf (s\<lparr>con_x := con_x s - columns, con_pos := con_pos s - 2 * columns\<rparr>)"
  shows "wrap_line s = lf (s\<lparr>con_x := con_x s - columns, con_pos := con_pos s - 2 * columns\<rparr>)"
proof -
  have "u32 (con_x s - columns) = con_x s - columns" "u32 (con_pos s - columns * 2) = con_pos s - 2 * columns"
    using assms by (auto simp: con_wf_def con_consts u32_id)
  then show ?thesis by (simp only: wrap_line_def)
qed

lemma wrap_line_safe:
  assumes "con_wf (s\<lparr>con_x := con_x s - columns, con_pos := con_pos s - 2 * columns\<rparr>)"
  shows "con_safe (wrap_line s)"
  unfolding wrap_line_eq [OF assms] by (rule lf_safe [OF assms])

lemma scrup_x: "con_wf s \<Longrightarrow> scrup s = Done s' \<Longrightarrow> con_x s' = con_x s"
  using scrup_grid [of s] by (auto simp: con_frame_def)

lemma lf_x: "con_wf s \<Longrightarrow> lf s = Done s' \<Longrightarrow> con_x s' = con_x s"
  by (auto simp: lf_def scrup_x split: if_splits)

lemma print_safe:
  assumes "con_wf s" "con_x s < columns"
  shows "con_safe (obind (put_cell a c s) (\<lambda>s.
    Done (s\<lparr>con_pos := u32 (con_pos s + 2), con_x := u32 (con_x s + 1)\<rparr>)))"
  using assms by (simp add: put_cell_def vput_safe con_wf_def con_consts u32_id)

lemma con_state0_print:
  assumes "con_wf s"
  shows "con_safe (obind (if con_x s \<ge> columns then wrap_line s else Done s) (\<lambda>s.
    obind (put_cell (con_attr s) c s) (\<lambda>s.
    Done (s\<lparr>con_pos := u32 (con_pos s + 2), con_x := u32 (con_x s + 1)\<rparr>))))"
proof (cases "con_x s \<ge> columns")
  case True
  let ?s = "s\<lparr>con_x := con_x s - columns, con_pos := con_pos s - 2 * columns\<rparr>"
  have w: "con_wf ?s" using assms True by (simp add: con_wf_def con_consts)
  obtain s' where s': "wrap_line s = Done s'" "con_wf s'"
    using wrap_line_safe [OF w] by (auto simp: con_safe_def)
  have "con_x s' = con_x s - columns"
    using lf_x [OF w] s'(1) by (simp add: wrap_line_eq [OF w])
  then have "con_x s' < columns" using assms by (simp add: con_wf_def con_consts)
  then show ?thesis using True s' print_safe [OF s'(2)] by simp
next
  case False
  then show ?thesis using print_safe [OF assms] by simp
qed

lemma con_state0_tab:
  assumes "con_wf s"
  shows "con_safe (let t = 8 - con_x s mod 8;
      s = s\<lparr>con_x := u32 (con_x s + t), con_pos := u32 (con_pos s + t * 2)\<rparr> in
    if con_x s > columns then wrap_line s else Done s)"
proof -
  define t where "t = 8 - con_x s mod 8"
  let ?s = "s\<lparr>con_x := con_x s + t, con_pos := con_pos s + t * 2\<rparr>"
  have t: "0 < t" "t \<le> 8" unfolding t_def using pos_mod_bound [of 8 "con_x s"] pos_mod_sign [of 8 "con_x s"] by linarith+
  have u: "u32 (con_x s + t) = con_x s + t" "u32 (con_pos s + t * 2) = con_pos s + t * 2"
    using assms t by (auto simp: con_wf_def con_consts u32_id)
  have "con_safe (if con_x ?s > columns then wrap_line ?s else Done ?s)"
  proof (cases "con_x s + t > columns")
    case True
    have "con_wf (?s\<lparr>con_x := con_x ?s - columns, con_pos := con_pos ?s - 2 * columns\<rparr>)"
      using assms t True by (simp add: con_wf_def con_consts)
    from wrap_line_safe [OF this] show ?thesis using True by simp
  next
    case False
    then have "con_wf ?s" using assms t by (simp add: con_wf_def con_consts)
    then show ?thesis using False by simp
  qed
  then show ?thesis unfolding Let_def t_def [symmetric] u by simp
qed

lemma con_state0_safe:
  assumes "con_wf s"
  shows "con_safe (con_state0 e c s)"
proof -
  have b: "con_wf (if con_x s \<noteq> 0 then s\<lparr>con_x := con_x s - 1, con_pos := u32 (con_pos s - 2)\<rparr> else s)"
    using assms by (auto simp: con_wf_def con_consts u32_id)
  show ?thesis
    unfolding con_state0_def
    using con_state0_print [OF assms] con_state0_tab [OF assms] b
    by (simp add: con_wf_state [OF assms] lf_safe [OF assms] cr_wf [OF assms] del_safe [OF assms] assms)
qed

lemma par_nonneg: "con_wf s \<Longrightarrow> i < 16 \<Longrightarrow> 0 \<le> con_par s ! i"
  by (auto simp: con_wf_def)

lemma par_update_wf: "con_wf s \<Longrightarrow> 0 \<le> v \<Longrightarrow> con_wf (s\<lparr>con_par := (con_par s)[i := v]\<rparr>)"
  by (auto simp: con_wf_def dest!: set_update_subset_insert [THEN subsetD])

lemma par_dec_wf: "con_wf s \<Longrightarrow> i < 16 \<Longrightarrow> con_wf (par_dec i s)"
  using par_nonneg [of s i] by (simp add: par_dec_def par_update_wf)

lemma par_one_wf: "con_wf s \<Longrightarrow> con_wf (par_one s)"
  by (simp add: par_one_def par_update_wf)

lemma set_region_wf:
  assumes "con_wf s"
  shows "con_wf (if con_par s ! 0 < con_par s ! 1 \<and> con_par s ! 1 \<le> lines
    then s\<lparr>con_top := con_par s ! 0, con_bottom := con_par s ! 1\<rparr> else s)"
  using assms par_nonneg [OF assms, of 0] by (simp add: region_wf)

lemma con_state4_safe:
  assumes "con_wf (s\<lparr>con_state := 0\<rparr>)"
  shows "con_safe (con_state4 c s)"
proof -
  let ?s = "s\<lparr>con_state := 0\<rparr>"
  have d: "con_wf (gotoxy a b (par_dec 0 ?s))" "con_wf (gotoxy a b (par_one ?s))"
    "con_wf (gotoxy a b (par_dec 1 (par_dec 0 ?s)))" for a b
    using assms by (auto intro!: gotoxy_wf par_dec_wf par_one_wf)
  have l: "con_wf (if con_par t ! 1 = 0 then t\<lparr>con_par := (con_par t)[1 := lines]\<rparr> else t)"
    if "con_wf t" for t
    using that by (simp add: par_update_wf lines_def)
  note r = set_region_wf [OF l [OF par_dec_wf [OF assms, of 0]]]
  show ?thesis
    unfolding con_state4_def Let_def
    using d r csi_J_safe [OF assms] csi_K_safe [OF assms] con_rep_safe [OF assms] csi_m_safe [OF assms]
      save_cur_wf [OF assms] restore_cur_wf [OF assms] assms
    by simp
qed

lemma con_state3_safe:
  assumes "con_wf s"
  shows "con_safe (con_state3 c s)"
proof -
  have "con_wf (s\<lparr>con_npar := con_npar s + 1\<rparr>)" if "con_npar s < 15"
    using assms that by (simp add: con_wf_def)
  moreover have "nat (con_npar s) < length (con_par s)" using assms by (auto simp: con_wf_def)
  moreover have "con_safe (con_state4 c (s\<lparr>con_state := 4\<rparr>))"
    using con_wf_state [OF assms, of 0] by (intro con_state4_safe) simp
  ultimately show ?thesis
    using assms by (simp add: con_state3_def rd_def par_update_wf u32_range)
qed

lemma con_state2_safe:
  assumes "con_wf s"
  shows "con_safe (con_state2 c s)"
proof -
  have "con_wf (s\<lparr>con_par := replicate 16 0, con_npar := 0, con_state := 3, con_ques := q\<rparr>)" for q
    using assms by (simp add: con_wf_def)
  then show ?thesis unfolding con_state2_def Let_def using con_state3_safe by simp
qed

lemma con_state1_safe:
  assumes "con_wf s"
  shows "\<exists>f s'. con_state1 c s = Done (f, s') \<and> con_wf s'"
proof -
  let ?s = "s\<lparr>con_state := 0\<rparr>"
  have w: "con_wf ?s" "con_wf (?s\<lparr>con_state := 2\<rparr>)" using con_wf_state [OF assms] by auto
  obtain s1 s2 where "ri ?s = Done s1" "con_wf s1" "lf ?s = Done s2" "con_wf s2"
    using ri_safe [OF w(1)] lf_safe [OF w(1)] by (auto simp: con_safe_def)
  then show ?thesis
    using w gotoxy_wf [OF w(1)] save_cur_wf [OF w(1)] restore_cur_wf [OF w(1)]
    by (simp add: con_state1_def Let_def) blast
qed

lemma con_char_safe:
  assumes "con_wf s"
  shows "\<exists>f s'. con_char e c s = Done (f, s') \<and> con_wf s'"
proof -
  have "\<exists>f s'. obind r (\<lambda>s. Done (False, s)) = Done (f, s') \<and> con_wf s'" if "con_safe r" for r
    using that by (auto simp: con_safe_def)
  moreover have "con_state s \<in> {0, 1, 2, 3}" using assms by (simp add: con_wf_def)
  ultimately show ?thesis
    using con_state0_safe [OF assms] con_state1_safe [OF assms] con_state2_safe [OF assms]
      con_state3_safe [OF assms]
    by (auto simp: con_char_def Let_def)
qed

end
