(* ===== verification/ConsoleSpec.thy ===== *)
theory ConsoleSpec
  imports ConsoleWf
begin

text \<open>
  What the console driver shows: the start of the driver, sequences of characters, and the
  refinement of the terminal's operations on its grid of cells.
\<close>

section \<open>Start of the driver\<close>

text \<open>
  The initial values of the variables, and \<open>con_init\<close>, which takes the cursor position that the
  BIOS left; the rest of \<open>con_init\<close> programs the interrupt controller.
\<close>

definition con_boot :: "(int \<Rightarrow> int) \<Rightarrow> (int \<Rightarrow> int) \<Rightarrow> console" where
  "con_boot vmem crtc =
     \<lparr>con_origin = SCREEN_START, con_scr_end = SCREEN_START + lines * columns * 2, con_pos = 0,
      con_x = 0, con_y = 0, con_top = 0, con_bottom = lines, con_state = 0, con_npar = 0,
      con_par = replicate 16 0, con_ques = False, con_attr = 0x07, con_saved_x = 0, con_saved_y = 0,
      con_vmem = vmem, con_crtc = crtc\<rparr>"

definition con_init :: "int \<Rightarrow> int \<Rightarrow> console \<Rightarrow> console" where
  "con_init bios_x bios_y s = gotoxy bios_x bios_y s"

lemma con_init_wf:
  assumes "0 \<le> bx" "bx < columns" "0 \<le> b_y" "b_y < lines"
  shows "con_wf (con_init bx b_y (con_boot m r))"
proof -
  have "u32 bx = bx" "u32 b_y = b_y" using assms by (simp_all add: u32_id con_consts)
  then show ?thesis using assms by (simp add: con_init_def con_boot_def gotoxy_def con_wf_def con_consts u32_id)
qed

text \<open>A sequence of characters; the number of calls of \<open>respond\<close> on the way.\<close>

fun con_chars :: "int \<Rightarrow> int list \<Rightarrow> console \<Rightarrow> (nat \<times> console) outcome" where
  "con_chars e [] s = Done (0, s)"
| "con_chars e (c # cs) s =
     obind (con_char e c s) (\<lambda>(f, s). obind (con_chars e cs s) (\<lambda>(n, s). Done ((if f then Suc n else n), s)))"

lemma con_chars_wf: "con_wf s \<Longrightarrow> \<exists>n s'. con_chars e cs s = Done (n, s') \<and> con_wf s'"
proof (induction cs arbitrary: s)
  case (Cons c cs)
  obtain f s1 where 1: "con_char e c s = Done (f, s1)" "con_wf s1" using con_char_safe [OF Cons.prems] by blast
  obtain n s2 where "con_chars e cs s1 = Done (n, s2)" "con_wf s2" using Cons.IH [OF 1(2)] by blast
  then show ?case using 1 by simp
qed simp

section \<open>The grid operations\<close>

definition grid_ins :: "int \<Rightarrow> int \<Rightarrow> (int \<Rightarrow> int \<Rightarrow> int) \<Rightarrow> int \<Rightarrow> int \<Rightarrow> int" where
  "grid_ins y x g r c =
     (if r = y \<and> x \<le> c then (if c = x then blank else g r (c - 1)) else g r c)"

definition grid_del :: "int \<Rightarrow> int \<Rightarrow> (int \<Rightarrow> int \<Rightarrow> int) \<Rightarrow> int \<Rightarrow> int \<Rightarrow> int" where
  "grid_del y x g r c =
     (if r = y \<and> x \<le> c then (if c = columns - 1 then blank else g r (c + 1)) else g r c)"

lemma row_unique:
  assumes "80 * y \<le> 80 * r + (c :: int)" "80 * r + c < 80 * y + 80" "0 \<le> c" "c < 80"
  shows "r = y"
proof -
  have "r \<le> y" "y \<le> r" using assms by linarith+
  then show ?thesis by simp
qed

lemma row_range:
  assumes "on_grid r c" "0 \<le> x" "x < columns"
  shows "columns * y + x \<le> columns * r + c \<and> columns * r + c < columns * y + columns \<longleftrightarrow>
    r = y \<and> x \<le> c"
proof
  assume a: "columns * y + x \<le> columns * r + c \<and> columns * r + c < columns * y + columns"
  then have "r = y" using assms by (intro row_unique [of y r c]) (auto simp: on_grid_def con_consts)
  then show "r = y \<and> x \<le> c" using a by simp
qed (use assms in \<open>auto simp: on_grid_def con_consts\<close>)

lemma cell_eq_iff:
  assumes "on_grid r c" "0 \<le> x" "x < columns"
  shows "columns * r + c = columns * y + x \<longleftrightarrow> r = y \<and> c = x"
proof
  assume a: "columns * r + c = columns * y + x"
  then have "r = y" using assms by (intro row_unique [of y r c]) (auto simp: on_grid_def con_consts)
  then show "r = y \<and> c = x" using a by simp
qed simp

lemma row_window:
  assumes "con_wf s" "con_x s < columns" "on_grid r c"
  shows "con_pos s \<le> con_origin s + 2 * (columns * r + c) \<and>
      con_origin s + 2 * (columns * r + c) < con_pos s + 2 * (columns - con_x s) \<longleftrightarrow>
      r = con_y s \<and> con_x s \<le> c"
    "con_origin s + 2 * (columns * r + c) = con_pos s \<longleftrightarrow> r = con_y s \<and> c = con_x s"
    "con_origin s + 2 * (columns * r + c) = con_pos s + 2 * (columns - con_x s - 1) \<longleftrightarrow>
      r = con_y s \<and> c = columns - 1"
    "even (con_origin s + 2 * (columns * r + c))"
proof -
  have w: "con_pos s = con_origin s + 2 * (columns * con_y s + con_x s)" "0 \<le> con_x s" "0 \<le> con_y s"
    "even (con_origin s)" using assms(1) by (simp_all add: con_wf_def)
  show "con_pos s \<le> con_origin s + 2 * (columns * r + c) \<and>
      con_origin s + 2 * (columns * r + c) < con_pos s + 2 * (columns - con_x s) \<longleftrightarrow>
      r = con_y s \<and> con_x s \<le> c"
    unfolding w(1) row_range [OF assms(3) w(2) assms(2), of "con_y s", symmetric] by auto
  show "con_origin s + 2 * (columns * r + c) = con_pos s \<longleftrightarrow> r = con_y s \<and> c = con_x s"
    unfolding w(1) cell_eq_iff [OF assms(3) w(2) assms(2), of "con_y s", symmetric] by auto
  show "con_origin s + 2 * (columns * r + c) = con_pos s + 2 * (columns - con_x s - 1) \<longleftrightarrow>
      r = con_y s \<and> c = columns - 1"
    using cell_eq_iff [OF assms(3), of "columns - 1" "con_y s"] unfolding w(1) by (auto simp: con_consts)
  show "even (con_origin s + 2 * (columns * r + c))" using w(4) by simp
qed

lemma cell_shift:
  "con_vmem s (con_origin s + 2 * (columns * r + c) - 2) = cell s r (c - 1)"
  "con_vmem s (con_origin s + 2 * (columns * r + c) + 2) = cell s r (c + 1)"
  by (simp_all add: cell_def algebra_simps)

lemma insert_char_grid:
  assumes "con_wf s" "con_x s < columns"
  shows "\<exists>s'. insert_char s = Done s' \<and> con_wf s' \<and> con_frame s s' \<and>
    (\<forall>r c. on_grid r c \<longrightarrow> cell s' r c = grid_ins (con_y s) (con_x s) (cell s) r c)"
proof -
  let ?s = "s\<lparr>con_vmem := ins_mem (con_pos s) (columns - con_x s) blank (con_vmem s)\<rparr>"
  have "cell ?s r c = grid_ins (con_y s) (con_x s) (cell s) r c" if g: "on_grid r c" for r c
  proof -
    have "cell ?s r c = ins_mem (con_pos s) (columns - con_x s) blank (con_vmem s)
        (con_origin s + 2 * (columns * r + c))" by (simp add: cell_def)
    also have "\<dots> = grid_ins (con_y s) (con_x s) (cell s) r c"
      using row_window [OF assms g]
      by (simp only: ins_mem_def grid_ins_def cell_shift cell_def [symmetric]) auto
    finally show ?thesis .
  qed
  then show ?thesis using insert_char_eq [OF assms(1)] assms(1) by simp
qed

lemma delete_char_grid:
  assumes "con_wf s" "con_x s < columns"
  shows "\<exists>s'. delete_char s = Done s' \<and> con_wf s' \<and> con_frame s s' \<and>
    (\<forall>r c. on_grid r c \<longrightarrow> cell s' r c = grid_del (con_y s) (con_x s) (cell s) r c)"
proof -
  let ?m = "(del_mem (con_pos s) (columns - con_x s - 1) (con_vmem s))
    (con_pos s + 2 * (columns - con_x s - 1) := blank)"
  let ?s = "s\<lparr>con_vmem := ?m\<rparr>"
  have "cell ?s r c = grid_del (con_y s) (con_x s) (cell s) r c" if g: "on_grid r c" for r c
  proof -
    let ?p = "con_origin s + 2 * (columns * r + c)"
    have w: "con_pos s \<le> ?p \<and> ?p < con_pos s + 2 * (columns - con_x s - 1) \<longleftrightarrow>
        r = con_y s \<and> con_x s \<le> c \<and> c \<noteq> columns - 1"
    proof -
      have "?p < con_pos s + 2 * (columns - con_x s - 1) \<longleftrightarrow>
          ?p < con_pos s + 2 * (columns - con_x s) \<and> ?p \<noteq> con_pos s + 2 * (columns - con_x s - 1)"
        using even_three [OF row_window(4) [OF assms g], of "con_pos s + 2 * (columns - con_x s - 1)"] assms(1)
        by (auto simp: con_wf_def)
      then show ?thesis using row_window [OF assms g] by blast
    qed
    have "cell ?s r c = ?m ?p" by (simp add: cell_def)
    also have "\<dots> = grid_del (con_y s) (con_x s) (cell s) r c"
      using w row_window(3,4) [OF assms g] assms(2)
      by (simp only: del_mem_def grid_del_def cell_shift cell_def [symmetric] fun_upd_apply) auto
    finally show ?thesis .
  qed
  then show ?thesis using delete_char_eq [OF assms] assms(1) by simp
qed

section \<open>Printing\<close>

text \<open>
  What a printable character does to the terminal: the grid, the column and the row. A full line
  continues on the next one, scrolling the region when the cursor is on its last row.
\<close>

definition vt_print :: "int \<Rightarrow> int \<Rightarrow> int \<Rightarrow> (int \<Rightarrow> int \<Rightarrow> int) \<times> int \<times> int \<Rightarrow> (int \<Rightarrow> int \<Rightarrow> int) \<times> int \<times> int" where
  "vt_print t b v = (\<lambda>(g, x, y).
     let (g, x, y) = (if x < columns then (g, x, y)
       else if y + 1 < b then (g, 0, y + 1) else (grid_up t b g, 0, y)) in
     ((\<lambda>r c. if r = y \<and> c = x then v else g r c), x + 1, y))"

lemma put_cell_grid:
  assumes "con_wf s" "con_x s < columns"
  shows "\<exists>s'. obind (put_cell a c s) (\<lambda>s. Done (s\<lparr>con_pos := u32 (con_pos s + 2), con_x := u32 (con_x s + 1)\<rparr>)) = Done s' \<and>
    con_wf s' \<and> con_x s' = con_x s + 1 \<and> con_y s' = con_y s \<and> con_attr s' = con_attr s \<and> con_state s' = con_state s \<and>
    (\<forall>i j. on_grid i j \<longrightarrow> cell s' i j = (if i = con_y s \<and> j = con_x s then u8 a * 256 + u8 c else cell s i j))"
proof -
  let ?s = "s\<lparr>con_vmem := (con_vmem s)(con_pos s := u8 a * 256 + u8 c), con_pos := con_pos s + 2, con_x := con_x s + 1\<rparr>"
  have r: "obind (put_cell a c s) (\<lambda>s. Done (s\<lparr>con_pos := u32 (con_pos s + 2), con_x := u32 (con_x s + 1)\<rparr>)) = Done ?s"
    using assms by (simp add: put_cell_def vput_safe con_wf_def con_consts u32_id)
  have "cell ?s i j = (if i = con_y s \<and> j = con_x s then u8 a * 256 + u8 c else cell s i j)"
    if "on_grid i j" for i j
    using row_window(2) [OF assms that] by (simp add: cell_def)
  moreover have "con_wf ?s" using assms by (simp add: con_wf_def con_consts)
  ultimately show ?thesis using r by simp
qed

lemma lf_grid:
  assumes "con_wf s"
  shows "\<exists>s'. lf s = Done s' \<and> con_wf s' \<and> con_x s' = con_x s \<and> con_attr s' = con_attr s \<and> con_state s' = con_state s \<and>
    con_y s' = (if con_y s + 1 < con_bottom s then con_y s + 1 else con_y s) \<and>
    (\<forall>r c. on_grid r c \<longrightarrow> cell s' r c =
      (if con_y s + 1 < con_bottom s then cell s r c else grid_up (con_top s) (con_bottom s) (cell s) r c))"
proof (cases "con_y s + 1 < con_bottom s")
  case True
  have "con_wf (s\<lparr>con_y := con_y s + 1, con_pos := con_pos s + 160\<rparr>)"
    using assms True by (simp add: con_wf_def con_consts)
  moreover have "lf s = Done (s\<lparr>con_y := con_y s + 1, con_pos := con_pos s + 160\<rparr>)"
    using assms True by (simp add: lf_def con_wf_def con_consts u32_id)
  ultimately show ?thesis using True by (auto simp: cell_def)
next
  case False
  moreover have "u32 (con_y s + 1) = con_y s + 1" using assms by (simp add: con_wf_def con_consts u32_id)
  ultimately show ?thesis using scrup_grid [OF assms] by (auto simp: lf_def con_frame_def)
qed

lemma con_print_grid:
  assumes w: "con_wf s" and st: "con_state s = 0" and c: "31 < c" "c < 127"
  shows "\<exists>s'. con_char e c s = Done (False, s') \<and> con_wf s' \<and> con_attr s' = con_attr s \<and> con_state s' = 0 \<and>
    (case vt_print (con_top s) (con_bottom s) (u8 (con_attr s) * 256 + c) (cell s, con_x s, con_y s) of
      (g, x, y) \<Rightarrow> con_x s' = x \<and> con_y s' = y \<and> (\<forall>i j. on_grid i j \<longrightarrow> cell s' i j = g i j))"
proof (cases "con_x s < columns")
  case True
  have "u8 c = c" using c by (simp add: u8_id)
  then show ?thesis
    using put_cell_grid [OF w True, of "con_attr s" c] st c True
    by (auto simp: con_char_def con_state0_def vt_print_def)
next
  case False
  let ?s = "s\<lparr>con_x := con_x s - columns, con_pos := con_pos s - 2 * columns\<rparr>"
  have x: "con_x s = columns" using w False by (simp add: con_wf_def)
  have w1: "con_wf ?s" using w x by (simp add: con_wf_def con_consts)
  obtain s1 where s1: "lf ?s = Done s1" "con_wf s1" "con_x s1 = 0" "con_attr s1 = con_attr s" "con_state s1 = 0"
      "con_y s1 = (if con_y s + 1 < con_bottom s then con_y s + 1 else con_y s)"
    and g: "\<And>r c. on_grid r c \<Longrightarrow> cell s1 r c =
      (if con_y s + 1 < con_bottom s then cell ?s r c else grid_up (con_top s) (con_bottom s) (cell ?s) r c)"
    using lf_grid [OF w1] x st by auto
  have q: "cell ?s = cell s" by (simp add: cell_def [abs_def])
  have "con_x s1 < columns" using s1 by (simp add: con_consts)
  from put_cell_grid [OF s1(2) this, of "con_attr s1" c] show ?thesis
    using s1 g st c x False wrap_line_eq [OF w1] unfolding q
    by (auto simp: con_char_def con_state0_def vt_print_def u8_id)
qed


section \<open>Cursor addressing\<close>

text \<open>The decimal digits of a parameter, as the characters of an escape sequence.\<close>

fun dec :: "nat \<Rightarrow> int list" where
  "dec n = (if n < 10 then [48 + int n] else dec (n div 10) @ [48 + int (n mod 10)])"

declare dec.simps [simp del]

lemma con_chars_append:
  "con_chars e (xs @ ys) s =
   obind (con_chars e xs s) (\<lambda>(n, s). obind (con_chars e ys s) (\<lambda>(k, s). Done (n + k, s)))"
proof (induction xs arbitrary: s)
  case Nil
  show ?case by (cases "con_chars e ys s") auto
next
  case (Cons x xs)
  show ?case
  proof (cases "con_char e x s")
    case (Done p)
    obtain f t where p: "p = (f, t)" by fastforce
    show ?thesis
    proof (cases "con_chars e xs t")
      case d: (Done q)
      obtain n u where "q = (n, u)" by fastforce
      then show ?thesis using p Done d by (cases "con_chars e ys u") (auto simp: Cons)
    qed (use p Done in \<open>auto simp: Cons\<close>)
  qed auto
qed

lemma digit_char:
  assumes "con_state s = 3" "48 \<le> c" "c \<le> 57" "nat (con_npar s) < length (con_par s)"
  shows "con_char e c s = Done (False,
    s\<lparr>con_par := (con_par s)[nat (con_npar s) := u32 (10 * con_par s ! nat (con_npar s) + c - 48)]\<rparr>)"
  using assms by (simp add: con_char_def con_state3_def rd_def)

lemma dec_parse:
  "con_state s = 3 \<Longrightarrow> k < length (con_par s) \<Longrightarrow> con_npar s = int k \<Longrightarrow> con_par s ! k = 0 \<Longrightarrow>
   int n < 4294967296 \<Longrightarrow> con_chars e (dec n) s = Done (0, s\<lparr>con_par := (con_par s)[k := int n]\<rparr>)"
proof (induction n rule: dec.induct)
  case (1 n)
  show ?case
  proof (cases "n < 10")
    case True
    then show ?thesis using "1.prems" by (simp add: dec.simps [of n] digit_char u32_id)
  next
    case False
    have i: "int (n div 10) < 4294967296" using "1.prems"(5) by linarith
    have a: "10 * int (n div 10) + int (n mod 10) = int n" by presburger
    have m: "int (n mod 10) \<le> 9" by presburger
    have "u32 (10 * int (n div 10) + (48 + int (n mod 10)) - 48) = int n"
      using a "1.prems"(5) by (simp add: u32_id)
    then show ?thesis
      using "1.IH" [OF False "1.prems"(1-4) i] "1.prems" m False
      by (simp add: dec.simps [of n] con_chars_append digit_char)
  qed
qed

lemma dec_first: "\<exists>c cs. dec n = c # cs \<and> 48 \<le> c \<and> c \<le> 57"
proof (induction n rule: dec.induct)
  case (1 n)
  then show ?case by (cases "n < 10") (auto simp: dec.simps [of n])
qed

lemma csi_start:
  assumes "con_state s = 0"
  shows "con_chars e ([27, 91] @ dec n @ cs) s =
    con_chars e (dec n @ cs)
      (s\<lparr>con_par := replicate 16 0, con_npar := 0, con_state := 3, con_ques := False\<rparr>)"
proof -
  obtain c ds where d: "dec n = c # ds" "48 \<le> c" "c \<le> 57" using dec_first by blast
  have "con_char e 27 s = Done (False, s\<lparr>con_state := 1\<rparr>)"
    using assms by (simp add: con_char_def con_state0_def)
  moreover have "con_char e 91 (s\<lparr>con_state := 1\<rparr>) = Done (False, s\<lparr>con_state := 2\<rparr>)"
    by (simp add: con_char_def con_state1_def)
  moreover have "con_char e c (s\<lparr>con_state := 2\<rparr>) = con_char e c
      (s\<lparr>con_par := replicate 16 0, con_npar := 0, con_state := 3, con_ques := False\<rparr>)"
    using d by (simp add: con_char_def con_state2_def Let_def)
  ultimately show ?thesis using d by (simp add: obind_assoc split_def)
qed


lemma goto_sequence:
  assumes w: "con_wf s" and st: "con_state s = 0" and r: "1 \<le> r" "r \<le> 25" and c: "1 \<le> c" "c \<le> 80"
  shows "\<exists>s'. con_chars e ([27, 91] @ dec r @ [59] @ dec c @ [72]) s = Done (0, s') \<and> con_wf s' \<and>
    con_state s' = 0 \<and> con_x s' = int c - 1 \<and> con_y s' = int r - 1 \<and> cell s' = cell s"
proof -
  let ?s0 = "s\<lparr>con_par := replicate 16 0, con_npar := 0, con_state := 3, con_ques := False\<rparr>"
  let ?s1 = "?s0\<lparr>con_par := (replicate 16 0)[0 := int r]\<rparr>"
  let ?s2 = "?s1\<lparr>con_npar := 1\<rparr>"
  let ?s3 = "?s2\<lparr>con_par := (replicate 16 0)[0 := int r, 1 := int c]\<rparr>"
  let ?p = "(replicate 16 0)[0 := int r, 1 := int c, 0 := int r - 1, 1 := int c - 1]"
  let ?s4 = "gotoxy (int c - 1) (int r - 1) (?s3\<lparr>con_state := 0, con_par := ?p\<rparr>)"
  have 1: "con_chars e (dec r) ?s0 = Done (0, ?s1)"
    using r by (subst dec_parse [of _ 0]) simp_all
  have 2: "con_char e 59 ?s1 = Done (False, ?s2)" by (simp add: con_char_def con_state3_def)
  have 3: "con_chars e (dec c) ?s2 = Done (0, ?s3)"
    using c by (subst dec_parse [of _ 1]) simp_all
  have 4: "con_char e 72 ?s3 = Done (False, ?s4)"
    using r c by (simp add: con_char_def con_state3_def con_state4_def par_dec_def Let_def)
  have "con_chars e ([27, 91] @ dec r @ [59] @ dec c @ [72]) s = con_chars e (dec r @ [59] @ dec c @ [72]) ?s0"
    by (rule csi_start [OF st])
  also have "\<dots> = Done (0, ?s4)"
    by (simp only: con_chars_append 1 2 3 4 con_chars.simps obind.simps split if_False add_0)
  finally have f: "con_chars e ([27, 91] @ dec r @ [59] @ dec c @ [72]) s = Done (0, ?s4)" .
  have "con_wf (?s3\<lparr>con_state := 0, con_par := ?p\<rparr>)"
    using w r c by (auto simp: con_wf_def dest!: set_update_subset_insert [THEN subsetD])
  then have "con_wf ?s4" by (rule gotoxy_wf)
  moreover have "con_state ?s4 = 0 \<and> con_x ?s4 = int c - 1 \<and> con_y ?s4 = int r - 1 \<and> cell ?s4 = cell s"
    using r c by (auto simp: gotoxy_def con_consts u32_id cell_def [abs_def])
  ultimately show ?thesis using f by blast
qed

section \<open>Erasing\<close>

lemma fill_cell:
  assumes "even a"
  shows "fill (a + 2 * i) n v m (a + 2 * k) = (if i \<le> k \<and> k < i + n then v else m (a + 2 * k))"
  using assms by (simp add: fill_def)

lemma lex_ge:
  assumes "on_grid r c" "0 \<le> x" "x \<le> columns"
  shows "columns * y + x \<le> columns * r + c \<longleftrightarrow> y < r \<or> (r = y \<and> x \<le> c)"
proof -
  consider "r < y" | "r = y" | "y < r" by linarith
  then show ?thesis
  proof cases
    case 1
    then have "r + 1 \<le> y" by simp
    then show ?thesis using assms by (auto simp: on_grid_def con_consts)
  next
    case 2
    then show ?thesis by simp
  next
    case 3
    then have "y + 1 \<le> r" by simp
    then show ?thesis using assms by (auto simp: on_grid_def con_consts)
  qed
qed

text \<open>Which cells \<open>ESC [ p J\<close> and \<open>ESC [ p K\<close> clear, for the cursor at column \<open>x\<close> of row \<open>y\<close>.\<close>

definition erased_J :: "int \<Rightarrow> int \<Rightarrow> int \<Rightarrow> int \<Rightarrow> int \<Rightarrow> bool" where
  "erased_J p x y r c \<longleftrightarrow>
     (p = 0 \<and> (y < r \<or> (r = y \<and> x \<le> c))) \<or> (p = 1 \<and> (r < y \<or> (r = y \<and> c < x))) \<or> p = 2"

definition erased_K :: "int \<Rightarrow> int \<Rightarrow> int \<Rightarrow> int \<Rightarrow> int \<Rightarrow> bool" where
  "erased_K p x y r c \<longleftrightarrow> r = y \<and> ((p = 0 \<and> x \<le> c) \<or> (p = 1 \<and> c < x) \<or> p = 2)"

lemma erase_grid:
  assumes w: "con_wf s" and i: "0 \<le> i" "0 \<le> n" "i + n \<le> 2000"
    and e: "\<And>r c. on_grid r c \<Longrightarrow> (i \<le> columns * r + c \<and> columns * r + c < i + n) = P r c"
  shows "\<exists>s'. erase n (con_origin s + 2 * i) s = Done s' \<and> con_wf s' \<and> con_frame s s' \<and>
    (\<forall>r c. on_grid r c \<longrightarrow> cell s' r c = (if P r c then blank else cell s r c))"
proof -
  let ?s = "s\<lparr>con_vmem := fill (con_origin s + 2 * i) n blank (con_vmem s)\<rparr>"
  have o: "even (con_origin s)" using w by (simp add: con_wf_def)
  have "erase n (con_origin s + 2 * i) s = Done ?s"
    using w i by (intro erase_eq) (auto simp: con_wf_def con_consts)
  moreover have "cell ?s r c = (if P r c then blank else cell s r c)" if "on_grid r c" for r c
    using e [OF that] fill_cell [OF o] by (simp add: cell_def del: distrib_left_numeral)
  ultimately show ?thesis using w by simp
qed

lemma csi_J_grid:
  assumes w: "con_wf s"
  shows "\<exists>s'. csi_J p s = Done s' \<and> con_wf s' \<and> con_frame s s' \<and>
    (\<forall>r c. on_grid r c \<longrightarrow> cell s' r c = (if erased_J p (con_x s) (con_y s) r c then blank else cell s r c))"
proof -
  let ?i = "columns * con_y s + con_x s"
  have x: "0 \<le> con_x s" "con_x s \<le> columns" and y: "0 \<le> con_y s" "con_y s < lines"
    and q: "con_pos s = con_origin s + 2 * ?i" "con_scr_end s = con_origin s + 2 * (columns * lines)"
    using w by (simp_all add: con_wf_def)
  have u: "u32 (con_scr_end s - con_pos s) div 2 = 2000 - ?i" "u32 (con_pos s - con_origin s) div 2 = ?i"
    using x y by (simp_all add: q u32_id con_consts)
  have b: "columns * r + c < 2000" "0 \<le> columns * r + c" if "on_grid r c" for r c
    using that by (auto simp: on_grid_def con_consts)
  have l: "?i \<le> 2000" "0 \<le> ?i" using x y by (auto simp: con_consts)
  consider "p = 0" | "p = 1" | "p = 2" | "p \<notin> {0, 1, 2}" by blast
  then show ?thesis
  proof cases
    case 1
    have "(?i \<le> columns * r + c \<and> columns * r + c < ?i + (2000 - ?i)) = erased_J 0 (con_x s) (con_y s) r c"
      if "on_grid r c" for r c
      using lex_ge [OF that x] b [OF that] by (simp add: erased_J_def)
    moreover have "csi_J 0 s = erase (2000 - ?i) (con_origin s + 2 * ?i) s"
      unfolding csi_J_def u unfolding q(1) by simp
    ultimately show ?thesis using 1 l erase_grid [OF w l(2), of "2000 - ?i"] by simp
  next
    case 2
    have "(0 \<le> columns * r + c \<and> columns * r + c < 0 + ?i) = erased_J 1 (con_x s) (con_y s) r c"
      if "on_grid r c" for r c
      using lex_ge [OF that x, of "con_y s"] b [OF that] by (auto simp: erased_J_def)
    from erase_grid [OF w _ l(2) _ this] show ?thesis using 2 l by (simp add: csi_J_def u)
  next
    case 3
    have "(0 \<le> columns * r + c \<and> columns * r + c < 0 + 2000) = erased_J 2 (con_x s) (con_y s) r c"
      if "on_grid r c" for r c
      using b [OF that] by (simp add: erased_J_def)
    from erase_grid [OF w _ _ _ this] show ?thesis using 3 by (simp add: csi_J_def con_consts)
  next
    case 4
    then show ?thesis using w by (simp add: csi_J_def erased_J_def con_frame_def)
  qed
qed

lemma csi_K_grid:
  assumes w: "con_wf s"
  shows "\<exists>s'. csi_K p s = Done s' \<and> con_wf s' \<and> con_frame s s' \<and>
    (\<forall>r c. on_grid r c \<longrightarrow> cell s' r c = (if erased_K p (con_x s) (con_y s) r c then blank else cell s r c))"
proof -
  let ?i = "columns * con_y s + con_x s"
  have x: "0 \<le> con_x s" "con_x s \<le> columns" and y: "0 \<le> con_y s" "con_y s < lines"
    and q: "con_pos s = con_origin s + 2 * ?i"
    using w by (simp_all add: con_wf_def)
  have p: "con_pos s - con_x s * 2 = con_origin s + 2 * (columns * con_y s)" using q by simp
  have l: "0 \<le> ?i" "0 \<le> columns * con_y s" using x y by (auto simp: con_consts)
  have g: "columns * con_y s \<le> columns * r + c \<and> columns * r + c < columns * con_y s + columns \<longleftrightarrow> r = con_y s"
    if "on_grid r c" for r c
    using row_range [OF that, of 0 "con_y s"] that by (auto simp: on_grid_def con_consts)
  consider "p = 0" "con_x s < columns" | "p = 0" "\<not> con_x s < columns" | "p = 1" | "p = 2" | "p \<notin> {0, 1, 2}" by blast
  then show ?thesis
  proof cases
    case 1
    have "(?i \<le> columns * r + c \<and> columns * r + c < ?i + (columns - con_x s)) = erased_K 0 (con_x s) (con_y s) r c"
      if "on_grid r c" for r c
      using row_range [OF that x(1) 1(2), of "con_y s"] by (simp add: erased_K_def)
    from erase_grid [OF w l(1) _ _ this] show ?thesis
      using 1 x y by (simp add: csi_K_def q con_consts)
  next
    case 2
    then show ?thesis using w by (auto simp: csi_K_def erased_K_def con_frame_def on_grid_def)
  next
    case 3
    have "(columns * con_y s \<le> columns * r + c \<and> columns * r + c < columns * con_y s + con_x s) =
        erased_K 1 (con_x s) (con_y s) r c" if "on_grid r c" for r c
      using lex_ge [OF that x, of "con_y s"] g [OF that] that x by (auto simp: erased_K_def on_grid_def)
    from erase_grid [OF w l(2) x(1) _ this] show ?thesis
      using 3 x y by (auto simp: csi_K_def p con_consts)
  next
    case 4
    have "(columns * con_y s \<le> columns * r + c \<and> columns * r + c < columns * con_y s + columns) =
        erased_K 2 (con_x s) (con_y s) r c" if "on_grid r c" for r c
      using g [OF that] by (simp add: erased_K_def)
    from erase_grid [OF w l(2) _ _ this] show ?thesis
      using 4 y by (simp add: csi_K_def p con_consts)
  next
    case 5
    then show ?thesis using w by (simp add: csi_K_def erased_K_def con_frame_def)
  qed
qed

section \<open>Properties of the console\<close>

text \<open>
  C1: whatever characters are written to the console, from the state \<open>con_init\<close> leaves for a
  cursor position on the screen, every one of them is processed, no access leaves the video
  memory, and the invariant of the driver holds at the end.
\<close>

theorem console_safe:
  assumes "0 \<le> bios_x" "bios_x < 80" "0 \<le> bios_y" "bios_y < 25"
  shows "\<exists>n s. con_chars erase_char cs (con_init bios_x bios_y (con_boot vmem crtc)) = Done (n, s) \<and> con_wf s"
  using con_chars_wf [OF con_init_wf] assms by (simp add: con_consts)

theorem console_safe_witness:
  "\<exists>n s. con_chars 127 [27, 91, 50, 74, 27, 77, 10, 72] (con_init 0 24 (con_boot (\<lambda>a. 0) (\<lambda>a. 0))) = Done (n, s) \<and> con_wf s"
  by (rule console_safe) simp_all

text \<open>
  a scroll of the driver scrolls the region of the screen: \<open>scrup\<close> and \<open>scrdown\<close> move the rows
  of the region by one and blank the row that comes in, whether the window slides over the video
  memory, jumps back to its start, or only a part of the screen moves; cursor and modes stay.
\<close>

theorem scroll_refines_grid:
  assumes "con_wf s"
  shows "(\<exists>s'. scrup s = Done s' \<and> con_wf s' \<and> con_frame s s' \<and>
      (\<forall>r c. on_grid r c \<longrightarrow> cell s' r c = grid_up (con_top s) (con_bottom s) (cell s) r c)) \<and>
    (\<exists>s'. scrdown s = Done s' \<and> con_wf s' \<and> con_frame s s' \<and>
      (\<forall>r c. on_grid r c \<longrightarrow> cell s' r c = grid_down (con_top s) (con_bottom s) (cell s) r c))"
  using scrup_grid [OF assms] scrdown_grid [OF assms] by blast

theorem scroll_refines_grid_witness:
  "\<exists>s'. scrup (con_init 3 24 (con_boot (\<lambda>a. a) (\<lambda>a. 0))) = Done s' \<and> con_wf s' \<and> cell s' 23 0 = SCREEN_START + 3840"
proof -
  let ?s = "con_init 3 24 (con_boot (\<lambda>a. a) (\<lambda>a. 0))"
  have "con_wf ?s" by (rule con_init_wf) (simp_all add: con_consts)
  from scroll_refines_grid [OF this] obtain s' where s: "scrup ?s = Done s'" "con_wf s'"
    and g: "on_grid 23 0 \<longrightarrow> cell s' 23 0 = grid_up (con_top ?s) (con_bottom ?s) (cell ?s) 23 0" by blast
  have "cell s' 23 0 = SCREEN_START + 3840"
    using g by (simp add: on_grid_def grid_up_def cell_def con_init_def con_boot_def gotoxy_def con_consts u32_def)
  then show ?thesis using s by blast
qed

text \<open>
  C11: a printable character refines the terminal's step: it appears with the current attribute at
  the cursor, the cursor advances, a full line continues at the start of the next one, and on the
  last row of the region the region scrolls; every other cell keeps its contents.
\<close>

theorem con_print_refines:
  assumes "con_wf s" "con_state s = 0" "31 < c" "c < 127"
  shows "\<exists>s'. con_char e c s = Done (False, s') \<and> con_wf s' \<and> con_attr s' = con_attr s \<and> con_state s' = 0 \<and>
    (case vt_print (con_top s) (con_bottom s) (u8 (con_attr s) * 256 + c) (cell s, con_x s, con_y s) of
      (g, x, y) \<Rightarrow> con_x s' = x \<and> con_y s' = y \<and> (\<forall>i j. on_grid i j \<longrightarrow> cell s' i j = g i j))"
  by (rule con_print_grid [OF assms])

theorem con_print_refines_witness:
  "\<exists>s'. con_char 127 65 (con_init 3 24 (con_boot (\<lambda>a. 0) (\<lambda>a. 0))) = Done (False, s') \<and>
    con_x s' = 4 \<and> cell s' 24 3 = 0x0741"
proof -
  let ?s = "con_init 3 24 (con_boot (\<lambda>a. 0) (\<lambda>a. 0))"
  have w: "con_wf ?s" by (rule con_init_wf) (simp_all add: con_consts)
  have f: "con_state ?s = 0" "con_x ?s = 3" "con_y ?s = 24" "con_attr ?s = 7"
    by (simp_all add: con_init_def con_boot_def gotoxy_def con_consts u32_def)
  have "on_grid 24 3" by (simp add: on_grid_def con_consts)
  then show ?thesis using con_print_refines [OF w f(1), of 65 127]
    by (auto simp: f vt_print_def con_consts u8_def)
qed

text \<open>
  the sequence \<open>ESC [ row ; column H\<close> moves the cursor to that row and column, for every
  position of the screen, through the states of the parser; it changes no cell and leaves the
  parser in its ground state.
\<close>

theorem cursor_addressing:
  assumes "con_wf s" "con_state s = 0" "1 \<le> r" "r \<le> 25" "1 \<le> c" "c \<le> 80"
  shows "\<exists>s'. con_chars e ([27, 91] @ dec r @ [59] @ dec c @ [72]) s = Done (0, s') \<and> con_wf s' \<and>
    con_state s' = 0 \<and> con_x s' = int c - 1 \<and> con_y s' = int r - 1 \<and> cell s' = cell s"
  by (rule goto_sequence [OF assms])

theorem cursor_addressing_witness:
  "\<exists>s'. con_chars 127 ([27, 91] @ dec 12 @ [59] @ dec 80 @ [72]) (con_init 3 24 (con_boot (\<lambda>a. 0) (\<lambda>a. 0))) = Done (0, s') \<and>
    con_x s' = 79 \<and> con_y s' = 11"
proof -
  let ?s = "con_init 3 24 (con_boot (\<lambda>a. 0) (\<lambda>a. 0))"
  have w: "con_wf ?s" by (rule con_init_wf) (simp_all add: con_consts)
  have "con_state ?s = 0" by (simp add: con_init_def con_boot_def gotoxy_def)
  from cursor_addressing [OF w this, of 12 80 127] show ?thesis by auto
qed



text \<open>
  ESC 7 does not save the cursor and ESC 8 does not restore it, except by accident in columns
  55 and 56: the tests compare the cursor's column with the character codes.
\<close>

theorem esc_save_ignored:
  assumes "con_state s = 1" "con_x s \<noteq> 55" "con_x s \<noteq> 56" "c = 55 \<or> c = 56"
  shows "con_char e c s = Done (False, s\<lparr>con_state := 0\<rparr>)"
  using assms by (auto simp: con_char_def con_state1_def Let_def)

theorem esc_save_ignored_witness:
  "con_char 127 55 ((con_boot (\<lambda>a. 0) (\<lambda>a. 0))\<lparr>con_state := 1, con_x := 7\<rparr>) =
   Done (False, (con_boot (\<lambda>a. 0) (\<lambda>a. 0))\<lparr>con_state := 0, con_x := 7\<rparr>)"
  by (subst esc_save_ignored) simp_all

end
