(* ===== verification/Tty.thy ===== *)
theory Tty
  imports TtyQueue Sched ConsoleSpec
begin

text \<open>
  The terminal layer: src/kernel/tty_io.c (cooked input with echo, reading, writing), the loop of
  \<open>con_write\<close> and \<open>respond\<close> of src/kernel/console.c that drain a write queue into the console, and
  \<open>rs_write\<close> of src/kernel/serial.c. The calls through \<open>tty->write\<close> make \<open>con_write\<close> and
  \<open>copy_to_cooked\<close> call each other; the model bounds their rounds by fuel. A task that would sleep is
  the outcome \<open>Sleep\<close>; user memory is the list of the bytes read from it or written to it.
\<close>

section \<open>Character classes\<close>

text \<open>The table \<open>_ctype\<close> of src/lib/ctype.c and the macros of src/include/ctype.h on it.\<close>

definition ctype :: "int list" where
  "ctype = [0] @ replicate 9 8 @ replicate 5 0x28 @ replicate 18 8 @ [0xa0] @ replicate 15 16 @
     replicate 10 4 @ replicate 7 16 @ replicate 6 0x41 @ replicate 20 1 @ replicate 6 16 @
     replicate 6 0x42 @ replicate 20 2 @ replicate 4 16 @ [8] @ replicate 128 0"

definition isupper :: "int \<Rightarrow> bool outcome" where
  "isupper c = (if c < -1 then Oob else obind (rd ctype (nat (c + 1))) (\<lambda>v. Done (odd v)))"

definition islower :: "int \<Rightarrow> bool outcome" where
  "islower c = (if c < -1 then Oob else obind (rd ctype (nat (c + 1))) (\<lambda>v. Done (odd (v div 2))))"

text \<open>\<open>tolower\<close> adds \<open>'a'+'A'\<close>.\<close>

definition tolower :: "int \<Rightarrow> int outcome" where
  "tolower c = obind (isupper (s8 c)) (\<lambda>u. Done (if u then s8 c + (97 + 65) else s8 c))"

definition toupper :: "int \<Rightarrow> int outcome" where
  "toupper c = obind (islower (s8 c)) (\<lambda>u. Done (if u then s8 c + (65 - 97) else s8 c))"

section \<open>Terminals\<close>

record termios =
  c_iflag :: int
  c_oflag :: int
  c_cflag :: int
  c_lflag :: int
  c_line :: int
  c_cc :: "int list"

datatype tty_driver = Con_write | Rs_write

record tty_struct =
  tty_termios :: termios
  tty_pgrp :: int
  tty_stopped :: bool
  tty_write_fn :: tty_driver
  tty_read_q :: tty_queue
  tty_write_q :: tty_queue
  tty_secondary :: tty_queue

record tty_sys =
  ttys :: "tty_struct list"
  ts_con :: console
  ts_sched :: sched_state
  ts_cr_flag :: bool
  ts_port :: "int \<Rightarrow> int"

definition flag :: "int \<Rightarrow> int \<Rightarrow> bool" where "flag f w = odd (w div f)"

definition L_CANON :: "tty_struct \<Rightarrow> bool" where "L_CANON t = flag 2 (c_lflag (tty_termios t))"
definition L_ISIG :: "tty_struct \<Rightarrow> bool" where "L_ISIG t = flag 1 (c_lflag (tty_termios t))"
definition L_ECHO :: "tty_struct \<Rightarrow> bool" where "L_ECHO t = flag 8 (c_lflag (tty_termios t))"
definition L_ECHOCTL :: "tty_struct \<Rightarrow> bool" where "L_ECHOCTL t = flag 512 (c_lflag (tty_termios t))"
definition I_UCLC :: "tty_struct \<Rightarrow> bool" where "I_UCLC t = flag 512 (c_iflag (tty_termios t))"
definition I_NLCR :: "tty_struct \<Rightarrow> bool" where "I_NLCR t = flag 64 (c_iflag (tty_termios t))"
definition I_CRNL :: "tty_struct \<Rightarrow> bool" where "I_CRNL t = flag 256 (c_iflag (tty_termios t))"
definition I_NOCR :: "tty_struct \<Rightarrow> bool" where "I_NOCR t = flag 128 (c_iflag (tty_termios t))"
definition O_POST :: "tty_struct \<Rightarrow> bool" where "O_POST t = flag 1 (c_oflag (tty_termios t))"
definition O_NLCR :: "tty_struct \<Rightarrow> bool" where "O_NLCR t = flag 4 (c_oflag (tty_termios t))"
definition O_CRNL :: "tty_struct \<Rightarrow> bool" where "O_CRNL t = flag 8 (c_oflag (tty_termios t))"
definition O_NLRET :: "tty_struct \<Rightarrow> bool" where "O_NLRET t = flag 32 (c_oflag (tty_termios t))"
definition O_LCUC :: "tty_struct \<Rightarrow> bool" where "O_LCUC t = flag 2 (c_oflag (tty_termios t))"

definition EOF_CHAR :: "tty_struct \<Rightarrow> int" where "EOF_CHAR t = c_cc (tty_termios t) ! 4"
definition INTR_CHAR :: "tty_struct \<Rightarrow> int" where "INTR_CHAR t = c_cc (tty_termios t) ! 0"
definition STOP_CHAR :: "tty_struct \<Rightarrow> int" where "STOP_CHAR t = c_cc (tty_termios t) ! 9"
definition START_CHAR :: "tty_struct \<Rightarrow> int" where "START_CHAR t = c_cc (tty_termios t) ! 8"
definition ERASE_CHAR :: "tty_struct \<Rightarrow> int" where "ERASE_CHAR t = c_cc (tty_termios t) ! 2"

definition INIT_C_CC :: "int list" where
  "INIT_C_CC = [3, 28, 127, 21, 4, 0, 1, 0, 17, 19, 25, 0, 18, 15, 23, 22, 0]"

definition tty_table0 :: "tty_struct list" where
  "tty_table0 =
     (let rs = (\<lambda>port. \<lparr>tty_termios = \<lparr>c_iflag = 0, c_oflag = 33, c_cflag = 59, c_lflag = 0, c_line = 0, c_cc = INIT_C_CC\<rparr>,
        tty_pgrp = 0, tty_stopped = False, tty_write_fn = Rs_write, tty_read_q = empty_queue port,
        tty_write_q = empty_queue port, tty_secondary = empty_queue 0\<rparr>) in
      [\<lparr>tty_termios = \<lparr>c_iflag = 0, c_oflag = 5, c_cflag = 0, c_lflag = 2570, c_line = 0, c_cc = INIT_C_CC\<rparr>,
        tty_pgrp = 0, tty_stopped = False, tty_write_fn = Con_write, tty_read_q = empty_queue 0,
        tty_write_q = empty_queue 0, tty_secondary = empty_queue 0\<rparr>,
       rs 0x3f8, rs 0x2f8])"

definition tty_of :: "nat \<Rightarrow> tty_sys \<Rightarrow> tty_struct" where "tty_of ch s = ttys s ! ch"

definition upd_tty :: "nat \<Rightarrow> (tty_struct \<Rightarrow> tty_struct) \<Rightarrow> tty_sys \<Rightarrow> tty_sys" where
  "upd_tty ch f s = s\<lparr>ttys := (ttys s)[ch := f (ttys s ! ch)]\<rparr>"

abbreviation on_read_q :: "(tty_queue \<Rightarrow> tty_queue) \<Rightarrow> tty_struct \<Rightarrow> tty_struct" where
  "on_read_q f t \<equiv> t\<lparr>tty_read_q := f (tty_read_q t)\<rparr>"

abbreviation on_write_q :: "(tty_queue \<Rightarrow> tty_queue) \<Rightarrow> tty_struct \<Rightarrow> tty_struct" where
  "on_write_q f t \<equiv> t\<lparr>tty_write_q := f (tty_write_q t)\<rparr>"

abbreviation on_secondary :: "(tty_queue \<Rightarrow> tty_queue) \<Rightarrow> tty_struct \<Rightarrow> tty_struct" where
  "on_secondary f t \<equiv> t\<lparr>tty_secondary := f (tty_secondary t)\<rparr>"

section \<open>Signals and sleeping\<close>

definition tty_intr :: "nat \<Rightarrow> int \<Rightarrow> tty_sys \<Rightarrow> tty_sys" where
  "tty_intr ch sig s =
     (let pg = tty_pgrp (tty_of ch s) in
      if pg \<le> 0 then s
      else s\<lparr>ts_sched := (ts_sched s)\<lparr>tasks :=
        map (map_option (\<lambda>t. if t_pgrp t = pg then t\<lparr>t_signal := t_signal t OR sig_bit sig\<rparr> else t))
          (tasks (ts_sched s))\<rparr>\<rparr>)"

text \<open>\<open>sleep_if_empty\<close> and \<open>sleep_if_full\<close>: whether the loop around the sleep is entered.\<close>

definition sleep_if_empty :: "tty_queue \<Rightarrow> tty_sys \<Rightarrow> unit outcome" where
  "sleep_if_empty q s = (if t_signal (cur (ts_sched s)) = 0 \<and> EMPTY q then Sleep else Done ())"

definition sleep_if_full :: "tty_queue \<Rightarrow> tty_sys \<Rightarrow> unit outcome" where
  "sleep_if_full q s =
     (if \<not> FULL q then Done ()
      else if t_signal (cur (ts_sched s)) = 0 \<and> LEFTQ q < 128 then Sleep else Done ())"

section \<open>Output drivers and cooked input\<close>

definition rs_write :: "nat \<Rightarrow> tty_sys \<Rightarrow> tty_sys" where
  "rs_write ch s =
     (let q = tty_write_q (tty_of ch s); p = tq_data q + 1 in
      if EMPTY q then s
      else s\<lparr>ts_port := (ts_port s)(p := (let v = ts_port s p in if odd (v div 2) then v else v + 2))\<rparr>)"

text \<open>The characters of \<open>RESPONSE\<close>, \<open>ESC [ ? 1 ; 2 c\<close>.\<close>

definition RESPONSE :: "int list" where
  "RESPONSE = [27, 91, 63, 49, 59, 50, 99]"

definition put_response :: "nat \<Rightarrow> tty_sys \<Rightarrow> tty_sys" where
  "put_response ch s = upd_tty ch (on_read_q (fold PUTCH RESPONSE)) s"

text \<open>The translation of one character of the read queue; \<open>None\<close> when it is dropped.\<close>

definition input_char :: "tty_struct \<Rightarrow> int \<Rightarrow> int option outcome" where
  "input_char t c =
     (if c = 13 \<and> \<not> I_CRNL t \<and> I_NOCR t then Done None
      else
        let c = (if c = 13 then (if I_CRNL t then 10 else c) else if c = 10 \<and> I_NLCR t then 13 else c) in
        if I_UCLC t then obind (tolower c) (\<lambda>c. Done (Some (s8 c))) else Done (Some c))"

text \<open>The characters that echo a character and the erasure of one.\<close>

definition echo_of :: "tty_struct \<Rightarrow> int \<Rightarrow> int list" where
  "echo_of t c =
     (if c = 10 then [10, 13] else if c < 32 then (if L_ECHOCTL t then [94, c + 64] else []) else [c])"

definition erase_echo :: "int \<Rightarrow> int list" where
  "erase_echo c = (if c < 32 then [127, 127] else [127])"

text \<open>
  What \<open>copy_to_cooked\<close> does with a translated character: drop it, erase the last character (with
  that character, for the echo), stop or start the terminal, interrupt, or accept it.
\<close>

datatype cooked = Ignore | Erase int | Stop | Start | Interrupt | Accept int

definition classify :: "tty_struct \<Rightarrow> int \<Rightarrow> cooked" where
  "classify t c =
     (if L_CANON t \<and> c = ERASE_CHAR t then
        (if EMPTY (tty_secondary t) \<or> LAST (tty_secondary t) = 10 \<or> LAST (tty_secondary t) = EOF_CHAR t
         then Ignore else Erase (LAST (tty_secondary t)))
      else if L_CANON t \<and> c = STOP_CHAR t then Stop
      else if L_CANON t \<and> c = START_CHAR t then Start
      else if \<not> L_ISIG t \<and> c = INTR_CHAR t then Interrupt
      else Accept c)"

definition count_line :: "tty_struct \<Rightarrow> int \<Rightarrow> tty_struct" where
  "count_line t c =
     (if c = 10 \<or> c = EOF_CHAR t then on_secondary (\<lambda>q. q\<lparr>tq_data := u32 (tq_data q + 1)\<rparr>) t else t)"

definition wake_secondary :: "nat \<Rightarrow> tty_sys \<Rightarrow> tty_sys" where
  "wake_secondary ch s =
     (case wake_up (tq_proc_list (tty_secondary (tty_of ch s))) (ts_sched s) of
        (p, sc) \<Rightarrow> upd_tty ch (on_secondary (\<lambda>q. q\<lparr>tq_proc_list := p\<rparr>)) (s\<lparr>ts_sched := sc\<rparr>))"

text \<open>
  \<open>con_loop\<close> is the loop of \<open>con_write\<close> with its count \<open>nr\<close>, \<open>copy_loop\<close> the loop of
  \<open>copy_to_cooked\<close>, \<open>tty_drv\<close> the call through \<open>tty->write\<close>; every call spends fuel.
\<close>

fun con_loop :: "nat \<Rightarrow> nat \<Rightarrow> nat \<Rightarrow> tty_sys \<Rightarrow> tty_sys outcome"
  and copy_loop :: "nat \<Rightarrow> nat \<Rightarrow> tty_sys \<Rightarrow> tty_sys outcome"
  and tty_drv :: "nat \<Rightarrow> nat \<Rightarrow> tty_sys \<Rightarrow> tty_sys outcome" where
  "con_loop 0 nr ch s = Fuel"
| "con_loop (Suc f) nr ch s =
     (if nr = 0 then Done s
      else
        let (c, q) = GETCH (tty_write_q (tty_of ch s)); s = upd_tty ch (on_write_q (\<lambda>_. q)) s in
        obind (con_char (ERASE_CHAR (tty_of ch s)) c (ts_con s)) (\<lambda>(resp, con).
        obind (if resp then
                 obind (copy_loop f ch (put_response ch (s\<lparr>ts_con := con\<rparr>))) (\<lambda>s.
                 Done (wake_secondary ch s))
               else Done (s\<lparr>ts_con := con\<rparr>))
          (con_loop f (nr - 1) ch)))"
| "copy_loop 0 ch s = Fuel"
| "copy_loop (Suc f) ch s =
     (let t = tty_of ch s in
      if EMPTY (tty_read_q t) \<or> FULL (tty_secondary t) then Done s
      else
        let (c, q) = GETCH (tty_read_q t); s = upd_tty ch (on_read_q (\<lambda>_. q)) s; t = tty_of ch s in
        obind (input_char t c) (\<lambda>r.
        obind (case r of
            None \<Rightarrow> Done s
          | Some c \<Rightarrow>
              (case classify t c of
                 Ignore \<Rightarrow> Done s
               | Erase l \<Rightarrow>
                   obind (if L_ECHO t then tty_drv f ch (upd_tty ch (on_write_q (fold PUTCH (erase_echo l))) s) else Done s) (\<lambda>s.
                   Done (upd_tty ch (on_secondary UNPUT) s))
               | Stop \<Rightarrow> Done (upd_tty ch (\<lambda>t. t\<lparr>tty_stopped := True\<rparr>) s)
               | Start \<Rightarrow> Done (upd_tty ch (\<lambda>t. t\<lparr>tty_stopped := False\<rparr>) s)
               | Interrupt \<Rightarrow> Done (tty_intr ch SIGINT s)
               | Accept c \<Rightarrow>
                   let s = upd_tty ch (\<lambda>t. count_line t c) s in
                   obind (if L_ECHO t then tty_drv f ch (upd_tty ch (on_write_q (fold PUTCH (echo_of t c))) s) else Done s) (\<lambda>s.
                   Done (upd_tty ch (on_secondary (PUTCH c)) s))))
          (copy_loop f ch)))"
| "tty_drv 0 ch s = Fuel"
| "tty_drv (Suc f) ch s =
     (case tty_write_fn (tty_of ch s) of
        Rs_write \<Rightarrow> Done (rs_write ch s)
      | Con_write \<Rightarrow>
          obind (con_loop f (CHARS (tty_write_q (tty_of ch s))) ch s) (\<lambda>s. Done (s\<lparr>ts_con := set_cursor (ts_con s)\<rparr>)))"

text \<open>\<open>con_write(tty)\<close> is the driver call of a console terminal.\<close>

definition con_write :: "nat \<Rightarrow> nat \<Rightarrow> tty_sys \<Rightarrow> tty_sys outcome" where
  "con_write f ch s =
     obind (con_loop f (CHARS (tty_write_q (tty_of ch s))) ch s) (\<lambda>s. Done (s\<lparr>ts_con := set_cursor (ts_con s)\<rparr>))"

definition copy_to_cooked :: "nat \<Rightarrow> nat \<Rightarrow> tty_sys \<Rightarrow> tty_sys outcome" where
  "copy_to_cooked f ch s = obind (copy_loop f ch s) (\<lambda>s. Done (wake_secondary ch s))"

definition do_tty_interrupt :: "nat \<Rightarrow> nat \<Rightarrow> tty_sys \<Rightarrow> tty_sys outcome" where
  "do_tty_interrupt f ch s = copy_to_cooked f ch s"


section \<open>Reading\<close>

text \<open>The inner loop of \<open>tty_read\<close>: whether it returned at an end of file, the bytes, what is left of \<open>nr\<close>.\<close>

fun read_chars :: "bool \<Rightarrow> int \<Rightarrow> nat \<Rightarrow> tty_queue \<Rightarrow> int list \<Rightarrow> bool \<times> int list \<times> nat \<times> tty_queue" where
  "read_chars canon eof 0 q acc = (False, acc, 0, q)"
| "read_chars canon eof (Suc n) q acc =
     (let (c, q) = GETCH q;
          q = (if c = eof \<or> c = 10 then q\<lparr>tq_data := u32 (tq_data q - 1)\<rparr> else q) in
      if c = eof \<and> canon then (True, acc, Suc n, q)
      else if n = 0 \<or> EMPTY q then (False, acc @ [c], n, q)
      else read_chars canon eof n q (acc @ [c]))"

definition set_alarm :: "int \<Rightarrow> tty_sys \<Rightarrow> tty_sys" where
  "set_alarm a s = s\<lparr>ts_sched := upd_cur (\<lambda>t. t\<lparr>t_alarm := a\<rparr>) (ts_sched s)\<rparr>"

text \<open>
  The outer loop, with \<open>flag\<close>, \<open>time\<close>, \<open>minimum\<close> and \<open>oldalarm\<close> of the source. The first component
  of the result is the early return at an end of file.
\<close>

fun tty_read_loop :: "nat \<Rightarrow> nat \<Rightarrow> nat \<Rightarrow> bool \<Rightarrow> int \<Rightarrow> int \<Rightarrow> int \<Rightarrow> int list \<Rightarrow> tty_sys \<Rightarrow> (bool \<times> int list \<times> tty_sys) outcome" where
  "tty_read_loop 0 ch nr flg time minimum oldalarm acc s = Fuel"
| "tty_read_loop (Suc f) ch nr flg time minimum oldalarm acc s =
     (let t = tty_of ch s; sg = t_signal (cur (ts_sched s)); q = tty_secondary t in
      if nr = 0 then Done (False, acc, s)
      else if flg \<and> sg AND sig_bit SIGALRM \<noteq> 0 then
        Done (False, acc, s\<lparr>ts_sched := upd_cur (\<lambda>t. t\<lparr>t_signal := t_signal t AND NOT (sig_bit SIGALRM)\<rparr>) (ts_sched s)\<rparr>)
      else if sg \<noteq> 0 then Done (False, acc, s)
      else if EMPTY q \<or> (L_CANON t \<and> tq_data q = 0 \<and> LEFTQ q > 20) then
        obind (sleep_if_empty q s) (\<lambda>_. tty_read_loop f ch nr flg time minimum oldalarm acc s)
      else
        case read_chars (L_CANON t) (EOF_CHAR t) nr q acc of (eof, acc, nr, q) \<Rightarrow>
        let s = upd_tty ch (on_secondary (\<lambda>_. q)) s in
        if eof then Done (True, acc, s)
        else
          let again = (time \<noteq> 0 \<and> \<not> L_CANON t);
              flg = (if again then oldalarm = 0 \<or> s32 (time + jiffies (ts_sched s)) < oldalarm else flg);
              s = (if again then set_alarm (if flg then s32 (time + jiffies (ts_sched s)) else oldalarm) s else s) in
          if (if L_CANON t then acc \<noteq> [] else int (length acc) \<ge> minimum) then Done (False, acc, s)
          else tty_read_loop f ch nr flg time minimum oldalarm acc s)"

definition tty_read :: "nat \<Rightarrow> nat \<Rightarrow> int \<Rightarrow> tty_sys \<Rightarrow> (int \<times> int list \<times> tty_sys) outcome" where
  "tty_read f ch nr s =
     (if ch > 2 \<or> nr < 0 then Done (-1, [], s)
      else
        let t = tty_of ch s; oldalarm = t_alarm (cur (ts_sched s));
            time = 10 * (c_cc (tty_termios t) ! 5); minimum = c_cc (tty_termios t) ! 6;
            tmo = (time \<noteq> 0 \<and> minimum = 0);
            flg = (tmo \<and> (oldalarm = 0 \<or> s32 (time + jiffies (ts_sched s)) < oldalarm));
            s = (if flg then set_alarm (s32 (time + jiffies (ts_sched s))) s else s);
            minimum = (if tmo then 1 else minimum);
            minimum = (if minimum > nr then nr else minimum) in
        obind (tty_read_loop f ch (nat nr) flg time minimum oldalarm [] s) (\<lambda>(eof, acc, s).
        if eof then Done (int (length acc), acc, s)
        else
          let s = set_alarm oldalarm s in
          if t_signal (cur (ts_sched s)) \<noteq> 0 \<and> acc = [] then Done (-4, acc, s)
          else Done (int (length acc), acc, s)))"

section \<open>Writing\<close>

text \<open>
  The inner loop of \<open>tty_write\<close>: the bytes that are left, \<open>cr_flag\<close> and the write queue. A newline
  that gets a carriage return is not consumed in that round.
\<close>

definition post_char :: "tty_struct \<Rightarrow> int \<Rightarrow> int" where
  "post_char t c =
     (if \<not> O_POST t then c else if c = 13 \<and> O_CRNL t then 10 else if c = 10 \<and> O_NLRET t then 13 else c)"

function out_loop :: "tty_struct \<Rightarrow> int list \<Rightarrow> bool \<Rightarrow> tty_queue \<Rightarrow> (int list \<times> bool \<times> tty_queue) outcome" where
  "out_loop t [] crf q = Done ([], crf, q)"
| "out_loop t (b # bs) crf q =
     (if FULL q then Done (b # bs, crf, q)
      else
        let c = post_char t (s8 b) in
        if O_POST t \<and> c = 10 \<and> \<not> crf \<and> O_NLCR t then out_loop t (b # bs) True (PUTCH 13 q)
        else obind (if O_POST t \<and> O_LCUC t then toupper c else Done c) (\<lambda>c.
             out_loop t bs False (PUTCH c q)))"
  by pat_completeness auto
termination
  by (relation "measure (\<lambda>(t, bs, crf, q). 2 * length bs + (if crf then 0 else 1))") auto

text \<open>
  \<open>tty_write\<close> up to its return or its call of \<open>schedule\<close>: the number of bytes written, the bytes
  that are left (with which it goes on when it runs again), the state.
\<close>

definition tty_write :: "nat \<Rightarrow> nat \<Rightarrow> int list \<Rightarrow> tty_sys \<Rightarrow> (int \<times> int list \<times> tty_sys) outcome" where
  "tty_write f ch bytes s =
     (if ch > 2 then Done (-1, [], s)
      else if bytes = [] then Done (0, [], s)
      else
        let t = tty_of ch s in
        obind (sleep_if_full (tty_write_q t) s) (\<lambda>_.
        if t_signal (cur (ts_sched s)) \<noteq> 0 then Done (0, [], s)
        else
          obind (out_loop t bytes (ts_cr_flag s) (tty_write_q t)) (\<lambda>(rest, crf, q).
          obind (tty_drv f ch (upd_tty ch (on_write_q (\<lambda>_. q)) (s\<lparr>ts_cr_flag := crf\<rparr>))) (\<lambda>s.
          if rest = [] then Done (int (length bytes), [], s)
          else case schedule (ts_sched s) of
            None \<Rightarrow> Fuel
          | Some sc \<Rightarrow> Done (int (length bytes - length rest), rest, s\<lparr>ts_sched := sc\<rparr>)))))"

section \<open>Control\<close>

text \<open>
  \<open>tty_ioctl\<close> of src/fs/tty_ioctl.c. The structures it copies from user memory are the arguments
  \<open>uios\<close>, \<open>uio\<close> and \<open>ulong\<close>, the one it copies out is a component of the result.
\<close>

record termio =
  io_iflag :: int
  io_oflag :: int
  io_cflag :: int
  io_lflag :: int
  io_line :: int
  io_cc :: "int list"

datatype ioctl_out = No_out | Out_termios termios | Out_termio termio | Out_long int

definition NCC :: nat where "NCC = 8"

definition get_termio :: "tty_struct \<Rightarrow> termio" where
  "get_termio t =
     (let m = tty_termios t in
      \<lparr>io_iflag = u16 (c_iflag m), io_oflag = u16 (c_oflag m), io_cflag = u16 (c_cflag m),
       io_lflag = u16 (c_lflag m), io_line = c_line m, io_cc = take NCC (c_cc m)\<rparr>)"

definition low16 :: "int \<Rightarrow> int \<Rightarrow> int" where
  "low16 old v = old - old mod 65536 + u16 v"

definition set_termio :: "termio \<Rightarrow> tty_struct \<Rightarrow> tty_struct" where
  "set_termio u t =
     (let m = tty_termios t in
      t\<lparr>tty_termios := \<lparr>c_iflag = low16 (c_iflag m) (io_iflag u), c_oflag = low16 (c_oflag m) (io_oflag u),
        c_cflag = low16 (c_cflag m) (io_cflag u), c_lflag = low16 (c_lflag m) (io_lflag u),
        c_line = io_line u, c_cc = take NCC (io_cc u) @ drop NCC (c_cc m)\<rparr>\<rparr>)"

definition tty_ioctl ::
  "int \<Rightarrow> int \<Rightarrow> int \<Rightarrow> termios \<Rightarrow> termio \<Rightarrow> int \<Rightarrow> tty_sys \<Rightarrow> (int \<times> ioctl_out \<times> tty_sys) outcome" where
  "tty_ioctl dev cmd arg uios uio ulong s =
     (let own = (u32 dev div 256 = 5);
          d = (if own then t_tty (cur (ts_sched s)) else dev mod 256) in
      if own \<and> d < 0 then Panic ''tty_ioctl: dev<0''
      else if d \<ge> int (length (ttys s)) then Oob
      else
        let ch = nat d; t = tty_of ch s;
            fl = upd_tty ch (on_read_q flush_queue);
            setios = upd_tty ch (\<lambda>t. t\<lparr>tty_termios := uios\<rparr>) in
        if cmd = 0x5401 then Done (0, Out_termios (tty_termios t), s)
        else if cmd = 0x5404 then Done (0, No_out, setios (fl s))
        else if cmd = 0x5403 \<or> cmd = 0x5402 then Done (0, No_out, setios s)
        else if cmd = 0x5405 then Done (0, Out_termio (get_termio t), s)
        else if cmd = 0x5408 then Done (0, No_out, upd_tty ch (set_termio uio) (fl s))
        else if cmd = 0x5407 \<or> cmd = 0x5406 then Done (0, No_out, upd_tty ch (set_termio uio) s)
        else if cmd = 0x5409 then Done (0, No_out, s)
        else if cmd = 0x540B then
          (if arg = 0 then Done (0, No_out, fl s)
           else if arg = 1 then Done (0, No_out, upd_tty ch (on_write_q flush_queue) s)
           else if arg = 2 then Done (0, No_out, upd_tty ch (on_write_q flush_queue) (fl s))
           else Done (-22, No_out, s))
        else if cmd = 0x540F then Done (0, Out_long (tty_pgrp t), s)
        else if cmd = 0x5410 then Done (0, No_out, upd_tty ch (\<lambda>t. t\<lparr>tty_pgrp := s32 ulong\<rparr>) s)
        else if cmd = 0x5411 then Done (0, Out_long (int (CHARS (tty_write_q t))), s)
        else Done (-22, No_out, s))"

end
