(* ===== verification/TtyProps.thy ===== *)
theory TtyProps
  imports Tty
begin

text \<open>
  Correctness of the terminal layer: the cooked input is line editing on sequences of characters, and
  a write to the console terminal arrives in the console driver with its newlines expanded.
\<close>

section \<open>The state of a terminal\<close>

lemma tty_of_upd [simp]: "ch < length (ttys s) \<Longrightarrow> tty_of ch (upd_tty ch f s) = f (tty_of ch s)"
  by (simp add: tty_of_def upd_tty_def)

lemma length_upd_tty [simp]: "length (ttys (upd_tty ch f s)) = length (ttys s)"
  by (simp add: upd_tty_def)

lemma upd_tty_other [simp]:
  "ts_con (upd_tty ch f s) = ts_con s" "ts_sched (upd_tty ch f s) = ts_sched s"
  "ts_cr_flag (upd_tty ch f s) = ts_cr_flag s" "ts_port (upd_tty ch f s) = ts_port s"
  by (simp_all add: upd_tty_def)

lemma tty_of_frame [simp]:
  "tty_of ch (s\<lparr>ts_con := c\<rparr>) = tty_of ch s" "tty_of ch (s\<lparr>ts_sched := k\<rparr>) = tty_of ch s"
  "tty_of ch (s\<lparr>ts_cr_flag := b\<rparr>) = tty_of ch s"
  by (simp_all add: tty_of_def)

lemma tty_intr_frame [simp]: "tty_of ch (tty_intr ch' sig s) = tty_of ch s" "ttys (tty_intr ch' sig s) = ttys s"
  by (simp_all add: tty_intr_def tty_of_def Let_def)

lemma s8_range: "-128 \<le> s8 x \<and> s8 x < 128"
  by (simp add: s8_def)

lemma s8_id: "-128 \<le> x \<Longrightarrow> x < 128 \<Longrightarrow> s8 x = x"
  by (simp add: s8_def)

section \<open>Cooked input\<close>

text \<open>Line editing on lists: what the secondary queue holds after one more character.\<close>

definition edit :: "tty_struct \<Rightarrow> int list \<Rightarrow> int \<Rightarrow> int list" where
  "edit t acc c =
     (if L_CANON t \<and> c = ERASE_CHAR t then
        (if acc = [] \<or> last acc = 10 \<or> last acc = EOF_CHAR t then acc else butlast acc)
      else if L_CANON t \<and> (c = STOP_CHAR t \<or> c = START_CHAR t) then acc
      else if \<not> L_ISIG t \<and> c = INTR_CHAR t then acc
      else acc @ [c])"

text \<open>The translation of carriage returns and newlines; \<open>None\<close> for a dropped character.\<close>

definition translate :: "tty_struct \<Rightarrow> int \<Rightarrow> int option" where
  "translate t c =
     (if c = 13 then (if I_CRNL t then Some 10 else if I_NOCR t then None else Some 13)
      else if c = 10 \<and> I_NLCR t then Some 13 else Some c)"

definition cook :: "tty_struct \<Rightarrow> int list \<Rightarrow> int \<Rightarrow> int list" where
  "cook t acc c = (case translate t c of None \<Rightarrow> acc | Some c \<Rightarrow> edit t acc c)"

lemma edit_length: "length (edit t acc c) \<le> length acc + 1"
  unfolding edit_def by (auto simp: le_SucI)

lemma cook_length: "length (cook t acc c) \<le> length acc + 1"
  using edit_length [of t acc] by (auto simp: cook_def split: option.splits)

lemmas tty_flags = I_CRNL_def I_NOCR_def I_NLCR_def I_UCLC_def L_CANON_def L_ISIG_def L_ECHO_def L_ECHOCTL_def
  ERASE_CHAR_def EOF_CHAR_def STOP_CHAR_def START_CHAR_def INTR_CHAR_def

lemma translate_cong:
  assumes "tty_termios t = tty_termios u"
  shows "translate t = translate u"
  unfolding translate_def tty_flags assms ..

lemma edit_cong:
  assumes "tty_termios t = tty_termios u"
  shows "edit t = edit u"
  unfolding edit_def tty_flags assms ..

lemma cook_cong:
  assumes "tty_termios t = tty_termios u"
  shows "cook t = cook u"
  unfolding cook_def translate_cong [OF assms] edit_cong [OF assms] ..

text \<open>One round of \<open>copy_to_cooked\<close> without echo.\<close>

definition quiet :: "tty_struct \<Rightarrow> bool" where
  "quiet t \<longleftrightarrow> \<not> L_ECHO t \<and> \<not> I_UCLC t \<and> tq_wf (tty_read_q t) \<and> tq_wf (tty_secondary t)"

lemma tq_wf_data [simp]: "tq_wf (q\<lparr>tq_data := d\<rparr>) = tq_wf q" "tq_seq (q\<lparr>tq_data := d\<rparr>) = tq_seq q"
  "tq_wf (q\<lparr>tq_proc_list := p\<rparr>) = tq_wf q" "tq_seq (q\<lparr>tq_proc_list := p\<rparr>) = tq_seq q"
  by (simp_all add: tq_wf_def tq_seq_def CHARS_def)

text \<open>The state after a translated character, when nothing is echoed.\<close>

definition quiet_act :: "nat \<Rightarrow> int \<Rightarrow> tty_sys \<Rightarrow> tty_sys" where
  "quiet_act ch c s =
     (case classify (tty_of ch s) c of
        Ignore \<Rightarrow> s
      | Erase l \<Rightarrow> upd_tty ch (on_secondary UNPUT) s
      | Stop \<Rightarrow> upd_tty ch (\<lambda>t. t\<lparr>tty_stopped := True\<rparr>) s
      | Start \<Rightarrow> upd_tty ch (\<lambda>t. t\<lparr>tty_stopped := False\<rparr>) s
      | Interrupt \<Rightarrow> tty_intr ch SIGINT s
      | Accept c \<Rightarrow> upd_tty ch (on_secondary (PUTCH c)) (upd_tty ch (\<lambda>t. count_line t c) s))"

lemma count_line_simps [simp]:
  "tty_read_q (count_line t c) = tty_read_q t" "tty_termios (count_line t c) = tty_termios t"
  "tq_wf (tty_secondary (count_line t c)) = tq_wf (tty_secondary t)"
  "tq_seq (tty_secondary (count_line t c)) = tq_seq (tty_secondary t)"
  by (simp_all add: count_line_def)

lemma classify_edit:
  assumes "tq_wf (tty_secondary t)"
  shows "edit t (tq_seq (tty_secondary t)) c =
    (case classify t c of Erase l \<Rightarrow> butlast (tq_seq (tty_secondary t)) | Accept d \<Rightarrow> tq_seq (tty_secondary t) @ [d]
      | _ \<Rightarrow> tq_seq (tty_secondary t))"
proof (cases "tq_seq (tty_secondary t) = []")
  case True
  then show ?thesis by (simp add: classify_def edit_def EMPTY_seq [OF assms])
next
  case False
  then show ?thesis by (simp add: classify_def edit_def EMPTY_seq [OF assms] tq.last_law [OF assms])
qed

lemma classify_Erase: "tq_wf (tty_secondary t) \<Longrightarrow> classify t c = Erase l \<Longrightarrow> tq_seq (tty_secondary t) \<noteq> []"
  by (simp add: classify_def EMPTY_seq split: if_splits)

lemma classify_Accept: "classify t c = Accept d \<Longrightarrow> d = c"
  by (simp add: classify_def split: if_splits)

lemma quiet_act_edit:
  assumes "ch < length (ttys s)" "tq_wf (tty_secondary (tty_of ch s))" "s8 c = c"
    "length (tq_seq (tty_secondary (tty_of ch s))) < 1023"
  shows "length (ttys (quiet_act ch c s)) = length (ttys s) \<and>
    tty_termios (tty_of ch (quiet_act ch c s)) = tty_termios (tty_of ch s) \<and>
    tty_read_q (tty_of ch (quiet_act ch c s)) = tty_read_q (tty_of ch s) \<and>
    tq_wf (tty_secondary (tty_of ch (quiet_act ch c s))) \<and>
    tq_seq (tty_secondary (tty_of ch (quiet_act ch c s))) =
      edit (tty_of ch s) (tq_seq (tty_secondary (tty_of ch s))) c"
proof (cases "classify (tty_of ch s) c")
  case (Accept d)
  have "tq_wf (tty_secondary (count_line (tty_of ch s) c))"
    "length (tq_seq (tty_secondary (count_line (tty_of ch s) c))) < 1023" using assms by simp_all
  from tq.put_law [OF this, of c] Accept assms classify_edit [OF assms(2), of c] classify_Accept [OF Accept] show ?thesis
    by (simp add: quiet_act_def del: length_tq_seq)
next
  case (Erase l)
  then show ?thesis using assms classify_edit [OF assms(2), of c] tq.unput_law [OF assms(2)] classify_Erase [OF assms(2) Erase]
    by (simp add: quiet_act_def)
qed (use assms classify_edit [OF assms(2), of c] in \<open>simp_all add: quiet_act_def\<close>)

lemma input_translate: "\<not> I_UCLC t \<Longrightarrow> input_char t c = Done (translate t c)"
  by (simp add: input_char_def translate_def)

lemma copy_round:
  assumes ch: "ch < length (ttys s)" and q: "quiet (tty_of ch s)"
    and r: "tq_seq (tty_read_q (tty_of ch s)) = c # cs" "s8 c = c"
    and room: "length (tq_seq (tty_secondary (tty_of ch s))) < 1023"
  shows "\<exists>s'. copy_loop (Suc f) ch s = copy_loop f ch s' \<and> length (ttys s') = length (ttys s) \<and>
    quiet (tty_of ch s') \<and> tty_termios (tty_of ch s') = tty_termios (tty_of ch s) \<and>
    tq_seq (tty_read_q (tty_of ch s')) = cs \<and>
    tq_seq (tty_secondary (tty_of ch s')) = cook (tty_of ch s) (tq_seq (tty_secondary (tty_of ch s))) c"
proof -
  let ?t = "tty_of ch s"
  have w: "tq_wf (tty_read_q ?t)" "tq_wf (tty_secondary ?t)" "\<not> L_ECHO ?t" "\<not> I_UCLC ?t" using q by (simp_all add: quiet_def)
  obtain c' q' where g: "GETCH (tty_read_q ?t) = (c', q')" by fastforce
  then have g': "c' = c" "tq_wf q'" "tq_seq q' = cs" using tq.get_law [OF w(1)] r by auto
  have go: "\<not> EMPTY (tty_read_q ?t)" "\<not> FULL (tty_secondary ?t)" using w r room by (simp_all add: EMPTY_seq FULL_seq)
  define s1 where "s1 = upd_tty ch (on_read_q (\<lambda>_. q')) s"
  have t1: "tty_of ch s1 = ?t\<lparr>tty_read_q := q'\<rparr>" using ch by (simp add: s1_def)
  have f1: "\<not> L_ECHO (tty_of ch s1)" "\<not> I_UCLC (tty_of ch s1)" "translate (tty_of ch s1) = translate ?t"
    "edit (tty_of ch s1) = edit ?t"
    using w translate_cong [of "tty_of ch s1" ?t] edit_cong [of "tty_of ch s1" ?t] by (simp_all add: t1 tty_flags)
  define s' where "s' = (case translate ?t c of None \<Rightarrow> s1 | Some c \<Rightarrow> quiet_act ch c s1)"
  have run: "copy_loop (Suc f) ch s = copy_loop f ch s'"
    using go f1 by (simp add: g g'(1) Let_def input_translate s'_def quiet_act_def flip: s1_def split: option.splits cooked.splits)
  have tr: "translate ?t c = Some d \<Longrightarrow> s8 d = d" for d
    using r(2) by (auto simp: translate_def s8_def split: if_splits)
  have s1: "ch < length (ttys s1)" "tq_wf (tty_secondary (tty_of ch s1))"
    "length (tq_seq (tty_secondary (tty_of ch s1))) < 1023" using ch w room by (simp_all add: s1_def t1)
  have "length (ttys s') = length (ttys s) \<and> tty_termios (tty_of ch s') = tty_termios ?t \<and>
    tty_read_q (tty_of ch s') = q' \<and> tq_wf (tty_secondary (tty_of ch s')) \<and>
    tq_seq (tty_secondary (tty_of ch s')) = cook ?t (tq_seq (tty_secondary ?t)) c"
  proof (cases "translate ?t c")
    case None
    then show ?thesis using s1 t1 by (simp add: s'_def cook_def s1_def)
  next
    case (Some d)
    note a = quiet_act_edit [OF s1(1,2) tr [OF Some] s1(3)]
    have "s' = quiet_act ch d s1" "cook ?t = (\<lambda>acc c. case translate ?t c of None \<Rightarrow> acc | Some c \<Rightarrow> edit ?t acc c)"
      using Some by (simp_all add: s'_def cook_def [abs_def])
    then show ?thesis using a Some unfolding f1(4) by (simp add: t1) (simp add: s1_def)
  qed
  then show ?thesis using run g' w by (intro exI [of _ s']) (auto simp: quiet_def tty_flags)
qed

lemma copy_loop_cooks:
  assumes "ch < length (ttys s)" "quiet (tty_of ch s)"
    "\<forall>c\<in>set (tq_seq (tty_read_q (tty_of ch s))). s8 c = c"
    "length (tq_seq (tty_secondary (tty_of ch s))) + length (tq_seq (tty_read_q (tty_of ch s))) \<le> 1023"
    "length (tq_seq (tty_read_q (tty_of ch s))) < f"
  shows "\<exists>s'. copy_loop f ch s = Done s' \<and> length (ttys s') = length (ttys s) \<and> tq_seq (tty_read_q (tty_of ch s')) = [] \<and>
    tq_seq (tty_secondary (tty_of ch s')) =
      foldl (cook (tty_of ch s)) (tq_seq (tty_secondary (tty_of ch s))) (tq_seq (tty_read_q (tty_of ch s)))"
  using assms
proof (induction "tq_seq (tty_read_q (tty_of ch s))" arbitrary: s f)
  case Nil
  then obtain f' where "f = Suc f'" by (cases f) auto
  then show ?case using Nil by (auto simp: quiet_def EMPTY_seq Let_def)
next
  case (Cons c cs)
  obtain f' where f: "f = Suc f'" using Cons.prems by (cases f) auto
  let ?sec = "tq_seq (tty_secondary (tty_of ch s))"
  have e: "tq_seq (tty_read_q (tty_of ch s)) = c # cs" using Cons.hyps(2) by simp
  have "length ?sec < 1023" "s8 c = c" using Cons.prems(3,4) unfolding e by auto
  from copy_round [OF Cons.prems(1,2) e this(2,1), of f'] obtain s1 where
    s1: "copy_loop f ch s = copy_loop f' ch s1" "length (ttys s1) = length (ttys s)" "quiet (tty_of ch s1)"
      "tty_termios (tty_of ch s1) = tty_termios (tty_of ch s)" "tq_seq (tty_read_q (tty_of ch s1)) = cs"
      "tq_seq (tty_secondary (tty_of ch s1)) = cook (tty_of ch s) ?sec c" unfolding f by blast
  have "length (cook (tty_of ch s) ?sec c) + length cs \<le> 1023"
    using cook_length [of "tty_of ch s" ?sec c] Cons.prems(4) unfolding e by simp
  moreover have "\<forall>c\<in>set (tq_seq (tty_read_q (tty_of ch s1))). s8 c = c" using Cons.prems(3) unfolding e s1(5) by simp
  moreover have "length (tq_seq (tty_read_q (tty_of ch s1))) < f'" using Cons.prems(5) unfolding e s1(5) f by simp
  ultimately have "\<exists>s'. copy_loop f' ch s1 = Done s' \<and> length (ttys s') = length (ttys s1) \<and> tq_seq (tty_read_q (tty_of ch s')) = [] \<and>
    tq_seq (tty_secondary (tty_of ch s')) = foldl (cook (tty_of ch s1)) (tq_seq (tty_secondary (tty_of ch s1))) (tq_seq (tty_read_q (tty_of ch s1)))"
    using Cons.hyps(1) [of s1 f'] s1 Cons.prems(1) by simp
  moreover note cook_cong [OF s1(4)]
  ultimately show ?case unfolding s1(1,5,6) e by (simp add: s1(2))
qed


lemma wake_secondary_seq [simp]:
  "ch < length (ttys s) \<Longrightarrow> tq_seq (tty_secondary (tty_of ch (wake_secondary ch s))) = tq_seq (tty_secondary (tty_of ch s))"
  "ch < length (ttys s) \<Longrightarrow> tty_read_q (tty_of ch (wake_secondary ch s)) = tty_read_q (tty_of ch s)"
  by (simp_all add: wake_secondary_def split: prod.splits)

text \<open>
  C38: \<open>copy_to_cooked\<close> on a terminal that does not echo ends, empties the read queue and leaves in the
  secondary queue what line editing makes of the typed characters, in order: newlines and carriage
  returns translated, an erase character removing the last character but never a finished line, the
  flow control and interrupt characters kept out.
\<close>

theorem copy_to_cooked_edits:
  assumes "ch < length (ttys s)" "quiet (tty_of ch s)"
    "\<forall>c\<in>set (tq_seq (tty_read_q (tty_of ch s))). s8 c = c"
    "length (tq_seq (tty_secondary (tty_of ch s))) + length (tq_seq (tty_read_q (tty_of ch s))) \<le> 1023"
    "length (tq_seq (tty_read_q (tty_of ch s))) < f"
  shows "\<exists>s'. copy_to_cooked f ch s = Done s' \<and> tq_seq (tty_read_q (tty_of ch s')) = [] \<and>
    tq_seq (tty_secondary (tty_of ch s')) =
      foldl (cook (tty_of ch s)) (tq_seq (tty_secondary (tty_of ch s))) (tq_seq (tty_read_q (tty_of ch s)))"
proof -
  obtain s' where "copy_loop f ch s = Done s'" "length (ttys s') = length (ttys s)"
    "tq_seq (tty_read_q (tty_of ch s')) = []"
    "tq_seq (tty_secondary (tty_of ch s')) =
      foldl (cook (tty_of ch s)) (tq_seq (tty_secondary (tty_of ch s))) (tq_seq (tty_read_q (tty_of ch s)))"
    using copy_loop_cooks [OF assms] by blast
  then show ?thesis using assms(1) by (simp add: copy_to_cooked_def)
qed

text \<open>A terminal in canonical mode without echo, with some typed characters.\<close>

definition typed :: "int list \<Rightarrow> tty_sys" where
  "typed cs = \<lparr>ttys = [(tty_table0 ! 0)\<lparr>tty_termios := (tty_termios (tty_table0 ! 0))\<lparr>c_lflag := 2\<rparr>,
      tty_read_q := fold PUTCH cs (empty_queue 0)\<rparr>],
    ts_con = con_boot (\<lambda>_. 0) (\<lambda>_. 0), ts_sched = sched_init, ts_cr_flag = False, ts_port = (\<lambda>_. 0)\<rparr>"

lemma empty_queue_wf [simp]: "tq_wf (empty_queue d)" "tq_seq (empty_queue d) = []"
  by (simp_all add: tq_wf_def tq_seq_def CHARS_def empty_queue_def TTY_BUF_SIZE_def)

lemma fold_PUTCH:
  "tq_wf q \<Longrightarrow> length (tq_seq q) + length cs \<le> 1023 \<Longrightarrow>
   tq_wf (fold PUTCH cs q) \<and> tq_seq (fold PUTCH cs q) = tq_seq q @ map s8 cs"
proof (induction cs arbitrary: q)
  case (Cons c cs)
  have l: "length (tq_seq q) < 1023" using Cons.prems by simp
  from tq.put_law [OF Cons.prems(1) l, of c] have p: "tq_wf (PUTCH c q)" "tq_seq (PUTCH c q) = tq_seq q @ [s8 c]" by simp_all
  have "length (tq_seq (PUTCH c q)) + length cs \<le> 1023" using Cons.prems(2) unfolding p(2) by simp
  from Cons.IH [OF p(1) this] show ?case unfolding fold_simps o_apply p(2) by simp
qed simp

lemma typed_ok:
  assumes "length cs \<le> 1023"
  shows "quiet (tty_of 0 (typed cs))" "tq_seq (tty_read_q (tty_of 0 (typed cs))) = map s8 cs"
    "tq_seq (tty_secondary (tty_of 0 (typed cs))) = []" "length (ttys (typed cs)) = 1"
  using fold_PUTCH [of "empty_queue 0" cs] assms
  by (simp_all add: quiet_def typed_def tty_of_def L_ECHO_def I_UCLC_def flag_def tty_table0_def Let_def)

theorem copy_to_cooked_edits_witness:
  "\<exists>s'. copy_to_cooked 6 0 (typed [97, 98, 127, 99, 10]) = Done s' \<and> tq_seq (tty_read_q (tty_of 0 s')) = [] \<and>
    tq_seq (tty_secondary (tty_of 0 s')) = [97, 99, 10]"
proof -
  have "\<exists>s'. copy_to_cooked 6 0 (typed [97, 98, 127, 99, 10]) = Done s' \<and> tq_seq (tty_read_q (tty_of 0 s')) = [] \<and>
    tq_seq (tty_secondary (tty_of 0 s')) = foldl (cook (tty_of 0 (typed [97, 98, 127, 99, 10]))) [] [97, 98, 127, 99, 10]"
    using copy_to_cooked_edits [of 0 "typed [97, 98, 127, 99, 10]" 6] typed_ok [of "[97, 98, 127, 99, 10]"]
    by (simp add: s8_def)
  moreover have "foldl (cook (tty_of 0 (typed [97, 98, 127, 99, 10]))) [] [97, 98, 127, 99, 10] = [97, 99, 10]"
    by (simp add: cook_def translate_def edit_def tty_flags flag_def typed_def tty_of_def tty_table0_def Let_def INIT_C_CC_def)
  ultimately show ?thesis by simp
qed

section \<open>Writing to the console\<close>

text \<open>The bytes a write puts into the queue: carriage returns and newlines as the output modes say.\<close>

fun posted :: "tty_struct \<Rightarrow> bool \<Rightarrow> int list \<Rightarrow> int list" where
  "posted t cf [] = []"
| "posted t cf (b # bs) =
     (let c = post_char t (s8 b) in
      (if O_POST t \<and> c = 10 \<and> \<not> cf \<and> O_NLCR t then [13, c] else [c]) @ posted t False bs)"

lemma s8_s8 [simp]: "s8 (s8 x) = s8 x"
  using s8_range [of x] by (simp add: s8_id)

lemma post_char_s8: "s8 (post_char t (s8 b)) = post_char t (s8 b)"
  using s8_range [of b] by (auto simp: post_char_def intro: s8_id)

lemma posted_s8: "map s8 (posted t cf bs) = posted t cf bs"
  by (induction t cf bs rule: posted.induct) (auto simp: Let_def post_char_s8, simp_all add: s8_def)

lemma out_loop_posted:
  "tq_wf q \<Longrightarrow> \<not> O_LCUC t \<Longrightarrow> length (tq_seq q) + length (posted t cf bs) \<le> 1023 \<Longrightarrow>
   \<exists>cf' q'. out_loop t bs cf q = Done ([], cf', q') \<and> tq_wf q' \<and> tq_seq q' = tq_seq q @ posted t cf bs \<and>
     (bs \<noteq> [] \<longrightarrow> \<not> cf')"
proof (induction bs arbitrary: cf q)
  case (Cons b bs)
  let ?c = "post_char t (s8 b)"
  have one: "\<exists>cf' q'. out_loop t (b # bs) cg p = Done ([], cf', q') \<and> tq_wf q' \<and>
      tq_seq q' = tq_seq p @ ?c # posted t False bs \<and> \<not> cf'"
    if p: "tq_wf p" "length (tq_seq p) + length (posted t False bs) < 1023"
      and nl: "\<not> (O_POST t \<and> ?c = 10 \<and> \<not> cg \<and> O_NLCR t)" for cg p
  proof -
    have l: "length (tq_seq p) < 1023" using p by simp
    have q': "tq_wf (PUTCH ?c p)" "tq_seq (PUTCH ?c p) = tq_seq p @ [?c]"
      using tq.put_law [OF p(1) l, of ?c] by (simp_all add: post_char_s8)
    have "length (tq_seq (PUTCH ?c p)) + length (posted t False bs) \<le> 1023" using p(2) unfolding q'(2) by simp
    from Cons.IH [OF q'(1) Cons.prems(2) this] obtain cf' q2 where
      "out_loop t bs False (PUTCH ?c p) = Done ([], cf', q2)" "tq_wf q2"
      "tq_seq q2 = tq_seq (PUTCH ?c p) @ posted t False bs" "bs \<noteq> [] \<longrightarrow> \<not> cf'" by blast
    moreover have "\<not> FULL p" using l by (simp add: FULL_seq [OF p(1)])
    moreover have "out_loop t (b # bs) cg p = out_loop t bs False (PUTCH ?c p)"
      by (subst out_loop.simps) (use calculation(5) nl Cons.prems(2) in \<open>simp only: Let_def if_False simp_thms obind.simps\<close>)
    moreover have "bs = [] \<Longrightarrow> \<not> cf'" using calculation(1) by simp
    ultimately show ?thesis using q'(2) by (cases "bs = []") auto
  qed
  show ?case
  proof (cases "O_POST t \<and> ?c = 10 \<and> \<not> cf \<and> O_NLCR t")
    case True
    then have l: "length (tq_seq q) + length (posted t False bs) + 2 \<le> 1023" using Cons.prems(3) by (simp add: Let_def)
    then have "length (tq_seq q) < 1023" by simp
    from tq.put_law [OF Cons.prems(1) this, of 13]
    have q': "tq_wf (PUTCH 13 q)" "tq_seq (PUTCH 13 q) = tq_seq q @ [13]" by (simp_all add: s8_def)
    have "length (tq_seq (PUTCH 13 q)) + length (posted t False bs) < 1023" using l unfolding q'(2) by simp
    from one [OF q'(1) this, of True] obtain cf' q2 where
      "out_loop t (b # bs) True (PUTCH 13 q) = Done ([], cf', q2)" "tq_wf q2"
      "tq_seq q2 = tq_seq (PUTCH 13 q) @ ?c # posted t False bs" "\<not> cf'" by auto
    moreover have "out_loop t (b # bs) cf q = out_loop t (b # bs) True (PUTCH 13 q)"
      using True \<open>length (tq_seq q) < 1023\<close> by (subst out_loop.simps) (simp add: FULL_seq [OF Cons.prems(1)] Let_def)
    ultimately show ?thesis using True q'(2) by (auto simp: Let_def simp del: out_loop.simps)
  next
    case False
    then show ?thesis using one [OF Cons.prems(1) _ False] Cons.prems(3) by (auto simp: Let_def simp del: out_loop.simps length_tq_seq)
  qed
qed simp


text \<open>The loop of \<open>con_write\<close> hands the queued characters to the console, when none asks for a response.\<close>

lemma con_loop_drains:
  assumes "ch < length (ttys s)" "tq_wf (tty_write_q (tty_of ch s))" "tq_seq (tty_write_q (tty_of ch s)) = cs"
    "con_chars (ERASE_CHAR (tty_of ch s)) cs (ts_con s) = Done (0, con')" "length cs < f"
  shows "\<exists>q'. con_loop f (length cs) ch s = Done (upd_tty ch (on_write_q (\<lambda>_. q')) (s\<lparr>ts_con := con'\<rparr>)) \<and>
    tq_wf q' \<and> tq_seq q' = []"
  using assms
proof (induction cs arbitrary: s f)
  case Nil
  then obtain f' where "f = Suc f'" by (cases f) auto
  moreover have "s = upd_tty ch (on_write_q (\<lambda>_. tty_write_q (tty_of ch s))) (s\<lparr>ts_con := con'\<rparr>)"
    using Nil by (simp add: upd_tty_def tty_of_def)
  ultimately show ?case using Nil by auto
next
  case (Cons c cs)
  let ?t = "tty_of ch s"
  obtain f' where f: "f = Suc f'" using Cons.prems by (cases f) auto
  obtain c' q' where g: "GETCH (tty_write_q ?t) = (c', q')" by fastforce
  then have q': "c' = c" "tq_wf q'" "tq_seq q' = cs" using tq.get_law [OF Cons.prems(2)] Cons.prems(3) by auto
  obtain r con1 where 1: "con_char (ERASE_CHAR ?t) c (ts_con s) = Done (r, con1)"
    and "\<exists>n. con_chars (ERASE_CHAR ?t) cs con1 = Done (n, con') \<and> (if r then Suc n else n) = 0"
    using Cons.prems(4) by (auto simp: outcome_simps)
  then have r: "\<not> r" and 2: "con_chars (ERASE_CHAR ?t) cs con1 = Done (0, con')" by (auto split: if_splits)
  define s1 where "s1 = (upd_tty ch (on_write_q (\<lambda>_. q')) s)\<lparr>ts_con := con1\<rparr>"
  have s1: "ch < length (ttys s1)" "tty_of ch s1 = ?t\<lparr>tty_write_q := q'\<rparr>" "ts_con s1 = con1"
    using Cons.prems(1) by (simp_all add: s1_def)
  have e: "ERASE_CHAR (tty_of ch s1) = ERASE_CHAR ?t" by (simp add: s1(2) ERASE_CHAR_def)
  have "con_loop f (length (c # cs)) ch s = con_loop f' (length cs) ch s1"
    using 1 r Cons.prems(1) by (simp add: f g q' Let_def s1_def ERASE_CHAR_def)
  moreover obtain q2 where "con_loop f' (length cs) ch s1 = Done (upd_tty ch (on_write_q (\<lambda>_. q2)) (s1\<lparr>ts_con := con'\<rparr>))"
      "tq_wf q2" "tq_seq q2 = []"
    using Cons.IH [of s1 f'] s1 q' 2 e Cons.prems(5) f by auto
  moreover have "upd_tty ch (on_write_q (\<lambda>_. q2)) (s1\<lparr>ts_con := con'\<rparr>) = upd_tty ch (on_write_q (\<lambda>_. q2)) (s\<lparr>ts_con := con'\<rparr>)"
    using Cons.prems(1) by (simp add: s1_def upd_tty_def)
  ultimately show ?case by auto
qed

text \<open>
  a write of bytes to the console terminal, whose output queue is empty, returns their number and
  leaves the queue empty again; the console driver has then processed exactly those bytes with the
  newlines and carriage returns as the output modes say, and the hardware cursor is set.
\<close>

theorem tty_write_reaches_console:
  assumes "ch \<le> 2" "ch < length (ttys s)" "tq_wf (tty_write_q (tty_of ch s))" "tq_seq (tty_write_q (tty_of ch s)) = []"
    "tty_write_fn (tty_of ch s) = Con_write" "\<not> O_LCUC (tty_of ch s)" "t_signal (cur (ts_sched s)) = 0"
    "bs \<noteq> []" "length (posted (tty_of ch s) (ts_cr_flag s) bs) \<le> 1023"
    "con_chars (ERASE_CHAR (tty_of ch s)) (posted (tty_of ch s) (ts_cr_flag s) bs) (ts_con s) = Done (0, con')"
    "length (posted (tty_of ch s) (ts_cr_flag s) bs) + 1 < f"
  shows "\<exists>s'. tty_write f ch bs s = Done (int (length bs), [], s') \<and> ts_con s' = set_cursor con' \<and>
    tq_seq (tty_write_q (tty_of ch s')) = []"
proof -
  let ?t = "tty_of ch s" and ?out = "posted (tty_of ch s) (ts_cr_flag s) bs"
  obtain cf q where o: "out_loop ?t bs (ts_cr_flag s) (tty_write_q ?t) = Done ([], cf, q)" "tq_wf q" "tq_seq q = ?out"
  proof -
    have "length (tq_seq (tty_write_q ?t)) + length ?out \<le> 1023" unfolding assms(4) using assms(9) by simp
    from out_loop_posted [OF assms(3,6) this] show thesis using that unfolding assms(4) by auto
  qed
  define s1 where "s1 = upd_tty ch (on_write_q (\<lambda>_. q)) (s\<lparr>ts_cr_flag := cf\<rparr>)"
  have s1: "ch < length (ttys s1)" "tty_of ch s1 = ?t\<lparr>tty_write_q := q\<rparr>" "ts_con s1 = ts_con s"
    using assms(2) by (simp_all add: s1_def)
  obtain f' where f: "f = Suc f'" using assms(11) by (cases f) auto
  have n: "CHARS q = length ?out" using o(3) length_tq_seq [of q] by simp
  have e: "ERASE_CHAR (tty_of ch s1) = ERASE_CHAR ?t" by (simp add: s1(2) ERASE_CHAR_def)
  obtain q2 where "con_loop f' (length ?out) ch s1 = Done (upd_tty ch (on_write_q (\<lambda>_. q2)) (s1\<lparr>ts_con := con'\<rparr>))" "tq_seq q2 = []"
    using con_loop_drains [of ch s1 ?out con' f'] s1 o e assms(10,11) f by (auto simp del: con_loop.simps con_chars.simps)
  then have d: "tty_drv f ch s1 = Done ((upd_tty ch (on_write_q (\<lambda>_. q2)) (s1\<lparr>ts_con := con'\<rparr>))\<lparr>ts_con := set_cursor con'\<rparr>)"
    using assms(5) s1 n by (simp add: f del: con_loop.simps)
  have "\<not> FULL (tty_write_q ?t)" using assms(3,4) by (simp only: FULL_seq) simp
  then have "tty_write f ch bs s = Done (int (length bs), [], (upd_tty ch (on_write_q (\<lambda>_. q2)) (s1\<lparr>ts_con := con'\<rparr>))\<lparr>ts_con := set_cursor con'\<rparr>)"
    using assms(1,7,8) o(1) d by (simp add: tty_write_def Let_def sleep_if_full_def del: tty_drv.simps out_loop.simps flip: s1_def)
  then show ?thesis using \<open>tq_seq q2 = []\<close> s1 by simp
qed


text \<open>The console terminal with an empty queue.\<close>

definition console_tty :: tty_sys where
  "console_tty = \<lparr>ttys = tty_table0, ts_con = con_init 0 0 (con_boot (\<lambda>_. 0) (\<lambda>_. 0)), ts_sched = sched_init,
    ts_cr_flag = False, ts_port = (\<lambda>_. 0)\<rparr>"

lemmas console_eval = con_char_def con_state0_def put_cell_def vput_def vid_ok_def cr_def lf_def con_init_def con_boot_def
  gotoxy_def con_consts u32_def u8_def Let_def

theorem tty_write_reaches_console_witness:
  "\<exists>con' s'. con_chars 127 [97, 13, 10] (ts_con console_tty) = Done (0, con') \<and>
    tty_write 10 0 [97, 10] console_tty = Done (2, [], s') \<and> ts_con s' = set_cursor con'"
proof -
  have p: "posted (tty_of 0 console_tty) (ts_cr_flag console_tty) [97, 10] = [97, 13, 10]"
    by (simp add: console_tty_def tty_of_def tty_table0_def Let_def post_char_def O_POST_def O_CRNL_def O_NLRET_def
        O_NLCR_def flag_def s8_def)
  have e: "ERASE_CHAR (tty_of 0 console_tty) = 127"
    by (simp add: console_tty_def tty_of_def tty_table0_def Let_def ERASE_CHAR_def INIT_C_CC_def)
  obtain con' where c: "con_chars 127 [97, 13, 10] (ts_con console_tty) = Done (0, con')"
    by (simp add: console_tty_def console_eval)
  have "\<exists>s'. tty_write 10 0 [97, 10] console_tty = Done (int (length [97, 10 :: int]), [], s') \<and> ts_con s' = set_cursor con' \<and>
    tq_seq (tty_write_q (tty_of 0 s')) = []"
    by (rule tty_write_reaches_console, unfold p e, use c in \<open>simp_all add: console_tty_def tty_of_def tty_table0_def Let_def
        O_LCUC_def flag_def cur_def sched_init_def init_task_def del: con_chars.simps\<close>)
  then show ?thesis using c by auto
qed

section \<open>Reading\<close>

lemma read_chars_seq:
  "tq_wf q \<Longrightarrow> tq_seq q \<noteq> [] \<Longrightarrow> 0 < n \<Longrightarrow>
   \<exists>q'. read_chars True eof n q acc =
      (let xs = takeWhile (\<lambda>c. c \<noteq> eof) (take n (tq_seq q)) in
       (eof \<in> set (take n (tq_seq q)), acc @ xs, n - length xs, q')) \<and> tq_wf q'"
proof (induction n arbitrary: q acc)
  case (Suc n)
  obtain c q1 where g: "GETCH q = (c, q1)" by fastforce
  have s: "tq_seq q = c # tq_seq q1" "tq_wf q1" using tq.get_law [OF Suc.prems(1,2)] g Suc.prems(2) by (cases "tq_seq q"; auto)+
  define q2 where "q2 = (if c = eof \<or> c = 10 then q1\<lparr>tq_data := u32 (tq_data q1 - 1)\<rparr> else q1)"
  have q2: "tq_wf q2" "tq_seq q2 = tq_seq q1" using s by (simp_all add: q2_def)
  have step: "read_chars True eof (Suc n) q acc =
      (if c = eof then (True, acc, Suc n, q2) else if n = 0 \<or> EMPTY q2 then (False, acc @ [c], n, q2)
       else read_chars True eof n q2 (acc @ [c]))"
    by (simp only: read_chars.simps g Let_def case_prod_conv q2_def simp_thms)
  consider "c = eof" | "c \<noteq> eof" "n = 0 \<or> tq_seq q1 = []" | "c \<noteq> eof" "0 < n" "tq_seq q1 \<noteq> []" by blast
  then show ?case
  proof cases
    case 3
    then obtain q' where "read_chars True eof n q2 (acc @ [c]) =
      (let xs = takeWhile (\<lambda>c. c \<noteq> eof) (take n (tq_seq q2)) in
       (eof \<in> set (take n (tq_seq q2)), (acc @ [c]) @ xs, n - length xs, q'))" "tq_wf q'"
      using Suc.IH [OF q2(1), of "acc @ [c]"] q2(2) by auto
    moreover have "\<not> EMPTY q2" using 3 q2 by (simp add: EMPTY_seq)
    ultimately show ?thesis using 3 q2(2) unfolding step by (simp add: s(1) Let_def)
  next
    case 2
    then have "n = 0 \<or> EMPTY q2" using q2 by (simp add: EMPTY_seq)
    then show ?thesis using 2 q2 unfolding step by (auto simp: s(1) Let_def)
  next
    case 1
    then show ?thesis using q2 unfolding step by (simp add: s(1) Let_def)
  qed
qed simp

text \<open>
  A read from a terminal in canonical mode that has a complete line returns at once the queued
  characters up to the count or to an end-of-file character, which is not delivered.
\<close>

theorem tty_read_delivers:
  assumes "ch \<le> 2" "ch < length (ttys s)" "L_CANON (tty_of ch s)" "c_cc (tty_termios (tty_of ch s)) ! 5 = 0"
    "tq_wf (tty_secondary (tty_of ch s))" "tq_seq (tty_secondary (tty_of ch s)) \<noteq> []"
    "tq_data (tty_secondary (tty_of ch s)) \<noteq> 0" "t_signal (cur (ts_sched s)) = 0"
    "current (ts_sched s) < length (tasks (ts_sched s))" "tasks (ts_sched s) ! current (ts_sched s) \<noteq> None"
    "0 < nr" "0 < f"
  shows "\<exists>s'. tty_read f ch nr s =
    (let xs = takeWhile (\<lambda>c. c \<noteq> EOF_CHAR (tty_of ch s)) (take (nat nr) (tq_seq (tty_secondary (tty_of ch s)))) in
     Done (int (length xs), xs, s'))"
proof -
  let ?t = "tty_of ch s" and ?q = "tty_secondary (tty_of ch s)"
  let ?xs = "takeWhile (\<lambda>c. c \<noteq> EOF_CHAR ?t) (take (nat nr) (tq_seq ?q))"
  let ?eof = "EOF_CHAR ?t \<in> set (take (nat nr) (tq_seq ?q))"
  obtain f' where f: "f = Suc f'" using assms(12) by (cases f) auto
  have n: "0 < nat nr" using assms(11) by simp
  from read_chars_seq [OF assms(5,6) n, of "EOF_CHAR ?t" "[]"] obtain q' where
    r: "read_chars True (EOF_CHAR ?t) (nat nr) ?q [] = (?eof, ?xs, nat nr - length ?xs, q')" by (auto simp: Let_def)
  have ne: "\<not> EMPTY ?q" using assms(5,6) by (simp add: EMPTY_seq)
  have x: "\<not> ?eof \<Longrightarrow> ?xs \<noteq> []" using assms(6) n by (cases "tq_seq ?q") (auto simp: take_Cons' split: if_splits)
  have "tty_read_loop f ch (nat nr) False 0 m oa [] s = Done (?eof, ?xs, upd_tty ch (on_secondary (\<lambda>_. q')) s)" for m oa
    using assms(3,7,8) n r ne x by (simp add: f Let_def)
  moreover have "t_signal (cur (ts_sched (set_alarm a (upd_tty ch g s)))) = 0" for a g
    using assms(8-10) by (auto simp: set_alarm_def upd_cur_def upd_task_def cur_def)
  ultimately show ?thesis using assms(1,4,11) by (auto simp: tty_read_def Let_def simp del: tty_read_loop.simps)
qed

text \<open>
  While characters are queued but no line is complete, \<open>tty_read\<close> neither returns nor sleeps:
  \<open>sleep_if_empty\<close> does not sleep on a queue that is not empty, and the loop starts again.
\<close>

theorem tty_read_spins:
  assumes "ch \<le> 2" "L_CANON (tty_of ch s)" "c_cc (tty_termios (tty_of ch s)) ! 5 = 0"
    "\<not> EMPTY (tty_secondary (tty_of ch s))" "tq_data (tty_secondary (tty_of ch s)) = 0"
    "LEFTQ (tty_secondary (tty_of ch s)) > 20" "t_signal (cur (ts_sched s)) = 0" "0 < nr"
  shows "tty_read f ch nr s = Fuel"
proof -
  have "tty_read_loop f ch (nat nr) False 0 m oa [] s = Fuel" for m oa
    by (induction f) (use assms in \<open>simp_all add: Let_def sleep_if_empty_def\<close>)
  then show ?thesis using assms by (simp add: tty_read_def Let_def del: tty_read_loop.simps)
qed

definition line_ready :: tty_sys where
  "line_ready = upd_tty 0 (on_secondary (\<lambda>q. (fold PUTCH [97, 98, 10] q)\<lparr>tq_data := 1\<rparr>)) console_tty"

theorem tty_read_delivers_witness:
  "\<exists>s'. tty_read 1 0 10 line_ready = Done (3, [97, 98, 10], s')"
proof -
  have q: "tty_secondary (tty_of 0 line_ready) = (fold PUTCH [97, 98, 10] (empty_queue 0))\<lparr>tq_data := 1\<rparr>"
    by (simp add: line_ready_def console_tty_def tty_table0_def Let_def tty_of_def upd_tty_def)
  have w: "tq_wf (tty_secondary (tty_of 0 line_ready))" "tq_seq (tty_secondary (tty_of 0 line_ready)) = [97, 98, 10]"
    unfolding q using fold_PUTCH [of "empty_queue 0" "[97, 98, 10]"] by (simp_all add: s8_def)
  have sc: "ts_sched line_ready = sched_init" and len: "length (ttys line_ready) = 3"
    by (simp_all add: line_ready_def console_tty_def tty_table0_def Let_def)
  have e: "EOF_CHAR (tty_of 0 line_ready) = 4" "tty_termios (tty_of 0 line_ready) = tty_termios (tty_table0 ! 0)"
    by (simp_all add: line_ready_def console_tty_def tty_table0_def Let_def tty_of_def upd_tty_def EOF_CHAR_def INIT_C_CC_def)
  have "\<exists>s'. tty_read 1 0 10 line_ready =
    (let xs = takeWhile (\<lambda>c. c \<noteq> EOF_CHAR (tty_of 0 line_ready)) (take (nat 10) (tq_seq (tty_secondary (tty_of 0 line_ready)))) in
     Done (int (length xs), xs, s'))"
    by (rule tty_read_delivers, unfold w(2) L_CANON_def e(2) sc q [THEN arg_cong [of _ _ tq_data]])
      (simp_all add: w(1) len tty_table0_def Let_def flag_def INIT_C_CC_def cur_def sched_init_def init_task_def)
  then show ?thesis unfolding w(2) e(1) by (simp add: Let_def)
qed

end
