(* ===== verification/Memory.thy ===== *)
theory Memory
  imports Prelude
begin

text \<open>
  Physical pages and page tables: src/mm/memory.c. The state is the array of use counts \<open>mem_map\<close>
  and the physical memory, a map from the address of a 32-bit word to its contents; the page
  directory is at address 0. The present bit of an entry is its bit 0, the write bit its bit 1.
  \<open>invalidate\<close> only flushes the translation cache and is left out.
\<close>

section \<open>State\<close>

definition LOW_MEM :: int where "LOW_MEM = 0x200000"
definition HIGH_MEMORY :: int where "HIGH_MEMORY = 0x800000"
definition PAGING_PAGES :: nat where "PAGING_PAGES = 1536"

lemmas mm_consts = LOW_MEM_def HIGH_MEMORY_def PAGING_PAGES_def

record mm_state =
  mem_map :: "int list"
  pmem :: "int \<Rightarrow> int"

definition MAP_NR :: "int \<Rightarrow> nat" where
  "MAP_NR addr = nat ((addr - LOW_MEM) div 4096)"

text \<open>\<open>0xfffff000 & e\<close>, \<open>e | 7\<close>, \<open>e | 2\<close> and \<open>e & ~2\<close> of an unsigned word.\<close>

definition page_of :: "int \<Rightarrow> int" where
  "page_of e = e div 4096 * 4096"

definition with_7 :: "int \<Rightarrow> int" where
  "with_7 e = e div 8 * 8 + 7"

definition writable :: "int \<Rightarrow> bool" where
  "writable e \<longleftrightarrow> (e div 2) mod 2 = 1"

definition with_2 :: "int \<Rightarrow> int" where
  "with_2 e = (if writable e then e else e + 2)"

definition without_2 :: "int \<Rightarrow> int" where
  "without_2 e = (if writable e then e - 2 else e)"

definition poke :: "int \<Rightarrow> int \<Rightarrow> mm_state \<Rightarrow> mm_state" where
  "poke a v s = s\<lparr>pmem := (pmem s)(a := v)\<rparr>"

section \<open>Pages\<close>

text \<open>\<open>copy_page\<close> and the clearing loop of \<open>get_free_page\<close> move 1024 words.\<close>

definition copy_page :: "int \<Rightarrow> int \<Rightarrow> mm_state \<Rightarrow> mm_state" where
  "copy_page from to s =
     s\<lparr>pmem := (\<lambda>a. if to \<le> a \<and> a < to + 4096 then pmem s (a - to + from) else pmem s a)\<rparr>"

definition clear_page :: "int \<Rightarrow> mm_state \<Rightarrow> mm_state" where
  "clear_page p s = s\<lparr>pmem := (\<lambda>a. if p \<le> a \<and> a < p + 4096 then 0 else pmem s a)\<rparr>"

text \<open>\<open>std; repne; scasw\<close> from the last entry of \<open>mem_map\<close>: the highest index of a zero.\<close>

fun scan_free :: "nat \<Rightarrow> int list \<Rightarrow> nat option" where
  "scan_free 0 m = None"
| "scan_free (Suc k) m = (if m ! k = 0 then Some k else scan_free k m)"

definition get_free_page :: "mm_state \<Rightarrow> int \<times> mm_state" where
  "get_free_page s =
     (case scan_free PAGING_PAGES (mem_map s) of
        None \<Rightarrow> (0, s)
      | Some k \<Rightarrow>
          let page = int k * 4096 + LOW_MEM in
          (page, clear_page page (s\<lparr>mem_map := (mem_map s)[k := 1]\<rparr>)))"

text \<open>\<open>mem_map[addr]--\<close> on an \<open>unsigned short\<close>.\<close>

definition free_page :: "int \<Rightarrow> mm_state \<Rightarrow> mm_state outcome" where
  "free_page addr s =
     (if addr < LOW_MEM then Done s
      else if addr > HIGH_MEMORY then Panic ''trying to free nonexistent page''
      else obind (rd (mem_map s) (MAP_NR addr)) (\<lambda>n.
           if n \<noteq> 0 then Done (s\<lparr>mem_map := (mem_map s)[MAP_NR addr := u16 (n - 1)]\<rparr>)
           else Panic ''trying to free free page''))"

section \<open>Page tables\<close>

definition dir_entry_of :: "int \<Rightarrow> int" where
  "dir_entry_of addr = (addr div 4194304) mod 1024 * 4"

fun free_ptes :: "nat \<Rightarrow> int \<Rightarrow> mm_state \<Rightarrow> mm_state outcome" where
  "free_ptes 0 pg_table s = Done s"
| "free_ptes (Suc k) pg_table s =
     obind (if odd (pmem s pg_table) then free_page (page_of (pmem s pg_table)) s else Done s) (\<lambda>s.
     free_ptes k (pg_table + 4) (poke pg_table 0 s))"

fun free_dirs :: "nat \<Rightarrow> int \<Rightarrow> mm_state \<Rightarrow> mm_state outcome" where
  "free_dirs 0 dir s = Done s"
| "free_dirs (Suc n) dir s =
     (if even (pmem s dir) then free_dirs n (dir + 4) s
      else obind (free_ptes 1024 (page_of (pmem s dir)) s) (\<lambda>s.
           obind (free_page (page_of (pmem s dir)) s) (\<lambda>s.
           free_dirs n (dir + 4) (poke dir 0 s))))"

definition free_page_tables :: "int \<Rightarrow> int \<Rightarrow> mm_state \<Rightarrow> (int \<times> mm_state) outcome" where
  "free_page_tables from len s =
     (if from mod 4194304 \<noteq> 0 then Panic ''free_page_tables called with wrong alignment''
      else if from = 0 then Panic ''Trying to free up swapper memory space''
      else obind (free_dirs (nat (u32 (len + 0x3fffff) div 4194304)) (dir_entry_of from) s) (\<lambda>s.
           Done (0, s)))"

fun copy_ptes :: "nat \<Rightarrow> int \<Rightarrow> int \<Rightarrow> mm_state \<Rightarrow> mm_state outcome" where
  "copy_ptes 0 from_page_table to_page_table s = Done s"
| "copy_ptes (Suc k) from_page_table to_page_table s =
     (let this_page = pmem s from_page_table in
      if even this_page then copy_ptes k (from_page_table + 4) (to_page_table + 4) s
      else
        let this_page = without_2 this_page;
            s = poke to_page_table this_page s in
        obind
          (if this_page > LOW_MEM then
             let s = poke from_page_table this_page s in
             obind (rd (mem_map s) (MAP_NR this_page)) (\<lambda>n.
             Done (s\<lparr>mem_map := (mem_map s)[MAP_NR this_page := u16 (n + 1)]\<rparr>))
           else Done s)
          (\<lambda>s. copy_ptes k (from_page_table + 4) (to_page_table + 4) s))"

fun copy_dirs :: "nat \<Rightarrow> bool \<Rightarrow> int \<Rightarrow> int \<Rightarrow> mm_state \<Rightarrow> (int \<times> mm_state) outcome" where
  "copy_dirs 0 first from_dir to_dir s = Done (0, s)"
| "copy_dirs (Suc n) first from_dir to_dir s =
     (if odd (pmem s to_dir) then Panic ''copy_page_tables: already exist''
      else if even (pmem s from_dir) then copy_dirs n first (from_dir + 4) (to_dir + 4) s
      else
        let from_page_table = page_of (pmem s from_dir);
            (to_page_table, s) = get_free_page s in
        if to_page_table = 0 then Done (-1, s)
        else
          let s = poke to_dir (with_7 to_page_table) s in
          obind (copy_ptes (if first then 160 else 1024) from_page_table to_page_table s) (\<lambda>s.
          copy_dirs n first (from_dir + 4) (to_dir + 4) s))"

definition copy_page_tables :: "int \<Rightarrow> int \<Rightarrow> int \<Rightarrow> mm_state \<Rightarrow> (int \<times> mm_state) outcome" where
  "copy_page_tables from to len s =
     (if from mod 4194304 \<noteq> 0 \<or> to mod 4194304 \<noteq> 0
      then Panic ''copy_page_tables called with wrong alignment''
      else copy_dirs (nat (u32 (len + 0x3fffff) div 4194304)) (from = 0)
             (dir_entry_of from) (dir_entry_of to) s)"

text \<open>The warnings that \<open>put_page\<close> prints are its first two components.\<close>

definition put_page :: "int \<Rightarrow> int \<Rightarrow> mm_state \<Rightarrow> (bool \<times> bool \<times> int \<times> mm_state) outcome" where
  "put_page page address s =
     obind (rd (mem_map s) (nat (u32 (page - LOW_MEM) div 4096))) (\<lambda>n.
     let w1 = (page < LOW_MEM \<or> page > HIGH_MEMORY); w2 = (n \<noteq> 1);
         d = dir_entry_of address;
         slot = (address div 4096) mod 1024 * 4 in
     if odd (pmem s d) then
       Done (w1, w2, page, poke (page_of (pmem s d) + slot) (with_7 page) s)
     else
       let (tmp, s) = get_free_page s in
       if tmp = 0 then Done (w1, w2, 0, s)
       else Done (w1, w2, page, poke (tmp + slot) (with_7 page) (poke d (with_7 tmp) s)))"

definition un_wp_page :: "int \<Rightarrow> mm_state \<Rightarrow> mm_state outcome" where
  "un_wp_page table_entry s =
     (let old_page = page_of (pmem s table_entry) in
      obind (if old_page \<ge> LOW_MEM then rd (mem_map s) (MAP_NR old_page) else Done 0) (\<lambda>n.
      if old_page \<ge> LOW_MEM \<and> n = 1
      then Done (poke table_entry (with_2 (pmem s table_entry)) s)
      else
        let (new_page, s) = get_free_page s in
        if new_page = 0 then Exit 11
        else
          let s = (if old_page \<ge> LOW_MEM
                   then s\<lparr>mem_map := (mem_map s)[MAP_NR old_page := u16 (n - 1)]\<rparr> else s) in
          Done (copy_page old_page new_page (poke table_entry (with_7 new_page) s))))"

definition pte_of :: "int \<Rightarrow> mm_state \<Rightarrow> int" where
  "pte_of address s = (address div 4096) mod 1024 * 4 + page_of (pmem s (dir_entry_of address))"

definition do_wp_page :: "int \<Rightarrow> int \<Rightarrow> mm_state \<Rightarrow> mm_state outcome" where
  "do_wp_page error_code address s = un_wp_page (pte_of address s) s"

definition write_verify :: "int \<Rightarrow> mm_state \<Rightarrow> mm_state outcome" where
  "write_verify address s =
     (if even (pmem s (dir_entry_of address)) then Done s
      else
        let page = pte_of address s in
        if pmem s page mod 4 = 1 then un_wp_page page s else Done s)"

definition do_no_page :: "int \<Rightarrow> int \<Rightarrow> mm_state \<Rightarrow> mm_state outcome" where
  "do_no_page error_code address s =
     (let (tmp, s) = get_free_page s in
      if tmp = 0 then Exit 11
      else obind (put_page tmp address s) (\<lambda>(w1, w2, r, s). if r \<noteq> 0 then Done s else Exit 11))"

definition calc_mem_free :: "mm_state \<Rightarrow> nat" where
  "calc_mem_free s = length (filter (\<lambda>n. n = 0) (mem_map s))"

text \<open>\<open>verify_area\<close> of src/kernel/fork.c, with the base of the caller's data segment.\<close>

function verify_loop :: "int \<Rightarrow> int \<Rightarrow> mm_state \<Rightarrow> mm_state outcome" where
  "verify_loop len start s =
     (if len > 0 then
        obind (write_verify start s) (\<lambda>s. verify_loop (len - 4096) (u32 (start + 4096)) s)
      else Done s)"
  by pat_completeness auto
termination
  by (relation "measure (\<lambda>(len, start, s). nat len)") auto

declare verify_loop.simps [simp del]

definition verify_area :: "int \<Rightarrow> int \<Rightarrow> int \<Rightarrow> mm_state \<Rightarrow> mm_state outcome" where
  "verify_area data_base addr len s =
     verify_loop (s32 (len + addr mod 4096)) (u32 (page_of addr + data_base)) s"

end
