(* ===== verification/MemoryProps.thy ===== *)
theory MemoryProps
  imports Memory
begin

text \<open>
  The use counts of \<open>Memory\<close>: allocation, the sharing of page tables by fork, their release by
  exit, and the private copy a write fault makes.
\<close>

section \<open>Allocation\<close>

definition mm_wf :: "mm_state \<Rightarrow> bool" where
  "mm_wf s \<longleftrightarrow> length (mem_map s) = PAGING_PAGES \<and> (\<forall>n \<in> set (mem_map s). 0 \<le> n \<and> n < 65536)"

lemma scan_free_spec:
  "(scan_free n m = Some k \<longrightarrow> k < n \<and> m ! k = 0 \<and> (\<forall>j. k < j \<and> j < n \<longrightarrow> m ! j \<noteq> 0)) \<and>
   (scan_free n m = None \<longrightarrow> (\<forall>j < n. m ! j \<noteq> 0))"
  by (induction n) (auto simp: less_Suc_eq)

lemma get_free_page_spec:
  assumes "mm_wf s"
  shows "case get_free_page s of (p, s') \<Rightarrow>
    if \<forall>n \<in> set (mem_map s). n \<noteq> 0 then p = 0 \<and> s' = s
    else LOW_MEM \<le> p \<and> p < HIGH_MEMORY \<and> p mod 4096 = 0 \<and>
      mem_map s ! MAP_NR p = 0 \<and> mem_map s' = (mem_map s)[MAP_NR p := 1] \<and>
      (\<forall>a. p \<le> a \<and> a < p + 4096 \<longrightarrow> pmem s' a = 0) \<and>
      (\<forall>a. \<not> (p \<le> a \<and> a < p + 4096) \<longrightarrow> pmem s' a = pmem s a)"
proof (cases "scan_free PAGING_PAGES (mem_map s)")
  case None
  then have "\<forall>n \<in> set (mem_map s). n \<noteq> 0"
    using scan_free_spec [of PAGING_PAGES "mem_map s"] assms by (auto simp: mm_wf_def in_set_conv_nth)
  then show ?thesis using None by (simp add: get_free_page_def)
next
  case (Some k)
  then have k: "k < 1536" "mem_map s ! k = 0" "length (mem_map s) = 1536"
    using scan_free_spec [of PAGING_PAGES "mem_map s" k] assms by (auto simp: mm_wf_def PAGING_PAGES_def)
  have "MAP_NR (int k * 4096 + LOW_MEM) = k" by (simp add: MAP_NR_def)
  moreover have "(\<forall>n \<in> set (mem_map s). n \<noteq> 0) = False" using k by (metis nth_mem)
  moreover have "(int k * 4096 + LOW_MEM) mod 4096 = 0" by (simp add: LOW_MEM_def)
  moreover have "int k * 4096 + LOW_MEM < HIGH_MEMORY" using k by (simp add: mm_consts)
  ultimately show ?thesis using k
    by (simp only: get_free_page_def Some Let_def clear_page_def option.case split if_False) simp
qed

lemma map_nr_less: "LOW_MEM \<le> a \<Longrightarrow> a < HIGH_MEMORY \<Longrightarrow> MAP_NR a < PAGING_PAGES"
  by (simp add: MAP_NR_def mm_consts nat_less_iff)

lemma free_page_dec:
  assumes "LOW_MEM \<le> a" "a < HIGH_MEMORY" "length (mem_map s) = PAGING_PAGES"
    "0 < mem_map s ! MAP_NR a" "mem_map s ! MAP_NR a < 65536"
  shows "free_page a s = Done (s\<lparr>mem_map := (mem_map s)[MAP_NR a := mem_map s ! MAP_NR a - 1]\<rparr>)"
  using assms map_nr_less [OF assms(1,2)] by (simp add: free_page_def rd_def u16_id)

section \<open>Copying and freeing a page table\<close>

text \<open>How many of the entries of a table refer to the page with number \<open>i\<close>.\<close>

definition refers :: "int \<Rightarrow> nat \<Rightarrow> bool" where
  "refers e i \<longleftrightarrow> odd e \<and> LOW_MEM \<le> page_of e \<and> MAP_NR (page_of e) = i"

fun refs :: "nat \<Rightarrow> int \<Rightarrow> (int \<Rightarrow> int) \<Rightarrow> nat \<Rightarrow> int" where
  "refs 0 tbl m i = 0"
| "refs (Suc k) tbl m i = (if refers (m tbl) i then 1 else 0) + refs k (tbl + 4) m i"

lemma refs_nonneg: "0 \<le> refs k tbl m i"
  by (induction k arbitrary: tbl) auto

lemma refs_cong: "(\<And>a. tbl \<le> a \<Longrightarrow> a < tbl + 4 * int k \<Longrightarrow> m a = m' a) \<Longrightarrow> refs k tbl m i = refs k tbl m' i"
proof (induction k arbitrary: tbl)
  case (Suc k)
  have "refs k (tbl + 4) m i = refs k (tbl + 4) m' i" using Suc.prems by (intro Suc.IH) auto
  then show ?case using Suc.prems [of tbl] by simp
qed simp

text \<open>The entries of a table are in range when the pages they refer to exist.\<close>

fun entries_ok :: "nat \<Rightarrow> int \<Rightarrow> (int \<Rightarrow> int) \<Rightarrow> bool" where
  "entries_ok 0 tbl m \<longleftrightarrow> True"
| "entries_ok (Suc k) tbl m \<longleftrightarrow> 0 \<le> m tbl \<and> m tbl < HIGH_MEMORY \<and> entries_ok k (tbl + 4) m"

lemma entries_ok_cong:
  "(\<And>a. tbl \<le> a \<Longrightarrow> a < tbl + 4 * int k \<Longrightarrow> m a = m' a) \<Longrightarrow> entries_ok k tbl m = entries_ok k tbl m'"
proof (induction k arbitrary: tbl)
  case (Suc k)
  have "entries_ok k (tbl + 4) m = entries_ok k (tbl + 4) m'" using Suc.prems by (intro Suc.IH) auto
  then show ?case using Suc.prems [of tbl] by simp
qed simp

lemma page_of_less: "0 \<le> e \<Longrightarrow> e < HIGH_MEMORY \<Longrightarrow> page_of e < HIGH_MEMORY"
  by (auto simp: page_of_def mm_consts)

lemma without_2_page: "page_of (without_2 e) = page_of e" "odd (without_2 e) = odd e"
  "\<not> writable (without_2 e)"
proof -
  have w: "e - 2 = e mod 2 + 4 * (e div 4)" if "(e div 2) mod 2 = 1"
    using that zmod_zmult2_eq [of 2 e 2] mult_div_mod_eq [of 4 e] by simp
  have "e mod 2 div 4 = 0" "e mod 2 div 2 = 0" by (simp_all add: div_pos_pos_trivial)
  then have d: "(e - 2) div 4 = e div 4" "((e - 2) div 2) mod 2 = 0" if "(e div 2) mod 2 = 1"
    using div_mult_self2 [of 4 "e mod 2" "e div 4"] div_mult_self2 [of 2 "e mod 2" "2 * (e div 4)"]
    unfolding w [OF that] by simp_all
  moreover have "x div 4096 = x div 4 div 1024" for x :: int by (simp add: zdiv_zmult2_eq [symmetric])
  ultimately show "page_of (without_2 e) = page_of e"
    by (simp add: page_of_def without_2_def writable_def)
  show "odd (without_2 e) = odd e" by (simp add: without_2_def)
  show "\<not> writable (without_2 e)" using d(2) by (auto simp: without_2_def writable_def)
qed

lemma free_ptes_ok:
  assumes "length (mem_map s) = PAGING_PAGES" "entries_ok k tbl (pmem s)"
    "\<forall>i < PAGING_PAGES. refs k tbl (pmem s) i \<le> mem_map s ! i \<and> mem_map s ! i < 65536"
  shows "\<exists>s'. free_ptes k tbl s = Done s' \<and> length (mem_map s') = PAGING_PAGES \<and>
    (\<forall>i < PAGING_PAGES. mem_map s' ! i = mem_map s ! i - refs k tbl (pmem s) i) \<and>
    (\<forall>a. pmem s' a = (if tbl \<le> a \<and> a < tbl + 4 * int k \<and> (a - tbl) mod 4 = 0 then 0 else pmem s a))"
  using assms
proof (induction k arbitrary: tbl s)
  case 0
  then show ?case by auto
next
  case (Suc k)
  let ?e = "pmem s tbl" and ?p = "page_of (pmem s tbl)"
  define s1 where "s1 = (if odd ?e \<and> LOW_MEM \<le> ?p
    then s\<lparr>mem_map := (mem_map s)[MAP_NR ?p := mem_map s ! MAP_NR ?p - 1]\<rparr> else s)"
  have e: "0 \<le> ?e" "?e < HIGH_MEMORY" "?p < HIGH_MEMORY" using Suc.prems(2) page_of_less by auto
  have pos: "0 < mem_map s ! MAP_NR ?p \<and> mem_map s ! MAP_NR ?p < 65536 \<and> MAP_NR ?p < PAGING_PAGES"
    if "odd ?e" "LOW_MEM \<le> ?p"
    using Suc.prems(3) [rule_format, of "MAP_NR ?p"] map_nr_less [OF that(2) e(3)] that
      refs_nonneg [of k "tbl + 4" "pmem s" "MAP_NR ?p"] by (auto simp: refers_def)
  have f: "(if odd ?e then free_page ?p s else Done s) = Done s1"
    using free_page_dec [OF _ e(3) Suc.prems(1)] pos by (auto simp: s1_def free_page_def)
  let ?t = "poke tbl 0 s1"
  have pm: "pmem ?t = (pmem s)(tbl := 0)" by (simp add: poke_def s1_def)
  have mm: "mem_map ?t = mem_map s1" by (simp add: poke_def)
  have mi: "mem_map s1 ! i = mem_map s ! i - (if refers ?e i then 1 else 0)" if "i < PAGING_PAGES" for i
    using that Suc.prems(1) pos by (auto simp: s1_def refers_def nth_list_update)
  have rf: "refs k (tbl + 4) (pmem ?t) i = refs k (tbl + 4) (pmem s) i" for i
    by (rule refs_cong) (simp add: pm)
  have "entries_ok k (tbl + 4) (pmem ?t) = entries_ok k (tbl + 4) (pmem s)"
    by (rule entries_ok_cong) (simp add: pm)
  moreover have l: "length (mem_map ?t) = PAGING_PAGES" using Suc.prems(1) by (simp add: poke_def s1_def)
  moreover have "\<forall>i < PAGING_PAGES. refs k (tbl + 4) (pmem ?t) i \<le> mem_map ?t ! i \<and> mem_map ?t ! i < 65536"
    using Suc.prems(3) mi by (auto simp: rf mm)
  ultimately obtain s' where s': "free_ptes k (tbl + 4) ?t = Done s'" "length (mem_map s') = PAGING_PAGES"
      "\<forall>i < PAGING_PAGES. mem_map s' ! i = mem_map ?t ! i - refs k (tbl + 4) (pmem ?t) i"
    and pa: "\<forall>a. pmem s' a = (if tbl + 4 \<le> a \<and> a < tbl + 4 + 4 * int k \<and> (a - (tbl + 4)) mod 4 = 0 then 0 else pmem ?t a)"
    using Suc.IH [of ?t "tbl + 4"] Suc.prems(2) by auto
  have "pmem s' a = (if tbl \<le> a \<and> a < tbl + 4 * int (Suc k) \<and> (a - tbl) mod 4 = 0 then 0 else pmem s a)" for a
  proof -
    have "(a - (tbl + 4)) mod 4 = (a - tbl) mod 4"
      using mod_add_self2 [of "a - (tbl + 4)" 4] by simp
    moreover have "tbl + 4 \<le> a" if "tbl \<le> a" "(a - tbl) mod 4 = 0" "a \<noteq> tbl"
      using that zdvd_imp_le [of 4 "a - tbl"] by (simp add: mod_0_imp_dvd)
    ultimately show ?thesis using pa [rule_format, of a] by (auto simp: pm)
  qed
  then show ?case using s' f mi by (simp add: mm rf)
qed

lemma above_low: "odd e \<Longrightarrow> without_2 e > LOW_MEM \<longleftrightarrow> LOW_MEM \<le> page_of e"
proof -
  assume o: "odd e"
  have p: "LOW_MEM \<le> page_of x \<longleftrightarrow> LOW_MEM \<le> x" for x
  proof -
    have "512 \<le> x div 4096 \<longleftrightarrow> 2097152 \<le> x" by linarith
    then show ?thesis by (simp add: page_of_def mm_consts)
  qed
  have "without_2 e \<noteq> LOW_MEM" using without_2_page(2) [of e] o by (auto simp: mm_consts)
  then show ?thesis using p [of "without_2 e"] without_2_page(1) [of e] by (auto simp: less_le)
qed

lemma map_nr_page: "MAP_NR (without_2 e) = MAP_NR (page_of e)"
proof -
  have d: "(x - LOW_MEM) div 4096 = x div 4096 - 512" for x
    using div_diff [of 4096 LOW_MEM x] by (simp add: mm_consts)
  have "without_2 e div 4096 = page_of e div 4096"
    using without_2_page(1) [of e] by (simp add: page_of_def)
  then show ?thesis by (simp add: MAP_NR_def d)
qed

lemma copy_ptes_step:
  assumes "length (mem_map s) = PAGING_PAGES" "0 \<le> pmem s f" "pmem s f < HIGH_MEMORY" "f \<noteq> t"
    "\<forall>i < PAGING_PAGES. 0 \<le> mem_map s ! i \<and> mem_map s ! i + (if refers (pmem s f) i then 1 else 0) < 65536"
  shows "\<exists>s1. copy_ptes (Suc k) f t s = copy_ptes k (f + 4) (t + 4) s1 \<and> length (mem_map s1) = PAGING_PAGES \<and>
    (\<forall>i < PAGING_PAGES. mem_map s1 ! i = mem_map s ! i + (if refers (pmem s f) i then 1 else 0)) \<and>
    pmem s1 t = (if odd (pmem s f) then without_2 (pmem s f) else pmem s t) \<and>
    pmem s1 f = (if odd (pmem s f) \<and> LOW_MEM \<le> page_of (pmem s f) then without_2 (pmem s f) else pmem s f) \<and>
    (\<forall>a. a \<noteq> f \<and> a \<noteq> t \<longrightarrow> pmem s1 a = pmem s a)"
proof -
  let ?e = "pmem s f"
  let ?w = "without_2 ?e"
  let ?n = "MAP_NR (page_of ?e)"
  consider "even ?e" | "odd ?e" "\<not> LOW_MEM \<le> page_of ?e" | "odd ?e" "LOW_MEM \<le> page_of ?e" by blast
  then show ?thesis
  proof cases
    case 1
    then show ?thesis using assms(1) by (intro exI [of _ s]) (simp add: refers_def)
  next
    case 2
    have "copy_ptes (Suc k) f t s = copy_ptes k (f + 4) (t + 4) (poke t ?w s)"
      using 2 above_low [of ?e] by (simp add: Let_def poke_def)
    then show ?thesis using 2 assms(1,4)
      by (intro exI [of _ "poke t ?w s"]) (simp add: refers_def poke_def)
  next
    case 3
    let ?s = "(poke f ?w (poke t ?w s))\<lparr>mem_map := (mem_map s)[?n := mem_map s ! ?n + 1]\<rparr>"
    have n: "?n < PAGING_PAGES" using map_nr_less [OF 3(2) page_of_less] assms(2,3) by blast
    have "u16 (mem_map s ! ?n + 1) = mem_map s ! ?n + 1"
      using assms(5) [rule_format, OF n] 3 by (intro u16_id) (auto simp: refers_def)
    then have "copy_ptes (Suc k) f t s = copy_ptes k (f + 4) (t + 4) ?s"
      using 3 above_low [of ?e] n assms(1) by (simp add: Let_def poke_def rd_def map_nr_page)
    then show ?thesis using 3 assms(1,4) n
      by (intro exI [of _ ?s]) (auto simp: refers_def poke_def nth_list_update simp del: copy_ptes.simps)
  qed
qed

lemma copy_ptes_ok:
  assumes "length (mem_map s) = PAGING_PAGES" "entries_ok k f (pmem s)"
    "f + 4 * int k \<le> t \<or> t + 4 * int k \<le> f"
    "\<forall>i < PAGING_PAGES. 0 \<le> mem_map s ! i \<and> mem_map s ! i + refs k f (pmem s) i < 65536"
  shows "\<exists>s'. copy_ptes k f t s = Done s' \<and> length (mem_map s') = PAGING_PAGES \<and>
    (\<forall>i < PAGING_PAGES. mem_map s' ! i = mem_map s ! i + refs k f (pmem s) i) \<and>
    (\<forall>j < k. let e = pmem s (f + 4 * int j) in
      pmem s' (t + 4 * int j) = (if odd e then without_2 e else pmem s (t + 4 * int j)) \<and>
      pmem s' (f + 4 * int j) = (if odd e \<and> LOW_MEM \<le> page_of e then without_2 e else e)) \<and>
    (\<forall>a. \<not> (f \<le> a \<and> a < f + 4 * int k) \<and> \<not> (t \<le> a \<and> a < t + 4 * int k) \<longrightarrow> pmem s' a = pmem s a)"
  using assms
proof (induction k arbitrary: f t s)
  case 0
  then show ?case by simp
next
  case (Suc k)
  have b: "mem_map s ! i + (if refers (pmem s f) i then 1 else 0) < 65536" if "i < PAGING_PAGES" for i
    using Suc.prems(4) [rule_format, OF that] refs_nonneg [of k "f + 4" "pmem s" i] by auto
  obtain s1 where c: "copy_ptes (Suc k) f t s = copy_ptes k (f + 4) (t + 4) s1" "length (mem_map s1) = PAGING_PAGES"
    and mm: "\<forall>i < PAGING_PAGES. mem_map s1 ! i = mem_map s ! i + (if refers (pmem s f) i then 1 else 0)"
    and p1: "pmem s1 t = (if odd (pmem s f) then without_2 (pmem s f) else pmem s t)"
      "pmem s1 f = (if odd (pmem s f) \<and> LOW_MEM \<le> page_of (pmem s f) then without_2 (pmem s f) else pmem s f)"
      "\<And>a. a \<noteq> f \<Longrightarrow> a \<noteq> t \<Longrightarrow> pmem s1 a = pmem s a"
    using copy_ptes_step [of s f t k] Suc.prems b by auto
  have rf: "refs k (f + 4) (pmem s1) i = refs k (f + 4) (pmem s) i" for i
    using Suc.prems(3) by (intro refs_cong p1(3)) auto
  have eo: "entries_ok k (f + 4) (pmem s1) = entries_ok k (f + 4) (pmem s)"
    using Suc.prems(3) by (intro entries_ok_cong p1(3)) auto
  have "\<exists>s'. copy_ptes k (f + 4) (t + 4) s1 = Done s' \<and> length (mem_map s') = PAGING_PAGES \<and>
    (\<forall>i < PAGING_PAGES. mem_map s' ! i = mem_map s1 ! i + refs k (f + 4) (pmem s1) i) \<and>
    (\<forall>j < k. let e = pmem s1 (f + 4 + 4 * int j) in
      pmem s' (t + 4 + 4 * int j) = (if odd e then without_2 e else pmem s1 (t + 4 + 4 * int j)) \<and>
      pmem s' (f + 4 + 4 * int j) = (if odd e \<and> LOW_MEM \<le> page_of e then without_2 e else e)) \<and>
    (\<forall>a. \<not> (f + 4 \<le> a \<and> a < f + 4 + 4 * int k) \<and> \<not> (t + 4 \<le> a \<and> a < t + 4 + 4 * int k) \<longrightarrow> pmem s' a = pmem s1 a)"
    using Suc.prems c(2) mm by (intro Suc.IH) (auto simp: rf eo)
  then obtain s' where d: "copy_ptes k (f + 4) (t + 4) s1 = Done s'" "length (mem_map s') = PAGING_PAGES"
    and m': "\<forall>i < PAGING_PAGES. mem_map s' ! i = mem_map s1 ! i + refs k (f + 4) (pmem s1) i"
    and j': "\<And>j. j < k \<Longrightarrow> pmem s' (t + 4 + 4 * int j) = (if odd (pmem s1 (f + 4 + 4 * int j))
        then without_2 (pmem s1 (f + 4 + 4 * int j)) else pmem s1 (t + 4 + 4 * int j))"
      "\<And>j. j < k \<Longrightarrow> pmem s' (f + 4 + 4 * int j) = (if odd (pmem s1 (f + 4 + 4 * int j)) \<and>
        LOW_MEM \<le> page_of (pmem s1 (f + 4 + 4 * int j)) then without_2 (pmem s1 (f + 4 + 4 * int j))
        else pmem s1 (f + 4 + 4 * int j))"
    and a': "\<And>a. \<not> (f + 4 \<le> a \<and> a < f + 4 + 4 * int k) \<Longrightarrow> \<not> (t + 4 \<le> a \<and> a < t + 4 + 4 * int k) \<Longrightarrow>
      pmem s' a = pmem s1 a"
    unfolding Let_def by blast
  have "let e = pmem s (f + 4 * int j) in
      pmem s' (t + 4 * int j) = (if odd e then without_2 e else pmem s (t + 4 * int j)) \<and>
      pmem s' (f + 4 * int j) = (if odd e \<and> LOW_MEM \<le> page_of e then without_2 e else e)" if "j < Suc k" for j
  proof (cases j)
    case 0
    then show ?thesis using p1(1,2) a' [of t] a' [of f] Suc.prems(3) by (auto simp: Let_def)
  next
    case (Suc i)
    have q: "f + 4 * int j = f + 4 + 4 * int i" "t + 4 * int j = t + 4 + 4 * int i" using Suc by auto
    have "pmem s1 (f + 4 + 4 * int i) = pmem s (f + 4 + 4 * int i)"
      "pmem s1 (t + 4 + 4 * int i) = pmem s (t + 4 + 4 * int i)"
      using Suc.prems(3) that Suc by (auto intro!: p1(3))
    moreover have "i < k" using that Suc by simp
    ultimately show ?thesis unfolding q Let_def using j' [of i] by simp
  qed
  moreover have "pmem s' a = pmem s a" if "\<not> (f \<le> a \<and> a < f + 4 * int (Suc k))" "\<not> (t \<le> a \<and> a < t + 4 * int (Suc k))" for a
    using that a' [of a] p1(3) [of a] by auto
  ultimately show ?case using c d m' mm by (auto simp: rf)
qed

lemma refs_ext:
  "(\<And>j. j < k \<Longrightarrow> refers (m (t + 4 * int j)) i = refers (m' (f + 4 * int j)) i) \<Longrightarrow> refs k t m i = refs k f m' i"
proof (induction k arbitrary: t f)
  case (Suc k)
  have "refs k (t + 4) m i = refs k (f + 4) m' i"
    using Suc.prems [of "Suc _"] by (intro Suc.IH) (simp add: algebra_simps)
  then show ?case using Suc.prems [of 0] by simp
qed simp

lemma entries_ok_iff: "entries_ok k t m \<longleftrightarrow> (\<forall>j < k. 0 \<le> m (t + 4 * int j) \<and> m (t + 4 * int j) < HIGH_MEMORY)"
proof (induction k arbitrary: t)
  case (Suc k)
  show ?case unfolding entries_ok.simps Suc.IH All_less_Suc2 by (simp add: algebra_simps)
qed simp

lemma without_2_range: "0 \<le> e \<Longrightarrow> 0 \<le> without_2 e \<and> without_2 e \<le> e"
proof -
  assume "0 \<le> e"
  moreover have "2 \<le> e" if "0 \<le> e" "(e div 2) mod 2 = 1" for e :: int using that by presburger
  ultimately show ?thesis by (auto simp: without_2_def writable_def)
qed

lemma copy_then_free:
  assumes "length (mem_map s) = PAGING_PAGES" "entries_ok k f (pmem s)"
    "f + 4 * int k \<le> t \<or> t + 4 * int k \<le> f"
    "\<forall>i < PAGING_PAGES. 0 \<le> mem_map s ! i \<and> mem_map s ! i + refs k f (pmem s) i < 65536"
    "\<forall>j < k. pmem s (t + 4 * int j) = 0"
  shows "\<exists>s1 s2. copy_ptes k f t s = Done s1 \<and> free_ptes k t s1 = Done s2 \<and> mem_map s2 = mem_map s"
proof -
  obtain s1 where c: "copy_ptes k f t s = Done s1" and l: "length (mem_map s1) = PAGING_PAGES"
    and m: "\<And>i. i < PAGING_PAGES \<Longrightarrow> mem_map s1 ! i = mem_map s ! i + refs k f (pmem s) i"
    and e: "\<And>j. j < k \<Longrightarrow> pmem s1 (t + 4 * int j) =
      (if odd (pmem s (f + 4 * int j)) then without_2 (pmem s (f + 4 * int j)) else 0)"
    using copy_ptes_ok [OF assms(1-4)] assms(5) by (auto simp: Let_def)
  have r: "refs k t (pmem s1) i = refs k f (pmem s) i" for i
    by (rule refs_ext) (simp add: e refers_def without_2_page)
  have "entries_ok k t (pmem s1)"
    using assms(2) without_2_range e unfolding entries_ok_iff by (fastforce simp: mm_consts)
  moreover have "\<forall>i < PAGING_PAGES. refs k t (pmem s1) i \<le> mem_map s1 ! i \<and> mem_map s1 ! i < 65536"
    using assms(4) m by (simp add: r)
  ultimately obtain s2 where f: "free_ptes k t s1 = Done s2" and l2: "length (mem_map s2) = PAGING_PAGES"
    and m2: "\<And>i. i < PAGING_PAGES \<Longrightarrow> mem_map s2 ! i = mem_map s1 ! i - refs k t (pmem s1) i"
    using free_ptes_ok [OF l] by blast
  have "mem_map s2 = mem_map s"
    using l2 assms(1) m m2 r by (intro nth_equalityI) auto
  then show ?thesis using c f by blast
qed

section \<open>Copy on write\<close>

lemma un_wp_shared:
  assumes w: "mm_wf s" and old: "LOW_MEM \<le> page_of (pmem s te)" "page_of (pmem s te) < HIGH_MEMORY"
    and n: "1 < mem_map s ! MAP_NR (page_of (pmem s te))"
    and free: "0 \<in> set (mem_map s)"
    and te: "\<not> (page_of (pmem s te) \<le> te \<and> te < page_of (pmem s te) + 4096)"
      "\<not> (fst (get_free_page s) \<le> te \<and> te < fst (get_free_page s) + 4096)"
  shows "\<exists>s'. un_wp_page te s = Done s' \<and> pmem s' te = fst (get_free_page s) + 7 \<and>
    mem_map s' = (mem_map s)[MAP_NR (fst (get_free_page s)) := 1,
      MAP_NR (page_of (pmem s te)) := mem_map s ! MAP_NR (page_of (pmem s te)) - 1] \<and>
    (\<forall>i. 0 \<le> i \<and> i < 4096 \<longrightarrow> pmem s' (fst (get_free_page s) + i) = pmem s (page_of (pmem s te) + i)) \<and>
    (\<forall>a. a \<noteq> te \<and> \<not> (fst (get_free_page s) \<le> a \<and> a < fst (get_free_page s) + 4096) \<longrightarrow> pmem s' a = pmem s a)"
proof -
  obtain p s1 where g: "get_free_page s = (p, s1)" by fastforce
  let ?o = "page_of (pmem s te)"
  let ?n = "mem_map s ! MAP_NR ?o"
  have nf: "\<not> (\<forall>n \<in> set (mem_map s). n \<noteq> 0)" using free by blast
  have p: "LOW_MEM \<le> p" "p mod 4096 = 0" "mem_map s ! MAP_NR p = 0" "mem_map s1 = (mem_map s)[MAP_NR p := 1]"
    "\<And>a. \<not> (p \<le> a \<and> a < p + 4096) \<Longrightarrow> pmem s1 a = pmem s a"
    using get_free_page_spec [OF w] nf by (simp_all add: g split: if_splits)
  have l: "MAP_NR ?o < length (mem_map s)" using map_nr_less [OF old] w by (simp add: mm_wf_def)
  then have "0 \<le> ?n \<and> ?n < 65536" using w nth_mem unfolding mm_wf_def by blast
  then have u: "u16 (?n - 1) = ?n - 1" using n by (simp add: u16_id)
  have apart: "p + 4096 \<le> ?o \<or> ?o + 4096 \<le> p"
  proof -
    have "p \<noteq> ?o" using p(3) n by auto
    then have "p div 4096 \<noteq> ?o div 4096" using p(2) by (auto simp: page_of_def mod_0_imp_dvd)
    moreover have "p = 4096 * (p div 4096)" "?o = 4096 * (?o div 4096)" using p(2) by (auto simp: page_of_def)
    ultimately show ?thesis by linarith
  qed
  let ?s2 = "s1\<lparr>mem_map := (mem_map s1)[MAP_NR ?o := ?n - 1]\<rparr>"
  let ?s' = "copy_page ?o p (poke te (with_7 p) ?s2)"
  have "p \<noteq> 0" using p(1) by (auto simp: mm_consts)
  then have d: "un_wp_page te s = Done ?s'"
    using old n l u by (simp add: un_wp_page_def g rd_def Let_def)
  have "(8::int) dvd 4096" by simp
  then have "8 dvd p" using p(2) dvd_trans mod_0_imp_dvd by blast
  then have w7: "with_7 p = p + 7" by (simp add: with_7_def)
  have te': "\<not> (p \<le> te \<and> te < p + 4096)" using te(2) by (simp add: g)
  have "pmem ?s' te = p + 7" using te' w7 by (auto simp: copy_page_def poke_def)
  moreover have "mem_map ?s' = (mem_map s)[MAP_NR p := 1, MAP_NR ?o := ?n - 1]"
    using p(4) by (simp add: copy_page_def poke_def)
  moreover have "pmem ?s' (p + i) = pmem s (?o + i)" if "0 \<le> i" "i < 4096" for i
    using that te(1) apart p(5) [of "?o + i"] by (auto simp: copy_page_def poke_def add.commute)
  moreover have "pmem ?s' a = pmem s a" if "a \<noteq> te" "\<not> (p \<le> a \<and> a < p + 4096)" for a
    using that p(5) [of a] by (auto simp: copy_page_def poke_def)
  ultimately show ?thesis using d by (auto simp: g)
qed

section \<open>Properties of the page management\<close>

text \<open>A small memory to apply the properties to: two pages in use, one page table at 4096.\<close>

definition mm_example :: mm_state where
  "mm_example = \<lparr>mem_map = (replicate 1536 0)[0 := 1, 1 := 2],
     pmem = (\<lambda>a. if a = 4096 then LOW_MEM + 7 else if a = 4100 then LOW_MEM + 4096 + 7 else 0)\<rparr>"

lemma mm_example_wf: "mm_wf mm_example"
  by (auto simp: mm_wf_def mm_example_def PAGING_PAGES_def dest!: set_update_subset_insert [THEN subsetD])

text \<open>
  \<open>get_free_page\<close> fails, changing nothing, exactly when no page is free; otherwise it returns the
  page-aligned address of a page whose use count was zero, makes the count one, clears that page
  and touches nothing else.
\<close>

theorem get_free_page_correct:
  assumes "mm_wf s"
  shows "case get_free_page s of (p, s') \<Rightarrow>
    if \<forall>n \<in> set (mem_map s). n \<noteq> 0 then p = 0 \<and> s' = s
    else LOW_MEM \<le> p \<and> p < HIGH_MEMORY \<and> p mod 4096 = 0 \<and>
      mem_map s ! MAP_NR p = 0 \<and> mem_map s' = (mem_map s)[MAP_NR p := 1] \<and>
      (\<forall>a. p \<le> a \<and> a < p + 4096 \<longrightarrow> pmem s' a = 0) \<and>
      (\<forall>a. \<not> (p \<le> a \<and> a < p + 4096) \<longrightarrow> pmem s' a = pmem s a)"
  by (rule get_free_page_spec [OF assms])

theorem get_free_page_correct_witness:
  "case get_free_page mm_example of (p, s') \<Rightarrow>
    if \<forall>n \<in> set (mem_map mm_example). n \<noteq> 0 then p = 0 \<and> s' = mm_example
    else LOW_MEM \<le> p \<and> p < HIGH_MEMORY \<and> p mod 4096 = 0 \<and>
      mem_map mm_example ! MAP_NR p = 0 \<and> mem_map s' = (mem_map mm_example)[MAP_NR p := 1] \<and>
      (\<forall>a. p \<le> a \<and> a < p + 4096 \<longrightarrow> pmem s' a = 0) \<and>
      (\<forall>a. \<not> (p \<le> a \<and> a < p + 4096) \<longrightarrow> pmem s' a = pmem mm_example a)"
  by (rule get_free_page_correct [OF mm_example_wf])

text \<open>
  the inner loop of \<open>copy_page_tables\<close> shares the pages of a table copy-on-write: every present
  entry appears in the new table without its write bit, and keeps it in the old table only for
  pages below \<open>LOW_MEM\<close>; the use count of each page grows by the number of entries that refer to
  it; entries that are not present, and the rest of memory, stay as they are.
\<close>

theorem copy_ptes_shares:
  assumes "length (mem_map s) = PAGING_PAGES" "entries_ok k f (pmem s)"
    "f + 4 * int k \<le> t \<or> t + 4 * int k \<le> f"
    "\<forall>i < PAGING_PAGES. 0 \<le> mem_map s ! i \<and> mem_map s ! i + refs k f (pmem s) i < 65536"
  shows "\<exists>s'. copy_ptes k f t s = Done s' \<and>
    (\<forall>i < PAGING_PAGES. mem_map s' ! i = mem_map s ! i + refs k f (pmem s) i) \<and>
    (\<forall>j < k. let e = pmem s (f + 4 * int j) in
      pmem s' (t + 4 * int j) = (if odd e then without_2 e else pmem s (t + 4 * int j)) \<and>
      pmem s' (f + 4 * int j) = (if odd e \<and> LOW_MEM \<le> page_of e then without_2 e else e)) \<and>
    (\<forall>a. \<not> (f \<le> a \<and> a < f + 4 * int k) \<and> \<not> (t \<le> a \<and> a < t + 4 * int k) \<longrightarrow> pmem s' a = pmem s a)"
  using copy_ptes_ok [OF assms] by blast

theorem copy_ptes_shares_witness:
  "\<exists>s'. copy_ptes 2 4096 8192 mm_example = Done s' \<and> mem_map s' ! 1 = 3 \<and>
    pmem s' 8192 = LOW_MEM + 5 \<and> pmem s' 4096 = LOW_MEM + 5"
proof -
  have a: "length (mem_map mm_example) = PAGING_PAGES" "entries_ok 2 4096 (pmem mm_example)"
    by (simp_all add: mm_example_def mm_consts numeral_2_eq_2)
  have r: "refs 2 4096 (pmem mm_example) i = (if i < 2 then 1 else 0)" for i
    by (auto simp: mm_example_def mm_consts numeral_2_eq_2 refers_def page_of_def MAP_NR_def)
  have b: "\<forall>i < PAGING_PAGES. 0 \<le> mem_map mm_example ! i \<and>
      mem_map mm_example ! i + refs 2 4096 (pmem mm_example) i < 65536"
    unfolding r by (auto simp: mm_example_def mm_consts nth_list_update)
  obtain s' where s': "copy_ptes 2 4096 8192 mm_example = Done s'"
    and m: "\<forall>i < PAGING_PAGES. mem_map s' ! i = mem_map mm_example ! i + refs 2 4096 (pmem mm_example) i"
    and e: "\<forall>j < 2. let e = pmem mm_example (4096 + 4 * int j) in
      pmem s' (8192 + 4 * int j) = (if odd e then without_2 e else pmem mm_example (8192 + 4 * int j)) \<and>
      pmem s' (4096 + 4 * int j) = (if odd e \<and> LOW_MEM \<le> page_of e then without_2 e else e)"
    using copy_ptes_shares [OF a _ b, of 8192] by auto
  have "mem_map s' ! 1 = 3"
    using m [rule_format, of 1] unfolding r by (simp add: mm_example_def mm_consts)
  moreover have "pmem s' 8192 = LOW_MEM + 5" "pmem s' 4096 = LOW_MEM + 5"
    using e [rule_format, of 0]
    by (simp_all add: mm_example_def mm_consts without_2_def writable_def page_of_def)
  ultimately show ?thesis using s' by blast
qed



text \<open>
  C15: a write to a shared page gets a private copy: \<open>un_wp_page\<close> gives the entry a fresh page that is
  present and writable, with the contents of the old page, lowers the old page's count by one and
  changes no other word of memory.
\<close>

theorem write_fault_copies:
  assumes "mm_wf s" "LOW_MEM \<le> page_of (pmem s te)" "page_of (pmem s te) < HIGH_MEMORY"
    "1 < mem_map s ! MAP_NR (page_of (pmem s te))" "0 \<in> set (mem_map s)"
    "\<not> (page_of (pmem s te) \<le> te \<and> te < page_of (pmem s te) + 4096)"
    "\<not> (fst (get_free_page s) \<le> te \<and> te < fst (get_free_page s) + 4096)"
  shows "\<exists>s'. un_wp_page te s = Done s' \<and> pmem s' te = fst (get_free_page s) + 7 \<and>
    mem_map s' = (mem_map s)[MAP_NR (fst (get_free_page s)) := 1,
      MAP_NR (page_of (pmem s te)) := mem_map s ! MAP_NR (page_of (pmem s te)) - 1] \<and>
    (\<forall>i. 0 \<le> i \<and> i < 4096 \<longrightarrow> pmem s' (fst (get_free_page s) + i) = pmem s (page_of (pmem s te) + i)) \<and>
    (\<forall>a. a \<noteq> te \<and> \<not> (fst (get_free_page s) \<le> a \<and> a < fst (get_free_page s) + 4096) \<longrightarrow> pmem s' a = pmem s a)"
  by (rule un_wp_shared [OF assms])

theorem write_fault_copies_witness:
  "\<exists>s'. un_wp_page 4100 mm_example = Done s' \<and> pmem s' 4100 = fst (get_free_page mm_example) + 7"
proof -
  have p: "page_of (pmem mm_example 4100) = LOW_MEM + 4096"
    by (simp add: mm_example_def mm_consts page_of_def)
  have n: "MAP_NR (LOW_MEM + 4096) = 1" by (simp add: MAP_NR_def)
  have m: "mem_map mm_example ! 1 = 2" "0 \<in> set (mem_map mm_example)"
    by (auto simp: mm_example_def in_set_conv_nth intro!: exI [of _ 2])
  have "LOW_MEM \<le> fst (get_free_page mm_example)"
    using get_free_page_spec [OF mm_example_wf] m(2) by (auto split: if_splits prod.splits)
  then show ?thesis
    using write_fault_copies [OF mm_example_wf, of 4100] m by (simp add: p n) (auto simp: mm_consts)
qed

text \<open>
  \<open>free_page(HIGH_MEMORY)\<close>, one page past the managed memory, passes the check for a nonexistent
  page and indexes \<open>mem_map\<close> out of bounds.
\<close>

theorem free_page_bound:
  assumes "length (mem_map s) = PAGING_PAGES"
  shows "free_page HIGH_MEMORY s = Oob"
  using assms by (simp add: free_page_def mm_consts MAP_NR_def rd_def)

theorem free_page_bound_witness: "free_page HIGH_MEMORY mm_example = Oob"
  by (rule free_page_bound) (simp add: mm_example_def PAGING_PAGES_def)

end
