(* ===== verification/FsTypes.thy ===== *)
theory FsTypes
  imports Prelude
begin

text \<open>
  The structures of src/include/linux/fs.h. A pointer to a table entry is the index of the entry;
  wait queues are the task slots of \<open>Sched\<close>. Block data are lists of 1024 bytes.
\<close>

definition NR_OPEN :: nat where "NR_OPEN = 20"
definition NR_INODE :: nat where "NR_INODE = 32"
definition NR_FILE :: nat where "NR_FILE = 64"
definition NR_SUPER :: nat where "NR_SUPER = 8"
definition BLOCK_SIZE :: nat where "BLOCK_SIZE = 1024"
definition NAME_LEN :: nat where "NAME_LEN = 14"
definition SUPER_MAGIC :: int where "SUPER_MAGIC = 0x137F"

lemmas fs_consts = NR_OPEN_def NR_INODE_def NR_FILE_def NR_SUPER_def BLOCK_SIZE_def NAME_LEN_def
  SUPER_MAGIC_def

definition MAJOR :: "int \<Rightarrow> int" where "MAJOR a = u32 a div 256"
definition MINOR :: "int \<Rightarrow> int" where "MINOR a = a mod 256"

definition IS_BLOCKDEV :: "int \<Rightarrow> bool" where
  "IS_BLOCKDEV x \<longleftrightarrow> x = 2 \<or> x = 3"

record buffer_head =
  b_data :: "byte list"
  b_dev :: int
  b_blocknr :: int
  b_uptodate :: int
  b_dirt :: int
  b_count :: int
  b_lock :: int
  b_wait :: "nat option"

record m_inode =
  i_mode :: int
  i_uid :: int
  i_size :: int
  i_mtime :: int
  i_gid :: int
  i_nlinks :: int
  i_zone :: "int list"
  i_wait :: "nat option"
  i_atime :: int
  i_ctime :: int
  i_dev :: int
  i_num :: int
  i_count :: int
  i_lock :: int
  i_dirt :: int
  i_pipe :: int
  i_mount :: int
  i_seek :: int
  i_update :: int

record file_t =
  f_mode :: int
  f_flags :: int
  f_count :: int
  f_inode :: "nat option"
  f_pos :: int

record super_block =
  s_ninodes :: int
  s_nzones :: int
  s_imap_blocks :: int
  s_zmap_blocks :: int
  s_firstdatazone :: int
  s_log_zone_size :: int
  s_max_size :: int
  s_magic :: int
  s_imap :: "nat option list"
  s_zmap :: "nat option list"
  s_dev :: int
  s_isup :: "nat option"
  s_imount :: "nat option"
  s_time :: int
  s_rd_only :: int
  s_dirt :: int

record dir_entry =
  de_inode :: int
  de_name :: "byte list"

end
