(* ===== verification/Process.thy ===== *)
theory Process
  imports Sched Memory FsTypes
begin

text \<open>
  Processes: fork (src/kernel/fork.c), signals and waiting (src/kernel/exit.c), and the process
  calls of src/kernel/sys.c. The state joins the scheduler's, the page management's and the file
  and inode tables, whose use counts fork raises; \<open>k_page i\<close> is the address of the page that holds
  the task of slot \<open>i\<close>, which is the task's pointer in the source.
\<close>

record kstate =
  k_sched :: sched_state
  k_mm :: mm_state
  k_page :: "nat \<Rightarrow> int"
  k_files :: "file_t list"
  k_inodes :: "m_inode list"

definition upd_sched :: "(sched_state \<Rightarrow> sched_state) \<Rightarrow> kstate \<Rightarrow> kstate" where
  "upd_sched f k = k\<lparr>k_sched := f (k_sched k)\<rparr>"

definition EPERM :: int where "EPERM = 1"
definition ESRCH :: int where "ESRCH = 3"
definition EINTR :: int where "EINTR = 4"
definition ECHILD :: int where "ECHILD = 10"
definition EAGAIN :: int where "EAGAIN = 11"
definition ENOMEM :: int where "ENOMEM = 12"
definition ENOSYS :: int where "ENOSYS = 38"

section \<open>Signals\<close>

definition may_signal :: "int \<Rightarrow> task_struct \<Rightarrow> task_struct \<Rightarrow> bool" where
  "may_signal priv c p \<longleftrightarrow>
     priv \<noteq> 0 \<or> t_uid c = t_uid p \<or> t_euid c = t_uid p \<or> t_uid c = t_euid p \<or> t_euid c = t_euid p"

definition send_sig :: "int \<Rightarrow> int \<Rightarrow> nat \<Rightarrow> sched_state \<Rightarrow> sched_state" where
  "send_sig sig priv p s =
     (case tasks s ! p of
        None \<Rightarrow> s
      | Some t \<Rightarrow>
          if sig < 1 \<or> sig > 32 then s
          else if may_signal priv (cur s) t
          then upd_task p (\<lambda>t. t\<lparr>t_signal := t_signal t OR sig_bit sig\<rparr>) s
          else s)"

text \<open>Which tasks \<open>do_kill(pid, ...)\<close> addresses.\<close>

definition kill_target :: "int \<Rightarrow> task_struct \<Rightarrow> task_struct \<Rightarrow> bool" where
  "kill_target pid c t =
     (if pid = 0 then t_pgrp t = t_pid c
      else if pid > 0 then t_pid t = pid
      else if pid = -1 then True
      else t_pgrp t = - pid)"

text \<open>The loop \<open>while (--p > &FIRST_TASK)\<close>, from slot \<open>NR_TASKS - 1\<close> down to 1.\<close>

fun kill_loop :: "nat \<Rightarrow> int \<Rightarrow> int \<Rightarrow> int \<Rightarrow> sched_state \<Rightarrow> sched_state" where
  "kill_loop 0 pid sig priv s = s"
| "kill_loop (Suc i) pid sig priv s =
     kill_loop i pid sig priv
       (case tasks s ! Suc i of
          None \<Rightarrow> s
        | Some t \<Rightarrow> if kill_target pid (cur s) t then send_sig sig priv (Suc i) s else s)"

definition do_kill :: "int \<Rightarrow> int \<Rightarrow> int \<Rightarrow> sched_state \<Rightarrow> sched_state" where
  "do_kill pid sig priv s = kill_loop (NR_TASKS - 1) pid sig priv s"

definition sys_kill :: "int \<Rightarrow> int \<Rightarrow> sched_state \<Rightarrow> int \<times> sched_state" where
  "sys_kill pid sig s =
     (0, do_kill pid sig (if t_uid (cur s) \<noteq> 0 \<or> t_euid (cur s) \<noteq> 0 then 0 else 1) s)"

section \<open>Waiting for children\<close>

definition release :: "nat option \<Rightarrow> kstate \<Rightarrow> kstate outcome" where
  "release p k =
     (case p of
        None \<Rightarrow> Done k
      | Some i \<Rightarrow>
          if 1 \<le> i \<and> i < NR_TASKS \<and> tasks (k_sched k) ! i \<noteq> None then
            let k = upd_sched (\<lambda>s. s\<lparr>tasks := (tasks s)[i := None]\<rparr>) k in
            obind (free_page (k_page k i) (k_mm k)) (\<lambda>m.
            (case schedule (k_sched k) of
               None \<Rightarrow> Fuel
             | Some s \<Rightarrow> Done (k\<lparr>k_mm := m, k_sched := s\<rparr>)))
          else Panic ''trying to release non-existent task'')"

definition wait_target :: "int \<Rightarrow> nat \<Rightarrow> sched_state \<Rightarrow> nat \<Rightarrow> bool" where
  "wait_target pid c s i =
     (case tasks s ! i of
        None \<Rightarrow> False
      | Some t \<Rightarrow> i \<noteq> c \<and>
          (pid = -1 \<or> t_pid t = pid \<or> (pid = 0 \<and> t_pgrp t = t_pgrp (cur s)) \<or>
           (pid < 0 \<and> t_pgrp t = - pid)) \<and>
          t_father t = t_pid (cur s))"

text \<open>
  One scan of the task table: whether a child was seen, and the first zombie among the children,
  from slot \<open>NR_TASKS - 1\<close> down.
\<close>

fun wait_scan :: "nat \<Rightarrow> int \<Rightarrow> sched_state \<Rightarrow> bool \<Rightarrow> bool \<times> nat option" where
  "wait_scan 0 pid s flag = (flag, None)"
| "wait_scan (Suc i) pid s flag =
     (if wait_target pid (current s) s (Suc i) then
        (if t_state (the (tasks s ! Suc i)) = TASK_ZOMBIE then (True, Some (Suc i))
         else wait_scan i pid s True)
      else wait_scan i pid s flag)"

text \<open>
  The result of \<open>sys_waitpid\<close> up to its return or its \<open>sys_pause\<close>: the returned value, with the exit
  code it stores for the caller, or \<open>None\<close> when the caller sleeps.
\<close>

definition sys_waitpid :: "int \<Rightarrow> int \<Rightarrow> int \<Rightarrow> kstate \<Rightarrow> ((int \<times> int option) option \<times> kstate) outcome" where
  "sys_waitpid pid stat_addr options k =
     obind (verify_area (t_data_base (cur (k_sched k))) stat_addr 4 (k_mm k)) (\<lambda>m.
     let k = k\<lparr>k_mm := m\<rparr>; s = k_sched k in
     (case wait_scan (NR_TASKS - 1) pid s False of
        (flag, Some i) \<Rightarrow>
          let t = the (tasks s ! i);
              k = upd_sched (upd_cur (\<lambda>c. c\<lparr>t_cutime := s32 (t_cutime c + t_utime t),
                                            t_cstime := s32 (t_cstime c + t_stime t)\<rparr>)) k in
          obind (release (Some i) k) (\<lambda>k. Done (Some (t_pid t, Some (t_exit_code t)), k))
      | (True, None) \<Rightarrow>
          if options mod 2 = 1 then Done (Some (0, None), k)
          else (case sys_pause s of None \<Rightarrow> Fuel | Some s \<Rightarrow> Done (None, k\<lparr>k_sched := s\<rparr>))
      | (False, None) \<Rightarrow> Done (Some (- ECHILD, None), k)))"

text \<open>After the pause: \<open>None\<close> when the search is repeated.\<close>

definition waitpid_resume :: "sched_state \<Rightarrow> int option \<times> sched_state" where
  "waitpid_resume s =
     (let s = upd_cur (\<lambda>t. t\<lparr>t_signal := t_signal t AND NOT (sig_bit SIGCHLD)\<rparr>) s in
      if t_signal (cur s) = 0 then (None, s) else (Some (- EINTR), s))"

section \<open>Fork\<close>

definition pid_used :: "int \<Rightarrow> sched_state \<Rightarrow> bool" where
  "pid_used p s \<longleftrightarrow> (\<exists>t \<in> set (tasks s). case t of None \<Rightarrow> False | Some t \<Rightarrow> t_pid t = p)"

definition next_pid :: "int \<Rightarrow> int" where
  "next_pid p = (if s32 (p + 1) < 0 then 1 else s32 (p + 1))"

partial_function (option) find_pid :: "int \<Rightarrow> sched_state \<Rightarrow> int option" where
  "find_pid p s =
     (let p = next_pid p in if pid_used p s then find_pid p s else Some p)"

fun find_slot :: "nat \<Rightarrow> task_struct option list \<Rightarrow> int" where
  "find_slot i [] = - EAGAIN"
| "find_slot i (t # ts) = (if t = None then int i else find_slot (Suc i) ts)"

definition find_empty_process :: "sched_state \<Rightarrow> (int \<times> sched_state) option" where
  "find_empty_process s =
     (case find_pid (last_pid s) s of
        None \<Rightarrow> None
      | Some p \<Rightarrow> Some (find_slot 1 (tl (tasks s)), s\<lparr>last_pid := p\<rparr>))"

definition copy_mem :: "int \<Rightarrow> task_struct \<Rightarrow> task_struct \<Rightarrow> mm_state \<Rightarrow> (int \<times> task_struct \<times> mm_state) outcome" where
  "copy_mem nr c p m =
     (let code_limit = t_code_limit c; data_limit = t_data_limit c;
          old_code_base = t_code_base c; old_data_base = t_data_base c in
      if old_data_base \<noteq> old_code_base then Panic ''We don't support separate I&D''
      else if data_limit < code_limit then Panic ''Bad data_limit''
      else
        let new_base = u32 (nr * 0x4000000);
            p = p\<lparr>t_code_base := new_base, t_data_base := new_base\<rparr> in
        obind (copy_page_tables old_data_base new_base data_limit m) (\<lambda>(r, m).
        if r \<noteq> 0 then
          obind (free_page_tables new_base data_limit m) (\<lambda>(r', m). Done (- ENOMEM, p, m))
        else Done (0, p, m)))"

text \<open>The registers of the parent that \<open>copy_process\<close> receives on its stack.\<close>

record fork_regs =
  r_ebp :: int
  r_edi :: int
  r_esi :: int
  r_gs :: int
  r_ebx :: int
  r_ecx :: int
  r_edx :: int
  r_fs :: int
  r_es :: int
  r_ds :: int
  r_eip :: int
  r_cs :: int
  r_eflags :: int
  r_esp :: int
  r_ss :: int

definition child_of :: "int \<Rightarrow> int \<Rightarrow> fork_regs \<Rightarrow> sched_state \<Rightarrow> task_struct" where
  "child_of nr page r s =
     (let c = cur s in
      c\<lparr>t_state := TASK_RUNNING, t_pid := last_pid s, t_father := t_pid c,
        t_counter := t_priority c, t_signal := 0, t_alarm := 0, t_leader := 0,
        t_utime := 0, t_stime := 0, t_cutime := 0, t_cstime := 0, t_start_time := jiffies s,
        t_tss := (t_tss c)\<lparr>tss_back_link := 0, tss_esp0 := 4096 + page, tss_ss0 := 0x10,
          tss_eip := r_eip r, tss_eflags := r_eflags r, tss_eax := 0, tss_ecx := r_ecx r,
          tss_edx := r_edx r, tss_ebx := r_ebx r, tss_esp := r_esp r, tss_ebp := r_ebp r,
          tss_esi := r_esi r, tss_edi := r_edi r, tss_es := u16 (r_es r), tss_cs := u16 (r_cs r),
          tss_ss := u16 (r_ss r), tss_ds := u16 (r_ds r), tss_fs := u16 (r_fs r),
          tss_gs := u16 (r_gs r), tss_ldt := nr * 16 + 40, tss_trace_bitmap := 0x80000000\<rparr>\<rparr>)"

definition file_inc :: "nat option \<Rightarrow> file_t list \<Rightarrow> file_t list" where
  "file_inc f fs = (case f of None \<Rightarrow> fs | Some i \<Rightarrow> fs[i := (fs ! i)\<lparr>f_count := u16 (f_count (fs ! i) + 1)\<rparr>])"

definition inode_inc :: "nat option \<Rightarrow> m_inode list \<Rightarrow> m_inode list" where
  "inode_inc f is = (case f of None \<Rightarrow> is | Some i \<Rightarrow> is[i := (is ! i)\<lparr>i_count := u16 (i_count (is ! i) + 1)\<rparr>])"

definition copy_process :: "nat \<Rightarrow> fork_regs \<Rightarrow> kstate \<Rightarrow> (int \<times> kstate) outcome" where
  "copy_process nr r k =
     (let s = k_sched k; c = cur s; (page, m) = get_free_page (k_mm k) in
      if page = 0 then Done (- EAGAIN, k\<lparr>k_mm := m\<rparr>)
      else
        obind (copy_mem (int nr) c (child_of (int nr) page r s) m) (\<lambda>(e, p, m).
        if e \<noteq> 0 then
          obind (free_page page m) (\<lambda>m. Done (- EAGAIN, k\<lparr>k_mm := m\<rparr>))
        else
          let files = fold file_inc (t_filp p) (k_files k);
              inodes = inode_inc (t_root c) (inode_inc (t_pwd c) (k_inodes k)) in
          obind (wr (tasks s) nr (Some p)) (\<lambda>ts.
          Done (last_pid s, k\<lparr>k_sched := s\<lparr>tasks := ts\<rparr>, k_mm := m,
                 k_page := (k_page k)(nr := page), k_files := files, k_inodes := inodes\<rparr>))))"

section \<open>The process calls of sys.c\<close>

definition sys_setgid :: "int \<Rightarrow> sched_state \<Rightarrow> int \<times> sched_state" where
  "sys_setgid gid s =
     (if t_euid (cur s) \<noteq> 0 \<and> t_uid (cur s) \<noteq> 0 then
        (if t_gid (cur s) = gid \<or> t_sgid (cur s) = gid
         then (0, upd_cur (\<lambda>t. t\<lparr>t_egid := u16 gid\<rparr>) s)
         else (- EPERM, s))
      else (0, upd_cur (\<lambda>t. t\<lparr>t_gid := u16 gid, t_egid := u16 gid\<rparr>) s))"

definition sys_setuid :: "int \<Rightarrow> sched_state \<Rightarrow> int \<times> sched_state" where
  "sys_setuid uid s =
     (if t_euid (cur s) \<noteq> 0 \<and> t_uid (cur s) \<noteq> 0 then
        (if uid = t_uid (cur s) \<or> t_suid (cur s) = t_uid (cur s)
         then (0, upd_cur (\<lambda>t. t\<lparr>t_euid := u16 uid\<rparr>) s)
         else (- EPERM, s))
      else (0, upd_cur (\<lambda>t. t\<lparr>t_euid := u16 uid, t_uid := u16 uid\<rparr>) s))"

text \<open>\<open>sys_stime\<close>: \<open>tptr\<close> is the word at the user's pointer.\<close>

definition sys_stime :: "int \<Rightarrow> sched_state \<Rightarrow> int \<times> sched_state" where
  "sys_stime tptr s =
     (if t_euid (cur s) \<noteq> 0 \<and> t_uid (cur s) \<noteq> 0 then (-1, s)
      else (0, s\<lparr>startup_time := s32 (tptr - cdiv (jiffies s) HZ)\<rparr>))"

text \<open>\<open>sys_time\<close> and \<open>sys_times\<close>: the words they store for the caller come with the result.\<close>

definition sys_time :: "int \<Rightarrow> kstate \<Rightarrow> (int \<times> int list \<times> kstate) outcome" where
  "sys_time tloc k =
     (let i = current_time (k_sched k) in
      if tloc = 0 then Done (i, [], k)
      else obind (verify_area (t_data_base (cur (k_sched k))) tloc 4 (k_mm k)) (\<lambda>m.
           Done (i, [i], k\<lparr>k_mm := m\<rparr>)))"

definition sys_times :: "int \<Rightarrow> kstate \<Rightarrow> (int \<times> int list \<times> kstate) outcome" where
  "sys_times tbuf k =
     (let s = k_sched k; c = cur s in
      if tbuf = 0 then Done (jiffies s, [], k)
      else obind (verify_area (t_data_base c) tbuf 16 (k_mm k)) (\<lambda>m.
           Done (jiffies s, [t_utime c, t_stime c, t_cutime c, t_cstime c], k\<lparr>k_mm := m\<rparr>)))"

definition sys_brk :: "int \<Rightarrow> sched_state \<Rightarrow> int \<times> sched_state" where
  "sys_brk end_data_seg s =
     (let s = (if end_data_seg \<ge> t_end_code (cur s) \<and> end_data_seg < u32 (t_start_stack (cur s) - 16384)
               then upd_cur (\<lambda>t. t\<lparr>t_brk := end_data_seg\<rparr>) s else s) in
      (t_brk (cur s), s))"

fun setpgid_loop :: "nat list \<Rightarrow> int \<Rightarrow> int \<Rightarrow> sched_state \<Rightarrow> int \<times> sched_state" where
  "setpgid_loop [] pid pgid s = (- ESRCH, s)"
| "setpgid_loop (i # is) pid pgid s =
     (case tasks s ! i of
        None \<Rightarrow> setpgid_loop is pid pgid s
      | Some t \<Rightarrow>
          if t_pid t = pid then
            (if t_leader t \<noteq> 0 then (- EPERM, s)
             else if t_session t \<noteq> t_session (cur s) then (- EPERM, s)
             else (0, upd_task i (\<lambda>t. t\<lparr>t_pgrp := pgid\<rparr>) s))
          else setpgid_loop is pid pgid s)"

definition sys_setpgid :: "int \<Rightarrow> int \<Rightarrow> sched_state \<Rightarrow> int \<times> sched_state" where
  "sys_setpgid pid pgid s =
     (let pid = (if pid = 0 then t_pid (cur s) else pid);
          pgid = (if pgid = 0 then pid else pgid) in
      setpgid_loop [0..<NR_TASKS] pid pgid s)"

definition sys_getpgrp :: "sched_state \<Rightarrow> int" where
  "sys_getpgrp s = t_pgrp (cur s)"

definition sys_setsid :: "sched_state \<Rightarrow> int \<times> sched_state" where
  "sys_setsid s =
     (if t_uid (cur s) \<noteq> 0 \<and> t_euid (cur s) \<noteq> 0 then (- EPERM, s)
      else if t_leader (cur s) \<noteq> 0 then (- EPERM, s)
      else
        let s = upd_cur (\<lambda>t. t\<lparr>t_leader := 1, t_session := t_pid t, t_pgrp := t_pid t, t_tty := -1\<rparr>) s in
        (t_pgrp (cur s), s))"

definition sys_umask :: "int \<Rightarrow> sched_state \<Rightarrow> int \<times> sched_state" where
  "sys_umask m s = (t_umask (cur s), upd_cur (\<lambda>t. t\<lparr>t_umask := m mod 512\<rparr>) s)"

text \<open>The calls that are only refused.\<close>

definition sys_enosys :: int where "sys_enosys = - ENOSYS"
definition sys_ustat :: int where "sys_ustat = -1"

end
