(* ===== verification/ProcessProps.thy ===== *)
theory ProcessProps
  imports Process
begin

text \<open>
  Signals, waiting and fork: what \<open>do_kill\<close>, \<open>sys_waitpid\<close>, \<open>find_empty_process\<close> and \<open>copy_process\<close>
  of \<open>Process\<close> do to the task table.
\<close>

section \<open>Signals reach exactly the right tasks\<close>

definition kill_one :: "int \<Rightarrow> int \<Rightarrow> int \<Rightarrow> task_struct \<Rightarrow> task_struct \<Rightarrow> task_struct" where
  "kill_one pid sig priv c t =
     (if 1 \<le> sig \<and> sig \<le> 32 \<and> kill_target pid c t \<and> may_signal priv c t
      then t\<lparr>t_signal := t_signal t OR sig_bit sig\<rparr> else t)"

lemma kill_one_id [simp]:
  "kill_target pid (kill_one p' s' v' c' c) t = kill_target pid c t"
  "may_signal priv (kill_one p' s' v' c' c) t = may_signal priv c t"
  by (auto simp: kill_one_def kill_target_def may_signal_def)

lemma kill_one_kill: "kill_one pid sig priv (kill_one p' s' v' c' c) t = kill_one pid sig priv c t"
  unfolding kill_one_def [of pid sig priv _ t] kill_one_id ..

lemma tasks_same: "tasks s ! i = x \<Longrightarrow> s\<lparr>tasks := (tasks s)[i := x]\<rparr> = s"
  by (metis list_update_id sched_state.surjective sched_state.update_convs(1))

lemma kill_step:
  "(case tasks s ! i of None \<Rightarrow> s
    | Some t \<Rightarrow> if kill_target pid (cur s) t then send_sig sig priv i s else s) =
   s\<lparr>tasks := (tasks s)[i := map_option (kill_one pid sig priv (cur s)) (tasks s ! i)]\<rparr>"
proof (cases "i < length (tasks s)")
  case True
  then show ?thesis
    by (cases "tasks s ! i")
       (auto simp: send_sig_def upd_task_def kill_one_def tasks_same)
next
  case False
  then show ?thesis
    by (cases "tasks s ! i") (auto simp: send_sig_def upd_task_def kill_one_def list_update_beyond)
qed

lemma kill_loop_spec:
  assumes "n < length (tasks s)" "current s < length (tasks s)" "tasks s ! current s \<noteq> None"
  shows "\<exists>ts. kill_loop n pid sig priv s = s\<lparr>tasks := ts\<rparr> \<and> length ts = length (tasks s) \<and>
    (\<forall>j < length ts. ts ! j = (if 0 < j \<and> j \<le> n then map_option (kill_one pid sig priv (cur s)) (tasks s ! j)
       else tasks s ! j))"
  using assms
proof (induction n arbitrary: s)
  case 0
  show ?case by (intro exI [of _ "tasks s"]) simp
next
  case (Suc n)
  let ?ts = "(tasks s)[Suc n := map_option (kill_one pid sig priv (cur s)) (tasks s ! Suc n)]"
  let ?s = "s\<lparr>tasks := ?ts\<rparr>"
  have c: "cur ?s = (if current s = Suc n then kill_one pid sig priv (cur s) (cur s) else cur s)"
    using Suc.prems by (auto simp: cur_def)
  have k: "kill_one pid sig priv (cur ?s) = kill_one pid sig priv (cur s)"
    unfolding c by (rule ext) (simp add: kill_one_kill)
  have "tasks ?s ! current ?s \<noteq> None" using Suc.prems by (auto simp: nth_list_update)
  then obtain ts where ts: "kill_loop n pid sig priv ?s = ?s\<lparr>tasks := ts\<rparr>" "length ts = length (tasks s)"
    "\<forall>j < length ts. ts ! j = (if 0 < j \<and> j \<le> n then map_option (kill_one pid sig priv (cur ?s)) (tasks ?s ! j)
       else tasks ?s ! j)"
    using Suc.IH [of ?s] Suc.prems by auto
  have "kill_loop (Suc n) pid sig priv s = kill_loop n pid sig priv ?s"
    by (simp only: kill_loop.simps kill_step)
  then have "kill_loop (Suc n) pid sig priv s = s\<lparr>tasks := ts\<rparr>" using ts(1) by simp
  moreover have "ts ! j = (if 0 < j \<and> j \<le> Suc n then map_option (kill_one pid sig priv (cur s)) (tasks s ! j)
       else tasks s ! j)" if "j < length ts" for j
    using ts(3) that ts(2) unfolding k by (auto simp: nth_list_update le_Suc_eq)
  ultimately show ?case using ts(2) by blast
qed

section \<open>Waiting\<close>

lemma wait_scan_spec:
  "case wait_scan n pid s flag of (f, z) \<Rightarrow>
     (case z of
        Some i \<Rightarrow> 0 < i \<and> i \<le> n \<and> wait_target pid (current s) s i \<and> t_state (the (tasks s ! i)) = TASK_ZOMBIE
      | None \<Rightarrow> (f \<longleftrightarrow> flag \<or> (\<exists>i. 0 < i \<and> i \<le> n \<and> wait_target pid (current s) s i)) \<and>
          (\<forall>i. 0 < i \<and> i \<le> n \<and> wait_target pid (current s) s i \<longrightarrow> t_state (the (tasks s ! i)) \<noteq> TASK_ZOMBIE))"
proof (induction n arbitrary: flag)
  case (Suc n)
  show ?case using Suc [of True] Suc [of flag]
    by (auto split: prod.splits option.splits simp: le_Suc_eq)
qed auto

section \<open>A free process number is found\<close>

text \<open>The numbers that follow \<open>p\<close>: from 1 to \<open>2^31 - 1\<close> and round again.\<close>

lemma next_pid_eq: "0 \<le> p \<Longrightarrow> p < 2147483648 \<Longrightarrow> next_pid p = p mod 2147483647 + 1"
  by (cases "p = 2147483647") (auto simp: next_pid_def s32_def)

lemma next_pid_range: "0 \<le> p \<Longrightarrow> p < 2147483648 \<Longrightarrow> 0 < next_pid p \<and> next_pid p < 2147483648"
  by (simp add: next_pid_eq)

lemma next_pids: "0 \<le> p \<Longrightarrow> p < 2147483648 \<Longrightarrow> (next_pid ^^ Suc k) p = (p + int k) mod 2147483647 + 1"
proof (induction k)
  case 0
  then show ?case by (simp add: next_pid_eq)
next
  case (Suc k)
  have "0 \<le> (p + int k) mod 2147483647 + 1" "(p + int k) mod 2147483647 + 1 < 2147483648" by auto
  then have "(next_pid ^^ Suc (Suc k)) p = ((p + int k) mod 2147483647 + 1) mod 2147483647 + 1"
    using Suc next_pid_eq by simp
  then show ?case by (simp add: mod_add_right_eq algebra_simps)
qed

lemma find_pid_steps:
  "(\<forall>j < k. pid_used ((next_pid ^^ Suc j) p) s) \<Longrightarrow> \<not> pid_used ((next_pid ^^ Suc k) p) s \<Longrightarrow>
   find_pid p s = Some ((next_pid ^^ Suc k) p)"
proof (induction k arbitrary: p)
  case 0
  then show ?case by (subst find_pid.simps) (simp add: Let_def)
next
  case (Suc k)
  have u: "pid_used (next_pid p) s" using Suc.prems(1) by (auto dest: spec [of _ 0])
  have "find_pid (next_pid p) s = Some ((next_pid ^^ Suc k) (next_pid p))"
    using Suc.prems by (intro Suc.IH) (auto simp: funpow_swap1 dest: spec [of _ "Suc _"])
  then show ?case using u by (subst find_pid.simps) (simp add: Let_def funpow_swap1)
qed


lemma find_pid_ok:
  assumes "0 \<le> p" "p < 2147483648" "length (tasks s) \<le> 1000"
  shows "\<exists>q. find_pid p s = Some q \<and> 0 < q \<and> q < 2147483648 \<and> \<not> pid_used q s"
proof -
  let ?P = "\<lambda>k. (next_pid ^^ Suc k) p"
  let ?U = "(\<lambda>t. case t of None \<Rightarrow> 0 | Some t \<Rightarrow> t_pid t) ` set (tasks s)"
  have inj: "inj_on ?P {..1000}"
  proof (rule inj_onI)
    fix a b assume ab: "a \<in> {..1000}" "b \<in> {..1000}" "?P a = ?P b"
    then have "(p + int a) mod 2147483647 = (p + int b) mod 2147483647"
      using next_pids [OF assms(1,2)] by simp
    then have "2147483647 dvd (p + int a) - (p + int b)" by (simp only: mod_eq_dvd_iff)
    then have "2147483647 dvd int a - int b" by simp
    moreover have "\<bar>int a - int b\<bar> < 2147483647" using ab(1,2) unfolding atMost_iff by linarith
    ultimately show "a = b" using zdvd_not_zless [of "\<bar>int a - int b\<bar>" 2147483647] by auto
  qed
  have "card ?U \<le> length (tasks s)" using card_image_le [of "set (tasks s)"] card_length [of "tasks s"] by (meson List.finite_set le_trans)
  then have "card (?P ` {..1000}) > card ?U" using inj assms(3) by (simp add: card_image)
  then obtain k where k: "?P k \<notin> ?U" by (metis List.finite_set card_mono finite_imageI image_subsetI not_less)
  have n: "\<not> pid_used (?P k) s" using k by (force simp: pid_used_def split: option.splits)
  define m where "m = (LEAST k. \<not> pid_used (?P k) s)"
  have m: "\<not> pid_used (?P m) s" "\<forall>j < m. pid_used (?P j) s"
    unfolding m_def using LeastI [of "\<lambda>k. \<not> pid_used (?P k) s", OF n] not_less_Least by (blast, blast)
  have "find_pid p s = Some (?P m)" by (rule find_pid_steps [OF m(2,1)])
  moreover have "0 < ?P m" "?P m < 2147483648" unfolding next_pids [OF assms(1,2)] by auto
  ultimately show ?thesis using m(1) by blast
qed

lemma find_slot_spec:
  "find_slot i ts = - EAGAIN \<and> None \<notin> set ts \<or>
   (\<exists>j < length ts. find_slot i ts = int (i + j) \<and> ts ! j = None)"
proof (induction ts arbitrary: i)
  case (Cons t ts)
  show ?case
  proof (cases "t = None")
    case False
    with Cons [of "Suc i"] show ?thesis by (fastforce intro: exI [of _ "Suc _"])
  qed auto
qed simp

section \<open>Fork\<close>

lemma u16_add: "u16 (u16 a + b) = u16 (a + b)"
  by (simp add: u16_def mod_add_left_eq)

lemma length_file_inc [simp]: "length (file_inc f fs) = length fs"
  by (cases f) (auto simp: file_inc_def)

lemma length_fold_file_inc [simp]: "length (fold file_inc l fs) = length fs"
  by (induction l arbitrary: fs) auto

lemma file_inc_count:
  "i < length fs \<Longrightarrow> u16 (f_count (file_inc f fs ! i) + n) = u16 (f_count (fs ! i) + (if f = Some i then 1 else 0) + n)"
  by (cases f) (auto simp: file_inc_def nth_list_update u16_add)

lemma fold_file_inc_count:
  "i < length fs \<Longrightarrow> u16 (f_count (fold file_inc l fs ! i)) = u16 (f_count (fs ! i) + int (count_list l (Some i)))"
proof (induction l arbitrary: fs)
  case (Cons f l)
  then show ?case using file_inc_count [of i fs f "int (count_list l (Some i))"] by (simp add: algebra_simps)
qed simp

lemma copy_mem_child:
  assumes "copy_mem nr c p m = Done (0, p', m')"
  shows "p' = p\<lparr>t_code_base := u32 (nr * 0x4000000), t_data_base := u32 (nr * 0x4000000)\<rparr>"
  using assms by (auto simp: copy_mem_def Let_def outcome_simps ENOMEM_def split: if_splits)

lemma copy_process_child:
  assumes "copy_process nr r k = Done (pid, k')" "0 \<le> pid"
  shows "\<exists>p page. tasks (k_sched k') = (tasks (k_sched k))[nr := Some p] \<and> nr < length (tasks (k_sched k)) \<and>
    pid = last_pid (k_sched k) \<and> k_page k' nr = page \<and> page = fst (get_free_page (k_mm k)) \<and>
    k_files k' = fold file_inc (t_filp (cur (k_sched k))) (k_files k) \<and>
    p = (child_of (int nr) page r (k_sched k))
      \<lparr>t_code_base := u32 (int nr * 0x4000000), t_data_base := u32 (int nr * 0x4000000)\<rparr>"
proof -
  obtain page m where g: "get_free_page (k_mm k) = (page, m)" by fastforce
  have "page \<noteq> 0" using assms by (auto simp: copy_process_def g Let_def EAGAIN_def)
  then obtain e p m' where c: "copy_mem (int nr) (cur (k_sched k)) (child_of (int nr) page r (k_sched k)) m = Done (e, p, m')"
    using assms(1) by (auto simp: copy_process_def g Let_def outcome_simps)
  have e: "e = 0" using assms c \<open>page \<noteq> 0\<close>
    by (auto simp: copy_process_def g Let_def outcome_simps EAGAIN_def split: if_splits)
  have f: "t_filp p = t_filp (cur (k_sched k))"
    using copy_mem_child [OF c [unfolded e]] by (simp add: child_of_def Let_def)
  show ?thesis
    using assms(1) c \<open>page \<noteq> 0\<close> e f copy_mem_child [OF c [unfolded e]]
    by (auto simp: copy_process_def g Let_def outcome_simps)
qed

section \<open>Properties of processes\<close>

text \<open>
  \<open>do_kill\<close> sets the signal's bit in exactly the tasks that its \<open>pid\<close> argument names and that
  the caller may signal (the same user by real or effective id, or privilege), never in the idle
  task, and changes nothing else; a number outside 1 to 32 signals nobody.
\<close>

theorem do_kill_exact:
  assumes "length (tasks s) = NR_TASKS" "current s < NR_TASKS" "tasks s ! current s \<noteq> None"
  shows "\<exists>ts. do_kill pid sig priv s = s\<lparr>tasks := ts\<rparr> \<and> length ts = NR_TASKS \<and>
    (\<forall>j < NR_TASKS. ts ! j = (if j = 0 then tasks s ! 0 else
       map_option (\<lambda>t. if 1 \<le> sig \<and> sig \<le> 32 \<and> kill_target pid (cur s) t \<and> may_signal priv (cur s) t
         then t\<lparr>t_signal := t_signal t OR sig_bit sig\<rparr> else t) (tasks s ! j)))"
proof -
  have "NR_TASKS - 1 < length (tasks s)" using assms by (simp add: NR_TASKS_def)
  from kill_loop_spec [OF this, of pid sig priv] assms obtain ts where
    "do_kill pid sig priv s = s\<lparr>tasks := ts\<rparr>" "length ts = NR_TASKS"
    "\<forall>j < length ts. ts ! j = (if 0 < j \<and> j \<le> NR_TASKS - 1
       then map_option (kill_one pid sig priv (cur s)) (tasks s ! j) else tasks s ! j)"
    by (auto simp: do_kill_def)
  then show ?thesis by (intro exI [of _ ts]) (auto simp: kill_one_def [abs_def] NR_TASKS_def)
qed

theorem do_kill_exact_witness:
  "\<exists>ts. do_kill (-1) 2 0 (sched_init\<lparr>tasks := (tasks sched_init)[1 := Some init_task]\<rparr>) =
      sched_init\<lparr>tasks := ts\<rparr> \<and> t_signal (the (ts ! 1)) = 2 \<and> t_signal (the (ts ! 0)) = 0"
proof -
  let ?s = "sched_init\<lparr>tasks := (tasks sched_init)[1 := Some init_task]\<rparr>"
  have "length (tasks ?s) = NR_TASKS" "current ?s < NR_TASKS" "tasks ?s ! current ?s \<noteq> None"
    by (simp_all add: sched_init_def NR_TASKS_def)
  from do_kill_exact [OF this, of "-1" 2 0] obtain ts where ts: "do_kill (-1) 2 0 ?s = ?s\<lparr>tasks := ts\<rparr>"
    and e: "\<forall>j < NR_TASKS. ts ! j = (if j = 0 then tasks ?s ! 0 else
       map_option (\<lambda>t. if 1 \<le> (2::int) \<and> (2::int) \<le> 32 \<and> kill_target (-1) (cur ?s) t \<and> may_signal 0 (cur ?s) t
         then t\<lparr>t_signal := t_signal t OR sig_bit 2\<rparr> else t) (tasks ?s ! j))" by blast
  have "t_signal (the (ts ! 0)) = 0" using e by (simp add: NR_TASKS_def sched_init_def init_task_def)
  moreover have "sig_bit 2 = 2" by (simp add: sig_bit_def)
  then have "t_signal (the (ts ! 1)) = 2"
    using e [rule_format, of 1]
    by (simp add: NR_TASKS_def sched_init_def cur_def kill_target_def may_signal_def) (simp add: init_task_def)
  ultimately show ?thesis using ts by auto
qed

text \<open>
  \<open>find_empty_process\<close> returns: its search for an unused process number ends although the
  counter wraps around, the number is positive and no task has it, and the slot is a free one other
  than 0, or \<open>-EAGAIN\<close> when all slots are taken.
\<close>

theorem find_empty_process_returns:
  assumes "length (tasks s) = NR_TASKS" "0 \<le> last_pid s" "last_pid s < 2147483648"
  shows "\<exists>nr s'. find_empty_process s = Some (nr, s') \<and> s' = s\<lparr>last_pid := last_pid s'\<rparr> \<and>
    0 < last_pid s' \<and> last_pid s' < 2147483648 \<and> \<not> pid_used (last_pid s') s \<and>
    (if None \<in> set (tl (tasks s)) then 0 < nr \<and> nr < int NR_TASKS \<and> tasks s ! nat nr = None
     else nr = - EAGAIN)"
proof -
  obtain q where q: "find_pid (last_pid s) s = Some q" "0 < q" "q < 2147483648" "\<not> pid_used q s"
    using find_pid_ok [OF assms(2,3), of s] assms(1) by (auto simp: NR_TASKS_def)
  obtain t0 ts where ts: "tasks s = t0 # ts" using assms(1) by (cases "tasks s") (auto simp: NR_TASKS_def)
  have "if None \<in> set ts then 0 < find_slot 1 ts \<and> find_slot 1 ts < int NR_TASKS \<and>
      tasks s ! nat (find_slot 1 ts) = None else find_slot 1 ts = - EAGAIN"
    using find_slot_spec [of 1 ts] assms(1) ts by (auto simp: nth_Cons' nat_add_distrib in_set_conv_nth)
  then show ?thesis using q ts by (auto simp: find_empty_process_def)
qed

theorem find_empty_process_returns_witness:
  "\<exists>nr s'. find_empty_process (sched_init\<lparr>last_pid := 2147483647\<rparr>) = Some (nr, s') \<and> 0 < nr \<and> 0 < last_pid s'"
proof -
  let ?s = "sched_init\<lparr>last_pid := 2147483647\<rparr>"
  have "length (tasks ?s) = NR_TASKS" "0 \<le> last_pid ?s" "last_pid ?s < 2147483648" "None \<in> set (tl (tasks ?s))"
    by (simp_all add: sched_init_def NR_TASKS_def)
  then show ?thesis using find_empty_process_returns [of ?s] by fastforce
qed

text \<open>
  C16: a successful \<open>copy_process\<close> installs in the given slot a runnable child with the new process
  number, the caller as its father, a full time slice, no pending signal, the return value 0 in its
  \<open>eax\<close>, the caller's open files and its own 64 MB of address space; the count of each file grows by
  the number of descriptors that refer to it, and no other task changes.
\<close>

theorem fork_creates_child:
  assumes "copy_process nr r k = Done (pid, k')" "0 \<le> pid"
  shows "pid = last_pid (k_sched k) \<and>
    (\<exists>p. tasks (k_sched k') = (tasks (k_sched k))[nr := Some p] \<and> t_pid p = pid \<and>
      t_father p = t_pid (cur (k_sched k)) \<and> t_state p = TASK_RUNNING \<and>
      t_counter p = t_priority (cur (k_sched k)) \<and> t_signal p = 0 \<and>
      tss_eax (t_tss p) = 0 \<and> tss_eip (t_tss p) = r_eip r \<and>
      t_filp p = t_filp (cur (k_sched k)) \<and> t_data_base p = u32 (int nr * 0x4000000)) \<and>
    (\<forall>i < length (k_files k). u16 (f_count (k_files k' ! i)) =
      u16 (f_count (k_files k ! i) + int (count_list (t_filp (cur (k_sched k))) (Some i))))"
  using copy_process_child [OF assms] fold_file_inc_count by (auto simp: child_of_def Let_def)


theorem fork_creates_child_witness:
  "\<exists>k k' p. copy_process 1 (undefined :: fork_regs) k = Done (7, k') \<and>
    tasks (k_sched k') ! 1 = Some p \<and> t_pid p = 7 \<and> t_data_base p = 0x4000000"
proof -
  define t where "t = init_task\<lparr>t_code_limit := 0, t_data_limit := 0\<rparr>"
  define k where "k = \<lparr>k_sched = sched_init\<lparr>tasks := Some t # replicate 63 None, last_pid := 7\<rparr>,
    k_mm = \<lparr>mem_map = replicate 1536 0, pmem = (\<lambda>a. 0)\<rparr>, k_page = (\<lambda>i. 0), k_files = [], k_inodes = []\<rparr>"
  have "scan_free 1536 (replicate 1536 (0::int)) = Some 1535"
    using scan_free.simps(2) [of 1535 "replicate 1536 (0::int)"] by (simp del: scan_free.simps)
  then have g: "fst (get_free_page (k_mm k)) \<noteq> 0"
    by (simp add: get_free_page_def k_def mm_consts Let_def)
  have c: "cur (k_sched k) = t" "last_pid (k_sched k) = 7"
    and w: "wr (tasks (k_sched k)) 1 v = Done ((tasks (k_sched k))[1 := v])" for v
    by (simp_all add: k_def cur_def sched_init_def wr_def)
  obtain page m where gp: "get_free_page (k_mm k) = (page, m)" "page \<noteq> 0" using g by (metis prod.collapse)
  have "\<exists>p m'. copy_mem (int 1) t q m = Done (0, p, m')" for q
    by (simp add: copy_mem_def Let_def copy_page_tables_def u32_def t_def init_task_def)
  then obtain p m' where "copy_mem (int 1) t (child_of (int 1) page undefined (k_sched k)) m = Done (0, p, m')"
    by blast
  then obtain k' where "copy_process 1 undefined k = Done (7, k')"
    using gp by (simp only: copy_process_def c w gp Let_def split if_False obind.simps not_True_eq_False simp_thms)
  note k' = this
  from fork_creates_child [OF this] obtain p where
    "tasks (k_sched k') = (tasks (k_sched k))[1 := Some p]" "t_pid p = 7" "t_data_base p = u32 (int 1 * 0x4000000)"
    by auto
  moreover from this(1) have "tasks (k_sched k') ! 1 = Some p" by (simp add: k_def)
  ultimately have "copy_process 1 undefined k = Done (7, k') \<and> tasks (k_sched k') ! 1 = Some p \<and>
      t_pid p = 7 \<and> t_data_base p = 0x4000000" using k' by (simp add: u32_def)
  then show ?thesis by blast
qed

text \<open>
  the search of \<open>sys_waitpid\<close> finds a zombie child that its argument names when it returns one;
  otherwise there is none, and it reports whether such a child exists at all, which decides between
  waiting and \<open>-ECHILD\<close>.
\<close>

theorem waitpid_scan_correct:
  "case wait_scan (NR_TASKS - 1) pid s False of (f, z) \<Rightarrow>
     (case z of
        Some i \<Rightarrow> 0 < i \<and> i < NR_TASKS \<and> wait_target pid (current s) s i \<and> t_state (the (tasks s ! i)) = TASK_ZOMBIE
      | None \<Rightarrow> (f \<longleftrightarrow> (\<exists>i. 0 < i \<and> i < NR_TASKS \<and> wait_target pid (current s) s i)) \<and>
          (\<nexists>i. 0 < i \<and> i < NR_TASKS \<and> wait_target pid (current s) s i \<and>
            t_state (the (tasks s ! i)) = TASK_ZOMBIE))"
proof -
  have e: "i \<le> NR_TASKS - 1 \<longleftrightarrow> i < NR_TASKS" for i by (auto simp: NR_TASKS_def)
  have n: "(\<nexists>i. A i \<and> B i \<and> C i \<and> D i) \<longleftrightarrow> (\<forall>i. A i \<and> B i \<and> C i \<longrightarrow> \<not> D i)" for A B C D by blast
  show ?thesis using wait_scan_spec [where n = "NR_TASKS - 1" and flag = False and pid = pid and s = s]
    unfolding e n simp_thms .
qed

text \<open>
  a process of an ordinary user whose saved user id equals its real one can make any user its
  effective one by \<open>sys_setuid\<close>, the superuser included: the test compares the saved id with the
  real id instead of with the argument.
\<close>

theorem setuid_escalates:
  assumes "t_uid (cur s) \<noteq> 0" "t_euid (cur s) \<noteq> 0" "t_suid (cur s) = t_uid (cur s)"
    "tasks s ! current s \<noteq> None" "current s < length (tasks s)"
  shows "\<exists>s'. sys_setuid 0 s = (0, s') \<and> t_euid (cur s') = 0 \<and> t_uid (cur s') = t_uid (cur s)"
  using assms by (auto simp: sys_setuid_def upd_cur_def upd_task_def cur_def u16_def)

theorem setuid_escalates_witness:
  "\<exists>s'. sys_setuid 0 (sched_init\<lparr>tasks := [Some (init_task\<lparr>t_uid := 5, t_euid := 5, t_suid := 5\<rparr>)]\<rparr>) = (0, s') \<and>
    t_euid (cur s') = 0 \<and> t_uid (cur s') = 5"
  using setuid_escalates [of "sched_init\<lparr>tasks := [Some (init_task\<lparr>t_uid := 5, t_euid := 5, t_suid := 5\<rparr>)]\<rparr>"]
  by (simp add: cur_def sched_init_def)

end
