(* ===== verification/Mktime.thy ===== *)
theory Mktime
  imports Prelude
begin

text \<open>
  The clock at boot: \<open>kernel_mktime\<close> of src/kernel/mktime.c, which turns a broken-down time into
  seconds since 1970, and \<open>time_init\<close> of src/init/main.c, which reads it from the CMOS clock.
\<close>

section \<open>Definitions\<close>

record tm =
  tm_sec :: int
  tm_min :: int
  tm_hour :: int
  tm_mday :: int
  tm_mon :: int
  tm_year :: int

definition DAY :: int where "DAY = 86400"

definition month :: "int list" where
  "month = map (\<lambda>d. DAY * d)
     [0, 31, 31+29, 31+29+31, 31+29+31+30, 31+29+31+30+31, 31+29+31+30+31+30,
      31+29+31+30+31+30+31, 31+29+31+30+31+30+31+31, 31+29+31+30+31+30+31+31+30,
      31+29+31+30+31+30+31+31+30+31, 31+29+31+30+31+30+31+31+30+31+30]"

definition kernel_mktime :: "tm \<Rightarrow> int outcome" where
  "kernel_mktime t =
     (let year = s32 (tm_year t - 70);
          res = s32 (s32 (365 * DAY * year) + s32 (DAY * cdiv (s32 (year + 1)) 4)) in
      obind (if tm_mon t < 0 then Oob else rd month (nat (tm_mon t))) (\<lambda>mo.
      let res = s32 (res + mo);
          res = (if tm_mon t > 1 \<and> cmod (s32 (year + 2)) 4 \<noteq> 0 then s32 (res - DAY) else res);
          res = s32 (res + s32 (DAY * (tm_mday t - 1)));
          res = s32 (res + s32 (3600 * tm_hour t));
          res = s32 (res + s32 (60 * tm_min t)) in
      Done (s32 (res + tm_sec t))))"

text \<open>\<open>BCD_TO_BIN\<close>, and \<open>time_init\<close> over the contents of the CMOS registers.\<close>

definition bcd_to_bin :: "int \<Rightarrow> int" where
  "bcd_to_bin v = v mod 16 + v div 16 * 10"

definition time_init :: "(int \<Rightarrow> int) \<Rightarrow> int outcome" where
  "time_init cmos =
     kernel_mktime \<lparr>tm_sec = bcd_to_bin (cmos 0), tm_min = bcd_to_bin (cmos 2),
       tm_hour = bcd_to_bin (cmos 4), tm_mday = bcd_to_bin (cmos 7),
       tm_mon = bcd_to_bin (cmos 8 - 1), tm_year = bcd_to_bin (cmos 9)\<rparr>"

section \<open>The calendar\<close>

definition leap :: "int \<Rightarrow> bool" where
  "leap y \<longleftrightarrow> y mod 4 = 0 \<and> (y mod 100 \<noteq> 0 \<or> y mod 400 = 0)"

fun year_days :: "nat \<Rightarrow> int" where
  "year_days 0 = 0"
| "year_days (Suc n) = year_days n + (if leap (1970 + int n) then 366 else 365)"

definition month_len :: "int \<Rightarrow> nat \<Rightarrow> int" where
  "month_len y m = [31, if leap y then 29 else 28, 31, 30, 31, 30, 31, 31, 30, 31, 30, 31] ! m"

definition month_days :: "int \<Rightarrow> nat \<Rightarrow> int" where
  "month_days y m = sum_list (map (month_len y) [0..<m])"

text \<open>Seconds from the start of 1970 to a time of the Gregorian calendar.\<close>

definition epoch :: "nat \<Rightarrow> nat \<Rightarrow> int \<Rightarrow> int \<Rightarrow> int \<Rightarrow> int \<Rightarrow> int" where
  "epoch n mon mday hour mi sec =
     DAY * (year_days n + month_days (1970 + int n) mon + (mday - 1)) + 3600 * hour + 60 * mi + sec"

lemma leap_simple: "n < 130 \<Longrightarrow> leap (1970 + int n) \<longleftrightarrow> (int n + 2) mod 4 = 0"
proof -
  have "list_all (\<lambda>n. leap (1970 + int n) \<longleftrightarrow> (int n + 2) mod 4 = 0) [0..<130]" by code_simp
  moreover assume "n < 130"
  ultimately show ?thesis by (simp add: list_all_iff)
qed

lemma year_days_eq: "n \<le> 130 \<Longrightarrow> year_days n = 365 * int n + (int n + 1) div 4"
proof (induction n)
  case (Suc n)
  have "(int n + 1 + 1) div 4 = (int n + 1) div 4 + (if (int n + 2) mod 4 = 0 then 1 else 0)"
    by presburger
  then show ?case using Suc leap_simple [of n] by (simp add: algebra_simps)
qed simp

lemma month_days_eq:
  assumes "m < 12"
  shows "DAY * month_days y m = month ! m - (if 1 < m \<and> \<not> leap y then DAY else 0)"
proof -
  have "m \<in> {0, 1, 2, 3, 4, 5, 6, 7, 8, 9, 10, 11}" using assms unfolding insert_iff empty_iff by arith
  then show ?thesis
    by (elim insertE) (simp_all add: month_days_def month_len_def month_def DAY_def upt_rec)
qed

lemma month_range: "m < 12 \<Longrightarrow> 0 \<le> month ! m \<and> month ! m \<le> 335 * DAY"
proof -
  assume "m < 12"
  then have "m \<in> {0, 1, 2, 3, 4, 5, 6, 7, 8, 9, 10, 11}" unfolding insert_iff empty_iff by arith
  then show ?thesis by (elim insertE) (simp_all add: month_def DAY_def)
qed

text \<open>Sums that stay in the range of a \<open>long\<close> are exact.\<close>

lemma s32_mid: "\<bar>x\<bar> < 2147483648 \<Longrightarrow> s32 x = x"
  by (rule s32_id) linarith+

text \<open>
  C25: for every time from 1970 to 2037, \<open>kernel_mktime\<close> computes without overflow the number of
  seconds since the start of 1970 by the Gregorian calendar, leap years included.
\<close>

theorem kernel_mktime_correct:
  assumes "n < 68" "m < 12" "1 \<le> d" "d \<le> 31" "0 \<le> h" "h < 24" "0 \<le> mi" "mi < 60" "0 \<le> s" "s < 60"
  shows "kernel_mktime \<lparr>tm_sec = s, tm_min = mi, tm_hour = h, tm_mday = d, tm_mon = int m, tm_year = int n + 70\<rparr> =
    Done (epoch n m d h mi s)"
proof -
  define q where "q = (int n + 1) div 4"
  have q: "0 \<le> q" "4 * q \<le> int n + 1" using assms(1) by (auto simp: q_def)
  have n: "int n < 68" "0 \<le> int n" using assms(1) by auto
  note mr = month_range [OF assms(2)]
  have l: "leap (1970 + int n) \<longleftrightarrow> (int n + 2) mod 4 = 0" using leap_simple [of n] assms(1) by simp
  have r: "rd month m = Done (month ! m)"
    using assms(2) by (simp add: rd_def month_def)
  let ?adj = "if 1 < m \<and> (int n + 2) mod 4 \<noteq> 0 then DAY else 0"
  have e: "epoch n m d h mi s = DAY * (365 * int n + q) + month ! m - ?adj + DAY * (d - 1) + 3600 * h + 60 * mi + s"
    using month_days_eq [OF assms(2), of "1970 + int n"] year_days_eq [of n] assms(1) l
    by (simp add: epoch_def q_def algebra_simps)
  have y: "s32 (int n) = int n" "s32 (int n + 1) = int n + 1" "s32 (int n + 2) = int n + 2"
    "cdiv (int n + 1) 4 = q" "cmod (int n + 2) 4 = (int n + 2) mod 4"
    using n by (simp_all add: s32_id cdiv_nonneg cmod_nonneg q_def)
  have z: "s32 (365 * DAY * int n) = 365 * DAY * int n" "s32 (DAY * q) = DAY * q"
    "s32 (365 * DAY * int n + DAY * q) = DAY * (365 * int n + q)"
    using n q by (simp_all add: s32_id DAY_def)
  have z2: "s32 (DAY * (365 * int n + q) + month ! m) = DAY * (365 * int n + q) + month ! m"
    "s32 (DAY * (365 * int n + q) + month ! m - DAY) = DAY * (365 * int n + q) + month ! m - DAY"
    "s32 (DAY * (d - 1)) = DAY * (d - 1)" "s32 (3600 * h) = 3600 * h" "s32 (60 * mi) = 60 * mi"
    using n q mr assms by (simp_all add: s32_id DAY_def)
  define a where "a = DAY * (365 * int n + q) + month ! m - ?adj"
  have a: "- 86400 \<le> a" "a \<le> 86400 * (365 * 67 + 17) + 86400 * 335"
    using n q mr by (auto simp: a_def DAY_def)
  have z3: "s32 (a + DAY * (d - 1)) = a + DAY * (d - 1)"
    "s32 (a + DAY * (d - 1) + 3600 * h) = a + DAY * (d - 1) + 3600 * h"
    "s32 (a + DAY * (d - 1) + 3600 * h + 60 * mi) = a + DAY * (d - 1) + 3600 * h + 60 * mi"
    "s32 (a + DAY * (d - 1) + 3600 * h + 60 * mi + s) = a + DAY * (d - 1) + 3600 * h + 60 * mi + s"
    using a assms by (simp_all add: s32_id DAY_def)
  have i: "(if Suc 0 < m \<and> (int n + 2) mod 4 \<noteq> 0 then s32 (DAY * (365 * int n + q) + month ! m - DAY)
      else DAY * (365 * int n + q) + month ! m) = a"
    using z2 by (simp add: a_def)
  show ?thesis unfolding e a_def [symmetric]
    by (simp add: kernel_mktime_def Let_def y z z2(1,3-5) r i z3 split del: if_split cong: if_cong)
qed


theorem kernel_mktime_correct_witness:
  "kernel_mktime \<lparr>tm_sec = 7, tm_min = 14, tm_hour = 3, tm_mday = 19, tm_mon = 0, tm_year = 108\<rparr> =
   Done (epoch 38 0 19 3 14 7)"
  using kernel_mktime_correct [of 38 0 19 3 14 7] by simp

text \<open>
  in October, whose number the clock gives in binary-coded decimal as 16, \<open>time_init\<close> subtracts
  one before it converts, gets the month 15, and \<open>kernel_mktime\<close> reads past the table of months.
\<close>

theorem october_out_of_bounds:
  assumes "cmos 8 = 0x10"
  shows "time_init cmos = Oob"
  using assms by (simp add: time_init_def kernel_mktime_def bcd_to_bin_def Let_def rd_def month_def)

theorem october_out_of_bounds_witness: "time_init (\<lambda>r. 0x10) = Oob"
  by (rule october_out_of_bounds) simp

end
