(* ===== verification/Vsprintf.thy ===== *)
theory Vsprintf
  imports Prelude
begin

text \<open>
  The formatter behind \<open>printk\<close>: src/kernel/vsprintf.c. Characters are the values of the C
  \<open>char\<close>; the format is the characters before its terminating zero, and the output is the list of
  characters written to the buffer, whose size the code does not check.
\<close>

section \<open>Numbers\<close>

text \<open>The bits of \<open>flags\<close> and \<open>type\<close>.\<close>

record fmt_flags =
  ZEROPAD :: bool
  SIGN :: bool
  PLUS :: bool
  SPACE :: bool
  LEFT :: bool
  SPECIAL :: bool
  SMALL :: bool

definition no_flags :: fmt_flags where
  "no_flags = \<lparr>ZEROPAD = False, SIGN = False, PLUS = False, SPACE = False, LEFT = False,
     SPECIAL = False, SMALL = False\<rparr>"

definition is_digit :: "int \<Rightarrow> bool" where
  "is_digit c \<longleftrightarrow> c \<ge> 48 \<and> c \<le> 57"

fun skip_atoi :: "int list \<Rightarrow> int \<Rightarrow> int \<times> int list" where
  "skip_atoi [] i = (i, [])"
| "skip_atoi (c # cs) i = (if is_digit c then skip_atoi cs (s32 (i * 10 + c - 48)) else (i, c # cs))"

text \<open>The character for a digit value, \<open>digits[v]\<close>.\<close>

definition digit_of :: "bool \<Rightarrow> int \<Rightarrow> int" where
  "digit_of small v = (if v < 10 then 48 + v else (if small then 97 else 65) + (v - 10))"

text \<open>\<open>while (num != 0) tmp[i++] = digits[do_div(num, base)];\<close>, on the unsigned number.\<close>

fun num_digits :: "nat \<Rightarrow> nat \<Rightarrow> nat list" where
  "num_digits num base = (if num = 0 \<or> base < 2 then [] else num mod base # num_digits (num div base) base)"

declare num_digits.simps [simp del]

text \<open>\<open>while (size-- > 0)\<close>: the number of rounds, and \<open>size\<close> afterwards.\<close>

definition rounds :: "int \<Rightarrow> nat" where "rounds len = nat len"
definition after :: "int \<Rightarrow> int" where "after len = (if len > 0 then -1 else len - 1)"

definition number :: "int \<Rightarrow> int \<Rightarrow> int \<Rightarrow> int \<Rightarrow> fmt_flags \<Rightarrow> int list option" where
  "number num base len precision ty =
     (let ty = (if LEFT ty then ty\<lparr>ZEROPAD := False\<rparr> else ty) in
      if base < 2 \<or> base > 36 then None
      else
        let c = (if ZEROPAD ty then 48 else 32);
            neg = (SIGN ty \<and> num < 0);
            sign = (if neg then 45 else if PLUS ty then 43 else if SPACE ty then 32 else 0);
            num = (if neg then s32 (- num) else num);
            len = (if sign \<noteq> 0 then len - 1 else len);
            len = (if SPECIAL ty then (if base = 16 then len - 2 else if base = 8 then len - 1 else len) else len);
            tmp = (if num = 0 then [48]
                   else map (\<lambda>v. digit_of (SMALL ty) (int v)) (num_digits (nat (u32 num)) (nat base)));
            i = int (length tmp);
            precision = (if i > precision then i else precision);
            len = len - precision;
            o1 = (if \<not> ZEROPAD ty \<and> \<not> LEFT ty then replicate (rounds len) 32 else []);
            len = (if \<not> ZEROPAD ty \<and> \<not> LEFT ty then after len else len);
            o2 = (if sign \<noteq> 0 then [sign] else []);
            o3 = (if SPECIAL ty then (if base = 8 then [48] else if base = 16 then [48, if SMALL ty then 120 else 88] else []) else []);
            o4 = (if \<not> LEFT ty then replicate (rounds len) c else []);
            len = (if \<not> LEFT ty then after len else len);
            o5 = replicate (nat (precision - i)) 48;
            o6 = rev tmp;
            o7 = replicate (rounds len) 32
        in Some (o1 @ o2 @ o3 @ o4 @ o5 @ o6 @ o7))"

section \<open>The format\<close>

datatype arg = Int_arg int | Str_arg "int list" | Ptr_arg int

fun va_int :: "arg list \<Rightarrow> (int \<times> arg list) outcome" where
  "va_int (Int_arg n # as) = Done (n, as)"
| "va_int as = Oob"

fun va_str :: "arg list \<Rightarrow> (int list \<times> arg list) outcome" where
  "va_str (Str_arg s # as) = Done (s, as)"
| "va_str as = Oob"

fun va_ptr :: "arg list \<Rightarrow> (int \<times> arg list) outcome" where
  "va_ptr (Ptr_arg p # as) = Done (p, as)"
| "va_ptr as = Oob"

fun get_flags :: "int list \<Rightarrow> fmt_flags \<Rightarrow> fmt_flags \<times> int list" where
  "get_flags [] f = (f, [])"
| "get_flags (c # cs) f =
     (if c = 45 then get_flags cs (f\<lparr>LEFT := True\<rparr>)
      else if c = 43 then get_flags cs (f\<lparr>PLUS := True\<rparr>)
      else if c = 32 then get_flags cs (f\<lparr>SPACE := True\<rparr>)
      else if c = 35 then get_flags cs (f\<lparr>SPECIAL := True\<rparr>)
      else if c = 48 then get_flags cs (f\<lparr>ZEROPAD := True\<rparr>)
      else (f, c # cs))"

definition first :: "int list \<Rightarrow> int" where
  "first cs = (case cs of [] \<Rightarrow> 0 | c # _ \<Rightarrow> c)"

text \<open>
  A \<open>*\<close> takes the width or the precision from the arguments, and the format pointer is not moved
  past it.
\<close>

definition get_width :: "int list \<Rightarrow> fmt_flags \<Rightarrow> arg list \<Rightarrow> (int \<times> fmt_flags \<times> int list \<times> arg list) outcome" where
  "get_width cs f as =
     (if is_digit (first cs) then (case skip_atoi cs 0 of (n, cs) \<Rightarrow> Done (n, f, cs, as))
      else if first cs = 42 then
        obind (va_int as) (\<lambda>(n, as).
        if n < 0 then Done (s32 (- n), f\<lparr>LEFT := True\<rparr>, cs, as) else Done (n, f, cs, as))
      else Done (-1, f, cs, as))"

definition get_precision :: "int list \<Rightarrow> arg list \<Rightarrow> (int \<times> int list \<times> arg list) outcome" where
  "get_precision cs as =
     (if first cs \<noteq> 46 then Done (-1, cs, as)
      else
        let cs = tl cs in
        obind (if is_digit (first cs) then (case skip_atoi cs 0 of (n, cs) \<Rightarrow> Done (n, cs, as))
               else if first cs = 42 then obind (va_int as) (\<lambda>(n, as). Done (n, cs, as))
               else Done (-1, cs, as))
          (\<lambda>(n, cs, as). Done (if n < 0 then 0 else n, cs, as)))"

definition get_qualifier :: "int list \<Rightarrow> int list" where
  "get_qualifier cs = (if first cs \<in> {104, 108, 76} then tl cs else cs)"

definition conv_c :: "fmt_flags \<Rightarrow> int \<Rightarrow> int \<Rightarrow> int list" where
  "conv_c f width c =
     (let pre = (if \<not> LEFT f then replicate (nat (width - 1)) 32 else []);
          width = (if \<not> LEFT f then (if width - 1 > 0 then 0 else width - 1) else width) in
      pre @ [u8 c] @ replicate (nat (width - 1)) 32)"

definition conv_s :: "fmt_flags \<Rightarrow> int \<Rightarrow> int \<Rightarrow> int list \<Rightarrow> int list" where
  "conv_s f width precision s =
     (let len = int (length s);
          len = (if precision < 0 then len else if len > precision then precision else len);
          pre = (if \<not> LEFT f then replicate (nat (width - len)) 32 else []);
          width = (if \<not> LEFT f then (if len < width then len - 1 else width - 1) else width) in
      pre @ take (nat len) s @ replicate (nat (width - len)) 32)"

definition num_out :: "int \<Rightarrow> int \<Rightarrow> int \<Rightarrow> int \<Rightarrow> fmt_flags \<Rightarrow> int list outcome" where
  "num_out n base width precision f =
     (case number n base width precision f of None \<Rightarrow> Oob | Some out \<Rightarrow> Done out)"

text \<open>
  One conversion, from the character after its qualifier on: the output, the words stored through
  \<open>%n\<close>, the rest of the format and of the arguments. \<open>pos\<close> is the number of characters written so
  far.
\<close>

definition convert ::
  "int list \<Rightarrow> fmt_flags \<Rightarrow> int \<Rightarrow> int \<Rightarrow> arg list \<Rightarrow> nat \<Rightarrow>
   (int list \<times> (int \<times> int) list \<times> int list \<times> arg list) outcome" where
  "convert cs f width precision as pos =
     (let c = first cs in
      if c = 99 then obind (va_int as) (\<lambda>(n, as). Done (conv_c f width n, [], tl cs, as))
      else if c = 115 then obind (va_str as) (\<lambda>(s, as). Done (conv_s f width precision s, [], tl cs, as))
      else if c = 111 then
        obind (va_int as) (\<lambda>(n, as). obind (num_out n 8 width precision f) (\<lambda>out. Done (out, [], tl cs, as)))
      else if c = 112 then
        obind (va_ptr as) (\<lambda>(n, as).
        obind (num_out n 16 (if width = -1 then 8 else width) precision
                 (if width = -1 then f\<lparr>ZEROPAD := True\<rparr> else f)) (\<lambda>out. Done (out, [], tl cs, as)))
      else if c = 120 then
        obind (va_int as) (\<lambda>(n, as). obind (num_out n 16 width precision (f\<lparr>SMALL := True\<rparr>)) (\<lambda>out. Done (out, [], tl cs, as)))
      else if c = 88 then
        obind (va_int as) (\<lambda>(n, as). obind (num_out n 16 width precision f) (\<lambda>out. Done (out, [], tl cs, as)))
      else if c = 100 \<or> c = 105 then
        obind (va_int as) (\<lambda>(n, as). obind (num_out n 10 width precision (f\<lparr>SIGN := True\<rparr>)) (\<lambda>out. Done (out, [], tl cs, as)))
      else if c = 117 then
        obind (va_int as) (\<lambda>(n, as). obind (num_out n 10 width precision f) (\<lambda>out. Done (out, [], tl cs, as)))
      else if c = 110 then obind (va_ptr as) (\<lambda>(p, as). Done ([], [(p, int pos)], tl cs, as))
      else Done ((if c \<noteq> 37 then [37] else []) @ (if cs \<noteq> [] then [c] else []), [], tl cs, as))"

lemma skip_atoi_length: "skip_atoi cs i = (n, r) \<Longrightarrow> length r \<le> length cs"
  by (induction cs i rule: skip_atoi.induct) (auto split: if_splits)

lemma get_flags_length: "get_flags cs f = (g, r) \<Longrightarrow> length r \<le> length cs"
  by (induction cs f rule: get_flags.induct) (auto split: if_splits)

lemma get_width_length: "get_width cs f as = Done (n, g, r, bs) \<Longrightarrow> length r \<le> length cs"
  by (auto simp: get_width_def outcome_simps dest: skip_atoi_length split: if_splits prod.splits)

lemma get_precision_length: "get_precision cs as = Done (n, r, bs) \<Longrightarrow> length r \<le> length cs"
  by (cases cs) (auto simp: get_precision_def outcome_simps Let_def dest: skip_atoi_length split: if_splits prod.splits)

lemma convert_length: "convert cs f w p as k = Done (out, ws, r, bs) \<Longrightarrow> length r \<le> length cs"
  by (cases cs) (auto simp: convert_def outcome_simps Let_def split: if_splits)

lemma get_qualifier_length: "length (get_qualifier cs) \<le> length cs"
  by (cases cs) (auto simp: get_qualifier_def)

function vs_loop :: "int list \<Rightarrow> arg list \<Rightarrow> int list \<Rightarrow> (int \<times> int) list \<Rightarrow> (int list \<times> (int \<times> int) list) outcome" where
  "vs_loop [] as out ws = Done (out, ws)"
| "vs_loop (c # cs) as out ws =
     (if c \<noteq> 37 then vs_loop cs as (out @ [c]) ws
      else
        obind (Done (get_flags cs no_flags)) (\<lambda>(f, cs1).
        obind (get_width cs1 f as) (\<lambda>(width, f, cs2, as).
        obind (get_precision cs2 as) (\<lambda>(precision, cs3, as).
        obind (convert (get_qualifier cs3) f width precision as (length out)) (\<lambda>(o1, w1, cs4, as).
        vs_loop cs4 as (out @ o1) (ws @ w1))))))"
  by pat_completeness auto
termination
  by (relation "measure (\<lambda>(cs, as, out, ws). length cs)")
    (auto dest!: get_flags_length get_width_length get_precision_length convert_length
      intro: le_less_trans le_trans [OF _ get_qualifier_length] order_trans)

definition vsprintf :: "int list \<Rightarrow> arg list \<Rightarrow> (int list \<times> (int \<times> int) list) outcome" where
  "vsprintf fmt args = vs_loop fmt args [] []"


section \<open>Digits\<close>

definition dec_value :: "int list \<Rightarrow> int \<Rightarrow> int" where
  "dec_value ds i = foldl (\<lambda>i c. i * 10 + c - 48) i ds"

lemma dec_value_mono: "i \<ge> 0 \<Longrightarrow> \<forall>c\<in>set ds. is_digit c \<Longrightarrow> i \<le> dec_value ds i"
proof (induction ds arbitrary: i)
  case (Cons c ds)
  have "i \<le> i * 10 + c - 48" "0 \<le> i * 10 + c - 48" using Cons.prems by (auto simp: is_digit_def)
  then show ?case using Cons.IH [of "i * 10 + c - 48"] Cons.prems by (simp add: dec_value_def)
qed (simp add: dec_value_def)

text \<open>\<open>skip_atoi\<close> reads a string of digits up to its end, while the value fits an \<open>int\<close>.\<close>

lemma skip_atoi_digits:
  "i \<ge> 0 \<Longrightarrow> \<forall>c\<in>set ds. is_digit c \<Longrightarrow> dec_value ds i < 2147483648 \<Longrightarrow> skip_atoi ds i = (dec_value ds i, [])"
proof (induction ds arbitrary: i)
  case (Cons c ds)
  let ?j = "i * 10 + c - 48"
  have v: "dec_value (c # ds) i = dec_value ds ?j" by (simp add: dec_value_def)
  have j: "0 \<le> ?j" using Cons.prems by (auto simp: is_digit_def)
  then have "?j < 2147483648" using dec_value_mono [of ?j ds] Cons.prems v by auto
  then have "s32 ?j = ?j" using j by (simp add: s32_id)
  then show ?case using Cons.IH [of ?j] Cons.prems j v by simp
qed (simp add: dec_value_def)

lemma num_digits_small: "base \<ge> 2 \<Longrightarrow> \<forall>v\<in>set (num_digits num base). v < base"
proof (induction num base rule: num_digits.induct)
  case (1 num base)
  then show ?case by (cases "num = 0") (simp_all add: num_digits.simps [of num] num_digits.simps [of 0])
qed

lemma num_digits_value:
  "dec_value (rev (map (\<lambda>v. digit_of b (int v)) (num_digits num 10))) 0 = int num"
proof (induction num rule: less_induct)
  case (less num)
  show ?case
  proof (cases "num = 0")
    case True
    then show ?thesis by (simp add: num_digits.simps dec_value_def)
  next
    case False
    have "int (num mod 10) < 10" by simp
    then have "digit_of b (int (num mod 10)) = 48 + int (num mod 10)" by (simp add: digit_of_def)
    moreover have "int (num div 10) * 10 + int (num mod 10) = int num" by presburger
    ultimately show ?thesis using False less.IH [of "num div 10"]
      by (simp add: num_digits.simps [of num] dec_value_def)
  qed
qed

lemma num_digits_are_digits:
  "c \<in> set (rev (map (\<lambda>v. digit_of b (int v)) (num_digits num 10))) \<Longrightarrow> is_digit c"
  using num_digits_small [of 10 num] by (fastforce simp: digit_of_def is_digit_def)

lemma skip_atoi_num_digits:
  assumes "int num < 2147483648"
  shows "skip_atoi (rev (map (\<lambda>v. digit_of b (int v)) (num_digits num 10))) 0 = (int num, [])"
  using skip_atoi_digits [of 0 "rev (map (\<lambda>v. digit_of b (int v)) (num_digits num 10))"]
    num_digits_are_digits [of _ b num] assms by (simp only: num_digits_value) auto

section \<open>Properties\<close>

text \<open>The sign, the prefix of \<open>#\<close> and the digits of a number.\<close>

definition sign_of :: "int \<Rightarrow> fmt_flags \<Rightarrow> int list" where
  "sign_of num ty = (if SIGN ty \<and> num < 0 then [45] else if PLUS ty then [43] else if SPACE ty then [32] else [])"

definition prefix_of :: "int \<Rightarrow> fmt_flags \<Rightarrow> int list" where
  "prefix_of base ty =
     (if \<not> SPECIAL ty then [] else if base = 8 then [48]
      else if base = 16 then [48, if SMALL ty then 120 else 88] else [])"

definition digits_of :: "int \<Rightarrow> int \<Rightarrow> fmt_flags \<Rightarrow> int list" where
  "digits_of num base ty =
     (if num = 0 then [48]
      else rev (map (\<lambda>v. digit_of (SMALL ty) (int v))
        (num_digits (nat (u32 (if SIGN ty \<and> num < 0 then - num else num))) (nat base))))"

definition pad_of :: "int \<Rightarrow> int \<Rightarrow> int \<Rightarrow> int \<Rightarrow> fmt_flags \<Rightarrow> nat" where
  "pad_of num base len precision ty =
     nat (len - int (length (sign_of num ty)) - int (length (prefix_of base ty))
       - max precision (int (length (digits_of num base ty))))"

lemma rounds_none [simp]: "rounds (after l) = 0" "rounds (after (after l)) = 0"
  by (simp_all add: rounds_def after_def)

lemma number_parts:
  assumes "2 \<le> base" "base \<le> 36" "-2147483648 < num" "num < 2147483648"
  shows "number num base len precision ty =
    (let pad = pad_of num base len precision ty; ds = digits_of num base ty in Some
     ((if ZEROPAD ty \<or> LEFT ty then [] else replicate pad 32) @ sign_of num ty @ prefix_of base ty @
      (if ZEROPAD ty \<and> \<not> LEFT ty then replicate pad 48 else []) @
      replicate (nat (precision - int (length ds))) 48 @ ds @ (if LEFT ty then replicate pad 32 else [])))"
proof -
  define tmp where "tmp = rev (digits_of num base ty)"
  have t: "(if (if SIGN ty \<and> num < 0 then s32 (- num) else num) = 0 then [48]
      else map (\<lambda>v. digit_of (SMALL ty) (int v))
        (num_digits (nat (u32 (if SIGN ty \<and> num < 0 then s32 (- num) else num))) (nat base))) = tmp"
    using assms by (simp add: tmp_def digits_of_def s32_id)
  have d: "digits_of num base ty = rev tmp" by (simp add: tmp_def)
  have w: "(if SPECIAL ty then if base = 16 then x - 2 else if base = 8 then x - 1 else x else x) =
      x - int (length (prefix_of base ty))" for x by (simp add: prefix_of_def)
  have p: "(if SPECIAL ty then if base = 8 then [48] else if base = 16 then [48, if SMALL ty then 120 else 88] else [] else [])
      = prefix_of base ty" by (simp add: prefix_of_def)
  have m: "(if int (length tmp) > precision then int (length tmp) else precision) = max precision (int (length tmp))"
    by simp
  have z: "nat (max precision (int (length tmp)) - int (length tmp)) = nat (precision - int (length tmp))" by simp
  have sg: "(if (if SIGN ty \<and> num < 0 then 45 else if PLUS ty then 43 else if SPACE ty then 32 else 0) \<noteq> (0::int)
       then y - 1 else y) = y - int (length (sign_of num ty))" for y :: int by (simp add: sign_of_def)
  have so: "(if (if SIGN ty \<and> num < 0 then 45 else if PLUS ty then 43 else if SPACE ty then 32 else 0) \<noteq> (0::int)
       then [if SIGN ty \<and> num < 0 then 45 else if PLUS ty then 43 else if SPACE ty then 32 else 0] else []) = sign_of num ty"
    by (simp add: sign_of_def)
  have pf: "pad_of num base len precision ty = rounds (len - int (length (sign_of num ty)) -
      int (length (prefix_of base ty)) - max precision (int (length tmp)))"
    by (simp add: pad_of_def rounds_def d)
  have b: "\<not> (base < 2 \<or> base > 36)" using assms by simp
  show ?thesis
  proof (cases "LEFT ty")
    case True
    show ?thesis using True b unfolding number_def Let_def
      by (simp add: t w p m z sg so d pad_of_def rounds_def after_def cong: if_cong split del: if_split)
  next
    case False
    show ?thesis using False b unfolding number_def Let_def
      by (cases "ZEROPAD ty")
        (simp_all add: t w p m z sg so d pf cong: if_cong split del: if_split)
  qed
qed

text \<open>
  For every number, base, precision and set of flags, \<open>number\<close> writes exactly as many characters
  as the field is wide, and when the sign, the prefix and the digits (padded with zeros up to the
  precision) need more than that, exactly those.
\<close>

theorem number_fills_field:
  assumes "2 \<le> base" "base \<le> 36" "-2147483648 < num" "num < 2147483648"
  shows "\<exists>out. number num base len precision ty = Some out \<and>
    int (length out) = max len (int (length (sign_of num ty)) + int (length (prefix_of base ty)) +
      max precision (int (length (digits_of num base ty))))"
  unfolding number_parts [OF assms] Let_def by (simp add: pad_of_def max_def)

theorem number_fills_field_witness:
  "\<exists>out. number (-7) 10 6 3 (no_flags\<lparr>SIGN := True\<rparr>) = Some out \<and>
    int (length out) = max 6 (int (length (sign_of (-7) (no_flags\<lparr>SIGN := True\<rparr>))) +
      int (length (prefix_of 10 (no_flags\<lparr>SIGN := True\<rparr>))) +
      max 3 (int (length (digits_of (-7) 10 (no_flags\<lparr>SIGN := True\<rparr>)))))"
  by (rule number_fills_field) simp_all

text \<open>
  C24: A number printed with \<open>%d\<close> reads back: the text is a minus sign for a negative number and then
  decimal digits that \<open>skip_atoi\<close> turns into its magnitude, up to their end.
\<close>

theorem vsprintf_decimal_roundtrip:
  assumes "-2147483648 < n" "n < 2147483648"
  shows "\<exists>ds. vsprintf [37, 100] [Int_arg n] = Done ((if n < 0 then [45] else []) @ ds, []) \<and>
    ds \<noteq> [] \<and> skip_atoi ds 0 = (\<bar>n\<bar>, [])"
proof -
  let ?ds = "if n = 0 then [48] else rev (map (\<lambda>v. digit_of False (int v)) (num_digits (nat \<bar>n\<bar>) 10))"
  have run: "vsprintf [37, 100] [Int_arg n] = Done ((if n < 0 then [45] else []) @ ?ds, [])"
    using assms
    by (auto simp: vsprintf_def get_width_def get_precision_def first_def is_digit_def get_qualifier_def
        convert_def num_out_def number_def no_flags_def Let_def rounds_def after_def s32_id u32_id)
  have "?ds \<noteq> []" by (simp add: num_digits.simps)
  moreover have "skip_atoi ?ds 0 = (\<bar>n\<bar>, [])"
    using assms skip_atoi_num_digits [of "nat \<bar>n\<bar>" False] by (simp add: is_digit_def s32_id)
  ultimately show ?thesis using run by blast
qed

theorem vsprintf_decimal_roundtrip_witness:
  "\<exists>ds. vsprintf [37, 100] [Int_arg (-1991)] = Done ((if (-1991::int) < 0 then [45] else []) @ ds, []) \<and>
    ds \<noteq> [] \<and> skip_atoi ds 0 = (\<bar>-1991\<bar>, [])"
  by (rule vsprintf_decimal_roundtrip) simp_all

end
