(* ===== verification/Printk.thy ===== *)
theory Printk
  imports Vsprintf TtyProps
begin

text \<open>
  Messages of the kernel, src/kernel/printk.c and src/kernel/panic.c: the text is formatted into a static buffer of
  1024 bytes, whose size \<open>vsprintf\<close> does not know, and written to the first terminal.
\<close>

definition printk :: "nat \<Rightarrow> int list \<Rightarrow> arg list \<Rightarrow> tty_sys \<Rightarrow> (int \<times> tty_sys) outcome" where
  "printk f fmt args s =
     obind (vsprintf fmt args) (\<lambda>(out, _).
     if length out + 1 > 1024 then Oob
     else obind (tty_write f 0 out s) (\<lambda>(_, _, s). Done (int (length out), s)))"

text \<open>\<open>"Kernel panic: %s\\n\\r"\<close>; after it the kernel loops for ever.\<close>

definition panic_fmt :: "int list" where
  "panic_fmt = [75, 101, 114, 110, 101, 108, 32, 112, 97, 110, 105, 99, 58, 32, 37, 115, 10, 13]"

definition panic_message :: "nat \<Rightarrow> int list \<Rightarrow> tty_sys \<Rightarrow> tty_sys outcome" where
  "panic_message f msg s = obind (printk f panic_fmt [Str_arg msg] s) (\<lambda>(_, s). Done s)"

text \<open>A message without a conversion reaches the console as it is.\<close>

lemma vsprintf_plain: "37 \<notin> set fmt \<Longrightarrow> vs_loop fmt args out ws = Done (out @ fmt, ws)"
  by (induction fmt arbitrary: out) auto

lemma printk_plain: "37 \<notin> set fmt \<Longrightarrow> length fmt < 1024 \<Longrightarrow>
    printk f fmt [] s = obind (tty_write f 0 fmt s) (\<lambda>(_, _, s). Done (int (length fmt), s))"
  by (simp add: printk_def vsprintf_def vsprintf_plain)

lemma printk_overrun: "37 \<notin> set fmt \<Longrightarrow> 1024 \<le> length fmt \<Longrightarrow> printk f fmt [] s = Oob"
  by (simp add: printk_def vsprintf_def vsprintf_plain)

end
