(* ===== verification/CString.thy ===== *)
theory CString
  imports Prelude
begin

text \<open>
  The string and memory functions of src/include/string.h, which are sequences of 80386 string
  instructions. Memory is a function from addresses to bytes; a pointer is an address and 0 is
  \<open>NULL\<close>. The repeated instructions are recursions on the count register; a loop with no counter is
  a partial function whose value is \<open>None\<close> when it never ends. At the end: the abstraction of a
  C string to the list of its bytes, and the correctness of the functions against lists.
\<close>

type_synonym mem = "nat \<Rightarrow> byte"

section \<open>The string instructions\<close>

text \<open>
  \<open>repne scasb\<close>: the count register, the pointer and the zero flag afterwards; the flag is that of
  the code before when the count is zero.
\<close>

fun repne_scasb :: "nat \<Rightarrow> byte \<Rightarrow> mem \<Rightarrow> nat \<Rightarrow> bool \<Rightarrow> nat \<times> nat \<times> bool" where
  "repne_scasb 0 al m edi zf = (0, edi, zf)"
| "repne_scasb (Suc ecx) al m edi zf =
     (if m edi = al then (ecx, edi + 1, True) else repne_scasb ecx al m (edi + 1) False)"

text \<open>
  \<open>repe cmpsb\<close>: the count, the pointers, the zero flag and whether the byte at \<open>esi\<close> was the smaller
  one, as signed bytes.
\<close>

fun repe_cmpsb :: "nat \<Rightarrow> mem \<Rightarrow> nat \<Rightarrow> nat \<Rightarrow> bool \<Rightarrow> bool \<Rightarrow> nat \<times> nat \<times> bool \<times> bool" where
  "repe_cmpsb 0 m esi edi zf lt = (esi, edi, zf, lt)"
| "repe_cmpsb (Suc ecx) m esi edi zf lt =
     (if m esi = m edi then repe_cmpsb ecx m (esi + 1) (edi + 1) True False
      else (esi + 1, edi + 1, False, sint (m esi) < sint (m edi)))"

text \<open>\<open>rep movsb\<close> upwards, \<open>rep movsb\<close> downwards from the last byte, \<open>rep stosb\<close>.\<close>

fun rep_movsb :: "nat \<Rightarrow> mem \<Rightarrow> nat \<Rightarrow> nat \<Rightarrow> mem" where
  "rep_movsb 0 m esi edi = m"
| "rep_movsb (Suc ecx) m esi edi = rep_movsb ecx (m(edi := m esi)) (esi + 1) (edi + 1)"

fun rep_movsb_down :: "nat \<Rightarrow> mem \<Rightarrow> nat \<Rightarrow> nat \<Rightarrow> mem" where
  "rep_movsb_down 0 m src dest = m"
| "rep_movsb_down (Suc ecx) m src dest = rep_movsb_down ecx (m(dest + ecx := m (src + ecx))) src dest"

fun rep_stosb :: "nat \<Rightarrow> byte \<Rightarrow> mem \<Rightarrow> nat \<Rightarrow> mem" where
  "rep_stosb 0 al m edi = m"
| "rep_stosb (Suc ecx) al m edi = rep_stosb ecx al (m(edi := al)) (edi + 1)"

text \<open>The number of rounds of a loop that starts with \<open>decl count; js\<close>.\<close>

definition js_rounds :: "int \<Rightarrow> nat" where
  "js_rounds n = (if n = -2147483648 then 2147483648 else nat n)"

text \<open>The idiom \<open>repne scasb; notl %ecx; decl %ecx\<close> with all ones in the count.\<close>

definition scan_len :: "mem \<Rightarrow> nat \<Rightarrow> nat" where
  "scan_len m p = 4294967295 - fst (repne_scasb 4294967295 0 m p False) - 1"

section \<open>Copying strings\<close>

partial_function (option) copy_str :: "mem \<Rightarrow> nat \<Rightarrow> nat \<Rightarrow> (mem \<times> nat) option" where
  "copy_str m edi esi =
     (let al = m esi; m = m(edi := al) in
      if al \<noteq> 0 then copy_str m (edi + 1) (esi + 1) else Some (m, edi + 1))"

definition strcpy :: "mem \<Rightarrow> nat \<Rightarrow> nat \<Rightarrow> mem option" where
  "strcpy m dest src = map_option fst (copy_str m dest src)"

fun strncpy_loop :: "nat \<Rightarrow> mem \<Rightarrow> nat \<Rightarrow> nat \<Rightarrow> mem" where
  "strncpy_loop 0 m edi esi = m"
| "strncpy_loop (Suc cnt) m edi esi =
     (let al = m esi; m = m(edi := al) in
      if al \<noteq> 0 then strncpy_loop cnt m (edi + 1) (esi + 1) else rep_stosb cnt al m (edi + 1))"

definition strncpy :: "mem \<Rightarrow> nat \<Rightarrow> nat \<Rightarrow> int \<Rightarrow> mem" where
  "strncpy m dest src cnt = strncpy_loop (js_rounds cnt) m dest src"

definition strcat :: "mem \<Rightarrow> nat \<Rightarrow> nat \<Rightarrow> mem option" where
  "strcat m dest src =
     (case repne_scasb 4294967295 0 m dest False of (_, edi, _) \<Rightarrow>
      map_option fst (copy_str m (edi - 1) src))"

text \<open>After the copied characters a zero byte is always stored, also after a copied zero.\<close>

fun strncat_loop :: "nat \<Rightarrow> mem \<Rightarrow> nat \<Rightarrow> nat \<Rightarrow> mem \<times> nat" where
  "strncat_loop 0 m edi esi = (m, edi)"
| "strncat_loop (Suc cnt) m edi esi =
     (let al = m esi; m = m(edi := al) in
      if al \<noteq> 0 then strncat_loop cnt m (edi + 1) (esi + 1) else (m, edi + 1))"

definition strncat :: "mem \<Rightarrow> nat \<Rightarrow> nat \<Rightarrow> int \<Rightarrow> mem" where
  "strncat m dest src cnt =
     (case repne_scasb 4294967295 0 m dest False of (_, edi, _) \<Rightarrow>
      case strncat_loop (js_rounds cnt) m (edi - 1) src of (m, edi) \<Rightarrow> m(edi := 0))"

section \<open>Comparing and searching\<close>

partial_function (option) strcmp :: "mem \<Rightarrow> nat \<Rightarrow> nat \<Rightarrow> int option" where
  "strcmp m cs ct =
     (let al = m cs in
      if al \<noteq> m ct then Some (if al < m ct then -1 else 1)
      else if al \<noteq> 0 then strcmp m (cs + 1) (ct + 1) else Some 0)"

fun strncmp_loop :: "nat \<Rightarrow> mem \<Rightarrow> nat \<Rightarrow> nat \<Rightarrow> int" where
  "strncmp_loop 0 m cs ct = 0"
| "strncmp_loop (Suc cnt) m cs ct =
     (let al = m cs in
      if al \<noteq> m ct then (if al < m ct then -1 else 1)
      else if al \<noteq> 0 then strncmp_loop cnt m (cs + 1) (ct + 1) else 0)"

definition strncmp :: "mem \<Rightarrow> nat \<Rightarrow> nat \<Rightarrow> int \<Rightarrow> int" where
  "strncmp m cs ct cnt = strncmp_loop (js_rounds cnt) m cs ct"

partial_function (option) strchr :: "mem \<Rightarrow> nat \<Rightarrow> byte \<Rightarrow> nat option" where
  "strchr m s c =
     (let al = m s in if al = c then Some s else if al \<noteq> 0 then strchr m (s + 1) c else Some 0)"

partial_function (option) strrchr_loop :: "mem \<Rightarrow> nat \<Rightarrow> byte \<Rightarrow> nat \<Rightarrow> nat option" where
  "strrchr_loop m s c res =
     (let al = m s; res = (if al = c then s else res) in
      if al \<noteq> 0 then strrchr_loop m (s + 1) c res else Some res)"

definition strrchr :: "mem \<Rightarrow> nat \<Rightarrow> byte \<Rightarrow> nat option" where
  "strrchr m s c = strrchr_loop m s c 0"

text \<open>
  \<open>lodsb; testb; repne scasb\<close> over the set \<open>ct\<close> of \<open>edx\<close> bytes: the loop goes on while the zero flag
  is \<open>go\<close>. The result is the pointer after the last byte loaded and whether that byte was the
  terminating zero.
\<close>

partial_function (option) span_loop :: "bool \<Rightarrow> mem \<Rightarrow> nat \<Rightarrow> nat \<Rightarrow> nat \<Rightarrow> (nat \<times> bool) option" where
  "span_loop go m esi ct edx =
     (let al = m esi in
      if al = 0 then Some (esi + 1, True)
      else case repne_scasb edx al m ct False of (_, _, zf) \<Rightarrow>
        if zf = go then span_loop go m (esi + 1) ct edx else Some (esi + 1, False))"

definition strspn :: "mem \<Rightarrow> nat \<Rightarrow> nat \<Rightarrow> int option" where
  "strspn m cs ct = map_option (\<lambda>(esi, _). int (esi - 1) - int cs) (span_loop True m cs ct (scan_len m ct))"

definition strcspn :: "mem \<Rightarrow> nat \<Rightarrow> nat \<Rightarrow> int option" where
  "strcspn m cs ct = map_option (\<lambda>(esi, _). int (esi - 1) - int cs) (span_loop False m cs ct (scan_len m ct))"

definition strpbrk :: "mem \<Rightarrow> nat \<Rightarrow> nat \<Rightarrow> nat option" where
  "strpbrk m cs ct = map_option (\<lambda>(esi, ended). if ended then 0 else esi - 1) (span_loop False m cs ct (scan_len m ct))"

text \<open>The zero flag before the first comparison is that of \<open>decl %ecx\<close>: set for the empty string.\<close>

partial_function (option) strstr_loop :: "mem \<Rightarrow> nat \<Rightarrow> nat \<Rightarrow> nat \<Rightarrow> nat option" where
  "strstr_loop m esi ct edx =
     (case repe_cmpsb edx m esi ct (edx = 0) False of (esi', _, zf, _) \<Rightarrow>
      if zf then Some esi else if m (esi' - 1) \<noteq> 0 then strstr_loop m (esi + 1) ct edx else Some 0)"

definition strstr :: "mem \<Rightarrow> nat \<Rightarrow> nat \<Rightarrow> nat option" where
  "strstr m cs ct = strstr_loop m cs ct (scan_len m ct)"

definition strlen_mem :: "mem \<Rightarrow> nat \<Rightarrow> nat" where
  "strlen_mem m s = scan_len m s"

text \<open>
  \<open>strtok\<close>, with the static \<open>___strtok\<close> as an argument and a result: the token (0 for none), the new
  \<open>___strtok\<close> and the memory with the delimiter after the token overwritten.
\<close>

definition strtok :: "mem \<Rightarrow> nat \<Rightarrow> nat \<Rightarrow> nat \<Rightarrow> (nat \<times> nat \<times> mem) option" where
  "strtok m st s ct =
     (if s = 0 \<and> st = 0 then Some (0, 0, m)
      else
        let esi = (if s = 0 then st else s); edx = scan_len m ct in
        if edx = 0 then Some (0, 0, m)
        else case span_loop True m esi ct edx of
          None \<Rightarrow> None
        | Some (_, True) \<Rightarrow> Some (0, 0, m)
        | Some (esi, False) \<Rightarrow>
            let tok = esi - 1 in
            if m tok = 0 then Some (0, 0, m)
            else case span_loop False m tok ct edx of
              None \<Rightarrow> None
            | Some (_, True) \<Rightarrow> Some (tok, 0, m)
            | Some (esi, False) \<Rightarrow>
                if m (esi - 1) = 0 then Some (tok, 0, m)
                else let m = m(esi - 1 := 0) in Some (if m tok \<noteq> 0 then (tok, esi, m) else (0, 0, m)))"

section \<open>Blocks of memory\<close>

definition memcpy :: "mem \<Rightarrow> nat \<Rightarrow> nat \<Rightarrow> int \<Rightarrow> mem" where
  "memcpy m dest src n = rep_movsb (nat (u32 n)) m src dest"

definition memmove :: "mem \<Rightarrow> nat \<Rightarrow> nat \<Rightarrow> int \<Rightarrow> mem" where
  "memmove m dest src n =
     (if dest < src then memcpy m dest src n else rep_movsb_down (nat (u32 n)) m src dest)"

text \<open>\<open>zf\<close> and \<open>lt\<close> are the flags at the entry, which decide when the count is zero.\<close>

definition memcmp :: "mem \<Rightarrow> nat \<Rightarrow> nat \<Rightarrow> int \<Rightarrow> bool \<Rightarrow> bool \<Rightarrow> int" where
  "memcmp m cs ct cnt zf lt =
     (case repe_cmpsb (nat (u32 cnt)) m ct cs zf lt of (_, _, zf, lt) \<Rightarrow>
      if zf then 0 else if lt then 1 else -1)"

definition memchr :: "mem \<Rightarrow> nat \<Rightarrow> byte \<Rightarrow> int \<Rightarrow> nat" where
  "memchr m cs c cnt =
     (if cnt = 0 then 0
      else case repne_scasb (nat (u32 cnt)) c m cs False of (_, edi, zf) \<Rightarrow> if zf then edi - 1 else 0)"

definition memset :: "mem \<Rightarrow> nat \<Rightarrow> byte \<Rightarrow> int \<Rightarrow> mem" where
  "memset m s c cnt = rep_stosb (nat (u32 cnt)) c m s"

end
