(* ===== verification/CStringProps.thy ===== *)
theory CStringProps
  imports CString "HOL-Library.Sublist"
begin

text \<open>
  The functions of src/include/string.h against lists of bytes: what a C string in memory is, the
  effect of the string instructions on it, and the correctness of copying, comparing, searching and
  splitting, overlapping moves included.
\<close>

section \<open>Strings in memory\<close>

fun cstr :: "mem \<Rightarrow> nat \<Rightarrow> byte list \<Rightarrow> bool" where
  "cstr m p [] = (m p = 0)"
| "cstr m p (x # xs) = (x \<noteq> 0 \<and> m p = x \<and> cstr m (p + 1) xs)"

fun store :: "mem \<Rightarrow> nat \<Rightarrow> byte list \<Rightarrow> mem" where
  "store m p [] = m"
| "store m p (x # xs) = store (m(p := x)) (p + 1) xs"

lemma store_apply: "store m p xs a = (if p \<le> a \<and> a < p + length xs then xs ! (a - p) else m a)"
proof (induction xs arbitrary: m p)
  case (Cons x xs)
  show ?case by (simp only: store.simps Cons.IH) (auto simp: nth_Cons')
qed auto

lemma cstr_cong: "(\<And>a. p \<le> a \<Longrightarrow> a \<le> p + length xs \<Longrightarrow> m a = m' a) \<Longrightarrow> cstr m p xs = cstr m' p xs"
  by (induction m p xs rule: cstr.induct) auto

lemma cstr_upd: "a < p \<or> p + length xs < a \<Longrightarrow> cstr (m(a := v)) p xs = cstr m p xs"
  by (rule cstr_cong) auto

lemma cstr_nth: "cstr m p xs \<longleftrightarrow> 0 \<notin> set xs \<and> (\<forall>i<length xs. m (p + i) = xs ! i) \<and> m (p + length xs) = 0"
  by (induction m p xs rule: cstr.induct) (auto simp: nth_Cons' less_Suc_eq_0_disj)

lemma cstr_append: "cstr m p (xs @ ys) \<longleftrightarrow> 0 \<notin> set xs \<and> (\<forall>i<length xs. m (p + i) = xs ! i) \<and> cstr m (p + length xs) ys"
proof (induction xs arbitrary: p)
  case (Cons x xs)
  show ?case using Cons.IH [of "p + 1"] by (auto simp: nth_Cons' less_Suc_eq_0_disj)
qed simp

lemma cstr_drop: "cstr m p xs \<Longrightarrow> n \<le> length xs \<Longrightarrow> cstr m (p + n) (drop n xs)"
  using cstr_append [of m p "take n xs" "drop n xs"] by simp

section \<open>The string instructions on strings\<close>

lemma scan_cstr:
  "cstr m p xs \<Longrightarrow> length xs < n \<Longrightarrow>
   repne_scasb n 0 m p zf = (n - length xs - 1, p + length xs + 1, True)"
proof (induction xs arbitrary: n p zf)
  case Nil
  then show ?case by (cases n) auto
next
  case (Cons x xs)
  then show ?case by (cases n) auto
qed

lemma scan_len_cstr: "cstr m p xs \<Longrightarrow> length xs < 4294967295 \<Longrightarrow> scan_len m p = length xs"
  by (simp add: scan_len_def scan_cstr)

lemma scan_member:
  "(\<forall>i<length ds. m (p + i) = ds ! i) \<Longrightarrow>
   snd (snd (repne_scasb (length ds) al m p False)) \<longleftrightarrow> al \<in> set ds"
proof (induction ds arbitrary: p)
  case (Cons d ds)
  have "\<forall>i<length ds. m (Suc p + i) = ds ! i" "m p = d"
    using Cons.prems by fastforce+
  then show ?case using Cons.IH [of "Suc p"] by auto
qed simp

lemma copy_str_cstr:
  "cstr m s xs \<Longrightarrow> d \<le> s \<or> s + length xs < d \<Longrightarrow>
   copy_str m d s = Some (store m d (xs @ [0]), d + length xs + 1)"
proof (induction xs arbitrary: m d s)
  case Nil
  then show ?case by (subst copy_str.simps) (simp add: Let_def fun_upd_def)
next
  case (Cons x xs)
  have "cstr (m(d := x)) (s + 1) xs" using Cons.prems by (auto simp: cstr_upd)
  then have "copy_str (m(d := x)) (d + 1) (s + 1) = Some (store (m(d := x)) (d + 1) (xs @ [0]), d + 1 + length xs + 1)"
    by (rule Cons.IH) (use Cons.prems in auto)
  moreover have "copy_str m d s = copy_str (m(d := x)) (d + 1) (s + 1)"
    using Cons.prems by (subst copy_str.simps) (simp add: Let_def)
  ultimately show ?case by simp
qed

lemma span_cstr:
  assumes "cstr m ct ds"
  shows "cstr m p xs \<Longrightarrow> span_loop go m p ct (length ds) =
    Some (let n = length (takeWhile (\<lambda>x. (x \<in> set ds) = go) xs) in (p + n + 1, n = length xs))"
proof (induction xs arbitrary: p)
  case Nil
  then show ?case by (subst span_loop.simps) simp
next
  case (Cons x xs)
  have "snd (snd (repne_scasb (length ds) x m ct False)) \<longleftrightarrow> x \<in> set ds"
    using assms by (intro scan_member) (simp add: cstr_nth)
  moreover obtain a b c where "repne_scasb (length ds) x m ct False = (a, b, c)" by (metis prod_cases3)
  ultimately show ?case using Cons by (subst span_loop.simps) (auto simp: Let_def)
qed

text \<open>
  The comparison of the searched string with the bytes at \<open>p\<close>: whether they agree, and otherwise
  whether the mismatch was at the end of the string at \<open>p\<close>.
\<close>

lemma cmpsb_prefix:
  "cstr m p xs \<Longrightarrow> cstr m q ys \<Longrightarrow> zf = (ys = []) \<or> zf \<Longrightarrow>
   case repe_cmpsb (length ys) m p q zf lt of (p', _, zf', _) \<Rightarrow>
     (zf' \<longleftrightarrow> prefix ys xs) \<and> (\<not> zf' \<longrightarrow> (m (p' - 1) = 0 \<longleftrightarrow> strict_prefix xs ys))"
proof (induction ys arbitrary: p q xs zf lt)
  case Nil
  then show ?case by auto
next
  case (Cons y ys)
  show ?case
  proof (cases xs)
    case Nil
    then show ?thesis using Cons.prems by simp
  next
    case (Cons x xs')
    have "cstr m (p + 1) xs'" "cstr m (q + 1) ys" using Cons Cons.prems by auto
    then show ?thesis using Cons Cons.prems Cons.IH [of "p + 1" xs' "q + 1" True False] by auto
  qed
qed


lemma rep_movsb_up: "dest \<le> src \<Longrightarrow>
  rep_movsb n m src dest = (\<lambda>a. if dest \<le> a \<and> a < dest + n then m (src + (a - dest)) else m a)"
proof (induction n arbitrary: m src dest)
  case (Suc n)
  have "rep_movsb (Suc n) m src dest =
      (\<lambda>a. if dest + 1 \<le> a \<and> a < dest + 1 + n then (m(dest := m src)) (src + 1 + (a - (dest + 1))) else (m(dest := m src)) a)"
    using Suc.prems by (simp only: rep_movsb.simps) (rule Suc.IH, simp)
  also have "\<dots> = (\<lambda>a. if dest \<le> a \<and> a < dest + Suc n then m (src + (a - dest)) else m a)"
  proof
    fix a
    have "dest + 1 \<le> a \<Longrightarrow> src + 1 + (a - (dest + 1)) = src + (a - dest)" by simp
    then show "(if dest + 1 \<le> a \<and> a < dest + 1 + n then (m(dest := m src)) (src + 1 + (a - (dest + 1))) else (m(dest := m src)) a) =
        (if dest \<le> a \<and> a < dest + Suc n then m (src + (a - dest)) else m a)"
      using Suc.prems by (cases "dest + 1 \<le> a") auto
  qed
  finally show ?case .
qed (auto simp: fun_eq_iff)

lemma rep_movsb_down: "src \<le> dest \<Longrightarrow>
  rep_movsb_down n m src dest = (\<lambda>a. if dest \<le> a \<and> a < dest + n then m (src + (a - dest)) else m a)"
proof (induction n arbitrary: m)
  case (Suc n)
  have "rep_movsb_down (Suc n) m src dest =
      (\<lambda>a. if dest \<le> a \<and> a < dest + n then (m(dest + n := m (src + n))) (src + (a - dest)) else (m(dest + n := m (src + n))) a)"
    using Suc.prems by (simp only: rep_movsb_down.simps Suc.IH)
  also have "\<dots> = (\<lambda>a. if dest \<le> a \<and> a < dest + Suc n then m (src + (a - dest)) else m a)"
    using Suc.prems by (auto simp: fun_eq_iff less_Suc_eq)
  finally show ?case .
qed (auto simp: fun_eq_iff)

section \<open>Properties\<close>

text \<open>
  \<open>memmove\<close> copies correctly however the two areas overlap: every byte of the destination gets the
  value its source byte had before the call, and no other byte of memory changes.
\<close>

theorem memmove_overlap:
  assumes "0 \<le> n" "n < 4294967296"
  shows "memmove m dest src n a =
    (if dest \<le> a \<and> int a < int dest + n then m (src + (a - dest)) else m a)"
proof -
  have u: "nat (u32 n) = nat n" using assms by (simp add: u32_id)
  have e: "a < dest + nat n \<longleftrightarrow> int a < int dest + n" using assms by linarith
  show ?thesis by (simp add: memmove_def memcpy_def u rep_movsb_up rep_movsb_down e)
qed

theorem memmove_overlap_witness:
  "memmove (\<lambda>a. of_nat a) 5 3 4 7 = (if (5::nat) \<le> 7 \<and> int 7 < int 5 + 4 then of_nat (3 + (7 - 5)) else of_nat 7)"
  by (rule memmove_overlap) simp_all

text \<open>
  \<open>strcat\<close> on two strings that do not overlap ends, leaves their concatenation at the destination
  and changes no byte of memory outside it.
\<close>

theorem strcat_appends:
  assumes "cstr m d xs" "cstr m s ys" "length xs < 4294967295"
    "s + length ys < d \<or> d + length xs + length ys < s"
  shows "\<exists>m'. strcat m d s = Some m' \<and> cstr m' d (xs @ ys) \<and>
    (\<forall>a. a < d \<or> d + length xs + length ys < a \<longrightarrow> m' a = m a)"
proof -
  let ?m = "store m (d + length xs) (ys @ [0])"
  have "strcat m d s = Some ?m"
    using assms copy_str_cstr [of m s ys "d + length xs"] by (auto simp: strcat_def scan_cstr)
  moreover have "cstr ?m d (xs @ ys)"
    using assms by (auto simp: cstr_nth store_apply nth_append)
  ultimately show ?thesis by (auto simp: store_apply)
qed

text \<open>A string laid out at an address of an otherwise zero memory.\<close>

lemma cstr_store: "0 \<notin> set xs \<Longrightarrow> cstr (store m p (xs @ [0])) p xs"
  by (auto simp: cstr_nth store_apply nth_append)

theorem strcat_appends_witness:
  "\<exists>m'. strcat (store (\<lambda>_. 0) 10 [1, 2, 0, 0, 0, 0, 7, 8, 0]) 10 16 = Some m' \<and> cstr m' 10 ([1, 2] @ [7, 8]) \<and>
    (\<forall>a. a < 10 \<or> 10 + length [1::byte, 2] + length [7::byte, 8] < a \<longrightarrow>
      m' a = store (\<lambda>_. 0) 10 [1, 2, 0, 0, 0, 0, 7, 8, 0] a)"
  by (rule strcat_appends) simp_all

text \<open>
  \<open>strcmp\<close> on two strings ends, and its sign is their lexicographic order as unsigned bytes: 0 for
  equal strings, -1 when the first is smaller, 1 otherwise.
\<close>

theorem strcmp_lexicographic:
  "cstr m p xs \<Longrightarrow> cstr m q ys \<Longrightarrow>
   strcmp m p q = Some (if xs = ys then 0 else if (xs, ys) \<in> lexord {(a, b). a < b} then -1 else 1)"
proof (induction xs arbitrary: p q ys)
  case Nil
  then show ?case by (cases ys) (auto simp: strcmp.simps [of m p] word_gt_0)
next
  case (Cons x xs)
  show ?case
  proof (cases ys)
    case Nil
    then show ?thesis using Cons.prems by (auto simp: strcmp.simps [of m p])
  next
    case (Cons y ys')
    then show ?thesis using Cons.prems Cons.IH [of "p + 1" "q + 1" ys'] by (auto simp: strcmp.simps [of m p] Let_def)
  qed
qed

theorem strcmp_lexicographic_witness:
  "strcmp (store (\<lambda>_. 0) 10 [1, 200, 0, 1, 3, 0]) 10 13 =
    Some (if [1, 200] = [1, 3 :: byte] then 0 else if ([1, 200], [1, 3 :: byte]) \<in> lexord {(a, b). a < b} then -1 else 1)"
  by (rule strcmp_lexicographic) simp_all

text \<open>
  \<open>strstr\<close> ends and returns the first occurrence of the second string in the first, and \<open>NULL\<close>
  exactly when there is none.
\<close>

theorem strstr_first_occurrence:
  assumes "cstr m p xs" "cstr m q ys" "length ys < 4294967295"
  shows "(\<exists>k\<le>length xs. strstr m p q = Some (p + k) \<and> prefix ys (drop k xs) \<and> (\<forall>j<k. \<not> prefix ys (drop j xs))) \<or>
    (strstr m p q = Some 0 \<and> \<not> sublist ys xs)"
  unfolding strstr_def scan_len_cstr [OF assms(2,3)]
  using assms(1)
proof (induction xs arbitrary: p)
  case Nil
  then show ?case using cmpsb_prefix [OF Nil assms(2), of "ys = []" False]
    by (subst (1 2) strstr_loop.simps) (cases ys; auto split: prod.splits)
next
  case (Cons x xs)
  note c = cmpsb_prefix [OF Cons.prems assms(2), of "ys = []" False]
  have IH: "(\<exists>k\<le>length xs. strstr_loop m (p + 1) q (length ys) = Some (p + 1 + k) \<and> prefix ys (drop k xs) \<and>
      (\<forall>j<k. \<not> prefix ys (drop j xs))) \<or> (strstr_loop m (p + 1) q (length ys) = Some 0 \<and> \<not> sublist ys xs)"
    using Cons.IH [of "p + 1"] Cons.prems by simp
  obtain p' q' zf lt where r: "repe_cmpsb (length ys) m p q (ys = []) False = (p', q', zf, lt)" by (metis prod_cases4)
  have z: "zf \<longleftrightarrow> prefix ys (x # xs)" and e: "\<not> zf \<Longrightarrow> m (p' - 1) = 0 \<longleftrightarrow> strict_prefix (x # xs) ys"
    using c r by auto
  consider "zf" | "\<not> zf" "m (p' - 1) = 0" | "\<not> zf" "m (p' - 1) \<noteq> 0" by blast
  then show ?case
  proof cases
    case 1
    then show ?thesis using z r by (subst (1 2) strstr_loop.simps) (auto intro!: exI [of _ 0])
  next
    case 2
    then have "strict_prefix (x # xs) ys" using e by simp
    then have "\<not> sublist ys (x # xs)" using prefix_length_less sublist_length_le by fastforce
    then show ?thesis using 2 r by (subst (1 2) strstr_loop.simps) auto
  next
    case 3
    then have s: "strstr_loop m p q (length ys) = strstr_loop m (p + 1) q (length ys)"
      using r by (subst strstr_loop.simps) simp
    have n: "\<not> prefix ys (x # xs)" using 3 z by simp
    show ?thesis using IH
    proof (elim disjE exE conjE)
      fix k assume "k \<le> length xs" "strstr_loop m (p + 1) q (length ys) = Some (p + 1 + k)" "prefix ys (drop k xs)"
        "\<forall>j<k. \<not> prefix ys (drop j xs)"
      then show ?thesis using s n by (intro disjI1 exI [of _ "Suc k"]) (auto simp: less_Suc_eq_0_disj)
    next
      assume "strstr_loop m (p + 1) q (length ys) = Some 0" "\<not> sublist ys xs"
      then show ?thesis using s n by (auto simp: sublist_Cons_right)
    qed
  qed
qed

theorem strstr_first_occurrence_witness:
  "(\<exists>k\<le>length [1, 2, 2, 3 :: byte]. strstr (store (\<lambda>_. 0) 10 [1, 2, 2, 3, 0, 2, 3, 0]) 10 15 = Some (10 + k) \<and>
      prefix [2, 3] (drop k [1, 2, 2, 3 :: byte]) \<and> (\<forall>j<k. \<not> prefix [2, 3] (drop j [1, 2, 2, 3 :: byte]))) \<or>
    (strstr (store (\<lambda>_. 0) 10 [1, 2, 2, 3, 0, 2, 3, 0]) 10 15 = Some 0 \<and> \<not> sublist [2, 3] [1, 2, 2, 3 :: byte])"
  by (rule strstr_first_occurrence) simp_all


lemma strncat_loop_short:
  "cstr m s ys \<Longrightarrow> d \<le> s \<or> s + length ys < d \<Longrightarrow> length ys < n \<Longrightarrow>
   strncat_loop n m d s = (store m d (ys @ [0]), d + length ys + 1)"
proof (induction ys arbitrary: n m d s)
  case Nil
  then show ?case by (cases n) (auto simp: Let_def)
next
  case (Cons y ys)
  obtain k where n: "n = Suc k" using Cons.prems by (cases n) auto
  have "cstr (m(d := y)) (s + 1) ys" using Cons.prems by (auto simp: cstr_upd)
  then have "strncat_loop k (m(d := y)) (d + 1) (s + 1) = (store (m(d := y)) (d + 1) (ys @ [0]), d + 1 + length ys + 1)"
    by (rule Cons.IH) (use Cons.prems n in auto)
  moreover have "strncat_loop n m d s = strncat_loop k (m(d := y)) (d + 1) (s + 1)"
    using Cons.prems n by (simp add: Let_def)
  ultimately show ?case by simp
qed

text \<open>
  \<open>strncat\<close> of a string that is shorter than the count stores one zero byte beyond the terminating
  zero of the result: the byte after the concatenated string is overwritten.
\<close>

theorem strncat_extra_zero:
  assumes "cstr m d xs" "cstr m s ys" "length xs < 4294967295" "int (length ys) < n"
    "s + length ys < d \<or> d + length xs + length ys < s"
  shows "strncat m d s n (d + length xs + length ys + 1) = 0 \<and> cstr (strncat m d s n) d (xs @ ys)"
proof -
  have j: "length ys < js_rounds n" using assms(4) by (simp add: js_rounds_def)
  have "strncat_loop (js_rounds n) m (d + length xs) s = (store m (d + length xs) (ys @ [0]), d + length xs + length ys + 1)"
    using assms by (intro strncat_loop_short j) auto
  then have "strncat m d s n = (store m (d + length xs) (ys @ [0]))(d + length xs + length ys + 1 := 0)"
    using assms by (simp add: strncat_def scan_cstr)
  then show ?thesis using assms by (auto simp: cstr_nth store_apply nth_append)
qed

section \<open>Splitting into tokens\<close>

text \<open>
  a call of \<open>strtok\<close> on a string skips its leading delimiters and returns the characters up to the
  next delimiter as a string of its own, remembering the rest for the next call; when only delimiters
  are left it returns \<open>NULL\<close> and remembers nothing.
\<close>

theorem strtok_splits:
  assumes "cstr m p xs" "cstr m ct ds" "p \<noteq> 0" "ds \<noteq> []" "length ds < 4294967295"
    "ct + length ds < p \<or> p + length xs < ct"
  shows "\<exists>tok st m'. strtok m st0 p ct = Some (tok, st, m') \<and>
    (let rest = dropWhile (\<lambda>x. x \<in> set ds) xs; word = takeWhile (\<lambda>x. x \<notin> set ds) rest;
         more = dropWhile (\<lambda>x. x \<notin> set ds) rest in
     if rest = [] then tok = 0 \<and> st = 0 \<and> m' = m
     else tok \<noteq> 0 \<and> cstr m' tok word \<and> cstr m' ct ds \<and>
       (if more = [] then st = 0 else st \<noteq> 0 \<and> cstr m' st (tl more)))"
proof -
  define rest where "rest = dropWhile (\<lambda>x. x \<in> set ds) xs"
  define word where "word = takeWhile (\<lambda>x. x \<notin> set ds) rest"
  define more where "more = dropWhile (\<lambda>x. x \<notin> set ds) rest"
  define k where "k = length (takeWhile (\<lambda>x. x \<in> set ds) xs)"
  note len = scan_len_cstr [OF assms(2,5)]
  have rk: "rest = drop k xs" "k \<le> length xs" by (simp_all add: rest_def k_def dropWhile_eq_drop length_takeWhile_le)
  have s1: "span_loop True m p ct (length ds) = Some (p + k + 1, k = length xs)"
    using span_cstr [OF assms(2,1), of True] by (simp add: k_def Let_def)
  have "\<exists>tok st m'. strtok m st0 p ct = Some (tok, st, m') \<and>
    (if rest = [] then tok = 0 \<and> st = 0 \<and> m' = m
     else tok \<noteq> 0 \<and> cstr m' tok word \<and> cstr m' ct ds \<and>
       (if more = [] then st = 0 else st \<noteq> 0 \<and> cstr m' st (tl more)))"
  proof (cases "rest = []")
    case True
    then have "k = length xs" using rk by simp
    then show ?thesis using assms s1 len True by (simp add: strtok_def Let_def)
  next
    case False
    then have ne: "k \<noteq> length xs" using rk by auto
    have cr: "cstr m (p + k) rest" using cstr_drop [OF assms(1) rk(2)] rk by simp
    then have tk: "m (p + k) \<noteq> 0" using False by (cases rest) auto
    have wm: "rest = word @ more" by (simp add: word_def more_def)
    have w0: "word \<noteq> []" using False hd_dropWhile [of "\<lambda>x. x \<in> set ds" xs] by (simp only: word_def rest_def takeWhile_eq_Nil_iff) simp
    have s2: "span_loop False m (p + k) ct (length ds) = Some (p + k + length word + 1, word = rest)"
    proof -
      have "length word = length rest \<longleftrightarrow> word = rest" using wm by auto
      then show ?thesis using span_cstr [OF assms(2) cr, of False] by (simp add: Let_def flip: word_def)
    qed
    show ?thesis
    proof (cases "more = []")
      case True
      then show ?thesis using assms s1 s2 len ne tk wm cr False
        by (simp add: strtok_def Let_def)
    next
      case False
      define q where "q = p + k + length word"
      have cm: "cstr m q more" "\<forall>i<length word. m (p + k + i) = word ! i" "0 \<notin> set word"
        using cr wm by (auto simp: cstr_append q_def)
      have mq: "m q \<noteq> 0" using cm False by (cases more) auto
      have "strtok m st0 p ct = Some (p + k, q + 1, m(q := 0))"
        using assms s1 s2 len ne tk wm False mq w0 by (simp add: strtok_def Let_def flip: q_def) (simp add: q_def)
      moreover have "cstr (m(q := 0)) (p + k) word" using cm by (auto simp: cstr_nth q_def)
      moreover have "cstr (m(q := 0)) (q + 1) (tl more)" using cm False by (cases more) (auto simp: cstr_upd)
      moreover have "cstr (m(q := 0)) ct ds"
      proof -
        have "length word < length rest" using wm False by simp
        then have "q < p + length xs" using rk by (simp add: q_def)
        then show ?thesis using assms by (auto simp: cstr_upd q_def)
      qed
      ultimately show ?thesis using assms \<open>rest \<noteq> []\<close> False
by simp
    qed
  qed
  then show ?thesis unfolding Let_def more_def word_def rest_def .
qed

theorem strtok_splits_witness:
  "\<exists>tok st m'. strtok (store (\<lambda>_. 0) 10 [5, 1, 2, 5, 3, 0, 5, 0]) 0 10 16 = Some (tok, st, m') \<and>
    (let rest = dropWhile (\<lambda>x. x \<in> set [5]) [5, 1, 2, 5, 3]; word = takeWhile (\<lambda>x. x \<notin> set [5]) rest;
         more = dropWhile (\<lambda>x. x \<notin> set [5]) rest in
     if rest = [] then tok = 0 \<and> st = 0 \<and> m' = store (\<lambda>_. 0) 10 [5, 1, 2, 5, 3, 0, 5, 0]
     else tok \<noteq> 0 \<and> cstr m' tok word \<and> cstr m' 16 [5] \<and>
       (if more = [] then st = 0 else st \<noteq> 0 \<and> cstr m' st (tl more)))"
  by (rule strtok_splits) simp_all

end
