(* ===== verification/Buffer.thy ===== *)
theory Buffer
  imports Process FsTypes
begin

text \<open>
  The buffer cache, src/fs/buffer.c, with the block requests below it (\<open>ll_rw_block\<close> of
  src/fs/block_dev.c and \<open>rw_hd\<close> of src/kernel/hd.c). A buffer head is an index into the table of
  buffers. The doubly linked hash chains and the circular free list are lists of indices, the free
  list from \<open>free_list\<close> on. A request is served when the caller waits for it; a transfer that the
  controller reports as failed too often leaves the buffer not up to date. A task that would wait for
  a locked buffer, or for a free one, is the outcome \<open>Sleep\<close>.
\<close>

unbundle bit_operations_syntax

section \<open>The state of the file system\<close>

definition NR_HASH :: nat where "NR_HASH = 307"

text \<open>
  \<open>fs_nr_sects\<close> is \<open>hd[minor].nr_sects\<close>; \<open>fs_disk dev block\<close> are the contents of a block of a
  partition, \<open>fs_bad\<close> the blocks whose transfers fail; \<open>fs_null\<close> is the word at the address of the
  field \<open>b_prev\<close> of a buffer head at address 0.
\<close>

record fs_state = kstate +
  fs_bufs :: "buffer_head list"
  fs_free :: "nat list"
  fs_hash :: "nat list list"
  fs_null :: "nat option"
  fs_disk :: "int \<Rightarrow> int \<Rightarrow> byte list"
  fs_bad :: "int \<Rightarrow> int \<Rightarrow> bool"
  fs_nr_sects :: "int \<Rightarrow> int"
  fs_last_inode :: nat
  fs_supers :: "super_block list"

definition buf :: "nat \<Rightarrow> fs_state \<Rightarrow> buffer_head" where "buf i s = fs_bufs s ! i"

definition upd_buf :: "nat \<Rightarrow> (buffer_head \<Rightarrow> buffer_head) \<Rightarrow> fs_state \<Rightarrow> fs_state" where
  "upd_buf i f s = s\<lparr>fs_bufs := (fs_bufs s)[i := f (fs_bufs s ! i)]\<rparr>"

definition wait_on_buffer :: "nat \<Rightarrow> fs_state \<Rightarrow> unit outcome" where
  "wait_on_buffer i s = (if b_lock (buf i s) \<noteq> 0 then Sleep else Done ())"

section \<open>Block requests\<close>

definition NR_HD :: int where "NR_HD = 1"

text \<open>A request and its completion: \<open>rw\<close> is true for a write.\<close>

definition hd_transfer :: "bool \<Rightarrow> nat \<Rightarrow> fs_state \<Rightarrow> fs_state" where
  "hd_transfer rw i s =
     (let b = buf i s; d = b_dev b; n = b_blocknr b in
      if fs_bad s d n then upd_buf i (\<lambda>b. b\<lparr>b_uptodate := 0\<rparr>) s
      else if rw then (upd_buf i (\<lambda>b. b\<lparr>b_uptodate := 1, b_dirt := 0\<rparr>) s)
             \<lparr>fs_disk := (fs_disk s)(d := (fs_disk s d)(n := b_data b))\<rparr>
      else upd_buf i (\<lambda>b. b\<lparr>b_data := fs_disk s d n, b_uptodate := 1, b_dirt := 0\<rparr>) s)"

definition rw_hd :: "bool \<Rightarrow> nat \<Rightarrow> fs_state \<Rightarrow> fs_state" where
  "rw_hd rw i s =
     (let block = u32 (b_blocknr (buf i s) * 2); dev = MINOR (b_dev (buf i s)) in
      if dev \<ge> 5 * NR_HD \<or> u32 (block + 2) > u32 (fs_nr_sects s dev) then s
      else hd_transfer rw i s)"

definition ll_rw_block :: "bool \<Rightarrow> nat \<Rightarrow> fs_state \<Rightarrow> fs_state outcome" where
  "ll_rw_block rw i s =
     (if MAJOR (b_dev (buf i s)) = 3 then Done (rw_hd rw i s)
      else Panic ''Trying to read nonexistent block-device'')"

section \<open>Writing dirty buffers\<close>

fun sync_loop :: "(buffer_head \<Rightarrow> bool) \<Rightarrow> nat list \<Rightarrow> fs_state \<Rightarrow> fs_state outcome" where
  "sync_loop P [] s = Done s"
| "sync_loop P (i # is) s =
     obind (if \<not> P (buf i s) then Done s
            else obind (wait_on_buffer i s) (\<lambda>_.
                 if b_dirt (buf i s) \<noteq> 0 then ll_rw_block True i s else Done s))
       (sync_loop P is)"

definition sync_dev :: "int \<Rightarrow> fs_state \<Rightarrow> fs_state outcome" where
  "sync_dev dev s = sync_loop (\<lambda>b. b_dev b = dev) [0..<length (fs_bufs s)] s"

section \<open>The queues\<close>

definition hashfn :: "int \<Rightarrow> int \<Rightarrow> nat" where
  "hashfn dev block = nat (u32 (dev XOR block) mod int NR_HASH)"

definition remove_from_queues :: "nat \<Rightarrow> fs_state \<Rightarrow> fs_state outcome" where
  "remove_from_queues i s =
     (let h = hashfn (b_dev (buf i s)) (b_blocknr (buf i s)) in
      if i \<notin> set (fs_free s) then Panic ''Free block list corrupted''
      else Done (s\<lparr>fs_free := remove1 i (fs_free s), fs_hash := (fs_hash s)[h := remove1 i (fs_hash s ! h)]\<rparr>))"

text \<open>
  \<open>bh->b_next->b_prev = bh\<close> is executed also when the chain was empty and \<open>b_next\<close> is \<open>NULL\<close>.
\<close>

definition insert_into_queues :: "nat \<Rightarrow> fs_state \<Rightarrow> fs_state" where
  "insert_into_queues i s =
     (let s = s\<lparr>fs_free := fs_free s @ [i]\<rparr>; b = buf i s in
      if b_dev b = 0 then s
      else let h = hashfn (b_dev b) (b_blocknr b); old = fs_hash s ! h in
           s\<lparr>fs_hash := (fs_hash s)[h := i # old], fs_null := (if old = [] then Some i else fs_null s)\<rparr>)"

definition find_buffer :: "int \<Rightarrow> int \<Rightarrow> fs_state \<Rightarrow> nat option" where
  "find_buffer dev block s =
     find (\<lambda>i. b_dev (buf i s) = dev \<and> b_blocknr (buf i s) = block) (fs_hash s ! hashfn dev block)"

definition brelse :: "nat option \<Rightarrow> fs_state \<Rightarrow> fs_state outcome" where
  "brelse p s =
     (case p of None \<Rightarrow> Done s
      | Some i \<Rightarrow>
          obind (wait_on_buffer i s) (\<lambda>_.
          if b_count (buf i s) = 0 then Panic ''Trying to free free buffer''
          else Done (upd_buf i (\<lambda>b. b\<lparr>b_count := u8 (b_count b - 1)\<rparr>) s)))"

text \<open>After the wait, which did not sleep, the buffer still is the one that was found.\<close>

definition get_hash_table :: "int \<Rightarrow> int \<Rightarrow> fs_state \<Rightarrow> (nat option \<times> fs_state) outcome" where
  "get_hash_table dev block s =
     (case find_buffer dev block s of
        None \<Rightarrow> Done (None, s)
      | Some i \<Rightarrow>
          let s = upd_buf i (\<lambda>b. b\<lparr>b_count := u8 (b_count b + 1)\<rparr>) s in
          obind (wait_on_buffer i s) (\<lambda>_. Done (Some i, s)))"

text \<open>The search of the free list: the first buffer that is not in use.\<close>

definition find_free :: "fs_state \<Rightarrow> nat option" where
  "find_free s = find (\<lambda>i. b_count (buf i s) = 0) (fs_free s)"

text \<open>\<open>getblk\<close>, with a bound on its \<open>goto repeat\<close>.\<close>

fun getblk_loop :: "nat \<Rightarrow> int \<Rightarrow> int \<Rightarrow> fs_state \<Rightarrow> (nat \<times> fs_state) outcome" where
  "getblk_loop 0 dev block s = Fuel"
| "getblk_loop (Suc n) dev block s =
     obind (get_hash_table dev block s) (\<lambda>(r, s).
     case r of
       Some i \<Rightarrow> Done (i, s)
     | None \<Rightarrow>
         (case find_free s of
            None \<Rightarrow> Sleep
          | Some i \<Rightarrow>
              obind (wait_on_buffer i s) (\<lambda>_.
              let s = upd_buf i (\<lambda>b. b\<lparr>b_count := u8 (b_count b + 1)\<rparr>) s in
              obind (remove_from_queues i s) (\<lambda>s.
              obind (if b_dirt (buf i s) \<noteq> 0 then sync_dev (b_dev (buf i s)) s else Done s) (\<lambda>s.
              let s = upd_buf i (\<lambda>b. b\<lparr>b_dev := u16 dev, b_blocknr := u16 block, b_dirt := 0, b_uptodate := 0\<rparr>) s in
              if find_buffer dev block s \<noteq> None then
                getblk_loop n dev block
                  (insert_into_queues i (upd_buf i (\<lambda>b. b\<lparr>b_dev := 0, b_blocknr := 0, b_count := 0\<rparr>) s))
              else Done (i, insert_into_queues i s))))))"

definition getblk :: "int \<Rightarrow> int \<Rightarrow> fs_state \<Rightarrow> (nat \<times> fs_state) outcome" where
  "getblk dev block s = getblk_loop 2 dev block s"

definition bread :: "int \<Rightarrow> int \<Rightarrow> fs_state \<Rightarrow> (nat option \<times> fs_state) outcome" where
  "bread dev block s =
     obind (getblk dev block s) (\<lambda>(i, s).
     if b_uptodate (buf i s) \<noteq> 0 then Done (Some i, s)
     else obind (ll_rw_block False i s) (\<lambda>s.
          if b_uptodate (buf i s) \<noteq> 0 then Done (Some i, s)
          else obind (brelse (Some i) s) (\<lambda>s. Done (None, s))))"

text \<open>\<open>buffer_init\<close>, for the number of buffers that fits below \<open>BUFFER_END\<close>.\<close>

definition empty_buffer :: buffer_head where
  "empty_buffer = \<lparr>b_data = replicate BLOCK_SIZE 0, b_dev = 0, b_blocknr = 0, b_uptodate = 0, b_dirt = 0,
     b_count = 0, b_lock = 0, b_wait = None\<rparr>"

definition buffer_init :: "nat \<Rightarrow> fs_state \<Rightarrow> fs_state" where
  "buffer_init n s = s\<lparr>fs_bufs := replicate n empty_buffer, fs_free := [0..<n], fs_hash := replicate NR_HASH []\<rparr>"

end
