(* ===== verification/BufferProps.thy ===== *)
theory BufferProps
  imports Buffer
begin

text \<open>
  Transparency of the buffer cache: what a block holds, seen through the cache, is not changed by
  getting, reading or releasing buffers, whichever buffer has to be given up for it.
\<close>

section \<open>The invariant\<close>

definition on_disk :: "fs_state \<Rightarrow> int \<Rightarrow> int \<Rightarrow> bool" where
  "on_disk s d n \<longleftrightarrow> MAJOR d = 3 \<and> MINOR d < 5 * NR_HD \<and> 0 \<le> n \<and> n < 65536 \<and>
     u32 (n * 2 + 2) \<le> u32 (fs_nr_sects s (MINOR d)) \<and> \<not> fs_bad s d n"

text \<open>A dirty buffer holds a block of the disk; a clean one that is up to date agrees with it.\<close>

definition buf_ok :: "fs_state \<Rightarrow> buffer_head \<Rightarrow> bool" where
  "buf_ok s b \<longleftrightarrow> b_lock b = 0 \<and> 0 \<le> b_dev b \<and> b_dev b < 65536 \<and> 0 \<le> b_blocknr b \<and> b_blocknr b < 65536 \<and>
     (b_dirt b \<noteq> 0 \<longrightarrow> b_uptodate b \<noteq> 0 \<and> b_dev b \<noteq> 0 \<and> on_disk s (b_dev b) (b_blocknr b)) \<and>
     (b_dirt b = 0 \<and> b_uptodate b \<noteq> 0 \<and> b_dev b \<noteq> 0 \<longrightarrow> b_data b = fs_disk s (b_dev b) (b_blocknr b))"

definition holds :: "fs_state \<Rightarrow> int \<Rightarrow> int \<Rightarrow> nat \<Rightarrow> bool" where
  "holds s d n i \<longleftrightarrow> b_dev (buf i s) = d \<and> b_blocknr (buf i s) = n"

definition bufs_ok :: "fs_state \<Rightarrow> bool" where
  "bufs_ok s \<longleftrightarrow> (\<forall>i<length (fs_bufs s). buf_ok s (buf i s)) \<and>
     (\<forall>i j d n. i < length (fs_bufs s) \<and> j < length (fs_bufs s) \<and> d \<noteq> 0 \<and> holds s d n i \<and> holds s d n j \<longrightarrow> i = j)"

text \<open>What a block holds: the data of its buffer when that is up to date, the disk otherwise.\<close>

definition view :: "fs_state \<Rightarrow> int \<Rightarrow> int \<Rightarrow> byte list" where
  "view s d n =
     (case find (holds s d n) [0..<length (fs_bufs s)] of
        None \<Rightarrow> fs_disk s d n
      | Some i \<Rightarrow> if b_uptodate (buf i s) \<noteq> 0 then b_data (buf i s) else fs_disk s d n)"

definition same_view :: "fs_state \<Rightarrow> fs_state \<Rightarrow> bool" where
  "same_view s s' \<longleftrightarrow> (\<forall>d n. d \<noteq> 0 \<longrightarrow> view s' d n = view s d n)"

lemma holds_unique:
  "bufs_ok s \<Longrightarrow> i < length (fs_bufs s) \<Longrightarrow> j < length (fs_bufs s) \<Longrightarrow> d \<noteq> 0 \<Longrightarrow> holds s d n i \<Longrightarrow> holds s d n j \<Longrightarrow> i = j"
  by (simp add: bufs_ok_def) blast

lemma view_cached:
  assumes "bufs_ok s" "i < length (fs_bufs s)" "d \<noteq> 0" "holds s d n i"
  shows "view s d n = (if b_uptodate (buf i s) \<noteq> 0 then b_data (buf i s) else fs_disk s d n)"
proof (cases "find (holds s d n) [0..<length (fs_bufs s)]")
  case None
  then show ?thesis using assms by (auto simp: find_None_iff)
next
  case (Some j)
  then have "j < length (fs_bufs s)" "holds s d n j"
    by (auto simp: find_Some_iff)
  then have "j = i" using assms holds_unique by blast
  then show ?thesis using Some by (simp add: view_def)
qed

lemma view_uncached:
  "(\<And>i. i < length (fs_bufs s) \<Longrightarrow> \<not> holds s d n i) \<Longrightarrow> view s d n = fs_disk s d n"
proof -
  assume "\<And>i. i < length (fs_bufs s) \<Longrightarrow> \<not> holds s d n i"
  then have "find (holds s d n) [0..<length (fs_bufs s)] = None" by (auto simp: find_None_iff)
  then show ?thesis by (simp add: view_def)
qed

lemma buf_upd [simp]: "i < length (fs_bufs s) \<Longrightarrow> buf j (upd_buf i f s) = (if j = i then f (buf i s) else buf j s)"
  by (simp add: buf_def upd_buf_def nth_list_update)

lemma upd_buf_simps [simp]:
  "length (fs_bufs (upd_buf i f s)) = length (fs_bufs s)" "fs_free (upd_buf i f s) = fs_free s"
  "fs_hash (upd_buf i f s) = fs_hash s" "fs_disk (upd_buf i f s) = fs_disk s" "fs_bad (upd_buf i f s) = fs_bad s"
  "fs_nr_sects (upd_buf i f s) = fs_nr_sects s" "fs_supers (upd_buf i f s) = fs_supers s"
  by (simp_all add: upd_buf_def)

lemma buf_disk [simp]: "buf j (s\<lparr>fs_disk := x\<rparr>) = buf j s" "buf j (s\<lparr>fs_free := y, fs_hash := z\<rparr>) = buf j s"
  by (simp_all add: buf_def)

text \<open>A change that keeps keys and validity of the data keeps the view.\<close>

lemma same_view_pointwise:
  assumes "bufs_ok s" "bufs_ok s'" "length (fs_bufs s') = length (fs_bufs s)"
    "\<And>i d n. i < length (fs_bufs s) \<Longrightarrow> holds s' d n i = holds s d n i"
    "\<And>i d n. i < length (fs_bufs s) \<Longrightarrow> d \<noteq> 0 \<Longrightarrow> holds s d n i \<Longrightarrow>
      (if b_uptodate (buf i s') \<noteq> 0 then b_data (buf i s') else fs_disk s' d n) =
      (if b_uptodate (buf i s) \<noteq> 0 then b_data (buf i s) else fs_disk s d n)"
    "\<And>d n. d \<noteq> 0 \<Longrightarrow> (\<And>i. i < length (fs_bufs s) \<Longrightarrow> \<not> holds s d n i) \<Longrightarrow> fs_disk s' d n = fs_disk s d n"
  shows "same_view s s'"
  unfolding same_view_def
proof (intro allI impI)
  fix d n :: int assume d: "d \<noteq> 0"
  show "view s' d n = view s d n"
  proof (cases "\<exists>i<length (fs_bufs s). holds s d n i")
    case True
    then obtain i where "i < length (fs_bufs s)" "holds s d n i" by blast
    then show ?thesis using view_cached [OF assms(1) _ d] view_cached [OF assms(2) _ d] assms(3-5) d by auto
  next
    case False
    then show ?thesis using view_uncached [of s d n] view_uncached [of s' d n] assms(3,4,6) d by auto
  qed
qed

section \<open>Writing back\<close>

text \<open>The write of a dirty buffer.\<close>

definition written :: "nat \<Rightarrow> fs_state \<Rightarrow> fs_state" where
  "written i s = (upd_buf i (\<lambda>b. b\<lparr>b_uptodate := 1, b_dirt := 0\<rparr>) s)
     \<lparr>fs_disk := (fs_disk s)(b_dev (buf i s) := (fs_disk s (b_dev (buf i s)))(b_blocknr (buf i s) := b_data (buf i s)))\<rparr>"

lemma ll_rw_write:
  assumes "bufs_ok s" "i < length (fs_bufs s)" "b_dirt (buf i s) \<noteq> 0"
  shows "ll_rw_block True i s = Done (written i s)"
proof -
  have "on_disk s (b_dev (buf i s)) (b_blocknr (buf i s))" using assms by (auto simp: bufs_ok_def buf_ok_def)
  then show ?thesis
    by (auto simp: on_disk_def ll_rw_block_def rw_hd_def hd_transfer_def written_def Let_def u32_def mod_simps)
qed

lemma written_simps [simp]:
  "length (fs_bufs (written i s)) = length (fs_bufs s)" "fs_free (written i s) = fs_free s" "fs_hash (written i s) = fs_hash s"
  "fs_supers (written i s) = fs_supers s"
  by (simp_all add: written_def)

lemma on_disk_written [simp]: "on_disk (written i s) = on_disk s"
  by (simp add: on_disk_def [abs_def] written_def)

lemma holds_written [simp]: "i < length (fs_bufs s) \<Longrightarrow> holds (written i s) d n j = holds s d n j"
  by (simp add: holds_def written_def)

lemma written_ok:
  assumes ok: "bufs_ok s" and i: "i < length (fs_bufs s)" "b_dirt (buf i s) \<noteq> 0"
  shows "bufs_ok (written i s)" "same_view s (written i s)"
proof -
  have b: "buf_ok s (buf j s)" if "j < length (fs_bufs s)" for j using ok that by (auto simp: bufs_ok_def)
  have other: "j = i \<or> b_dev (buf j s) \<noteq> b_dev (buf i s) \<or> b_blocknr (buf j s) \<noteq> b_blocknr (buf i s)"
    if "j < length (fs_bufs s)" for j
    using ok i that b [OF i(1)] by (auto simp: bufs_ok_def holds_def buf_ok_def)
  have ok': "buf_ok (written i s) (buf j (written i s))" if j: "j < length (fs_bufs s)" for j
  proof (cases "j = i")
    case True
    then show ?thesis using b [OF j] i by (simp add: buf_ok_def) (simp add: written_def)
  next
    case False
    then show ?thesis using b [OF j] other [OF j] i by (simp add: buf_ok_def) (auto simp: written_def)
  qed
  show w: "bufs_ok (written i s)"
    using ok ok' i unfolding bufs_ok_def by simp
  show "same_view s (written i s)"
    by (rule same_view_pointwise [OF ok w]) (use i other b in \<open>auto simp: holds_def written_def buf_ok_def\<close>)
qed


text \<open>What \<open>sync_dev\<close> leaves alone: the queues and which blocks the buffers hold.\<close>

definition same_keys :: "fs_state \<Rightarrow> fs_state \<Rightarrow> bool" where
  "same_keys s s' \<longleftrightarrow> length (fs_bufs s') = length (fs_bufs s) \<and> fs_free s' = fs_free s \<and> fs_hash s' = fs_hash s \<and> fs_supers s' = fs_supers s \<and>
     (\<forall>j<length (fs_bufs s). b_dev (buf j s') = b_dev (buf j s) \<and> b_blocknr (buf j s') = b_blocknr (buf j s) \<and>
        b_count (buf j s') = b_count (buf j s) \<and> b_data (buf j s') = b_data (buf j s) \<and> (b_dirt (buf j s) = 0 \<longrightarrow> b_dirt (buf j s') = 0)) \<and>
     on_disk s' = on_disk s"

lemma same_keys_refl [simp]: "same_keys s s"
  by (simp add: same_keys_def)

lemma same_keys_trans: "same_keys s t \<Longrightarrow> same_keys t u \<Longrightarrow> same_keys s u"
  by (simp add: same_keys_def)

lemma same_view_trans: "same_view s t \<Longrightarrow> same_view t u \<Longrightarrow> same_view s u"
  by (simp add: same_view_def)

lemma written_keys: "i < length (fs_bufs s) \<Longrightarrow> same_keys s (written i s)"
  by (simp add: same_keys_def) (simp add: written_def)

lemma sync_loop_ok:
  "bufs_ok s \<Longrightarrow> \<forall>i\<in>set is. i < length (fs_bufs s) \<Longrightarrow>
   \<exists>s'. sync_loop (\<lambda>b. b_dev b = dev) is s = Done s' \<and> bufs_ok s' \<and> same_view s s' \<and> same_keys s s' \<and>
     (\<forall>i\<in>set is. b_dev (buf i s) = dev \<longrightarrow> b_dirt (buf i s') = 0)"
proof (induction "is" arbitrary: s)
  case Nil
  then show ?case by (simp add: same_view_def)
next
  case (Cons i "is")
  let ?P = "\<lambda>b. b_dev b = dev"
  have i: "i < length (fs_bufs s)" using Cons.prems by simp
  have u: "wait_on_buffer i s = Done ()" using Cons.prems i by (auto simp: wait_on_buffer_def bufs_ok_def buf_ok_def)
  obtain s1 where s1: "(if \<not> ?P (buf i s) then Done s
      else obind (wait_on_buffer i s) (\<lambda>_. if b_dirt (buf i s) \<noteq> 0 then ll_rw_block True i s else Done s)) = Done s1"
    "bufs_ok s1" "same_view s s1" "same_keys s s1" "?P (buf i s) \<longrightarrow> b_dirt (buf i s1) = 0"
  proof (cases "?P (buf i s) \<and> b_dirt (buf i s) \<noteq> 0")
    case True
    then show thesis using that [of "written i s"] u Cons.prems i ll_rw_write [of s i] written_ok [of s i] written_keys [of i s]
      by (simp add: written_def)
  next
    case False
    then show thesis using that [of s] u Cons.prems by (auto simp: same_view_def)
  qed
  have k: "length (fs_bufs s1) = length (fs_bufs s)" "\<forall>j<length (fs_bufs s). b_dev (buf j s1) = b_dev (buf j s)"
    using s1(4) by (simp_all add: same_keys_def)
  obtain s2 where s2: "sync_loop ?P is s1 = Done s2" "bufs_ok s2" "same_view s1 s2" "same_keys s1 s2"
    "\<forall>i\<in>set is. b_dev (buf i s1) = dev \<longrightarrow> b_dirt (buf i s2) = 0"
    using Cons.IH [OF s1(2)] Cons.prems(2) k by auto
  have "sync_loop ?P (i # is) s = Done s2" using s1(1) s2(1) by simp
  moreover have "\<forall>j\<in>set (i # is). b_dev (buf j s) = dev \<longrightarrow> b_dirt (buf j s2) = 0"
    using s2(4,5) s1(5) i k Cons.prems(2) by (auto simp: same_keys_def)
  ultimately show ?case using s2 s1 same_view_trans same_keys_trans by blast
qed

lemma sync_dev_ok:
  assumes "bufs_ok s"
  shows "\<exists>s'. sync_dev dev s = Done s' \<and> bufs_ok s' \<and> same_view s s' \<and> same_keys s s' \<and>
     (\<forall>i<length (fs_bufs s). b_dev (buf i s) = dev \<longrightarrow> b_dirt (buf i s') = 0)"
  using sync_loop_ok [OF assms, of "[0..<length (fs_bufs s)]" dev] by (auto simp: sync_dev_def)

section \<open>The queues\<close>

definition queues_ok :: "fs_state \<Rightarrow> bool" where
  "queues_ok s \<longleftrightarrow> length (fs_hash s) = NR_HASH \<and> distinct (fs_free s) \<and> set (fs_free s) = {..<length (fs_bufs s)} \<and>
     (\<forall>h<NR_HASH. distinct (fs_hash s ! h)) \<and>
     (\<forall>h<NR_HASH. \<forall>i. i \<in> set (fs_hash s ! h) \<longleftrightarrow>
        i < length (fs_bufs s) \<and> b_dev (buf i s) \<noteq> 0 \<and> hashfn (b_dev (buf i s)) (b_blocknr (buf i s)) = h)"

definition cache_ok :: "fs_state \<Rightarrow> bool" where
  "cache_ok s \<longleftrightarrow> bufs_ok s \<and> queues_ok s"

lemma hashfn_lt: "hashfn d n < NR_HASH"
  by (simp add: hashfn_def NR_HASH_def nat_less_iff)

lemma find_buffer_iff:
  assumes "queues_ok s" "bufs_ok s" "d \<noteq> 0"
  shows "find_buffer d n s = Some i \<longleftrightarrow> i < length (fs_bufs s) \<and> holds s d n i"
proof
  assume "find_buffer d n s = Some i"
  then have "i \<in> set (fs_hash s ! hashfn d n)" "holds s d n i"
    by (auto simp: find_buffer_def find_Some_iff holds_def)
  then show "i < length (fs_bufs s) \<and> holds s d n i" using assms(1) hashfn_lt [of d n] by (auto simp: queues_ok_def)
next
  assume a: "i < length (fs_bufs s) \<and> holds s d n i"
  then have m: "i \<in> set (fs_hash s ! hashfn d n)" using assms hashfn_lt [of d n] by (auto simp: queues_ok_def holds_def)
  show "find_buffer d n s = Some i"
  proof (cases "find_buffer d n s")
    case None
    then show ?thesis using m a by (auto simp: find_buffer_def find_None_iff holds_def)
  next
    case (Some j)
    then have "j \<in> set (fs_hash s ! hashfn d n)" "holds s d n j"
      by (auto simp: find_buffer_def find_Some_iff holds_def)
    moreover have "j < length (fs_bufs s)" using calculation assms(1) hashfn_lt [of d n] by (auto simp: queues_ok_def)
    ultimately show ?thesis using Some a assms holds_unique by blast
  qed
qed

lemma find_buffer_None:
  assumes "queues_ok s" "bufs_ok s" "d \<noteq> 0"
  shows "find_buffer d n s = None \<longleftrightarrow> (\<forall>i<length (fs_bufs s). \<not> holds s d n i)"
  using find_buffer_iff [OF assms] by (metis not_None_eq)


text \<open>Taking a buffer out of the queues and putting it back under a new key.\<close>

lemma requeue_ok:
  assumes q: "queues_ok s" and i: "i < length (fs_bufs s)"
    and free: "fs_free t = remove1 i (fs_free s)"
    and hash: "fs_hash t = (let h = hashfn (b_dev (buf i s)) (b_blocknr (buf i s)) in (fs_hash s)[h := remove1 i (fs_hash s ! h)])"
    and len: "length (fs_bufs t) = length (fs_bufs s)"
    and keys: "\<And>j. j < length (fs_bufs s) \<Longrightarrow> j \<noteq> i \<Longrightarrow> b_dev (buf j t) = b_dev (buf j s) \<and> b_blocknr (buf j t) = b_blocknr (buf j s)"
    and dev: "b_dev (buf i t) \<noteq> 0"
  shows "queues_ok (insert_into_queues i t)"
proof -
  let ?hold = "hashfn (b_dev (buf i s)) (b_blocknr (buf i s))" and ?hnew = "hashfn (b_dev (buf i t)) (b_blocknr (buf i t))"
  let ?t = "insert_into_queues i t"
  have hl: "length (fs_hash s) = NR_HASH" and df: "distinct (fs_free s)" "set (fs_free s) = {..<length (fs_bufs s)}"
    and dh: "\<And>h. h < NR_HASH \<Longrightarrow> distinct (fs_hash s ! h)"
    and mh: "\<And>h j. h < NR_HASH \<Longrightarrow> j \<in> set (fs_hash s ! h) \<longleftrightarrow>
        j < length (fs_bufs s) \<and> b_dev (buf j s) \<noteq> 0 \<and> hashfn (b_dev (buf j s)) (b_blocknr (buf j s)) = h"
    using q unfolding queues_ok_def by blast+
  have ft: "fs_free ?t = remove1 i (fs_free s) @ [i]" "fs_hash ?t = (fs_hash t)[?hnew := i # fs_hash t ! ?hnew]"
    "\<And>j. buf j ?t = buf j t" "length (fs_bufs ?t) = length (fs_bufs s)"
    using dev free len by (simp_all add: insert_into_queues_def Let_def buf_def)
  have nt: "fs_hash t ! h = (if h = ?hold then remove1 i (fs_hash s ! h) else fs_hash s ! h)" if "h < NR_HASH" for h
    using hash that hl by (simp add: Let_def nth_list_update)
  have mt: "j \<in> set (fs_hash t ! h) \<longleftrightarrow> j \<noteq> i \<and> j \<in> set (fs_hash s ! h)" if "h < NR_HASH" for h j
  proof -
    have "h \<noteq> ?hold \<Longrightarrow> i \<notin> set (fs_hash s ! h)" using mh [OF that, of i] by simp
    then show ?thesis unfolding nt [OF that] using dh [OF that] by auto
  qed
  have dt: "distinct (fs_hash t ! h)" if "h < NR_HASH" for h
    unfolding nt [OF that] using dh [OF that] by (metis distinct_remove1)
  have lt: "length (fs_hash t) = NR_HASH" using hash hl by (simp add: Let_def)
  have n': "fs_hash ?t ! h = (if h = ?hnew then i # fs_hash t ! h else fs_hash t ! h)" if "h < NR_HASH" for h
    using that lt by (simp add: ft(2) nth_list_update)
  have m': "j \<in> set (fs_hash ?t ! h) \<longleftrightarrow> j < length (fs_bufs s) \<and> b_dev (buf j t) \<noteq> 0 \<and> hashfn (b_dev (buf j t)) (b_blocknr (buf j t)) = h"
    if h: "h < NR_HASH" for h j
  proof (cases "j = i")
    case True
    then show ?thesis using i dev mt [OF h, of i] unfolding n' [OF h] by auto
  next
    case False
    then show ?thesis using mh [OF h, of j] keys [of j] mt [OF h, of j] unfolding n' [OF h] by auto
  qed
  have d': "distinct (fs_hash ?t ! h)" if "h < NR_HASH" for h
    using dt [OF that] mt [OF that, of i] unfolding n' [OF that] by auto
  have "set (fs_free ?t) = {..<length (fs_bufs s)}" "distinct (fs_free ?t)" using df i unfolding ft(1) by auto
  moreover have "length (fs_hash ?t) = NR_HASH" using lt unfolding ft(2) by simp
  ultimately show ?thesis unfolding queues_ok_def ft(3,4) using m' d' by blast
qed

text \<open>A change of the use count.\<close>

lemma count_ok:
  fixes c :: int
  assumes "cache_ok s" "i < length (fs_bufs s)"
  defines "t \<equiv> upd_buf i (\<lambda>b. b\<lparr>b_count := c\<rparr>) s"
  shows "cache_ok t" "same_view s t"
proof -
  have od: "on_disk t = on_disk s" by (simp add: t_def on_disk_def [abs_def])
  have h: "holds t d n j = holds s d n j" for d n j using assms(2) by (simp add: t_def holds_def)
  have b: "buf_ok t (buf j t)" if "j < length (fs_bufs s)" for j
    using assms that unfolding cache_ok_def bufs_ok_def buf_ok_def od by (auto simp: t_def)
  have ok: "bufs_ok t"
    using assms(1) b h unfolding cache_ok_def bufs_ok_def by (simp add: t_def)
  have "queues_ok t" using assms by (simp add: t_def cache_ok_def queues_ok_def)
  then show "cache_ok t" using ok by (simp add: cache_ok_def)
  show "same_view s t"
    by (rule same_view_pointwise [OF _ ok]) (use assms h in \<open>auto simp: cache_ok_def t_def\<close>)
qed

text \<open>A clean buffer given to another block that no buffer holds.\<close>

lemma rekey_ok:
  assumes ok: "bufs_ok s" and i: "i < length (fs_bufs s)" "b_dirt (buf i s) = 0"
    and new: "0 < d" "d < 65536" "0 \<le> n" "n < 65536" "\<And>j. j < length (fs_bufs s) \<Longrightarrow> \<not> holds s d n j"
  defines "t \<equiv> upd_buf i (\<lambda>b. b\<lparr>b_dev := d, b_blocknr := n, b_dirt := 0, b_uptodate := 0\<rparr>) s"
  shows "bufs_ok t" "same_view s t"
proof -
  have od: "on_disk t = on_disk s" by (simp add: t_def on_disk_def [abs_def])
  have hj: "j \<noteq> i \<Longrightarrow> holds t e m j = holds s e m j" and hi: "holds t e m i \<longleftrightarrow> e = d \<and> m = n" for e m j
    using i by (auto simp: t_def holds_def)
  have len: "length (fs_bufs t) = length (fs_bufs s)" by (simp add: t_def)
  have bs: "buf_ok s (buf j s)" if "j < length (fs_bufs s)" for j using ok that by (simp add: bufs_ok_def)
  have "buf_ok t (buf j t)" if "j < length (fs_bufs s)" for j
    using bs [OF that] new i unfolding buf_ok_def od by (auto simp: t_def)
  moreover have "j = k" if "j < length (fs_bufs s)" "k < length (fs_bufs s)" "e \<noteq> 0" "holds t e m j" "holds t e m k" for j k e m
    using that hj [of j] hj [of k] hi new(5) holds_unique [OF ok] by (cases "j = i"; cases "k = i") auto
  ultimately show ok': "bufs_ok t" unfolding bufs_ok_def len by blast
  show "same_view s t"
    unfolding same_view_def
  proof (intro allI impI)
    fix e m :: int assume e: "e \<noteq> 0"
    have disk: "fs_disk t = fs_disk s" by (simp add: t_def)
    consider "holds t e m i" | "holds s e m i" "\<not> holds t e m i" | "\<not> holds s e m i" "\<not> holds t e m i" by blast
    then show "view t e m = view s e m"
    proof cases
      case 1
      then have "e = d" "m = n" using hi by auto
      then have "view s e m = fs_disk s e m" using new(5) by (intro view_uncached) auto
      moreover have "view t e m = fs_disk t e m" using view_cached [OF ok' _ e 1] i by (simp add: t_def)
      ultimately show ?thesis using disk by simp
    next
      case 2
      have "view s e m = fs_disk s e m"
        using view_cached [OF ok i(1) e 2(1)] bs [OF i(1)] i(2) 2(1) e by (auto simp: buf_ok_def holds_def)
      moreover have "view t e m = fs_disk t e m"
        using 2 hj holds_unique [OF ok _ i(1) e _ 2(1)] by (intro view_uncached) (metis len)
      ultimately show ?thesis using disk by simp
    next
      case 3
      show ?thesis
      proof (cases "\<exists>j<length (fs_bufs s). holds s e m j")
        case True
        then obtain j where j: "j < length (fs_bufs s)" "holds s e m j" by blast
        then have "j \<noteq> i" using 3 by auto
        then show ?thesis using view_cached [OF ok j(1) e j(2)] view_cached [OF ok' _ e, of j] hj j len i disk
          by (simp add: t_def)
      next
        case False
        then show ?thesis using 3 hj disk view_uncached [of s e m] view_uncached [of t e m] len by metis
      qed
    qed
  qed
qed


section \<open>Getting and reading a block\<close>

lemma view_cong:
  assumes "fs_bufs s = fs_bufs t" "fs_disk s = fs_disk t"
  shows "view s = view t"
  unfolding view_def holds_def buf_def assms ..

lemma bufs_ok_cong:
  "fs_bufs s = fs_bufs t \<Longrightarrow> fs_disk s = fs_disk t \<Longrightarrow> on_disk s = on_disk t \<Longrightarrow> bufs_ok s = bufs_ok t"
  by (simp add: bufs_ok_def buf_ok_def holds_def buf_def)

lemma insert_simps [simp]:
  "fs_bufs (insert_into_queues i s) = fs_bufs s" "fs_disk (insert_into_queues i s) = fs_disk s"
  "on_disk (insert_into_queues i s) = on_disk s" "buf j (insert_into_queues i s) = buf j s"
  "fs_supers (insert_into_queues i s) = fs_supers s"
  by (simp_all add: insert_into_queues_def Let_def on_disk_def [abs_def] buf_def)

lemma find_free_Some: "queues_ok s \<Longrightarrow> find_free s = Some i \<Longrightarrow> i < length (fs_bufs s) \<and> i \<in> set (fs_free s) \<and> b_count (buf i s) = 0"
  by (auto simp: find_free_def find_Some_iff queues_ok_def)

text \<open>The result of \<open>getblk\<close>: the buffer of the block, nothing else changed that can be seen.\<close>

definition got :: "fs_state \<Rightarrow> int \<Rightarrow> int \<Rightarrow> nat \<Rightarrow> fs_state \<Rightarrow> bool" where
  "got s d n i s' \<longleftrightarrow> cache_ok s' \<and> same_view s s' \<and> i < length (fs_bufs s') \<and> holds s' d n i \<and>
     0 < b_count (buf i s') \<and> length (fs_bufs s') = length (fs_bufs s) \<and> on_disk s' = on_disk s \<and>
     fs_supers s' = fs_supers s \<and>
     (\<forall>j<length (fs_bufs s). j \<noteq> i \<longrightarrow> b_data (buf j s') = b_data (buf j s) \<and> b_count (buf j s') = b_count (buf j s))"

lemma getblk_cached:
  assumes "cache_ok s" "0 < d" "find_buffer d n s = Some i" "0 \<le> b_count (buf i s)" "b_count (buf i s) < 255"
  shows "\<exists>s'. getblk d n s = Done (i, s') \<and> got s d n i s' \<and> b_count (buf i s') = b_count (buf i s) + 1"
proof -
  let ?s = "upd_buf i (\<lambda>b. b\<lparr>b_count := u8 (b_count b + 1)\<rparr>) s"
  have i: "i < length (fs_bufs s)" "holds s d n i"
    using assms find_buffer_iff [of s d n i] by (auto simp: cache_ok_def)
  have e: "?s = upd_buf i (\<lambda>b. b\<lparr>b_count := b_count (buf i s) + 1\<rparr>) s"
    using assms(4,5) by (simp add: upd_buf_def buf_def u8_id)
  have "wait_on_buffer i ?s = Done ()"
    using assms(1) i by (auto simp: wait_on_buffer_def cache_ok_def bufs_ok_def buf_ok_def)
  then have "getblk d n s = Done (i, ?s)" using assms(3) by (simp add: getblk_def numeral_2_eq_2 get_hash_table_def Let_def)
  moreover have "got s d n i ?s"
    unfolding got_def e using count_ok [OF assms(1) i(1), of "b_count (buf i s) + 1"] i assms(4)
    by (simp add: holds_def on_disk_def [abs_def])
  moreover have "b_count (buf i ?s) = b_count (buf i s) + 1" unfolding e using i by simp
  ultimately show ?thesis by blast
qed


text \<open>The block is not found again after the buffer has changed its key, outside the queues.\<close>

lemma find_buffer_gone:
  assumes q: "queues_ok s" and i: "i < length (fs_bufs s)" and none: "\<And>j. j < length (fs_bufs s) \<Longrightarrow> \<not> holds s d n j"
    and hash: "fs_hash t = (let h = hashfn (b_dev (buf i s)) (b_blocknr (buf i s)) in (fs_hash s)[h := remove1 i (fs_hash s ! h)])"
    and keys: "\<And>j. j < length (fs_bufs s) \<Longrightarrow> j \<noteq> i \<Longrightarrow> b_dev (buf j t) = b_dev (buf j s) \<and> b_blocknr (buf j t) = b_blocknr (buf j s)"
  shows "find_buffer d n t = None"
proof -
  let ?b = "fs_hash s ! hashfn d n" and ?hi = "hashfn (b_dev (buf i s)) (b_blocknr (buf i s))"
  have mh: "j \<in> set ?b \<Longrightarrow> j < length (fs_bufs s) \<and> hashfn (b_dev (buf j s)) (b_blocknr (buf j s)) = hashfn d n" for j
    using q hashfn_lt [of d n] unfolding queues_ok_def by blast
  have db: "distinct ?b" and l: "length (fs_hash s) = NR_HASH" using q hashfn_lt [of d n] unfolding queues_ok_def by blast+
  have "j \<in> set ?b \<and> j \<noteq> i" if "j \<in> set (fs_hash t ! hashfn d n)" for j
  proof (cases "hashfn d n = ?hi")
    case True
    then show ?thesis using that db hashfn_lt [of d n] l unfolding hash Let_def by auto
  next
    case False
    then show ?thesis using that mh [of i] unfolding hash Let_def by auto
  qed
  then show ?thesis using mh none keys unfolding find_buffer_def find_None_iff holds_def by metis
qed

lemma getblk_uncached:
  assumes ok: "cache_ok s" and d: "0 < d" "d < 65536" "0 \<le> n" "n < 65536"
    and none: "find_buffer d n s = None" and free: "find_free s = Some i"
  shows "\<exists>s'. getblk d n s = Done (i, s') \<and> got s d n i s' \<and> b_uptodate (buf i s') = 0 \<and> b_dirt (buf i s') = 0 \<and>
    b_count (buf i s') = 1"
proof -
  have q: "queues_ok s" "bufs_ok s" using ok by (simp_all add: cache_ok_def)
  have i: "i < length (fs_bufs s)" "i \<in> set (fs_free s)" "b_count (buf i s) = 0" using find_free_Some [OF q(1) free] by auto
  have nh: "\<not> holds s d n j" if "j < length (fs_bufs s)" for j using find_buffer_None [OF q] none d that by auto
  have w: "wait_on_buffer i s = Done ()" using q(2) i by (auto simp: wait_on_buffer_def bufs_ok_def buf_ok_def)
  define s1 where "s1 = upd_buf i (\<lambda>b. b\<lparr>b_count := 1\<rparr>) s"
  have e1: "upd_buf i (\<lambda>b. b\<lparr>b_count := u8 (b_count b + 1)\<rparr>) s = s1"
    using i(3) by (simp add: s1_def upd_buf_def buf_def u8_def)
  have s1: "cache_ok s1" "same_view s s1" using count_ok [OF ok i(1), of 1] by (simp_all add: s1_def)
  have k1: "b_dev (buf j s1) = b_dev (buf j s)" "b_blocknr (buf j s1) = b_blocknr (buf j s)" for j using i(1) by (simp_all add: s1_def)
  let ?h = "hashfn (b_dev (buf i s)) (b_blocknr (buf i s))"
  define s2 where "s2 = s1\<lparr>fs_free := remove1 i (fs_free s), fs_hash := (fs_hash s)[?h := remove1 i (fs_hash s ! ?h)]\<rparr>"
  have e2: "remove_from_queues i s1 = Done s2" using i by (simp add: remove_from_queues_def k1 s2_def Let_def) (simp add: s1_def)
  have o2: "on_disk s2 = on_disk s1" "on_disk s1 = on_disk s" by (simp_all add: s2_def s1_def on_disk_def [abs_def])
  have b2: "bufs_ok s2" "view s2 = view s1"
    using s1(1) bufs_ok_cong [of s2 s1] view_cong [of s2 s1] o2 by (simp_all add: cache_ok_def s2_def)
  obtain s3 where e3: "(if b_dirt (buf i s2) \<noteq> 0 then sync_dev (b_dev (buf i s2)) s2 else Done s2) = Done s3"
    and s3: "bufs_ok s3" "same_view s2 s3" "same_keys s2 s3" "b_dirt (buf i s3) = 0"
  proof (cases "b_dirt (buf i s2) = 0")
    case True
    then show thesis using that [of s2] b2 by (simp add: same_view_def)
  next
    case False
    then show thesis using that sync_dev_ok [OF b2(1), of "b_dev (buf i s2)"] i(1) by (auto simp: s2_def s1_def)
  qed
  have k3: "length (fs_bufs s3) = length (fs_bufs s)" "fs_free s3 = fs_free s2" "fs_hash s3 = fs_hash s2" "on_disk s3 = on_disk s"
    "\<And>j. j < length (fs_bufs s) \<Longrightarrow> b_dev (buf j s3) = b_dev (buf j s) \<and> b_blocknr (buf j s3) = b_blocknr (buf j s)"
    "b_count (buf i s3) = 1" "fs_supers s3 = fs_supers s"
    "\<And>j. j < length (fs_bufs s) \<Longrightarrow> j \<noteq> i \<Longrightarrow> b_data (buf j s3) = b_data (buf j s) \<and> b_count (buf j s3) = b_count (buf j s)"
    using s3(3) k1 i(1) o2 by (auto simp: same_keys_def s2_def s1_def)
  define s4 where "s4 = upd_buf i (\<lambda>b. b\<lparr>b_dev := d, b_blocknr := n, b_dirt := 0, b_uptodate := 0\<rparr>) s3"
  have e4: "upd_buf i (\<lambda>b. b\<lparr>b_dev := u16 d, b_blocknr := u16 n, b_dirt := 0, b_uptodate := 0\<rparr>) s3 = s4"
    using d by (simp add: s4_def u16_id)
  have h3: "holds s3 e m j = holds s e m j" if "j < length (fs_bufs s)" for e m j using k3(5) [OF that] by (simp add: holds_def)
  have b4: "bufs_ok s4" "same_view s3 s4"
    using rekey_ok [OF s3(1) _ s3(4) d(1,2,3,4)] i(1) nh h3 k3(1) by (auto simp: s4_def)
  have f4: "find_buffer d n s4 = None"
    by (rule find_buffer_gone [OF q(1) i(1) nh]) (use k3 i in \<open>auto simp: s4_def s2_def Let_def\<close>)
  define s5 where "s5 = insert_into_queues i s4"
  have "getblk d n s = Done (i, s5)"
    using none free w e1 e2 e3 e4 f4 by (simp add: getblk_def numeral_2_eq_2 get_hash_table_def Let_def s5_def)
  moreover have "queues_ok s5"
    unfolding s5_def by (rule requeue_ok [OF q(1) i(1)]) (use k3 i d in \<open>auto simp: s4_def s2_def Let_def\<close>)
  moreover have "bufs_ok s5" "view s5 = view s4" "on_disk s5 = on_disk s"
    using b4(1) bufs_ok_cong [of s5 s4] view_cong [of s5 s4] k3(4) by (simp_all add: s5_def) (simp_all add: s4_def on_disk_def [abs_def])
  moreover have "same_view s s5"
    using s1(2) b2(2) s3(2) b4(2) calculation(4) by (simp add: same_view_def)
  ultimately show ?thesis
    using i(1) k3(1,6,7,8) by (intro exI [of _ s5]) (simp add: got_def cache_ok_def s5_def holds_def, simp add: s4_def)
qed


text \<open>The read of a block into a buffer that is not up to date.\<close>

lemma read_ok:
  assumes ok: "cache_ok s" and i: "i < length (fs_bufs s)" "holds s d n i" and d: "0 < d"
    and u: "b_uptodate (buf i s) = 0" and disk: "on_disk s d n"
  shows "\<exists>s'. ll_rw_block False i s = Done s' \<and> cache_ok s' \<and> same_view s s' \<and> holds s' d n i \<and>
    b_uptodate (buf i s') = 1 \<and> b_data (buf i s') = view s d n \<and> b_count (buf i s') = b_count (buf i s)"
proof -
  define t where "t = upd_buf i (\<lambda>b. b\<lparr>b_data := fs_disk s d n, b_uptodate := 1, b_dirt := 0\<rparr>) s"
  have q: "bufs_ok s" "queues_ok s" using ok by (simp_all add: cache_ok_def)
  have l: "ll_rw_block False i s = Done t"
    using disk i(2) unfolding on_disk_def holds_def t_def ll_rw_block_def rw_hd_def hd_transfer_def
    by (auto simp: Let_def u32_def mod_simps)
  have od: "on_disk t = on_disk s" by (simp add: t_def on_disk_def [abs_def])
  have h: "holds t e m j = holds s e m j" for e m j using i(1) by (simp add: t_def holds_def)
  have "buf_ok t (buf j t)" if "j < length (fs_bufs s)" for j
    using q(1) that i unfolding bufs_ok_def buf_ok_def od by (auto simp: t_def holds_def)
  then have b: "bufs_ok t" using q(1) h unfolding bufs_ok_def by (simp add: t_def)
  have v: "view s d n = fs_disk s d n" using view_cached [OF q(1) i(1) _ i(2)] d u by simp
  have "same_view s t"
    by (rule same_view_pointwise [OF q(1) b]) (use i h u in \<open>auto simp: t_def holds_def\<close>)
  moreover have "queues_ok t" using q(2) i(1) by (simp add: t_def queues_ok_def)
  ultimately show ?thesis using l b h i v by (intro exI [of _ t]) (simp add: cache_ok_def, simp add: t_def)
qed

text \<open>
  C26: \<open>bread\<close> of a block of the disk returns a buffer that holds exactly the current contents of the
  block, be they in the cache or on the disk, and it keeps the cache well formed (one buffer per block,
  queues intact) and the contents of every block as they were: a buffer that is given up for the new
  block has been written back. It sleeps only when every buffer is in use.
\<close>

theorem bread_transparent:
  assumes "cache_ok s" "0 < d" "d < 65536" "on_disk s d n"
    "\<forall>i<length (fs_bufs s). 0 \<le> b_count (buf i s) \<and> b_count (buf i s) < 255" "find_free s \<noteq> None"
  shows "\<exists>i s'. bread d n s = Done (Some i, s') \<and> cache_ok s' \<and> holds s' d n i \<and>
    b_data (buf i s') = view s d n \<and> 0 < b_count (buf i s') \<and> (\<forall>e m. e \<noteq> 0 \<longrightarrow> view s' e m = view s e m)"
proof -
  have n: "0 \<le> n" "n < 65536" using assms(4) by (simp_all add: on_disk_def)
  obtain i s1 where g: "getblk d n s = Done (i, s1)" "got s d n i s1"
  proof (cases "find_buffer d n s")
    case None
    then show thesis using that getblk_uncached [OF assms(1-3) n] assms(6) by blast
  next
    case (Some i)
    then have "i < length (fs_bufs s)" using assms(1,2) find_buffer_iff [of s d n i] by (simp add: cache_ok_def)
    then show thesis using that getblk_cached [OF assms(1,2) Some] assms(5) by blast
  qed
  have s1: "cache_ok s1" "bufs_ok s1" "same_view s s1" "i < length (fs_bufs s1)" "holds s1 d n i" "0 < b_count (buf i s1)"
    "on_disk s1 = on_disk s" using g(2) by (auto simp: got_def cache_ok_def)
  have v: "view s d n = view s1 d n" using s1(3) assms(2) by (simp add: same_view_def)
  show ?thesis
  proof (cases "b_uptodate (buf i s1) = 0")
    case False
    then have "view s1 d n = b_data (buf i s1)" using view_cached [OF s1(2,4) _ s1(5)] assms(2) by simp
    moreover have "bread d n s = Done (Some i, s1)" using g(1) False by (simp add: bread_def)
    ultimately show ?thesis using s1 v by (auto simp: same_view_def)
  next
    case True
    have "on_disk s1 d n" using assms(4) s1(7) by simp
    from read_ok [OF s1(1,4,5) assms(2) True this] obtain s2 where
      "ll_rw_block False i s1 = Done s2" "cache_ok s2" "same_view s1 s2" "holds s2 d n i" "b_uptodate (buf i s2) = 1"
      "b_data (buf i s2) = view s1 d n" "b_count (buf i s2) = b_count (buf i s1)" by blast
    then show ?thesis using g(1) True s1 v by (auto simp: bread_def same_view_def)
  qed
qed


text \<open>The cache after \<open>buffer_init\<close>.\<close>

lemma buffer_init_ok: "cache_ok (buffer_init n s)"
proof -
  have "buf i (buffer_init n s) = empty_buffer" if "i < n" for i using that by (simp add: buffer_init_def buf_def)
  then show ?thesis
    by (auto simp: cache_ok_def bufs_ok_def buf_ok_def holds_def queues_ok_def)
      (auto simp: buffer_init_def empty_buffer_def NR_HASH_def)
qed

definition fs_boot :: "nat \<Rightarrow> (int \<Rightarrow> int \<Rightarrow> byte list) \<Rightarrow> fs_state" where
  "fs_boot n disk = buffer_init n
     \<lparr>k_sched = sched_init, k_mm = undefined, k_page = (\<lambda>_. 0), k_files = [], k_inodes = [], fs_bufs = [], fs_free = [],
      fs_hash = [], fs_null = None, fs_disk = disk, fs_bad = (\<lambda>_ _. False), fs_nr_sects = (\<lambda>_. 1000), fs_last_inode = 0,
      fs_supers = []\<rparr>"

theorem bread_transparent_witness:
  "\<exists>i s'. bread 0x301 5 (fs_boot 2 (\<lambda>_ n. [of_int n])) = Done (Some i, s') \<and> cache_ok s' \<and> holds s' 0x301 5 i \<and>
    b_data (buf i s') = view (fs_boot 2 (\<lambda>_ n. [of_int n])) 0x301 5 \<and> 0 < b_count (buf i s') \<and>
    (\<forall>e m. e \<noteq> 0 \<longrightarrow> view s' e m = view (fs_boot 2 (\<lambda>_ n. [of_int n])) e m)"
  by (rule bread_transparent)
    (simp_all add: fs_boot_def buffer_init_ok, simp_all add: buffer_init_def on_disk_def MAJOR_def MINOR_def NR_HD_def u32_def
      find_free_def buf_def empty_buffer_def All_less_Suc numeral_2_eq_2)

text \<open>
  A buffer entered into an empty hash chain is written through the null pointer, at the offset of
  \<open>b_prev\<close>.
\<close>

theorem insert_writes_null:
  assumes "b_dev (buf i s) \<noteq> 0" "fs_hash s ! hashfn (b_dev (buf i s)) (b_blocknr (buf i s)) = []"
  shows "fs_null (insert_into_queues i s) = Some i"
  using assms by (simp add: insert_into_queues_def Let_def buf_def)

section \<open>Releasing a buffer\<close>

lemma brelse_ok:
  assumes "cache_ok s" "i < length (fs_bufs s)" "0 < b_count (buf i s)" "b_count (buf i s) < 256"
  shows "\<exists>s'. brelse (Some i) s = Done s' \<and> cache_ok s' \<and> same_view s s' \<and> b_count (buf i s') = b_count (buf i s) - 1 \<and>
    length (fs_bufs s') = length (fs_bufs s) \<and> (\<forall>j. b_data (buf j s') = b_data (buf j s)) \<and> (\<forall>d n j. holds s' d n j = holds s d n j)"
proof -
  have e: "upd_buf i (\<lambda>b. b\<lparr>b_count := u8 (b_count b - 1)\<rparr>) s = upd_buf i (\<lambda>b. b\<lparr>b_count := b_count (buf i s) - 1\<rparr>) s"
    using assms by (simp add: upd_buf_def buf_def u8_id)
  have "wait_on_buffer i s = Done ()" using assms by (auto simp: wait_on_buffer_def cache_ok_def bufs_ok_def buf_ok_def)
  then show ?thesis using count_ok [OF assms(1,2), of "b_count (buf i s) - 1"] assms
    by (simp add: brelse_def e holds_def)
qed

end
