(* ===== verification/Bitmap.thy ===== *)
theory Bitmap
  imports Buffer
begin

text \<open>
  The block and inode bitmaps, src/fs/bitmap.c: bits in the data of the bitmap buffers that a mounted
  super block holds, and the allocation and the release of a block.
\<close>

section \<open>Bits in a block\<close>

definition get_bit :: "nat \<Rightarrow> byte list \<Rightarrow> bool" where
  "get_bit n d = bit (d ! (n div 8)) (n mod 8)"

definition put_bit :: "nat \<Rightarrow> bool \<Rightarrow> byte list \<Rightarrow> byte list" where
  "put_bit n v d = d[n div 8 := (if v then Bit_Operations.set_bit (n mod 8) (d ! (n div 8))
                                 else unset_bit (n mod 8) (d ! (n div 8)))]"

text \<open>\<open>lodsl; notl; bsfl\<close> on word \<open>w\<close>, and the loop of \<open>find_first_zero\<close>.\<close>

definition bsf_not :: "nat \<Rightarrow> byte list \<Rightarrow> nat option" where
  "bsf_not w d = find (\<lambda>k. \<not> get_bit (32 * w + k) d) [0..<32]"

fun ffz_loop :: "nat \<Rightarrow> nat \<Rightarrow> byte list \<Rightarrow> nat" where
  "ffz_loop 0 w d = 32 * w"
| "ffz_loop (Suc n) w d = (case bsf_not w d of Some k \<Rightarrow> 32 * w + k | None \<Rightarrow> ffz_loop n (Suc w) d)"

definition find_first_zero :: "byte list \<Rightarrow> nat" where
  "find_first_zero d = ffz_loop 256 0 d"

section \<open>Super blocks\<close>

definition get_super :: "int \<Rightarrow> fs_state \<Rightarrow> nat option" where
  "get_super dev s = find (\<lambda>i. s_dev (fs_supers s ! i) = dev) [0..<length (fs_supers s)]"

definition super :: "nat \<Rightarrow> fs_state \<Rightarrow> super_block" where "super i s = fs_supers s ! i"

text \<open>The access to the data behind an entry of \<open>s_zmap\<close> or \<open>s_imap\<close>, which may be \<open>NULL\<close>.\<close>

definition map_slot :: "nat option list \<Rightarrow> nat \<Rightarrow> nat outcome" where
  "map_slot m k = obind (rd m k) (\<lambda>p. case p of None \<Rightarrow> Oob | Some b \<Rightarrow> Done b)"

section \<open>Blocks\<close>

definition free_block :: "int \<Rightarrow> int \<Rightarrow> fs_state \<Rightarrow> fs_state outcome" where
  "free_block dev block s =
     (case get_super dev s of
        None \<Rightarrow> Panic ''trying to free block on nonexistent device''
      | Some p \<Rightarrow>
          let sb = super p s in
          if block < s_firstdatazone sb \<or> block \<ge> s_nzones sb then Panic ''trying to free block not in datazone''
          else
            obind (get_hash_table dev block s) (\<lambda>(bh, s).
            if (case bh of None \<Rightarrow> False | Some i \<Rightarrow> b_count (buf i s) \<noteq> 1) then Done s
            else
              obind (case bh of None \<Rightarrow> Done s
                     | Some i \<Rightarrow> brelse bh (upd_buf i (\<lambda>b. b\<lparr>b_dirt := 0, b_uptodate := 0\<rparr>) s)) (\<lambda>s.
              let k = nat (block - (s_firstdatazone sb - 1)) in
              obind (map_slot (s_zmap sb) (k div 8192)) (\<lambda>z.
              if \<not> get_bit (k mod 8192) (b_data (buf z s)) then Panic ''free_block: bit already cleared''
              else Done (upd_buf z (\<lambda>b. b\<lparr>b_data := put_bit (k mod 8192) False (b_data b), b_dirt := 1\<rparr>) s)))))"

text \<open>
  The search \<open>for (i=0 ; i<8 ; i++) if ((bh=map[i])) if ((j=find_first_zero(bh->b_data))<8192) break;\<close>:
  \<open>i\<close>, \<open>bh\<close> and \<open>j\<close> after it.
\<close>

fun map_search :: "nat \<Rightarrow> nat option list \<Rightarrow> nat option \<Rightarrow> nat \<Rightarrow> fs_state \<Rightarrow> nat \<times> nat option \<times> nat" where
  "map_search i [] bh j s = (i, bh, j)"
| "map_search i (None # ms) bh j s = map_search (Suc i) ms None j s"
| "map_search i (Some b # ms) bh j s =
     (let j = find_first_zero (b_data (buf b s)) in
      if j < 8192 then (i, Some b, j) else map_search (Suc i) ms (Some b) j s)"

text \<open>\<open>clear_block\<close>\<close>

definition clear_block :: "byte list" where "clear_block = replicate BLOCK_SIZE 0"

definition new_block :: "int \<Rightarrow> fs_state \<Rightarrow> (int \<times> fs_state) outcome" where
  "new_block dev s =
     (case get_super dev s of
        None \<Rightarrow> Panic ''trying to get new block from nonexistant device''
      | Some p \<Rightarrow>
          let sb = super p s in
          case map_search 0 (take 8 (s_zmap sb)) None 8192 s of (i, bh, j) \<Rightarrow>
          if i \<ge> 8 \<or> bh = None \<or> j \<ge> 8192 then Done (0, s)
          else
            let z = the bh in
            if get_bit j (b_data (buf z s)) then Panic ''new_block: bit already set''
            else
              let s = upd_buf z (\<lambda>b. b\<lparr>b_data := put_bit j True (b_data b), b_dirt := 1\<rparr>) s;
                  k = int j + int i * 8192 + s_firstdatazone sb - 1 in
              if k \<ge> s_nzones sb then Done (0, s)
              else
                obind (getblk dev k s) (\<lambda>(n, s).
                if b_count (buf n s) \<noteq> 1 then Panic ''new block: count is != 1''
                else
                  obind (brelse (Some n) (upd_buf n (\<lambda>b. b\<lparr>b_data := clear_block, b_uptodate := 1, b_dirt := 1\<rparr>) s)) (\<lambda>s.
                  Done (k, s))))"

end
