(* ===== verification/BitmapProps.thy ===== *)
theory BitmapProps
  imports BufferProps Bitmap
begin

text \<open>
  Correctness of the block allocator: the search of the bitmap finds the first free bit, \<open>new_block\<close>
  hands out a block that was free and clears it, and \<open>free_block\<close> gives it back.
\<close>

section \<open>Bits\<close>

lemma get_put_bit:
  assumes "n div 8 < length d"
  shows "get_bit m (put_bit n v d) = (if m = n then v else get_bit m d)"
proof (cases "m div 8 = n div 8")
  case True
  then have "m = n \<longleftrightarrow> m mod 8 = n mod 8" by (metis div_mod_decomp)
  then show ?thesis using True assms
    by (auto simp: get_bit_def put_bit_def bit_simps)
next
  case False
  then show ?thesis by (auto simp: get_bit_def put_bit_def)
qed

lemma length_put_bit [simp]: "length (put_bit n v d) = length d"
  by (simp add: put_bit_def)

lemma bsf_not_Some: "bsf_not w d = Some k \<Longrightarrow> k < 32 \<and> \<not> get_bit (32 * w + k) d \<and> (\<forall>j<k. get_bit (32 * w + j) d)"
  by (auto simp: bsf_not_def find_Some_iff)

lemma bsf_not_None: "bsf_not w d = None \<Longrightarrow> \<forall>k<32. get_bit (32 * w + k) d"
  by (auto simp: bsf_not_def find_None_iff)

lemma ffz_loop_spec:
  "(\<forall>k<32 * w. get_bit k d) \<Longrightarrow>
   (\<forall>k<ffz_loop n w d. get_bit k d) \<and> ffz_loop n w d \<le> 32 * (w + n) \<and>
   (ffz_loop n w d < 32 * (w + n) \<longrightarrow> \<not> get_bit (ffz_loop n w d) d)"
proof (induction n arbitrary: w)
  case (Suc n)
  show ?case
  proof (cases "bsf_not w d")
    case None
    have "\<forall>k<32 * Suc w. get_bit k d"
    proof (intro allI impI)
      fix k assume "k < 32 * Suc w"
      then show "get_bit k d" using Suc.prems bsf_not_None [OF None] by (cases "k < 32 * w") (auto dest: spec [of _ "k - 32 * w"])
    qed
    then show ?thesis using Suc.IH [of "Suc w"] None by simp
  next
    case (Some k)
    have "get_bit j d" if "j < 32 * w + k" for j
      using that Suc.prems bsf_not_Some [OF Some] by (cases "j < 32 * w") (auto dest: spec [of _ "j - 32 * w"])
    then show ?thesis using Some bsf_not_Some [OF Some] by simp
  qed
qed simp

lemma find_first_zero_spec:
  "(\<forall>k<find_first_zero d. get_bit k d) \<and> find_first_zero d \<le> 8192 \<and>
   (find_first_zero d < 8192 \<longrightarrow> \<not> get_bit (find_first_zero d) d)"
  using ffz_loop_spec [of 0 d 256] by (simp add: find_first_zero_def)

section \<open>Changing a block in the cache\<close>

lemma modify_ok:
  assumes ok: "cache_ok s" and i: "i < length (fs_bufs s)" "holds s d n i" and d: "0 < d" and disk: "on_disk s d n"
    and f: "\<And>b. b_dev (f b) = b_dev b" "\<And>b. b_blocknr (f b) = b_blocknr b" "\<And>b. b_lock (f b) = b_lock b"
      "b_dirt (f (buf i s)) \<noteq> 0" "b_uptodate (f (buf i s)) \<noteq> 0"
  defines "t \<equiv> upd_buf i f s"
  shows "cache_ok t" "view t d n = b_data (f (buf i s))"
    "\<And>e m. e \<noteq> 0 \<Longrightarrow> (e, m) \<noteq> (d, n) \<Longrightarrow> view t e m = view s e m" "on_disk t = on_disk s"
proof -
  have q: "bufs_ok s" "queues_ok s" using ok by (simp_all add: cache_ok_def)
  show od: "on_disk t = on_disk s" by (simp add: t_def on_disk_def [abs_def])
  have h: "holds t e m j = holds s e m j" for e m j using i(1) f by (simp add: t_def holds_def)
  have len: "length (fs_bufs t) = length (fs_bufs s)" and dk: "fs_disk t = fs_disk s" by (simp_all add: t_def)
  have bj: "j \<noteq> i \<Longrightarrow> buf j t = buf j s" and bi: "buf i t = f (buf i s)" for j using i(1) by (simp_all add: t_def)
  have "buf_ok t (buf j t)" if j: "j < length (fs_bufs s)" for j
  proof (cases "j = i")
    case True
    then show ?thesis using q(1) i disk d f unfolding bufs_ok_def buf_ok_def od holds_def by (auto simp: bi)
  next
    case False
    then show ?thesis using q(1) j unfolding bufs_ok_def buf_ok_def od dk by (simp add: bj)
  qed
  then have b: "bufs_ok t" using q(1) unfolding bufs_ok_def len h by blast
  moreover have "queues_ok t" using q(2) i(1) f by (simp add: queues_ok_def t_def)
  ultimately show "cache_ok t" by (simp add: cache_ok_def)
  show "view t d n = b_data (f (buf i s))" using view_cached [OF b, of i d n] i d f h len bi by simp
  show "view t e m = view s e m" if e: "e \<noteq> 0" "(e, m) \<noteq> (d, n)" for e m
  proof (cases "\<exists>j<length (fs_bufs s). holds s e m j")
    case True
    then obtain j where j: "j < length (fs_bufs s)" "holds s e m j" by blast
    then have "j \<noteq> i" using i(2) e(2) by (auto simp: holds_def)
    then show ?thesis using view_cached [OF q(1) j(1) e(1) j(2)] view_cached [OF b _ e(1), of j m] j h len bj dk by simp
  next
    case False
    then show ?thesis using view_uncached [of s e m] view_uncached [of t e m] h len dk by auto
  qed
qed

section \<open>The zone map\<close>

definition zbit :: "super_block \<Rightarrow> fs_state \<Rightarrow> nat \<Rightarrow> bool" where
  "zbit sb s m = get_bit (m mod 8192) (b_data (buf (the (s_zmap sb ! (m div 8192))) s))"

text \<open>
  A mounted device: the first \<open>s_zmap_blocks\<close> of the eight zone map slots hold buffers in use, of
  blocks before the data zone, the others are empty, and the data zone is on the disk.
\<close>

definition zslots :: "super_block \<Rightarrow> nat" where "zslots sb = nat (s_zmap_blocks sb)"

definition zmap_ok :: "int \<Rightarrow> super_block \<Rightarrow> fs_state \<Rightarrow> bool" where
  "zmap_ok dev sb s \<longleftrightarrow> length (s_zmap sb) = 8 \<and> zslots sb \<le> 8 \<and>
     (\<forall>k<8. zslots sb \<le> k \<longrightarrow> s_zmap sb ! k = None) \<and>
     (\<forall>k<zslots sb. \<exists>z n. s_zmap sb ! k = Some z \<and> z < length (fs_bufs s) \<and> length (b_data (buf z s)) = 1024 \<and>
        0 < b_count (buf z s) \<and> b_uptodate (buf z s) \<noteq> 0 \<and> holds s dev n z \<and> n < s_firstdatazone sb \<and> on_disk s dev n) \<and>
     (\<forall>j<zslots sb. \<forall>k<zslots sb. s_zmap sb ! j = s_zmap sb ! k \<longrightarrow> j = k) \<and>
     (\<forall>n. s_firstdatazone sb \<le> n \<and> n < s_nzones sb \<longrightarrow> on_disk s dev n)"

definition ffz_in :: "nat option \<Rightarrow> fs_state \<Rightarrow> nat" where
  "ffz_in b s = find_first_zero (b_data (buf (the b) s))"

lemma map_search_spec:
  "map_search i ms bh j s = (i', bh', j') \<Longrightarrow>
   (\<exists>t<length ms. i' = i + t \<and> bh' = ms ! t \<and> bh' \<noteq> None \<and> j' = ffz_in (ms ! t) s \<and> j' < 8192 \<and>
      (\<forall>u<t. ms ! u = None \<or> ffz_in (ms ! u) s \<ge> 8192)) \<or>
   (i' = i + length ms \<and> (\<forall>u<length ms. ms ! u = None \<or> ffz_in (ms ! u) s \<ge> 8192))"
proof (induction i ms bh j s rule: map_search.induct)
  case (2 i ms bh j s)
  then show ?case by (auto simp: less_Suc_eq_0_disj nth_Cons split: nat.splits)
next
  case (3 i b ms bh j s)
  show ?case
  proof (cases "find_first_zero (b_data (buf b s)) < 8192")
    case True
    then show ?thesis using "3.prems" by (intro disjI1 exI [of _ 0]) (auto simp: Let_def ffz_in_def)
  next
    case False
    then have m: "map_search (Suc i) ms (Some b) (find_first_zero (b_data (buf b s))) s = (i', bh', j')"
      using "3.prems" by (simp add: Let_def)
    from "3.IH" [OF refl False m] False show ?thesis
      by (auto simp: less_Suc_eq_0_disj ffz_in_def nth_Cons split: nat.splits)
  qed
qed auto

text \<open>The bits of a zone map slot that the search found full, and of the one it stopped in.\<close>

lemma ffz_zbit:
  "ffz_in (s_zmap sb ! t) s \<ge> 8192 \<Longrightarrow> k < 8192 \<Longrightarrow> zbit sb s (8192 * t + k)"
  "k < ffz_in (s_zmap sb ! t) s \<Longrightarrow> k < 8192 \<Longrightarrow> zbit sb s (8192 * t + k)"
  "ffz_in (s_zmap sb ! t) s < 8192 \<Longrightarrow> \<not> zbit sb s (8192 * t + ffz_in (s_zmap sb ! t) s)"
  using find_first_zero_spec [of "b_data (buf (the (s_zmap sb ! t)) s)"] by (auto simp: zbit_def ffz_in_def)

lemma zone_search:
  assumes z: "zmap_ok dev sb s" and m: "map_search 0 (take 8 (s_zmap sb)) None 8192 s = (i, bh, j)"
  shows "(\<exists>b. i < 8 \<and> bh = Some b \<and> s_zmap sb ! i = Some b \<and> j < 8192 \<and> \<not> zbit sb s (8192 * i + j) \<and>
      (\<forall>n<8192 * i + j. zbit sb s n) \<and> i < zslots sb) \<or> (i = 8 \<and> (\<forall>n<8192 * zslots sb. zbit sb s n))"
proof -
  have len: "length (s_zmap sb) = 8" "zslots sb \<le> 8" and some: "\<And>u. u < 8 \<Longrightarrow> s_zmap sb ! u \<noteq> None \<longleftrightarrow> u < zslots sb"
    using z by (auto simp: zmap_ok_def not_less [symmetric])
  have t8: "take 8 (s_zmap sb) = s_zmap sb" using len by simp
  have low: "zbit sb s n" if "\<forall>u<t. s_zmap sb ! u = None \<or> ffz_in (s_zmap sb ! u) s \<ge> 8192" "n < 8192 * t" "t \<le> zslots sb" for n t
  proof -
    have n: "n div 8192 < t" using that(2) by (simp add: less_mult_imp_div_less mult.commute)
    then show ?thesis using ffz_zbit(1) [of sb "n div 8192" s "n mod 8192"] that(1) some [of "n div 8192"] that(3) len(2) by auto
  qed
  from map_search_spec [OF m [unfolded t8]] show ?thesis
  proof (elim disjE exE conjE)
    fix t assume t: "t < length (s_zmap sb)" "i = 0 + t" "bh = s_zmap sb ! t" "bh \<noteq> None" "j = ffz_in (s_zmap sb ! t) s" "j < 8192"
      "\<forall>u<t. s_zmap sb ! u = None \<or> 8192 \<le> ffz_in (s_zmap sb ! u) s"
    have tz: "t < zslots sb" using t(1,3,4) some [of t] len(1) by simp
    have "zbit sb s n" if "n < 8192 * t + j" for n
      using low [OF t(7), of n] tz ffz_zbit(2) [of "n - 8192 * t" sb t s] that t(5,6) by (cases "n < 8192 * t") auto
    moreover obtain b where "s_zmap sb ! t = Some b" using t(3,4) by auto
    ultimately show ?thesis using t ffz_zbit(3) [of sb t s] len tz by auto
  next
    assume "i = 0 + length (s_zmap sb)" "\<forall>u<length (s_zmap sb). s_zmap sb ! u = None \<or> 8192 \<le> ffz_in (s_zmap sb ! u) s"
    then show ?thesis using low [of "zslots sb"] len by auto
  qed
qed

text \<open>Setting or clearing a bit in a slot changes that bit only.\<close>

lemma zbit_put:
  assumes z: "zmap_ok dev sb s" and i: "i < zslots sb" "s_zmap sb ! i = Some b" "j < 8192" and n: "n < 8192 * zslots sb"
    and t: "\<And>k c. k < zslots sb \<Longrightarrow> s_zmap sb ! k = Some c \<Longrightarrow> c \<noteq> b \<Longrightarrow> b_data (buf c t) = b_data (buf c s)" "b_data (buf b t) = put_bit j v (b_data (buf b s))"
  shows "zbit sb t n = (if n = 8192 * i + j then v else zbit sb s n)"
proof -
  let ?h = "n div 8192"
  have h: "?h < zslots sb" using n by (simp add: less_mult_imp_div_less mult.commute)
  have len: "length (b_data (buf b s)) = 1024" using z i unfolding zmap_ok_def by (metis option.inject)
  obtain c where c: "s_zmap sb ! ?h = Some c" using z h by (auto simp: zmap_ok_def)
  show ?thesis
  proof (cases "?h = i")
    case True
    then have "n = 8192 * i + n mod 8192" by (metis mult_div_mod_eq)
    then have e: "n = 8192 * i + j \<longleftrightarrow> n mod 8192 = j" using i(3) by auto
    have "j div 8 < length (b_data (buf b s))" using len i(3) by (simp add: less_mult_imp_div_less)
    then show ?thesis using True i(2) t(2) get_put_bit [of j "b_data (buf b s)" "n mod 8192" v] unfolding e zbit_def by simp
  next
    case False
    then have "c \<noteq> b" using z h i c unfolding zmap_ok_def by metis
    moreover have "n \<noteq> 8192 * i + j" using False i(3) by auto
    ultimately show ?thesis using c t(1) [OF h c] by (simp add: zbit_def)
  qed
qed


section \<open>Allocating a block\<close>

text \<open>The situation of an allocation: a mounted device, the first bit reserved, free blocks not in use.\<close>

definition alloc_ok :: "int \<Rightarrow> super_block \<Rightarrow> fs_state \<Rightarrow> bool" where
  "alloc_ok dev sb s \<longleftrightarrow> cache_ok s \<and> 0 < dev \<and> dev < 65536 \<and> zmap_ok dev sb s \<and> zbit sb s 0 \<and>
     1 \<le> s_firstdatazone sb \<and> (\<forall>i<length (fs_bufs s). 0 \<le> b_count (buf i s) \<and> b_count (buf i s) < 255) \<and>
     (\<forall>m i. i < length (fs_bufs s) \<and> \<not> zbit sb s m \<and> holds s dev (int m + s_firstdatazone sb - 1) i \<longrightarrow> b_count (buf i s) = 0)"

lemma getblk_fresh:
  assumes "cache_ok s" "0 < d" "d < 65536" "0 \<le> n" "n < 65536" "find_free s \<noteq> None"
    "\<forall>i<length (fs_bufs s). holds s d n i \<longrightarrow> b_count (buf i s) = 0"
  shows "\<exists>i s'. getblk d n s = Done (i, s') \<and> got s d n i s' \<and> b_count (buf i s') = 1 \<and> b_count (buf i s) = 0"
proof (cases "find_buffer d n s")
  case None
  obtain i where i: "find_free s = Some i" using assms(6) by blast
  have "b_count (buf i s) = 0" using find_free_Some [OF _ i] assms(1) by (simp add: cache_ok_def)
  then show ?thesis using getblk_uncached [OF assms(1-5) None i] by blast
next
  case (Some i)
  have i: "i < length (fs_bufs s)" "holds s d n i"
    using find_buffer_iff [of s d n i] Some assms(1,2) by (auto simp: cache_ok_def)
  then have c: "b_count (buf i s) = 0" using assms(7) by blast
  have "wait_on_buffer i (upd_buf i (\<lambda>b. b\<lparr>b_count := u8 (b_count b + 1)\<rparr>) s) = Done ()"
    using assms(1) i by (auto simp: wait_on_buffer_def cache_ok_def bufs_ok_def buf_ok_def)
  then have "getblk d n s = Done (i, upd_buf i (\<lambda>b. b\<lparr>b_count := u8 (b_count b + 1)\<rparr>) s)"
    using Some by (simp add: getblk_def numeral_2_eq_2 get_hash_table_def Let_def)
  moreover obtain s' where "getblk d n s = Done (i, s')" "got s d n i s'"
    using getblk_cached [OF assms(1,2) Some] c by auto
  ultimately show ?thesis using i c by (auto simp: u8_def)
qed

text \<open>The part of \<open>new_block\<close> after the bit is set.\<close>

lemma new_block_fill:
  assumes "cache_ok s" "0 < d" "d < 65536" "on_disk s d n" "find_free s \<noteq> None"
    "\<forall>i<length (fs_bufs s). holds s d n i \<longrightarrow> b_count (buf i s) = 0"
  shows "\<exists>i s2 s3. getblk d n s = Done (i, s2) \<and> b_count (buf i s2) = 1 \<and> b_count (buf i s) = 0 \<and>
    brelse (Some i) (upd_buf i (\<lambda>b. b\<lparr>b_data := clear_block, b_uptodate := 1, b_dirt := 1\<rparr>) s2) = Done s3 \<and>
    cache_ok s3 \<and> view s3 d n = clear_block \<and> holds s3 d n i \<and> fs_supers s3 = fs_supers s \<and>
    (\<forall>e m. e \<noteq> 0 \<longrightarrow> (e, m) \<noteq> (d, n) \<longrightarrow> view s3 e m = view s e m) \<and>
    (\<forall>j<length (fs_bufs s). j \<noteq> i \<longrightarrow> b_data (buf j s3) = b_data (buf j s)) \<and>
    length (fs_bufs s3) = length (fs_bufs s)"
proof -
  have n: "0 \<le> n" "n < 65536" using assms(4) by (simp_all add: on_disk_def)
  obtain i s2 where g: "getblk d n s = Done (i, s2)" "got s d n i s2" "b_count (buf i s2) = 1" "b_count (buf i s) = 0"
    using getblk_fresh [OF assms(1-3) n assms(5,6)] by blast
  have s2: "cache_ok s2" "i < length (fs_bufs s2)" "holds s2 d n i" "on_disk s2 = on_disk s" "same_view s s2"
    "fs_supers s2 = fs_supers s" "length (fs_bufs s2) = length (fs_bufs s)"
    "\<And>j. j < length (fs_bufs s) \<Longrightarrow> j \<noteq> i \<Longrightarrow> b_data (buf j s2) = b_data (buf j s)"
    using g(2) by (simp_all add: got_def)
  define t where "t = upd_buf i (\<lambda>b. b\<lparr>b_data := clear_block, b_uptodate := 1, b_dirt := 1\<rparr>) s2"
  have od: "on_disk s2 d n" using assms(4) s2(4) by simp
  note mo = modify_ok [OF s2(1-3) assms(2) od, where f = "\<lambda>b. b\<lparr>b_data := clear_block, b_uptodate := 1, b_dirt := 1\<rparr>", folded t_def]
  have t1: "cache_ok t" by (rule mo(1)) simp_all
  have t2: "view t d n = clear_block" by (subst mo(2)) simp_all
  have t3: "view t e m = view s2 e m" if "e \<noteq> 0" "(e, m) \<noteq> (d, n)" for e m by (rule mo(3)) (use that in simp_all)
  note t = t1 t2 t3
  have b: "i < length (fs_bufs t)" "b_count (buf i t) = 1" "\<And>j. j \<noteq> i \<Longrightarrow> buf j t = buf j s2" "holds t d n i"
    "fs_supers t = fs_supers s2" "length (fs_bufs t) = length (fs_bufs s2)"
    using s2(2,3) g(3) by (simp_all add: t_def holds_def)
  have c: "0 < b_count (buf i t)" "b_count (buf i t) < 256" using b(2) by simp_all
  from brelse_ok [OF t(1) b(1) c] obtain s3 where
    s3: "brelse (Some i) t = Done s3" "cache_ok s3" "same_view t s3" "length (fs_bufs s3) = length (fs_bufs t)"
      "\<forall>j. b_data (buf j s3) = b_data (buf j t)" "\<forall>d n j. holds s3 d n j = holds t d n j" by (elim exE conjE)
  have su: "fs_supers s3 = fs_supers t"
    using s3(1) by (auto simp: brelse_def outcome_simps split: if_splits)
  have v: "view s3 d n = clear_block" using s3(3) t2 assms(2) by (simp add: same_view_def)
  have v': "view s3 e m = view s e m" if "e \<noteq> 0" "(e, m) \<noteq> (d, n)" for e m
    using s3(3) s2(5) t3 [OF that] that(1) by (simp add: same_view_def)
  have dj: "b_data (buf j s3) = b_data (buf j s)" if "j < length (fs_bufs s)" "j \<noteq> i" for j
    using s3(5) b(3) [OF that(2)] s2(8) [OF that] by simp
  have h: "holds s3 d n i" using s3(6) b(4) by blast
  have l: "length (fs_bufs s3) = length (fs_bufs s)" using s3(4) b(6) s2(7) by simp
  show ?thesis
    by (intro exI [of _ i] exI [of _ s2] exI [of _ s3] conjI allI impI) (fact g(1,3,4) s3(1) [unfolded t_def] s3(2) v h l v' dj | simp add: su b(5) s2(6))+
qed


text \<open>
  C37: \<open>new_block\<close> on a mounted device returns 0 only when no zone is free; otherwise it returns a zone
  of the data area whose bit was clear, sets that bit and no other, leaves the block itself cleared in
  the cache, which stays well formed.
\<close>

theorem new_block_allocates:
  assumes a: "alloc_ok dev sb s" and p: "get_super dev s = Some p" "super p s = sb" and ff: "find_free s \<noteq> None"
    and small: "s_nzones sb < 65536"
  shows "\<exists>k s'. new_block dev s = Done (k, s') \<and>
    (k = 0 \<longrightarrow> (\<forall>m. 0 < m \<and> m < 8192 * zslots sb \<and> int m + s_firstdatazone sb - 1 < s_nzones sb \<longrightarrow> zbit sb s m)) \<and>
    (k \<noteq> 0 \<longrightarrow> s_firstdatazone sb \<le> k \<and> k < s_nzones sb \<and> \<not> zbit sb s (nat (k - s_firstdatazone sb + 1)) \<and>
      (\<forall>m<8192 * zslots sb. zbit sb s' m = (m = nat (k - s_firstdatazone sb + 1) \<or> zbit sb s m)) \<and>
      view s' dev k = clear_block \<and> cache_ok s')"
proof -
  have ok: "cache_ok s" "0 < dev" "dev < 65536" and z: "zmap_ok dev sb s" and one: "1 \<le> s_firstdatazone sb"
    using a by (simp_all add: alloc_ok_def)
  obtain i bh j where m: "map_search 0 (take 8 (s_zmap sb)) None 8192 s = (i, bh, j)" by (metis prod_cases3)
  let ?m = "8192 * i + j" and ?k = "int j + int i * 8192 + s_firstdatazone sb - 1"
  from zone_search [OF z m] show ?thesis
  proof (elim disjE exE conjE)
    assume "i = 8" "\<forall>n<8192 * zslots sb. zbit sb s n"
    then show ?thesis using p m by (simp add: new_block_def Let_def)
  next
    fix b assume b: "i < zslots sb" "bh = Some b" "s_zmap sb ! i = Some b" "j < 8192" "\<not> zbit sb s ?m" "\<forall>n<?m. zbit sb s n"
    have i8: "i < 8" using b(1) z by (simp add: zmap_ok_def)
    obtain n where n: "b < length (fs_bufs s)" "holds s dev n b" "n < s_firstdatazone sb" "on_disk s dev n" "b_uptodate (buf b s) \<noteq> 0"
      using z b(1,3) by (auto simp: zmap_ok_def)
    define s1 where "s1 = upd_buf b (\<lambda>x. x\<lparr>b_data := put_bit j True (b_data x), b_dirt := 1\<rparr>) s"
    have bit: "\<not> get_bit j (b_data (buf b s))" using b(3,4,5) by (simp add: zbit_def)
    show ?thesis
    proof (cases "?k \<ge> s_nzones sb")
      case True
      then have "new_block dev s = Done (0, s1)" using p m b i8 bit by (simp add: new_block_def Let_def s1_def)
      then show ?thesis using b(6) True by auto
    next
      case False
      have "0 < ?m" using a b(5) by (cases "?m = 0") (auto simp: alloc_ok_def)
      then have k: "s_firstdatazone sb \<le> ?k" "?k < s_nzones sb" "nat (?k - s_firstdatazone sb + 1) = ?m" using False by auto
      note mo = modify_ok [OF ok(1) n(1,2) ok(2) n(4), where f = "\<lambda>x. x\<lparr>b_data := put_bit j True (b_data x), b_dirt := 1\<rparr>", folded s1_def]
      have c1: "cache_ok s1" by (rule mo(1)) (use n(5) in simp_all)
      have od: "on_disk s1 = on_disk s" by (rule mo(4)) (use n(5) in simp_all)
      have s1: "length (fs_bufs s1) = length (fs_bufs s)" "fs_free s1 = fs_free s" "\<And>x. b_count (buf x s1) = b_count (buf x s)"
        "\<And>e y x. holds s1 e y x = holds s e y x" using n(1) by (simp_all add: s1_def holds_def)
      have f1: "find_free s1 \<noteq> None" using ff by (simp add: find_free_def s1)
      have d1: "on_disk s1 dev ?k" using z k od by (simp add: zmap_ok_def)
      have "int ?m + s_firstdatazone sb - 1 = ?k" by simp
      then have "\<forall>x<length (fs_bufs s1). holds s1 dev ?k x \<longrightarrow> b_count (buf x s1) = 0"
        using a b s1 unfolding alloc_ok_def by metis
      from new_block_fill [OF c1 ok(2,3) d1 f1 this] obtain x s2 s3 where
        r: "getblk dev ?k s1 = Done (x, s2)" "b_count (buf x s2) = 1" "b_count (buf x s1) = 0"
          "brelse (Some x) (upd_buf x (\<lambda>b. b\<lparr>b_data := clear_block, b_uptodate := 1, b_dirt := 1\<rparr>) s2) = Done s3"
          "cache_ok s3" "view s3 dev ?k = clear_block" "holds s3 dev ?k x"
          "\<forall>j<length (fs_bufs s1). j \<noteq> x \<longrightarrow> b_data (buf j s3) = b_data (buf j s1)" by (elim exE conjE)
      have "new_block dev s = Done (?k, s3)" using p m b i8 bit False r(1,2,4) by (simp add: new_block_def Let_def s1_def)
      moreover have "zbit sb s3 m = (m = ?m \<or> zbit sb s m)" if "m < 8192 * zslots sb" for m
      proof -
        have pin: "c < length (fs_bufs s) \<and> c \<noteq> x" if "h < zslots sb" "s_zmap sb ! h = Some c" for h c
          using z that r(3) s1(3) by (fastforce simp: zmap_ok_def)
        have "zbit sb s3 m = (if m = ?m then True else zbit sb s m)"
          by (rule zbit_put [OF z b(1,3,4) that]) (use pin b(1,3) n(1) r(8) s1(1) in \<open>auto simp: s1_def\<close>)
        then show ?thesis by simp
      qed
      ultimately show ?thesis using k r(5,6) b(5) one by (intro exI [of _ ?k] exI [of _ s3]) auto
    qed
  qed
qed


text \<open>A mounted disk of one zone map block, with that block cached and one free buffer.\<close>

definition one_zone_map :: fs_state where
  "one_zone_map =
     (let d = 1 # replicate 1023 0 in
      fs_boot 2 (\<lambda>_ _. d)
        \<lparr>fs_bufs := [empty_buffer\<lparr>b_data := d, b_dev := 0x301, b_blocknr := 2, b_uptodate := 1, b_count := 1\<rparr>, empty_buffer],
         fs_hash := (replicate NR_HASH [])[hashfn 0x301 2 := [0]],
         fs_supers := [\<lparr>s_ninodes = 32, s_nzones = 100, s_imap_blocks = 1, s_zmap_blocks = 1, s_firstdatazone = 5,
           s_log_zone_size = 0, s_max_size = 1000, s_magic = SUPER_MAGIC, s_imap = replicate 8 None,
           s_zmap = Some 0 # replicate 7 None, s_dev = 0x301, s_isup = None, s_imount = None, s_time = 0, s_rd_only = 0, s_dirt = 0\<rparr>]\<rparr>)"

lemma one_zone_map_ok: "alloc_ok 0x301 (fs_supers one_zone_map ! 0) one_zone_map"
proof -
  have b: "fs_bufs one_zone_map = [empty_buffer\<lparr>b_data := 1 # replicate 1023 0, b_dev := 0x301, b_blocknr := 2, b_uptodate := 1, b_count := 1\<rparr>, empty_buffer]"
    "fs_disk one_zone_map = (\<lambda>_ _. 1 # replicate 1023 0)" "fs_bad one_zone_map = (\<lambda>_ _. False)" "fs_nr_sects one_zone_map = (\<lambda>_. 1000)"
    by (simp_all add: one_zone_map_def fs_boot_def buffer_init_def Let_def)
  have "bufs_ok one_zone_map"
    by (auto simp: bufs_ok_def buf_ok_def buf_def b empty_buffer_def holds_def less_Suc_eq numeral_2_eq_2)
  moreover have "queues_ok one_zone_map"
    by (auto simp: queues_ok_def one_zone_map_def fs_boot_def buffer_init_def Let_def buf_def empty_buffer_def nth_list_update
      less_Suc_eq numeral_2_eq_2 hashfn_lt nth_Cons split: nat.splits)
  moreover have "on_disk one_zone_map 0x301 n" if "0 \<le> n" "n < 100" for n
    using that by (simp add: on_disk_def b MAJOR_def MINOR_def NR_HD_def u32_def)
  then have "zmap_ok 0x301 (fs_supers one_zone_map ! 0) one_zone_map"
    by (auto simp: zmap_ok_def zslots_def b buf_def empty_buffer_def holds_def less_Suc_eq one_zone_map_def Let_def numeral_2_eq_2 nth_Cons
      split: nat.splits)
  ultimately show ?thesis
    by (auto simp: alloc_ok_def cache_ok_def zbit_def get_bit_def b buf_def empty_buffer_def holds_def one_zone_map_def Let_def less_Suc_eq numeral_2_eq_2)
qed


theorem new_block_allocates_witness:
  "let s = one_zone_map; sb = fs_supers s ! 0 in
   \<exists>k s'. new_block 0x301 s = Done (k, s') \<and>
    (k = 0 \<longrightarrow> (\<forall>m. 0 < m \<and> m < 8192 * zslots sb \<and> int m + s_firstdatazone sb - 1 < s_nzones sb \<longrightarrow> zbit sb s m)) \<and>
    (k \<noteq> 0 \<longrightarrow> s_firstdatazone sb \<le> k \<and> k < s_nzones sb \<and> \<not> zbit sb s (nat (k - s_firstdatazone sb + 1)) \<and>
      (\<forall>m<8192 * zslots sb. zbit sb s' m = (m = nat (k - s_firstdatazone sb + 1) \<or> zbit sb s m)) \<and>
      view s' 0x301 k = clear_block \<and> cache_ok s')"
  unfolding Let_def
  by (rule new_block_allocates [OF one_zone_map_ok, of 0])
    (simp_all add: one_zone_map_def fs_boot_def buffer_init_def get_super_def super_def Let_def find_free_def buf_def
      empty_buffer_def numeral_2_eq_2)

section \<open>Releasing a block\<close>

lemma forget_ok:
  assumes ok: "cache_ok s" and i: "i < length (fs_bufs s)"
    and f: "\<And>b. b_dev (f b) = b_dev b" "\<And>b. b_blocknr (f b) = b_blocknr b" "\<And>b. b_lock (f b) = b_lock b"
      "\<And>b. b_dirt (f b) = 0" "\<And>b. b_uptodate (f b) = 0"
  shows "cache_ok (upd_buf i f s)"
proof -
  have q: "bufs_ok s" "queues_ok s" using ok by (simp_all add: cache_ok_def)
  have h: "holds (upd_buf i f s) e m j = holds s e m j" for e m j using i f by (simp add: holds_def)
  have od: "on_disk (upd_buf i f s) = on_disk s" by (simp add: on_disk_def [abs_def])
  have "buf_ok (upd_buf i f s) (buf j (upd_buf i f s))" if j: "j < length (fs_bufs s)" for j
    using q(1) i j f unfolding bufs_ok_def buf_ok_def od by (simp split: if_split)
  then have "bufs_ok (upd_buf i f s)" using q(1) unfolding bufs_ok_def h by simp
  moreover have "queues_ok (upd_buf i f s)" using q(2) i f by (simp add: queues_ok_def)
  ultimately show ?thesis by (simp add: cache_ok_def)
qed

text \<open>Dropping the buffer of a block that nobody uses: the part of \<open>free_block\<close> before the bitmap.\<close>

definition drop_buffer :: "int \<Rightarrow> int \<Rightarrow> fs_state \<Rightarrow> fs_state outcome" where
  "drop_buffer dev block s =
     obind (get_hash_table dev block s) (\<lambda>(bh, s).
     case bh of None \<Rightarrow> Done s
     | Some i \<Rightarrow> brelse bh (upd_buf i (\<lambda>b. b\<lparr>b_dirt := 0, b_uptodate := 0\<rparr>) s))"

lemma drop_buffer_ok:
  assumes ok: "cache_ok s" "0 < d" and free: "\<forall>i<length (fs_bufs s). holds s d n i \<longrightarrow> b_count (buf i s) = 0"
  shows "\<exists>t. drop_buffer d n s = Done t \<and> cache_ok t \<and> length (fs_bufs t) = length (fs_bufs s) \<and> on_disk t = on_disk s \<and>
    (\<forall>i<length (fs_bufs s). 0 < b_count (buf i s) \<longrightarrow> buf i t = buf i s) \<and>
    (case find_buffer d n s of None \<Rightarrow> get_hash_table d n s = Done (None, s) |
       Some i \<Rightarrow> \<exists>s1. get_hash_table d n s = Done (Some i, s1) \<and> b_count (buf i s1) = 1)"
proof (cases "find_buffer d n s")
  case None
  then show ?thesis using ok by (simp add: drop_buffer_def get_hash_table_def)
next
  case (Some i)
  then have i: "i < length (fs_bufs s)" "b_count (buf i s) = 0"
    using find_buffer_iff [of s d n i] ok free by (auto simp: cache_ok_def)
  let ?f = "\<lambda>b. b\<lparr>b_count := u8 (b_count b + 1)\<rparr>" and ?g = "\<lambda>b. b\<lparr>b_dirt := 0, b_uptodate := 0\<rparr>"
  define u where "u = upd_buf i ?g (upd_buf i ?f s)"
  have lock: "b_lock (buf i s) = 0" using ok i by (auto simp: cache_ok_def bufs_ok_def buf_ok_def)
  have g: "get_hash_table d n s = Done (Some i, upd_buf i ?f s)"
    using Some lock i by (simp add: get_hash_table_def Let_def wait_on_buffer_def)
  have "u = upd_buf i (?g \<circ> ?f) s" using i by (simp add: u_def upd_buf_def)
  then have "cache_ok u" using forget_ok [OF ok(1) i(1), of "?g \<circ> ?f"] by simp
  moreover have ci: "i < length (fs_bufs u)" "b_count (buf i u) = 1" using i by (simp_all add: u_def u8_def)
  moreover have "drop_buffer d n s = brelse (Some i) u" by (simp add: drop_buffer_def g u_def)
  moreover have "brelse (Some i) u = Done (upd_buf i (\<lambda>b. b\<lparr>b_count := u8 (b_count b - 1)\<rparr>) u)"
    using ci i lock by (simp add: brelse_def wait_on_buffer_def u_def)
  ultimately show ?thesis
    using brelse_ok [of u i] g i Some by (auto simp: u_def on_disk_def [abs_def] u8_def)
qed

lemma free_block_runs:
  assumes a: "cache_ok s" "0 < dev" "zmap_ok dev sb s" and p: "get_super dev s = Some p" "super p s = sb"
    and k: "s_firstdatazone sb \<le> k" "k < s_nzones sb" "m = nat (k - s_firstdatazone sb + 1)" "m < 8192 * zslots sb" "zbit sb s m"
    and free: "\<forall>i<length (fs_bufs s). holds s dev k i \<longrightarrow> b_count (buf i s) = 0"
    and z: "s_zmap sb ! (m div 8192) = Some z" "0 < b_count (buf z s)" "z < length (fs_bufs s)"
    and t: "drop_buffer dev k s = Done t"
  shows "free_block dev k s = Done (upd_buf z (\<lambda>b. b\<lparr>b_data := put_bit (m mod 8192) False (b_data b), b_dirt := 1\<rparr>) t)"
proof -
  from drop_buffer_ok [OF a(1,2) free] t have d:
      "\<forall>i<length (fs_bufs s). 0 < b_count (buf i s) \<longrightarrow> buf i t = buf i s"
      "case find_buffer dev k s of None \<Rightarrow> get_hash_table dev k s = Done (None, s) |
       Some i \<Rightarrow> \<exists>s1. get_hash_table dev k s = Done (Some i, s1) \<and> b_count (buf i s1) = 1" by auto
  have i: "m div 8192 < zslots sb" using k(4) by (simp add: less_mult_imp_div_less mult.commute)
  have len: "length (s_zmap sb) = 8" "zslots sb \<le> 8" using a(3) by (simp_all add: zmap_ok_def)
  have mk: "nat (k - (s_firstdatazone sb - 1)) = m" using k(1,3) by (simp add: algebra_simps)
  have slot: "map_slot (s_zmap sb) (m div 8192) = Done z" using i len z(1) by (simp add: map_slot_def rd_def)
  have bit: "get_bit (m mod 8192) (b_data (buf z t))" using k(5) z d(1) by (simp add: zbit_def)
  show ?thesis
  proof (cases "find_buffer dev k s")
    case None
    then show ?thesis using p k(1,2) t d(2) slot bit by (simp add: free_block_def drop_buffer_def Let_def mk)
  next
    case (Some x)
    then show ?thesis using p k(1,2) t d(2) slot bit by (auto simp: free_block_def drop_buffer_def Let_def mk [folded p(2)])
  qed
qed

text \<open>
  \<open>free_block\<close> of an allocated block that no task uses does not panic: it clears the bit of that block in
  the zone map and no other, leaves the cache well formed, and every buffer in use as it was apart
  from the zone map's.
\<close>

lemma free_block_releases:
  assumes a: "cache_ok s" "0 < dev" "zmap_ok dev sb s" and p: "get_super dev s = Some p" "super p s = sb"
    and k: "s_firstdatazone sb \<le> k" "k < s_nzones sb" "m = nat (k - s_firstdatazone sb + 1)" "m < 8192 * zslots sb" "zbit sb s m"
    and free: "\<forall>i<length (fs_bufs s). holds s dev k i \<longrightarrow> b_count (buf i s) = 0"
  shows "\<exists>s'. free_block dev k s = Done s' \<and> cache_ok s' \<and>
    (\<forall>n<8192 * zslots sb. zbit sb s' n = (n \<noteq> m \<and> zbit sb s n)) \<and>
    (\<forall>i<length (fs_bufs s). 0 < b_count (buf i s) \<and> Some i \<notin> set (s_zmap sb) \<longrightarrow> buf i s' = buf i s)"
proof -
  let ?i = "m div 8192" and ?j = "m mod 8192"
  have i: "?i < zslots sb" using k(4) by (simp add: less_mult_imp_div_less mult.commute)
  have len: "length (s_zmap sb) = 8" "zslots sb \<le> 8" using a(3) by (simp_all add: zmap_ok_def)
  have pin: "\<exists>z n. s_zmap sb ! h = Some z \<and> z < length (fs_bufs s) \<and> length (b_data (buf z s)) = 1024 \<and>
      0 < b_count (buf z s) \<and> b_uptodate (buf z s) \<noteq> 0 \<and> holds s dev n z \<and> n < s_firstdatazone sb \<and> on_disk s dev n"
    if "h < zslots sb" for h using a(3) that by (simp add: zmap_ok_def)
  obtain z n where z: "s_zmap sb ! ?i = Some z" "z < length (fs_bufs s)" "0 < b_count (buf z s)" "b_uptodate (buf z s) \<noteq> 0"
    "holds s dev n z" "on_disk s dev n" using pin [OF i] by blast
  from drop_buffer_ok [OF a(1,2) free] obtain t where
    t: "drop_buffer dev k s = Done t" "cache_ok t" "length (fs_bufs t) = length (fs_bufs s)" "on_disk t = on_disk s"
      "\<forall>i<length (fs_bufs s). 0 < b_count (buf i s) \<longrightarrow> buf i t = buf i s"
    by (elim exE conjE)
  have bz: "buf z t = buf z s" using t(5) z by blast
  let ?g = "\<lambda>b. b\<lparr>b_data := put_bit ?j False (b_data b), b_dirt := 1\<rparr>"
  define s' where "s' = upd_buf z ?g t"
  have "free_block dev k s = Done s'"
    unfolding s'_def by (rule free_block_runs [OF a p k free z(1,3,2) t(1)])
  moreover have "cache_ok s'"
    unfolding s'_def by (rule modify_ok(1) [OF t(2) _ _ a(2), of z n]) (use z bz t in \<open>simp_all add: holds_def\<close>)
  moreover have "zbit sb s' l = (l \<noteq> m \<and> zbit sb s l)" if "l < 8192 * zslots sb" for l
  proof -
    have "zbit sb s' l = (if l = 8192 * ?i + ?j then False else zbit sb s l)"
    proof (rule zbit_put [OF a(3) i z(1) _ that])
      fix h c assume h: "h < zslots sb" "s_zmap sb ! h = Some c" "c \<noteq> z"
      then have "c < length (fs_bufs s)" "0 < b_count (buf c s)" using pin [OF h(1)] by auto
      then show "b_data (buf c s') = b_data (buf c s)" using t(3,5) z(2) h(3) by (simp add: s'_def)
    qed (use z t bz in \<open>simp_all add: s'_def\<close>)
    then show ?thesis by auto
  qed
  moreover have "buf l s' = buf l s" if "l < length (fs_bufs s)" "0 < b_count (buf l s)" "Some l \<notin> set (s_zmap sb)" for l
  proof -
    have "Some z \<in> set (s_zmap sb)" using z(1) i len by (metis less_le_trans nth_mem)
    then have "l \<noteq> z" using that(3) by auto
    then show ?thesis using t(3,5) that z(2) by (simp add: s'_def)
  qed
  ultimately show ?thesis by blast
qed


lemma free_block_releases_witness:
  "let s = one_zone_map\<lparr>fs_bufs := (fs_bufs one_zone_map)[0 := (fs_bufs one_zone_map ! 0)\<lparr>b_data := 3 # replicate 1023 0, b_dirt := 1\<rparr>]\<rparr>;
       sb = fs_supers s ! 0 in
   \<exists>s'. free_block 0x301 5 s = Done s' \<and> cache_ok s' \<and>
    (\<forall>n<8192 * zslots sb. zbit sb s' n = (n \<noteq> 1 \<and> zbit sb s n)) \<and>
    (\<forall>i<length (fs_bufs s). 0 < b_count (buf i s) \<and> Some i \<notin> set (s_zmap sb) \<longrightarrow> buf i s' = buf i s)"
proof -
  let ?s = "upd_buf 0 (\<lambda>b. b\<lparr>b_data := 3 # replicate 1023 0, b_dirt := 1\<rparr>) one_zone_map"
  let ?sb = "fs_supers one_zone_map ! 0"
  have a: "alloc_ok 0x301 ?sb one_zone_map" by (rule one_zone_map_ok)
  have b: "fs_bufs one_zone_map = [empty_buffer\<lparr>b_data := 1 # replicate 1023 0, b_dev := 0x301, b_blocknr := 2, b_uptodate := 1, b_count := 1\<rparr>, empty_buffer]"
    by (simp add: one_zone_map_def fs_boot_def buffer_init_def Let_def)
  have sb: "s_firstdatazone ?sb = 5" "s_nzones ?sb = 100" "zslots ?sb = 1" "s_zmap ?sb = Some 0 # replicate 7 None"
    by (simp_all add: one_zone_map_def fs_boot_def buffer_init_def Let_def upd_buf_def zslots_def)
  have h: "holds one_zone_map 0x301 2 0" by (simp add: holds_def buf_def b)
  have od: "on_disk one_zone_map 0x301 2" using a by (simp add: alloc_ok_def zmap_ok_def sb holds_def buf_def b)
  note mo = modify_ok [OF _ _ h _ od, where f = "\<lambda>b. b\<lparr>b_data := 3 # replicate 1023 0, b_dirt := 1\<rparr>"]
  have c: "cache_ok ?s" by (rule mo(1)) (use a in \<open>simp_all add: alloc_ok_def b buf_def empty_buffer_def\<close>)
  have "on_disk ?s = on_disk one_zone_map" by (rule mo(4)) (use a in \<open>simp_all add: alloc_ok_def b buf_def empty_buffer_def\<close>)
  then have z: "zmap_ok 0x301 ?sb ?s"
    using a by (auto simp: alloc_ok_def zmap_ok_def sb holds_def buf_def b upd_buf_def empty_buffer_def)
  have g: "get_super 0x301 ?s = Some 0" "super 0 ?s = ?sb"
    by (simp_all add: get_super_def super_def one_zone_map_def fs_boot_def buffer_init_def Let_def upd_buf_def)
  have "\<exists>s'. free_block 0x301 5 ?s = Done s' \<and> cache_ok s' \<and>
    (\<forall>n<8192 * zslots ?sb. zbit ?sb s' n = (n \<noteq> 1 \<and> zbit ?sb ?s n)) \<and>
    (\<forall>i<length (fs_bufs ?s). 0 < b_count (buf i ?s) \<and> Some i \<notin> set (s_zmap ?sb) \<longrightarrow> buf i s' = buf i ?s)"
    by (rule free_block_releases [OF c _ z g])
      (simp_all add: sb zbit_def get_bit_def, auto simp: buf_def upd_buf_def b empty_buffer_def holds_def less_Suc_eq numeral_2_eq_2)
  then show ?thesis by (simp add: Let_def upd_buf_def)
qed

end
