(* ===== verification/Inode.thy ===== *)
theory Inode
  imports Bitmap
begin

text \<open>
  Inodes: src/fs/inode.c, src/fs/truncate.c, the inode half of src/fs/bitmap.c and \<open>sys_sync\<close> of
  src/fs/buffer.c. An inode pointer is an index into \<open>inode_table\<close> (\<open>k_inodes\<close>); a task that would wait
  for a locked inode is the outcome \<open>Sleep\<close>. The 32 bytes of a \<open>struct d_inode\<close>, little endian,
  are written out.
\<close>

section \<open>The inode table\<close>

definition INODES_PER_BLOCK :: int where "INODES_PER_BLOCK = 32"

definition ino :: "nat \<Rightarrow> fs_state \<Rightarrow> m_inode" where "ino i s = k_inodes s ! i"

definition upd_ino :: "nat \<Rightarrow> (m_inode \<Rightarrow> m_inode) \<Rightarrow> fs_state \<Rightarrow> fs_state" where
  "upd_ino i f s = s\<lparr>k_inodes := (k_inodes s)[i := f (k_inodes s ! i)]\<rparr>"

definition zero_inode :: m_inode where
  "zero_inode = \<lparr>i_mode = 0, i_uid = 0, i_size = 0, i_mtime = 0, i_gid = 0, i_nlinks = 0, i_zone = replicate 9 0,
     i_wait = None, i_atime = 0, i_ctime = 0, i_dev = 0, i_num = 0, i_count = 0, i_lock = 0, i_dirt = 0, i_pipe = 0,
     i_mount = 0, i_seek = 0, i_update = 0\<rparr>"

definition now :: "fs_state \<Rightarrow> int" where "now s = u32 (current_time (k_sched s))"

definition wait_on_inode :: "nat \<Rightarrow> fs_state \<Rightarrow> unit outcome" where
  "wait_on_inode i s = (if i_lock (ino i s) \<noteq> 0 then Sleep else Done ())"

definition lock_inode :: "nat \<Rightarrow> fs_state \<Rightarrow> fs_state outcome" where
  "lock_inode i s = (if i_lock (ino i s) \<noteq> 0 then Sleep else Done (upd_ino i (\<lambda>n. n\<lparr>i_lock := 1\<rparr>) s))"

definition wake_inode :: "nat \<Rightarrow> fs_state \<Rightarrow> fs_state" where
  "wake_inode i s =
     (let (p, sc) = wake_up (i_wait (ino i s)) (k_sched s) in
      upd_ino i (\<lambda>n. n\<lparr>i_wait := p\<rparr>) (s\<lparr>k_sched := sc\<rparr>))"

definition unlock_inode :: "nat \<Rightarrow> fs_state \<Rightarrow> fs_state" where
  "unlock_inode i s = wake_inode i (upd_ino i (\<lambda>n. n\<lparr>i_lock := 0\<rparr>) s)"

section \<open>Numbers in a block\<close>

text \<open>\<open>((unsigned short *) data)[k]\<close>, read and written, and the 32-bit fields of a \<open>d_inode\<close>.\<close>

definition get16 :: "nat \<Rightarrow> byte list \<Rightarrow> int" where
  "get16 p d = uint (d ! p) + 256 * uint (d ! (p + 1))"

definition put16 :: "nat \<Rightarrow> int \<Rightarrow> byte list \<Rightarrow> byte list" where
  "put16 p v d = d[p := word_of_int v, p + 1 := word_of_int (v div 256)]"

definition get32 :: "nat \<Rightarrow> byte list \<Rightarrow> int" where
  "get32 p d = get16 p d + 65536 * get16 (p + 2) d"

definition put32 :: "nat \<Rightarrow> int \<Rightarrow> byte list \<Rightarrow> byte list" where
  "put32 p v d = put16 (p + 2) (v div 65536) (put16 p v d)"

definition get_zone :: "nat \<Rightarrow> byte list \<Rightarrow> int" where "get_zone k d = get16 (2 * k) d"
definition put_zone :: "nat \<Rightarrow> int \<Rightarrow> byte list \<Rightarrow> byte list" where "put_zone k v d = put16 (2 * k) v d"

text \<open>\<open>struct d_inode\<close> at offset \<open>p\<close> of a block.\<close>

definition load_inode :: "nat \<Rightarrow> byte list \<Rightarrow> m_inode \<Rightarrow> m_inode" where
  "load_inode p d n = n\<lparr>i_mode := get16 p d, i_uid := get16 (p + 2) d, i_size := get32 (p + 4) d,
     i_mtime := get32 (p + 8) d, i_gid := uint (d ! (p + 12)), i_nlinks := uint (d ! (p + 13)),
     i_zone := map (\<lambda>k. get16 (p + 14 + 2 * k) d) [0..<9]\<rparr>"

definition store_inode :: "nat \<Rightarrow> m_inode \<Rightarrow> byte list \<Rightarrow> byte list" where
  "store_inode p n d =
     fold (\<lambda>k. put16 (p + 14 + 2 * k) (i_zone n ! k)) [0..<9]
       ((put32 (p + 8) (i_mtime n) (put32 (p + 4) (i_size n) (put16 (p + 2) (i_uid n) (put16 p (i_mode n) d))))
        [p + 12 := word_of_int (i_gid n), p + 13 := word_of_int (i_nlinks n)])"

section \<open>Reading and writing inodes\<close>

text \<open>
  The block of the inode and its offset there; \<open>INODES_PER_BLOCK\<close> is unsigned. A missing super block
  is dereferenced.
\<close>

definition inode_block :: "super_block \<Rightarrow> m_inode \<Rightarrow> int" where
  "inode_block sb n = s32 (2 + s_imap_blocks sb + s_zmap_blocks sb + u32 (i_num n - 1) div INODES_PER_BLOCK)"

definition inode_offset :: "m_inode \<Rightarrow> nat" where
  "inode_offset n = 32 * nat (u32 (i_num n - 1) mod INODES_PER_BLOCK)"

definition bread_inode :: "nat \<Rightarrow> fs_state \<Rightarrow> (nat \<times> fs_state) outcome" where
  "bread_inode i s =
     (case get_super (i_dev (ino i s)) s of
        None \<Rightarrow> Oob
      | Some p \<Rightarrow>
          obind (bread (i_dev (ino i s)) (inode_block (super p s) (ino i s)) s) (\<lambda>(bh, s).
          case bh of None \<Rightarrow> Panic ''unable to read i-node block'' | Some b \<Rightarrow> Done (b, s)))"

definition read_inode :: "nat \<Rightarrow> fs_state \<Rightarrow> fs_state outcome" where
  "read_inode i s =
     obind (lock_inode i s) (\<lambda>s.
     obind (bread_inode i s) (\<lambda>(b, s).
     let s = upd_ino i (load_inode (inode_offset (ino i s)) (b_data (buf b s))) s in
     obind (brelse (Some b) s) (\<lambda>s. Done (unlock_inode i s))))"

definition write_inode :: "nat \<Rightarrow> fs_state \<Rightarrow> fs_state outcome" where
  "write_inode i s =
     obind (lock_inode i s) (\<lambda>s.
     obind (bread_inode i s) (\<lambda>(b, s).
     let s = upd_buf b (\<lambda>x. x\<lparr>b_data := store_inode (inode_offset (ino i s)) (ino i s) (b_data x), b_dirt := 1\<rparr>) s;
         s = upd_ino i (\<lambda>n. n\<lparr>i_dirt := 0\<rparr>) s in
     obind (brelse (Some b) s) (\<lambda>s. Done (unlock_inode i s))))"

fun sync_inodes_loop :: "nat list \<Rightarrow> fs_state \<Rightarrow> fs_state outcome" where
  "sync_inodes_loop [] s = Done s"
| "sync_inodes_loop (i # is) s =
     obind (wait_on_inode i s) (\<lambda>_.
     obind (if i_dirt (ino i s) \<noteq> 0 \<and> i_pipe (ino i s) = 0 then write_inode i s else Done s)
       (sync_inodes_loop is))"

definition sync_inodes :: "fs_state \<Rightarrow> fs_state outcome" where
  "sync_inodes s = sync_inodes_loop [0..<NR_INODE] s"

text \<open>\<open>sys_sync\<close> of buffer.c, the write of every dirty inode and then of every dirty buffer.\<close>

definition sys_sync :: "fs_state \<Rightarrow> (int \<times> fs_state) outcome" where
  "sys_sync s =
     obind (sync_inodes s) (\<lambda>s.
     obind (sync_loop (\<lambda>_. True) [0..<length (fs_bufs s)] s) (\<lambda>s. Done (0, s)))"

section \<open>The blocks of a file\<close>

text \<open>An entry of \<open>i_zone\<close>, allocated when \<open>create\<close> is set and it is empty.\<close>

definition zone_entry :: "nat \<Rightarrow> nat \<Rightarrow> bool \<Rightarrow> fs_state \<Rightarrow> (int \<times> fs_state) outcome" where
  "zone_entry i k create s =
     (if create \<and> i_zone (ino i s) ! k = 0 then
        obind (new_block (i_dev (ino i s)) s) (\<lambda>(z, s).
        let z = u16 z; s = upd_ino i (\<lambda>n. n\<lparr>i_zone := (i_zone n)[k := z]\<rparr>) s in
        if z \<noteq> 0 then Done (z, upd_ino i (\<lambda>n. n\<lparr>i_ctime := now s, i_dirt := 1\<rparr>) s) else Done (z, s))
      else Done (i_zone (ino i s) ! k, s))"

text \<open>An entry of the indirect block \<open>z\<close>, allocated likewise.\<close>

definition ind_entry :: "nat \<Rightarrow> int \<Rightarrow> nat \<Rightarrow> bool \<Rightarrow> fs_state \<Rightarrow> (int \<times> fs_state) outcome" where
  "ind_entry i z k create s =
     (if z = 0 then Done (0, s)
      else
        obind (bread (i_dev (ino i s)) z s) (\<lambda>(bh, s).
        case bh of
          None \<Rightarrow> Done (0, s)
        | Some b \<Rightarrow>
            let v = get_zone k (b_data (buf b s)) in
            obind (if create \<and> v = 0 then
                     obind (new_block (i_dev (ino i s)) s) (\<lambda>(v, s).
                     if v \<noteq> 0 then Done (v, upd_buf b (\<lambda>x. x\<lparr>b_data := put_zone k v (b_data x), b_dirt := 1\<rparr>) s)
                     else Done (v, s))
                   else Done (v, s)) (\<lambda>(v, s).
            obind (brelse (Some b) s) (\<lambda>s. Done (v, s)))))"

definition bmap_at :: "nat \<Rightarrow> int \<Rightarrow> bool \<Rightarrow> fs_state \<Rightarrow> (int \<times> fs_state) outcome" where
  "bmap_at i block create s =
     (if block < 0 then Panic ''_bmap: block<0''
      else if block \<ge> 7 + 512 + 512 * 512 then Panic ''_bmap: block>big''
      else if block < 7 then zone_entry i (nat block) create s
      else
        let block = block - 7 in
        if block < 512 then
          obind (zone_entry i 7 create s) (\<lambda>(z, s). ind_entry i z (nat block) create s)
        else
          let block = block - 512 in
          obind (zone_entry i 8 create s) (\<lambda>(z, s).
          obind (ind_entry i z (nat (block div 512)) create s) (\<lambda>(z, s).
          ind_entry i z (nat (block mod 512)) create s)))"

definition bmap :: "nat \<Rightarrow> int \<Rightarrow> fs_state \<Rightarrow> (int \<times> fs_state) outcome" where
  "bmap i block s = bmap_at i block False s"

definition create_block :: "nat \<Rightarrow> int \<Rightarrow> fs_state \<Rightarrow> (int \<times> fs_state) outcome" where
  "create_block i block s = bmap_at i block True s"

section \<open>Truncation\<close>

definition S_IFMT :: int where "S_IFMT = 0xF000"
definition S_IFREG :: int where "S_IFREG = 0x8000"
definition S_IFDIR :: int where "S_IFDIR = 0x4000"
definition S_IFCHR :: int where "S_IFCHR = 0x2000"
definition S_IFBLK :: int where "S_IFBLK = 0x6000"

definition S_ISREG :: "int \<Rightarrow> bool" where "S_ISREG m \<longleftrightarrow> m AND S_IFMT = S_IFREG"
definition S_ISDIR :: "int \<Rightarrow> bool" where "S_ISDIR m \<longleftrightarrow> m AND S_IFMT = S_IFDIR"
definition S_ISCHR :: "int \<Rightarrow> bool" where "S_ISCHR m \<longleftrightarrow> m AND S_IFMT = S_IFCHR"
definition S_ISBLK :: "int \<Rightarrow> bool" where "S_ISBLK m \<longleftrightarrow> m AND S_IFMT = S_IFBLK"

text \<open>
  The loop over the 512 entries of an indirect block; the block's buffer is held, so its data are
  read again for each entry. \<open>f\<close> frees what an entry points to.
\<close>

fun free_entries :: "(int \<Rightarrow> fs_state \<Rightarrow> fs_state outcome) \<Rightarrow> nat \<Rightarrow> nat list \<Rightarrow> fs_state \<Rightarrow> fs_state outcome" where
  "free_entries f b [] s = Done s"
| "free_entries f b (k # ks) s =
     obind (let z = get_zone k (b_data (buf b s)) in if z \<noteq> 0 then f z s else Done s) (free_entries f b ks)"

definition free_tree :: "(int \<Rightarrow> fs_state \<Rightarrow> fs_state outcome) \<Rightarrow> int \<Rightarrow> int \<Rightarrow> fs_state \<Rightarrow> fs_state outcome" where
  "free_tree f dev block s =
     (if block = 0 then Done s
      else
        obind (bread dev block s) (\<lambda>(bh, s).
        obind (case bh of
            None \<Rightarrow> Done s
          | Some b \<Rightarrow> obind (free_entries f b [0..<512] s) (brelse (Some b)))
          (free_block dev block)))"

definition free_ind :: "int \<Rightarrow> int \<Rightarrow> fs_state \<Rightarrow> fs_state outcome" where
  "free_ind dev block s = free_tree (free_block dev) dev block s"

definition free_dind :: "int \<Rightarrow> int \<Rightarrow> fs_state \<Rightarrow> fs_state outcome" where
  "free_dind dev block s = free_tree (free_ind dev) dev block s"

fun truncate_direct :: "nat \<Rightarrow> nat list \<Rightarrow> fs_state \<Rightarrow> fs_state outcome" where
  "truncate_direct i [] s = Done s"
| "truncate_direct i (k # ks) s =
     (let z = i_zone (ino i s) ! k in
      obind (if z \<noteq> 0 then
               obind (free_block (i_dev (ino i s)) z s) (\<lambda>s.
               Done (upd_ino i (\<lambda>n. n\<lparr>i_zone := (i_zone n)[k := 0]\<rparr>) s))
             else Done s)
        (truncate_direct i ks))"

definition truncate :: "nat \<Rightarrow> fs_state \<Rightarrow> fs_state outcome" where
  "truncate i s =
     (if \<not> (S_ISREG (i_mode (ino i s)) \<or> S_ISDIR (i_mode (ino i s))) then Done s
      else
        obind (truncate_direct i [0..<7] s) (\<lambda>s.
        obind (free_ind (i_dev (ino i s)) (i_zone (ino i s) ! 7) s) (\<lambda>s.
        obind (free_dind (i_dev (ino i s)) (i_zone (ino i s) ! 8) s) (\<lambda>s.
        Done (upd_ino i (\<lambda>n. n\<lparr>i_zone := (i_zone n)[7 := 0, 8 := 0], i_size := 0, i_dirt := 1,
          i_mtime := now s, i_ctime := now s\<rparr>) s)))))"

section \<open>Allocating, getting and putting inodes\<close>

definition free_inode :: "nat \<Rightarrow> fs_state \<Rightarrow> fs_state outcome" where
  "free_inode i s =
     (let n = ino i s in
      if i_dev n = 0 then Done (upd_ino i (\<lambda>_. zero_inode) s)
      else if i_count n > 1 then Panic ''free_inode''
      else if i_nlinks n \<noteq> 0 then Panic ''trying to free inode with links''
      else
        (case get_super (i_dev n) s of
           None \<Rightarrow> Panic ''trying to free inode on nonexistent device''
         | Some p \<Rightarrow>
             if i_num n < 1 \<or> i_num n > s_ninodes (super p s)
             then Panic ''trying to free inode 0 or nonexistant inode''
             else
               obind (rd (s_imap (super p s)) (nat (i_num n div 8192))) (\<lambda>bh.
               case bh of
                 None \<Rightarrow> Panic ''nonexistent imap in superblock''
               | Some b \<Rightarrow>
                   let j = nat (i_num n mod 8192) in
                   if \<not> get_bit j (b_data (buf b s)) then Panic ''free_inode: bit already cleared''
                   else
                     let s = upd_buf b (\<lambda>x. x\<lparr>b_data := put_bit j False (b_data x), b_dirt := 1\<rparr>) s in
                     Done (upd_ino i (\<lambda>_. zero_inode) s))))"

definition iput :: "nat option \<Rightarrow> fs_state \<Rightarrow> fs_state outcome" where
  "iput p s =
     (case p of None \<Rightarrow> Done s
      | Some i \<Rightarrow>
          obind (wait_on_inode i s) (\<lambda>_.
          if i_count (ino i s) = 0 then Panic ''iput: trying to free free inode''
          else if i_pipe (ino i s) \<noteq> 0 then
            let s = upd_ino i (\<lambda>n. n\<lparr>i_count := u16 (i_count n - 1)\<rparr>) (wake_inode i s) in
            if i_count (ino i s) \<noteq> 0 then Done s
            else
              obind (free_page (i_size (ino i s)) (k_mm s)) (\<lambda>m.
              Done (upd_ino i (\<lambda>n. n\<lparr>i_count := 0, i_dirt := 0, i_pipe := 0\<rparr>) (s\<lparr>k_mm := m\<rparr>)))
          else if i_dev (ino i s) = 0 \<or> i_count (ino i s) > 1 then
            Done (upd_ino i (\<lambda>n. n\<lparr>i_count := u16 (i_count n - 1)\<rparr>) s)
          else if i_nlinks (ino i s) = 0 then obind (truncate i s) (free_inode i)
          else
            obind (if i_dirt (ino i s) \<noteq> 0 then write_inode i s else Done s) (\<lambda>s.
            Done (upd_ino i (\<lambda>n. n\<lparr>i_count := u16 (i_count n - 1)\<rparr>) s))))"

text \<open>The search of \<open>get_empty_inode\<close>, around the table from \<open>last_allocated_inode\<close> on.\<close>

definition find_empty :: "fs_state \<Rightarrow> nat option" where
  "find_empty s = find (\<lambda>i. i_count (ino i s) = 0) ([fs_last_inode s..<NR_INODE] @ [0..<fs_last_inode s])"

definition get_empty_inode :: "fs_state \<Rightarrow> (nat \<times> fs_state) outcome" where
  "get_empty_inode s =
     (case find_empty s of
        None \<Rightarrow> Panic ''No free inodes in mem''
      | Some i \<Rightarrow>
          let s = s\<lparr>fs_last_inode := i\<rparr> in
          obind (wait_on_inode i s) (\<lambda>_.
          obind (if i_dirt (ino i s) \<noteq> 0 then write_inode i s else Done s) (\<lambda>s.
          Done (i, upd_ino i (\<lambda>_. zero_inode\<lparr>i_count := 1\<rparr>) s))))"

text \<open>\<open>PIPE_HEAD\<close> and \<open>PIPE_TAIL\<close>: the first two and the next two entries of \<open>i_zone\<close>.\<close>

definition get_pipe_inode :: "fs_state \<Rightarrow> (nat option \<times> fs_state) outcome" where
  "get_pipe_inode s =
     obind (get_empty_inode s) (\<lambda>(i, s).
     let (page, m) = get_free_page (k_mm s);
         s = upd_ino i (\<lambda>n. n\<lparr>i_size := page\<rparr>) (s\<lparr>k_mm := m\<rparr>) in
     if page = 0 then Done (None, upd_ino i (\<lambda>n. n\<lparr>i_count := 0\<rparr>) s)
     else Done (Some i, upd_ino i (\<lambda>n. n\<lparr>i_count := 2, i_zone := (i_zone n)[0 := 0, 1 := 0, 2 := 0, 3 := 0], i_pipe := 1\<rparr>) s))"

definition iget :: "int \<Rightarrow> int \<Rightarrow> fs_state \<Rightarrow> (nat \<times> fs_state) outcome" where
  "iget dev nr s =
     (if dev = 0 then Panic ''iget with dev==0''
      else
        obind (get_empty_inode s) (\<lambda>(e, s).
        case find (\<lambda>i. i_dev (ino i s) = dev \<and> i_num (ino i s) = nr) [0..<NR_INODE] of
          Some i \<Rightarrow>
            obind (wait_on_inode i s) (\<lambda>_.
            let s = upd_ino i (\<lambda>n. n\<lparr>i_count := u16 (i_count n + 1)\<rparr>) s in
            obind (iput (Some e) s) (\<lambda>s. Done (i, s)))
        | None \<Rightarrow>
            let s = upd_ino e (\<lambda>n. n\<lparr>i_dev := u16 dev, i_num := u16 nr\<rparr>) s in
            obind (read_inode e s) (\<lambda>s. Done (e, s))))"

definition new_inode :: "int \<Rightarrow> fs_state \<Rightarrow> (nat option \<times> fs_state) outcome" where
  "new_inode dev s =
     obind (get_empty_inode s) (\<lambda>(e, s).
     case get_super dev s of
       None \<Rightarrow> Panic ''new_inode with unknown device''
     | Some p \<Rightarrow>
         (case map_search 0 (take 8 (s_imap (super p s))) None 8192 s of (i, bh, j) \<Rightarrow>
          if bh = None \<or> j \<ge> 8192 \<or> int j + int i * 8192 > s_ninodes (super p s) then
            obind (iput (Some e) s) (\<lambda>s. Done (None, s))
          else
            let b = the bh in
            if get_bit j (b_data (buf b s)) then Panic ''new_inode: bit already set''
            else
              let s = upd_buf b (\<lambda>x. x\<lparr>b_data := put_bit j True (b_data x), b_dirt := 1\<rparr>) s in
              Done (Some e, upd_ino e (\<lambda>n. n\<lparr>i_count := 1, i_nlinks := 1, i_dev := u16 dev, i_dirt := 1,
                i_num := u16 (int j + int i * 8192), i_mtime := now s, i_atime := now s, i_ctime := now s\<rparr>) s)))"

section \<open>Updates of the inode table\<close>

lemma ino_upd [simp]: "i < length (k_inodes s) \<Longrightarrow> ino j (upd_ino i f s) = (if j = i then f (ino i s) else ino j s)"
  by (simp add: ino_def upd_ino_def nth_list_update)

lemma upd_ino_simps [simp]:
  "length (k_inodes (upd_ino i f s)) = length (k_inodes s)" "k_mm (upd_ino i f s) = k_mm s" "k_sched (upd_ino i f s) = k_sched s"
  by (simp_all add: upd_ino_def)

lemma ino_mm [simp]: "ino i (s\<lparr>k_mm := m\<rparr>) = ino i s" by (simp add: ino_def)

end
