(* ===== verification/Namei.thy ===== *)
theory Namei
  imports Inode
begin

text \<open>
  Path names and directories: src/fs/namei.c. A path is the list of its bytes before the terminating
  zero; a pointer to a directory entry is a buffer with an offset in its data. A dereference of a null
  pointer is the outcome \<open>Oob\<close>.
\<close>

definition ENOENT :: int where "ENOENT = 2"
definition EACCES :: int where "EACCES = 13"
definition EEXIST :: int where "EEXIST = 17"
definition EXDEV :: int where "EXDEV = 18"
definition ENOTDIR :: int where "ENOTDIR = 20"
definition EISDIR :: int where "EISDIR = 21"
definition EINVAL :: int where "EINVAL = 22"
definition ENOSPC :: int where "ENOSPC = 28"
definition ENOTEMPTY :: int where "ENOTEMPTY = 39"
definition ERROR :: int where "ERROR = 99"

definition MAY_EXEC :: int where "MAY_EXEC = 1"
definition MAY_WRITE :: int where "MAY_WRITE = 2"
definition MAY_READ :: int where "MAY_READ = 4"

abbreviation cur_task :: "fs_state \<Rightarrow> task_struct" where "cur_task s \<equiv> cur (k_sched s)"

definition upd_task_cur :: "(task_struct \<Rightarrow> task_struct) \<Rightarrow> fs_state \<Rightarrow> fs_state" where
  "upd_task_cur f s = s\<lparr>k_sched := upd_cur f (k_sched s)\<rparr>"

section \<open>Permissions\<close>

definition permission :: "nat \<Rightarrow> int \<Rightarrow> fs_state \<Rightarrow> int" where
  "permission i msk s =
     (let n = ino i s; c = cur_task s; mode = i_mode n in
      if i_dev n \<noteq> 0 \<and> i_nlinks n = 0 then 0
      else
        let mode = (if \<not> (t_uid c \<noteq> 0 \<and> t_euid c \<noteq> 0) then 0x1FF
                    else if t_uid c = i_uid n \<or> t_euid c = i_uid n then mode div 64
                    else if t_gid c = i_gid n \<or> t_egid c = i_gid n then mode div 8
                    else mode) in
        mode AND msk AND 7)"

section \<open>Directory entries\<close>

text \<open>The entry at offset \<open>p\<close> of a block: two bytes of inode number, \<open>NAME_LEN\<close> bytes of name.\<close>

definition entry_inode :: "nat \<Rightarrow> byte list \<Rightarrow> int" where "entry_inode p d = get16 p d"
definition entry_name :: "nat \<Rightarrow> byte list \<Rightarrow> byte list" where "entry_name p d = take NAME_LEN (drop (p + 2) d)"

definition put_name :: "nat \<Rightarrow> byte list \<Rightarrow> byte list \<Rightarrow> byte list" where
  "put_name p name d = take (p + 2) d @ name @ drop (p + 2 + length name) d"

definition set_entry_inode :: "nat \<times> nat \<Rightarrow> int \<Rightarrow> fs_state \<Rightarrow> fs_state" where
  "set_entry_inode de v s = upd_buf (fst de) (\<lambda>b. b\<lparr>b_data := put16 (snd de) v (b_data b)\<rparr>) s"

definition match :: "nat \<Rightarrow> byte list \<Rightarrow> nat \<Rightarrow> byte list \<Rightarrow> bool" where
  "match len name p d \<longleftrightarrow>
     \<not> (entry_inode p d = 0 \<or> len > NAME_LEN) \<and> \<not> (len < NAME_LEN \<and> entry_name p d ! len \<noteq> 0) \<and>
     take len name = take len (entry_name p d)"

text \<open>The loop of \<open>find_entry\<close>, with the entries left to look at, the buffer and the offset of \<open>de\<close>.\<close>

definition DIR_ENTRIES_PER_BLOCK :: nat where "DIR_ENTRIES_PER_BLOCK = 64"

definition next_dir_block :: "nat \<Rightarrow> nat \<Rightarrow> nat \<Rightarrow> fs_state \<Rightarrow> (nat option \<times> fs_state) outcome" where
  "next_dir_block dir i b s =
     obind (brelse (Some b) s) (\<lambda>s.
     obind (bmap dir (int (i div DIR_ENTRIES_PER_BLOCK)) s) (\<lambda>(block, s).
     if block = 0 then Done (None, s) else bread (i_dev (ino dir s)) block s))"

function find_loop :: "nat \<Rightarrow> byte list \<Rightarrow> nat \<Rightarrow> nat \<Rightarrow> nat \<Rightarrow> nat option \<Rightarrow> nat \<Rightarrow> fs_state \<Rightarrow> ((nat \<times> nat) option \<times> fs_state) outcome" where
  "find_loop dir name len entries i bh p s =
     (if i < entries then
        (case bh of
           None \<Rightarrow> Oob
         | Some b \<Rightarrow>
             obind (if p \<ge> BLOCK_SIZE then next_dir_block dir i b s else Done (Some b, s)) (\<lambda>(bh, s).
             case bh of
               None \<Rightarrow> find_loop dir name len entries (i + DIR_ENTRIES_PER_BLOCK) None p s
             | Some b \<Rightarrow>
                 let p = (if p \<ge> BLOCK_SIZE then 0 else p) in
                 if match len name p (b_data (buf b s)) then Done (Some (b, p), s)
                 else find_loop dir name len entries (i + 1) (Some b) (p + 16) s))
      else obind (brelse bh s) (\<lambda>s. Done (None, s)))"
  by pat_completeness auto
termination
  by (relation "measure (\<lambda>(dir, name, len, entries, i, bh, p, s). entries - i)") (auto simp: DIR_ENTRIES_PER_BLOCK_def)

definition find_entry :: "nat \<Rightarrow> byte list \<Rightarrow> nat \<Rightarrow> fs_state \<Rightarrow> ((nat \<times> nat) option \<times> fs_state) outcome" where
  "find_entry dir name namelen s =
     (let len = min namelen NAME_LEN; entries = nat (i_size (ino dir s) div 16); block = i_zone (ino dir s) ! 0 in
      if len = 0 \<or> block = 0 then Done (None, s)
      else
        obind (bread (i_dev (ino dir s)) block s) (\<lambda>(bh, s).
        case bh of None \<Rightarrow> Done (None, s) | Some b \<Rightarrow> find_loop dir name len entries 0 (Some b) 0 s))"

text \<open>The loop of \<open>add_entry\<close>; \<open>sz\<close> is \<open>dir->i_size\<close>, which changes only in the round that ends it.\<close>

definition fill_entry :: "nat \<Rightarrow> byte list \<Rightarrow> nat \<Rightarrow> nat \<Rightarrow> nat \<Rightarrow> fs_state \<Rightarrow> fs_state" where
  "fill_entry dir name len b p s =
     upd_buf b (\<lambda>x. x\<lparr>b_data := put_name p (take len name @ replicate (NAME_LEN - len) 0) (b_data x), b_dirt := 1\<rparr>)
       (upd_ino dir (\<lambda>n. n\<lparr>i_mtime := now s\<rparr>) s)"

definition grow_dir :: "nat \<Rightarrow> nat \<Rightarrow> nat \<Rightarrow> nat \<Rightarrow> fs_state \<Rightarrow> fs_state" where
  "grow_dir dir i b p s =
     upd_ino dir (\<lambda>n. n\<lparr>i_size := u32 (int (i + 1) * 16), i_dirt := 1, i_ctime := now s\<rparr>) (set_entry_inode (b, p) 0 s)"

function add_loop :: "nat \<Rightarrow> byte list \<Rightarrow> nat \<Rightarrow> nat \<Rightarrow> nat \<Rightarrow> nat \<Rightarrow> nat \<Rightarrow> fs_state \<Rightarrow> ((nat \<times> nat) option \<times> fs_state) outcome" where
  "add_loop dir name len sz i b p s =
     obind (if p \<ge> BLOCK_SIZE then
              obind (brelse (Some b) s) (\<lambda>s.
              obind (create_block dir (int (i div DIR_ENTRIES_PER_BLOCK)) s) (\<lambda>(block, s).
              if block = 0 then Done (None, s)
              else obind (bread (i_dev (ino dir s)) block s) (\<lambda>(bh, s).
                   case bh of None \<Rightarrow> Oob | Some b \<Rightarrow> Done (Some b, s))))
            else Done (Some b, s)) (\<lambda>(bh, s).
     case bh of
       None \<Rightarrow> Done (None, s)
     | Some b \<Rightarrow>
         let p = (if p \<ge> BLOCK_SIZE then 0 else p); s' = (if i * 16 \<ge> sz then grow_dir dir i b p s else s) in
         if i * 16 \<ge> sz \<or> entry_inode p (b_data (buf b s')) = 0 then Done (Some (b, p), fill_entry dir name len b p s')
         else add_loop dir name len sz (i + 1) b (p + 16) s')"
  by pat_completeness auto
termination
  by (relation "measure (\<lambda>(dir, name, len, sz, i, b, p, s). sz - i * 16)") auto

definition add_entry :: "nat \<Rightarrow> byte list \<Rightarrow> nat \<Rightarrow> fs_state \<Rightarrow> ((nat \<times> nat) option \<times> fs_state) outcome" where
  "add_entry dir name namelen s =
     (let len = min namelen NAME_LEN; block = i_zone (ino dir s) ! 0 in
      if len = 0 \<or> block = 0 then Done (None, s)
      else
        obind (bread (i_dev (ino dir s)) block s) (\<lambda>(bh, s).
        case bh of None \<Rightarrow> Done (None, s) | Some b \<Rightarrow> add_loop dir name len (nat (i_size (ino dir s))) 0 b 0 s))"

declare find_loop.simps [simp del] add_loop.simps [simp del]

section \<open>Path names\<close>

definition SLASH :: byte where "SLASH = 47"

text \<open>The inode of the entry that was found: \<open>brelse\<close>, \<open>iput\<close> of the directory, \<open>iget\<close>.\<close>

definition follow :: "nat \<Rightarrow> nat \<times> nat \<Rightarrow> fs_state \<Rightarrow> (nat \<times> fs_state) outcome" where
  "follow dir de s =
     (let inr = entry_inode (snd de) (b_data (buf (fst de) s)); idev = i_dev (ino dir s) in
      obind (brelse (Some (fst de)) s) (\<lambda>s.
      obind (iput (Some dir) s) (\<lambda>s. iget idev inr s)))"

text \<open>The loop of \<open>get_dir\<close>, one round per component that a slash ends.\<close>

function get_dir_loop :: "byte list \<Rightarrow> nat \<Rightarrow> fs_state \<Rightarrow> (nat option \<times> fs_state) outcome" where
  "get_dir_loop path inode s =
     (if \<not> S_ISDIR (i_mode (ino inode s)) \<or> permission inode MAY_EXEC s = 0 then
        obind (iput (Some inode) s) (\<lambda>s. Done (None, s))
      else if SLASH \<notin> set path then Done (Some inode, s)
      else
        let thisname = takeWhile (\<lambda>c. c \<noteq> SLASH) path in
        obind (find_entry inode thisname (length thisname) s) (\<lambda>(de, s).
        case de of
          None \<Rightarrow> obind (iput (Some inode) s) (\<lambda>s. Done (None, s))
        | Some de \<Rightarrow>
            obind (follow inode de s) (\<lambda>(inode, s).
            get_dir_loop (tl (dropWhile (\<lambda>c. c \<noteq> SLASH) path)) inode s)))"
  by pat_completeness auto

lemma tl_dropWhile_less: "x \<in> set xs \<Longrightarrow> length (tl (dropWhile (\<lambda>c. c \<noteq> x) xs)) < length xs"
proof -
  assume "x \<in> set xs"
  then have "dropWhile (\<lambda>c. c \<noteq> x) xs \<noteq> []" by (auto simp: dropWhile_eq_Nil_conv)
  then show ?thesis using length_dropWhile_le [of "\<lambda>c. c \<noteq> x" xs] by (cases "dropWhile (\<lambda>c. c \<noteq> x) xs") auto
qed

termination get_dir_loop
  by (relation "measure (\<lambda>(path, inode, s). length path)") (auto intro: tl_dropWhile_less [simplified])

declare get_dir_loop.simps [simp del]

text \<open>A pointer to an inode that must be in use.\<close>

definition used_inode :: "nat option \<Rightarrow> fs_state \<Rightarrow> bool" where
  "used_inode p s = (case p of None \<Rightarrow> False | Some i \<Rightarrow> i_count (ino i s) \<noteq> 0)"

definition get_dir :: "byte list \<Rightarrow> fs_state \<Rightarrow> (nat option \<times> fs_state) outcome" where
  "get_dir path s =
     (let c = cur_task s in
      if \<not> used_inode (t_root c) s then Panic ''No root inode''
      else if \<not> used_inode (t_pwd c) s then Panic ''No cwd inode''
      else
        case path of
          [] \<Rightarrow> Done (None, s)
        | x # xs \<Rightarrow>
            let i = the (if x = SLASH then t_root c else t_pwd c) in
            get_dir_loop (if x = SLASH then xs else path) i (upd_ino i (\<lambda>n. n\<lparr>i_count := u16 (i_count n + 1)\<rparr>) s))"

text \<open>The last component of a path.\<close>

definition basename :: "byte list \<Rightarrow> byte list" where
  "basename path = rev (takeWhile (\<lambda>c. c \<noteq> SLASH) (rev path))"

definition dir_namei :: "byte list \<Rightarrow> fs_state \<Rightarrow> ((nat \<times> byte list) option \<times> fs_state) outcome" where
  "dir_namei path s =
     obind (get_dir path s) (\<lambda>(dir, s).
     case dir of None \<Rightarrow> Done (None, s) | Some d \<Rightarrow> Done (Some (d, basename path), s))"

definition namei :: "byte list \<Rightarrow> fs_state \<Rightarrow> (nat option \<times> fs_state) outcome" where
  "namei path s =
     obind (dir_namei path s) (\<lambda>(r, s).
     case r of
       None \<Rightarrow> Done (None, s)
     | Some (dir, base) \<Rightarrow>
         if base = [] then Done (Some dir, s)
         else
           obind (find_entry dir base (length base) s) (\<lambda>(de, s).
           case de of
             None \<Rightarrow> obind (iput (Some dir) s) (\<lambda>s. Done (None, s))
           | Some de \<Rightarrow>
               obind (follow dir de s) (\<lambda>(i, s).
               Done (Some i, upd_ino i (\<lambda>n. n\<lparr>i_atime := now s, i_dirt := 1\<rparr>) s))))"

end
