(* ===== verification/NameiSys.thy ===== *)
theory NameiSys
  imports Namei
begin

text \<open>
  The calls of src/fs/namei.c that create and remove directory entries: \<open>open_namei\<close>, \<open>sys_mkdir\<close>,
  \<open>sys_rmdir\<close>, \<open>sys_unlink\<close> and \<open>sys_link\<close>. \<open>iget\<close> never returns a null pointer: \<open>get_empty_inode\<close> panics
  when the table is full, so the branches that test it are not taken.
\<close>

definition O_ACCMODE :: int where "O_ACCMODE = 3"
definition O_WRONLY :: int where "O_WRONLY = 1"
definition O_CREAT :: int where "O_CREAT = 64"
definition O_EXCL :: int where "O_EXCL = 128"
definition O_TRUNC :: int where "O_TRUNC = 512"
definition O_APPEND :: int where "O_APPEND = 1024"
definition O_NONBLOCK :: int where "O_NONBLOCK = 2048"

definition I_REGULAR :: int where "I_REGULAR = 0x8000"
definition I_DIRECTORY :: int where "I_DIRECTORY = 0x4000"

text \<open>The characters of the string \<open>"\\004\\002\\006\\377"\<close> are signed.\<close>

definition ACC_MODE :: "int \<Rightarrow> int" where
  "ACC_MODE x = [4, 2, 6, -1] ! nat (x AND O_ACCMODE)"

definition umasked :: "int \<Rightarrow> fs_state \<Rightarrow> int" where
  "umasked mode s = mode AND 0x1FF AND NOT (t_umask (cur_task s))"

text \<open>\<open>iput\<close> on the way out with an error, and the release of the entry's buffer with it.\<close>

definition leave :: "nat list \<Rightarrow> nat list \<Rightarrow> int \<Rightarrow> fs_state \<Rightarrow> (int \<times> fs_state) outcome" where
  "leave is bs r s =
     obind (foldl (\<lambda>t i. obind t (iput (Some i))) (Done s) is) (\<lambda>s.
     obind (foldl (\<lambda>t b. obind t (brelse (Some b))) (Done s) bs) (\<lambda>s. Done (r, s)))"

section \<open>Opening\<close>

text \<open>The part of \<open>open_namei\<close> for a name that does not exist.\<close>

definition open_new :: "nat \<Rightarrow> byte list \<Rightarrow> int \<Rightarrow> fs_state \<Rightarrow> (int \<times> nat option \<times> fs_state) outcome" where
  "open_new dir base mode s =
     obind (new_inode (i_dev (ino dir s)) s) (\<lambda>(r, s).
     case r of
       None \<Rightarrow> obind (iput (Some dir) s) (\<lambda>s. Done (- ENOSPC, None, s))
     | Some i \<Rightarrow>
         let s = upd_ino i (\<lambda>n. n\<lparr>i_mode := u16 mode, i_dirt := 1\<rparr>) s in
         obind (add_entry dir base (length base) s) (\<lambda>(de, s).
         case de of
           None \<Rightarrow>
             let s = upd_ino i (\<lambda>n. n\<lparr>i_nlinks := u8 (i_nlinks n - 1)\<rparr>) s in
             obind (leave [i, dir] [] (- ENOSPC) s) (\<lambda>(r, s). Done (r, None, s))
         | Some de \<Rightarrow>
             let s = upd_buf (fst de) (\<lambda>b. b\<lparr>b_dirt := 1\<rparr>) (set_entry_inode de (i_num (ino i s)) s) in
             obind (brelse (Some (fst de)) s) (\<lambda>s.
             obind (iput (Some dir) s) (\<lambda>s. Done (0, Some i, s)))))"

definition open_namei :: "byte list \<Rightarrow> int \<Rightarrow> int \<Rightarrow> fs_state \<Rightarrow> (int \<times> nat option \<times> fs_state) outcome" where
  "open_namei path flag mode s =
     (let flag = (if flag AND O_TRUNC \<noteq> 0 \<and> flag AND O_ACCMODE = 0 then flag OR O_WRONLY else flag);
          mode = umasked mode s OR I_REGULAR in
      obind (dir_namei path s) (\<lambda>(r, s).
      case r of
        None \<Rightarrow> Done (- ENOENT, None, s)
      | Some (dir, base) \<Rightarrow>
          if base = [] then
            (if flag AND (O_ACCMODE OR O_CREAT OR O_TRUNC) = 0 then Done (0, Some dir, s)
             else obind (iput (Some dir) s) (\<lambda>s. Done (- EISDIR, None, s)))
          else
            obind (find_entry dir base (length base) s) (\<lambda>(de, s).
            case de of
              None \<Rightarrow>
                if flag AND O_CREAT = 0 then obind (iput (Some dir) s) (\<lambda>s. Done (- ENOENT, None, s))
                else if permission dir MAY_WRITE s = 0 then obind (iput (Some dir) s) (\<lambda>s. Done (- EACCES, None, s))
                else open_new dir base mode s
            | Some de \<Rightarrow>
                let inr = entry_inode (snd de) (b_data (buf (fst de) s)); dev = i_dev (ino dir s) in
                obind (brelse (Some (fst de)) s) (\<lambda>s.
                obind (iput (Some dir) s) (\<lambda>s.
                if flag AND O_EXCL \<noteq> 0 then Done (- EEXIST, None, s)
                else
                  obind (iget dev inr s) (\<lambda>(i, s).
                  if (S_ISDIR (i_mode (ino i s)) \<and> flag AND O_ACCMODE \<noteq> 0) \<or>
                     permission i (ACC_MODE flag) s \<noteq> ACC_MODE flag
                  then obind (iput (Some i) s) (\<lambda>s. Done (- EPERM, None, s))
                  else
                    let s = upd_ino i (\<lambda>n. n\<lparr>i_atime := now s\<rparr>) s in
                    obind (if flag AND O_TRUNC \<noteq> 0 then truncate i s else Done s) (\<lambda>s.
                    Done (0, Some i, s))))))))"

section \<open>Directories\<close>

text \<open>The entries \<open>.\<close> and \<open>..\<close> of a new directory.\<close>

definition dot_entries :: "int \<Rightarrow> int \<Rightarrow> byte list \<Rightarrow> byte list" where
  "dot_entries self parent d =
     put_name 16 [46, 46, 0] (put16 16 parent (put_name 0 [46, 0] (put16 0 self d)))"

definition mkdir_block :: "nat \<Rightarrow> nat \<Rightarrow> byte list \<Rightarrow> int \<Rightarrow> fs_state \<Rightarrow> (int \<times> fs_state) outcome" where
  "mkdir_block dir i base mode s =
     obind (bread (i_dev (ino i s)) (i_zone (ino i s) ! 0) s) (\<lambda>(bh, s).
     case bh of
       None \<Rightarrow>
         obind (iput (Some dir) s) (\<lambda>s.
         obind (free_block (i_dev (ino i s)) (i_zone (ino i s) ! 0) s) (\<lambda>s.
         leave [i] [] (- ERROR) (upd_ino i (\<lambda>n. n\<lparr>i_nlinks := u8 (i_nlinks n - 1)\<rparr>) s)))
     | Some b \<Rightarrow>
         let s = upd_buf b (\<lambda>x. x\<lparr>b_data := dot_entries (i_num (ino i s)) (i_num (ino dir s)) (b_data x), b_dirt := 1\<rparr>) s;
             s = upd_ino i (\<lambda>n. n\<lparr>i_nlinks := 2\<rparr>) s in
         obind (brelse (Some b) s) (\<lambda>s.
         let s = upd_ino i (\<lambda>n. n\<lparr>i_mode := u16 (I_DIRECTORY OR umasked mode s), i_dirt := 1\<rparr>) s in
         obind (add_entry dir base (length base) s) (\<lambda>(de, s).
         case de of
           None \<Rightarrow>
             obind (iput (Some dir) s) (\<lambda>s.
             obind (free_block (i_dev (ino i s)) (i_zone (ino i s) ! 0) s) (\<lambda>s.
             leave [i] [] (- ENOSPC) (upd_ino i (\<lambda>n. n\<lparr>i_nlinks := 0\<rparr>) s)))
         | Some de \<Rightarrow>
             let s = upd_buf (fst de) (\<lambda>x. x\<lparr>b_dirt := 1\<rparr>) (set_entry_inode de (i_num (ino i s)) s);
                 s = upd_ino dir (\<lambda>n. n\<lparr>i_nlinks := u8 (i_nlinks n + 1), i_dirt := 1\<rparr>) s in
             leave [dir, i] [fst de] 0 s)))"

definition sys_mkdir :: "byte list \<Rightarrow> int \<Rightarrow> fs_state \<Rightarrow> (int \<times> fs_state) outcome" where
  "sys_mkdir path mode s =
     (if t_euid (cur_task s) \<noteq> 0 \<and> t_uid (cur_task s) \<noteq> 0 then Done (- EPERM, s)
      else
        obind (dir_namei path s) (\<lambda>(r, s).
        case r of
          None \<Rightarrow> Done (- ENOENT, s)
        | Some (dir, base) \<Rightarrow>
            if base = [] then leave [dir] [] (- ENOENT) s
            else if permission dir MAY_WRITE s = 0 then leave [dir] [] (- EPERM) s
            else
              obind (find_entry dir base (length base) s) (\<lambda>(de, s).
              case de of
                Some de \<Rightarrow>
                  obind (brelse (Some (fst de)) s) (\<lambda>s. leave [dir] [] (- EEXIST) s)
              | None \<Rightarrow>
                  obind (new_inode (i_dev (ino dir s)) s) (\<lambda>(r, s).
                  case r of
                    None \<Rightarrow> leave [dir] [] (- ENOSPC) s
                  | Some i \<Rightarrow>
                      let s = upd_ino i (\<lambda>n. n\<lparr>i_size := 32, i_dirt := 1, i_mtime := now s, i_atime := now s\<rparr>) s in
                      obind (new_block (i_dev (ino i s)) s) (\<lambda>(z, s).
                      let s = upd_ino i (\<lambda>n. n\<lparr>i_zone := (i_zone n)[0 := u16 z]\<rparr>) s in
                      if u16 z = 0 then
                        obind (iput (Some dir) s) (\<lambda>s.
                        leave [i] [] (- ENOSPC) (upd_ino i (\<lambda>n. n\<lparr>i_nlinks := u8 (i_nlinks n - 1)\<rparr>) s))
                      else mkdir_block dir i base mode (upd_ino i (\<lambda>n. n\<lparr>i_dirt := 1\<rparr>) s))))))"

text \<open>
  The loop of \<open>empty_dir\<close>. A buffer that was released before a hole stays in \<open>bh\<close> and is released
  again.
\<close>

function empty_loop :: "nat \<Rightarrow> nat \<Rightarrow> nat \<Rightarrow> nat \<Rightarrow> nat \<Rightarrow> fs_state \<Rightarrow> (bool \<times> fs_state) outcome" where
  "empty_loop i len nr b p s =
     (if nr < len then
        (if p \<ge> BLOCK_SIZE then
           obind (brelse (Some b) s) (\<lambda>s.
           obind (bmap i (int (nr div DIR_ENTRIES_PER_BLOCK)) s) (\<lambda>(block, s).
           if block = 0 then empty_loop i len (nr + DIR_ENTRIES_PER_BLOCK) b p s
           else
             obind (bread (i_dev (ino i s)) block s) (\<lambda>(bh, s).
             case bh of
               None \<Rightarrow> Done (False, s)
             | Some b \<Rightarrow>
                 if entry_inode 0 (b_data (buf b s)) \<noteq> 0 then obind (brelse (Some b) s) (\<lambda>s. Done (False, s))
                 else empty_loop i len (nr + 1) b 16 s)))
         else if entry_inode p (b_data (buf b s)) \<noteq> 0 then obind (brelse (Some b) s) (\<lambda>s. Done (False, s))
         else empty_loop i len (nr + 1) b (p + 16) s)
      else obind (brelse (Some b) s) (\<lambda>s. Done (True, s)))"
  by pat_completeness auto
termination
  by (relation "measure (\<lambda>(i, len, nr, b, p, s). len - nr)") (auto simp: DIR_ENTRIES_PER_BLOCK_def)

declare empty_loop.simps [simp del]

definition empty_dir :: "nat \<Rightarrow> fs_state \<Rightarrow> (bool \<times> fs_state) outcome" where
  "empty_dir i s =
     (let len = nat (i_size (ino i s) div 16); z = i_zone (ino i s) ! 0 in
      if len < 2 \<or> z = 0 then Done (False, s)
      else
        obind (bread (i_dev (ino i s)) z s) (\<lambda>(bh, s).
        case bh of
          None \<Rightarrow> Done (False, s)
        | Some b \<Rightarrow>
            let d = b_data (buf b s) in
            if entry_inode 0 d \<noteq> i_num (ino i s) \<or> entry_inode 16 d = 0 \<or>
               take 2 (entry_name 0 d) \<noteq> [46, 0] \<or> take 3 (entry_name 16 d) \<noteq> [46, 46, 0]
            then Done (False, s)
            else empty_loop i len 2 b 32 s))"

definition sys_rmdir :: "byte list \<Rightarrow> fs_state \<Rightarrow> (int \<times> fs_state) outcome" where
  "sys_rmdir path s =
     (if t_euid (cur_task s) \<noteq> 0 \<and> t_uid (cur_task s) \<noteq> 0 then Done (- EPERM, s)
      else
        obind (dir_namei path s) (\<lambda>(r, s).
        case r of
          None \<Rightarrow> Done (- ENOENT, s)
        | Some (dir, base) \<Rightarrow>
            if base = [] then leave [dir] [] (- ENOENT) s
            else
              obind (find_entry dir base (length base) s) (\<lambda>(de, s).
              case de of
                None \<Rightarrow> leave [dir] [] (- ENOENT) s
              | Some de \<Rightarrow>
                  if permission dir MAY_WRITE s = 0 then leave [dir] [fst de] (- EPERM) s
                  else
                    obind (iget (i_dev (ino dir s)) (entry_inode (snd de) (b_data (buf (fst de) s))) s) (\<lambda>(i, s).
                    if i = dir then leave [i, dir] [fst de] (- EPERM) s
                    else if \<not> S_ISDIR (i_mode (ino i s)) then leave [i, dir] [fst de] (- ENOTDIR) s
                    else
                      obind (empty_dir i s) (\<lambda>(e, s).
                      if \<not> e then leave [i, dir] [fst de] (- ENOTEMPTY) s
                      else
                        let s = upd_buf (fst de) (\<lambda>x. x\<lparr>b_dirt := 1\<rparr>) (set_entry_inode de 0 s) in
                        obind (brelse (Some (fst de)) s) (\<lambda>s.
                        let s = upd_ino i (\<lambda>n. n\<lparr>i_nlinks := 0, i_dirt := 1\<rparr>) s;
                            s = upd_ino dir (\<lambda>n. n\<lparr>i_nlinks := u8 (i_nlinks n - 1), i_ctime := now s, i_mtime := now s, i_dirt := 1\<rparr>) s in
                        leave [dir, i] [] 0 s))))))"

section \<open>Links\<close>

text \<open>The end of \<open>sys_unlink\<close>, with its exception for inode 133.\<close>

definition unlink_entry :: "nat \<Rightarrow> nat \<Rightarrow> nat \<times> nat \<Rightarrow> fs_state \<Rightarrow> (int \<times> fs_state) outcome" where
  "unlink_entry dir i de s =
     (let flag = (i_num (ino i s) = 133);
          s = (if i_nlinks (ino i s) = 0 then upd_ino i (\<lambda>n. n\<lparr>i_nlinks := 1\<rparr>) s else s);
          num = entry_inode (snd de) (b_data (buf (fst de) s));
          s = upd_buf (fst de) (\<lambda>x. x\<lparr>b_dirt := 1\<rparr>) (set_entry_inode de 0 s);
          s = (if flag then
                 upd_ino i (\<lambda>n. n\<lparr>i_nlinks := u8 (i_nlinks n + 1), i_dirt := 0\<rparr>)
                   (upd_buf (fst de) (\<lambda>x. x\<lparr>b_dirt := 0\<rparr>) (set_entry_inode de num s))
               else s) in
      obind (brelse (Some (fst de)) s) (\<lambda>s.
      leave [i, dir] [] 0 (upd_ino i (\<lambda>n. n\<lparr>i_nlinks := u8 (i_nlinks n - 1), i_dirt := 1, i_ctime := now s\<rparr>) s)))"

definition sys_unlink :: "byte list \<Rightarrow> fs_state \<Rightarrow> (int \<times> fs_state) outcome" where
  "sys_unlink path s =
     obind (dir_namei path s) (\<lambda>(r, s).
     case r of
       None \<Rightarrow> Done (- ENOENT, s)
     | Some (dir, base) \<Rightarrow>
         if base = [] then leave [dir] [] (- ENOENT) s
         else if permission dir MAY_WRITE s = 0 then leave [dir] [] (- EPERM) s
         else
           obind (find_entry dir base (length base) s) (\<lambda>(de, s).
           case de of
             None \<Rightarrow> leave [dir] [] (- ENOENT) s
           | Some de \<Rightarrow>
               obind (iget (i_dev (ino dir s)) (entry_inode (snd de) (b_data (buf (fst de) s))) s) (\<lambda>(i, s).
               if \<not> S_ISREG (i_mode (ino i s)) then leave [i, dir] [fst de] (- EPERM) s
               else unlink_entry dir i de s)))"

definition sys_link :: "byte list \<Rightarrow> byte list \<Rightarrow> fs_state \<Rightarrow> (int \<times> fs_state) outcome" where
  "sys_link oldname newname s =
     obind (namei oldname s) (\<lambda>(old, s).
     case old of
       None \<Rightarrow> Done (- ENOENT, s)
     | Some old \<Rightarrow>
         if \<not> S_ISREG (i_mode (ino old s)) then leave [old] [] (- EPERM) s
         else
           obind (dir_namei newname s) (\<lambda>(r, s).
           case r of
             None \<Rightarrow> leave [old] [] (- EACCES) s
           | Some (dir, base) \<Rightarrow>
               if base = [] then leave [old, dir] [] (- EPERM) s
               else if i_dev (ino dir s) \<noteq> i_dev (ino old s) then leave [dir, old] [] (- EXDEV) s
               else if permission dir MAY_WRITE s = 0 then leave [dir, old] [] (- EACCES) s
               else
                 obind (find_entry dir base (length base) s) (\<lambda>(de, s).
                 case de of
                   Some de \<Rightarrow> obind (brelse (Some (fst de)) s) (leave [dir, old] [] (- EEXIST))
                 | None \<Rightarrow>
                     obind (add_entry dir base (length base) s) (\<lambda>(de, s).
                     case de of
                       None \<Rightarrow> leave [dir, old] [] (- ENOSPC) s
                     | Some de \<Rightarrow>
                         let s = upd_buf (fst de) (\<lambda>x. x\<lparr>b_dirt := 1\<rparr>) (set_entry_inode de (i_num (ino old s)) s) in
                         obind (brelse (Some (fst de)) s) (\<lambda>s.
                         obind (iput (Some dir) s) (\<lambda>s.
                         leave [old] [] 0 (upd_ino old (\<lambda>n. n\<lparr>i_nlinks := u8 (i_nlinks n + 1), i_ctime := now s, i_dirt := 1\<rparr>) s)))))))"

end
