(* ===== verification/Pipe.thy ===== *)
theory Pipe
  imports NameiSys
begin

text \<open>
  Pipes: src/fs/pipe.c and the macros of src/include/linux/fs.h they use. The data are in the page
  whose address is in \<open>i_size\<close>; \<open>PIPE_HEAD\<close> and \<open>PIPE_TAIL\<close> are the two words that the first four
  entries of \<open>i_zone\<close> hold. A reader that goes to sleep is the outcome \<open>Sleep\<close>; a writer that
  does is given with the bytes it still has to write.
\<close>

section \<open>Bytes of the memory\<close>

definition peekb :: "int \<Rightarrow> mm_state \<Rightarrow> byte" where
  "peekb a m = word_of_int (pmem m (a - a mod 4) div 256 ^ nat (a mod 4))"

definition pokeb :: "int \<Rightarrow> byte \<Rightarrow> mm_state \<Rightarrow> mm_state" where
  "pokeb a v m =
     (let w = pmem m (a - a mod 4); e = 256 ^ nat (a mod 4) in
      poke (a - a mod 4) (w - (w div e mod 256) * e + uint v * e) m)"

section \<open>Pipe pointers\<close>

definition PIPE_HEAD :: "m_inode \<Rightarrow> int" where
  "PIPE_HEAD n = s32 (i_zone n ! 0 + 65536 * (i_zone n ! 1))"

definition PIPE_TAIL :: "m_inode \<Rightarrow> int" where
  "PIPE_TAIL n = s32 (i_zone n ! 2 + 65536 * (i_zone n ! 3))"

definition PIPE_SIZE :: "m_inode \<Rightarrow> int" where
  "PIPE_SIZE n = (PIPE_HEAD n - PIPE_TAIL n) mod 4096"

definition PIPE_EMPTY :: "m_inode \<Rightarrow> bool" where
  "PIPE_EMPTY n \<longleftrightarrow> PIPE_HEAD n = PIPE_TAIL n"

definition PIPE_FULL :: "m_inode \<Rightarrow> bool" where
  "PIPE_FULL n \<longleftrightarrow> PIPE_SIZE n = 4095"

definition INC_PIPE :: "int \<Rightarrow> int" where "INC_PIPE h = (h + 1) mod 4096"

definition set_head :: "int \<Rightarrow> m_inode \<Rightarrow> m_inode" where
  "set_head v n = n\<lparr>i_zone := (i_zone n)[0 := u16 v, 1 := u16 (v div 65536)]\<rparr>"

definition set_tail :: "int \<Rightarrow> m_inode \<Rightarrow> m_inode" where
  "set_tail v n = n\<lparr>i_zone := (i_zone n)[2 := u16 v, 3 := u16 (v div 65536)]\<rparr>"

section \<open>Reading and writing\<close>

text \<open>The byte that a round of \<open>read_pipe\<close> takes, the one that \<open>write_pipe\<close> puts, and the reading loop.\<close>

definition get_byte :: "nat \<Rightarrow> fs_state \<Rightarrow> byte \<times> fs_state" where
  "get_byte i s =
     (let p = ino i s in
      (peekb (i_size p + PIPE_TAIL p) (k_mm s), upd_ino i (set_tail (INC_PIPE (PIPE_TAIL p))) s))"

definition put_byte :: "nat \<Rightarrow> byte \<Rightarrow> fs_state \<Rightarrow> fs_state" where
  "put_byte i v s =
     (let p = ino i s in
      upd_ino i (set_head (INC_PIPE (PIPE_HEAD p))) (s\<lparr>k_mm := pokeb (i_size p + PIPE_HEAD p) v (k_mm s)\<rparr>))"

fun take_bytes :: "nat \<Rightarrow> nat \<Rightarrow> byte list \<Rightarrow> fs_state \<Rightarrow> byte list \<times> fs_state" where
  "take_bytes 0 i acc s = (acc, s)"
| "take_bytes (Suc n) i acc s =
     (if PIPE_EMPTY (ino i s) then (acc, s)
      else case get_byte i s of (b, s) \<Rightarrow> take_bytes n i (acc @ [b]) s)"

definition read_pipe :: "nat \<Rightarrow> int \<Rightarrow> fs_state \<Rightarrow> (int \<times> byte list \<times> fs_state) outcome" where
  "read_pipe i cnt s =
     (if PIPE_EMPTY (ino i s) then
        (if i_count (ino i s) \<noteq> 2 then Done (0, [], wake_inode i s) else Sleep)
      else
        case take_bytes (nat cnt) i [] s of (bs, s) \<Rightarrow> Done (int (length bs), bs, wake_inode i s))"

definition SIGPIPE :: int where "SIGPIPE = 13"

definition pipe_signal :: "fs_state \<Rightarrow> fs_state" where
  "pipe_signal s = upd_task_cur (\<lambda>t. t\<lparr>t_signal := t_signal t OR sig_bit SIGPIPE\<rparr>) s"

text \<open>The loop of \<open>write_pipe\<close>: the bytes still to be written when it has to sleep, or the result.\<close>

fun write_pipe_loop :: "nat \<Rightarrow> byte list \<Rightarrow> int \<Rightarrow> fs_state \<Rightarrow> int \<times> byte list \<times> fs_state" where
  "write_pipe_loop i [] done s = (done, [], wake_inode i s)"
| "write_pipe_loop i (b # bs) done s =
     (if PIPE_FULL (ino i s) then
        (let s = wake_inode i s in
         if i_count (ino i s) \<noteq> 2 then (done, [], pipe_signal s) else (done, b # bs, s))
      else write_pipe_loop i bs (done + 1) (wake_inode i (put_byte i b s)))"

text \<open>
  \<open>write_pipe\<close> up to its return or its \<open>sleep_on\<close>: the number of bytes written so far, the bytes that
  are left, with which it goes on when it runs again, and the state.
\<close>

definition write_pipe :: "nat \<Rightarrow> byte list \<Rightarrow> fs_state \<Rightarrow> int \<times> byte list \<times> fs_state" where
  "write_pipe i bytes s =
     (let s = wake_inode i s in
      if i_count (ino i s) \<noteq> 2 then (-1, [], pipe_signal s)
      else write_pipe_loop i bytes 0 s)"

section \<open>Creating a pipe\<close>

definition set_filp :: "nat \<Rightarrow> nat option \<Rightarrow> fs_state \<Rightarrow> fs_state" where
  "set_filp fd p s = upd_task_cur (\<lambda>t. t\<lparr>t_filp := (t_filp t)[fd := p]\<rparr>) s"

definition set_count :: "nat \<Rightarrow> int \<Rightarrow> fs_state \<Rightarrow> fs_state" where
  "set_count f n s = s\<lparr>k_files := (k_files s)[f := (k_files s ! f)\<lparr>f_count := n\<rparr>]\<rparr>"

text \<open>The first two free entries of the file table, and of the task's table.\<close>

definition free_files :: "fs_state \<Rightarrow> nat list" where
  "free_files s = take 2 (filter (\<lambda>f. f_count (k_files s ! f) = 0) [0..<NR_FILE])"

definition free_fds :: "fs_state \<Rightarrow> nat list" where
  "free_fds s = take 2 (filter (\<lambda>fd. t_filp (cur_task s) ! fd = None) [0..<NR_OPEN])"

text \<open>\<open>sys_pipe\<close>: the two descriptors it stores for the caller come with the result.\<close>

definition sys_pipe :: "fs_state \<Rightarrow> (int \<times> nat list \<times> fs_state) outcome" where
  "sys_pipe s =
     (case free_files s of
        [f0, f1] \<Rightarrow>
          (case free_fds s of
             [d0, d1] \<Rightarrow>
               let s = set_count f1 1 (set_count f0 1 s);
                   s = set_filp d1 (Some f1) (set_filp d0 (Some f0) s) in
               obind (get_pipe_inode s) (\<lambda>(r, s).
               case r of
                 None \<Rightarrow> Done (-1, [], set_count f1 0 (set_count f0 0 (set_filp d1 None (set_filp d0 None s))))
               | Some i \<Rightarrow>
                   Done (0, [d0, d1], s\<lparr>k_files := (k_files s)
                     [f0 := (k_files s ! f0)\<lparr>f_inode := Some i, f_pos := 0, f_mode := 1\<rparr>,
                      f1 := (k_files s ! f1)\<lparr>f_inode := Some i, f_pos := 0, f_mode := 2\<rparr>]\<rparr>))
           | _ \<Rightarrow> Done (-1, [], s))
      | _ \<Rightarrow> Done (-1, [], s))"

end
