(* ===== verification/PipeProps.thy ===== *)
theory PipeProps
  imports Pipe Fifo
begin

text \<open>
  A pipe is a bounded first-in first-out queue of bytes: nothing written is lost, doubled or
  reordered, also when the writer has to sleep in the middle.
\<close>

section \<open>Bytes of a word\<close>

lemma byte_same:
  assumes "0 < (e::int)" "0 \<le> v" "v < 256"
  shows "(w - (w div e mod 256) * e + v * e) div e mod 256 = v"
proof -
  have e: "w - (w div e mod 256) * e + v * e = w + (v - w div e mod 256) * e" by (simp add: algebra_simps)
  have "(w + (v - w div e mod 256) * e) div e = (v - w div e mod 256) + w div e"
    by (rule div_mult_self1) (use assms(1) in simp)
  then have "(w - (w div e mod 256) * e + v * e) div e = w div e - w div e mod 256 + v" unfolding e by simp
  also have "\<dots> = w div e div 256 * 256 + v" by (simp add: minus_mod_eq_div_mult)
  also have "\<dots> mod 256 = v" using assms by simp
  finally show ?thesis .
qed

lemma byte_low:
  assumes "0 < (f::int)"
  shows "(w + d * (f * 256 * g)) div f mod 256 = w div f mod 256"
proof -
  have e: "w + d * (f * 256 * g) = w + (256 * d * g) * f" by (simp add: algebra_simps)
  have "(w + (256 * d * g) * f) div f = 256 * d * g + w div f"
    by (rule div_mult_self1) (use assms in simp)
  then have "(w + d * (f * 256 * g)) div f = w div f + 256 * (d * g)" unfolding e by simp
  then show ?thesis by simp
qed

lemma byte_high:
  assumes "0 < (e::int)" "0 \<le> v" "v < 256" "0 < g"
  shows "(w - (w div e mod 256) * e + v * e) div (e * 256 * g) = w div (e * 256 * g)"
proof -
  let ?q = "w div e div 256" and ?r = "w mod e" and ?c = "w div e mod 256"
  have "w = w div e * e + ?r" "w div e = ?q * 256 + ?c" by simp_all
  then have w: "w = (?q * 256 + ?c) * e + ?r" by presburger
  have a: "w - ?c * e + v * e = (v * e + ?r) + ?q * (e * 256)"
    by (subst (1) w) algebra
  have b: "(v * e + ?r + ?q * (e * 256)) div (e * 256) = ?q + (v * e + ?r) div (e * 256)"
    by (rule div_mult_self1) (use assms(1) in simp)
  have c: "(v * e + ?r) div (e * 256) = 0"
  proof (rule div_pos_pos_trivial)
    have r: "?r < e" "0 \<le> ?r" using assms(1) by simp_all
    have "v * e \<le> 255 * e" using assms by (intro mult_right_mono) auto
    then show "v * e + ?r < e * 256" using r by linarith
    show "0 \<le> v * e + ?r" using r assms by simp
  qed
  have "w div (e * 256) = ?q" using assms(1) by (simp add: zdiv_zmult2_eq)
  then have "(w - ?c * e + v * e) div (e * 256) = w div (e * 256)" unfolding a b c by simp
  moreover have "x div (e * 256 * g) = x div (e * 256) div g" for x using assms(4) by (simp add: zdiv_zmult2_eq)
  ultimately show ?thesis by metis
qed

lemma word8_eq: "a mod 256 = b mod 256 \<Longrightarrow> word_of_int a = (word_of_int b :: byte)"
  by (simp add: word_uint_eq_iff uint_word_of_int)

lemma peekb_pokeb: "peekb a (pokeb b v m) = (if a = b then v else peekb a m)"
proof (cases "a - a mod 4 = b - b mod 4")
  case True
  let ?w = "pmem m (a - a mod 4)" and ?j = "nat (a mod 4)" and ?k = "nat (b mod 4)"
  let ?e = "256 ^ ?k :: int" and ?f = "256 ^ ?j :: int"
  let ?w' = "?w - (?w div ?e mod 256) * ?e + uint v * ?e"
  have p: "peekb a (pokeb b v m) = word_of_int (?w' div ?f)" "peekb a m = word_of_int (?w div ?f)"
    using True by (simp_all add: peekb_def pokeb_def poke_def Let_def)
  have v: "0 \<le> uint v" "uint v < 256" using uint_bounded [of v] by simp_all
  have "a = b" if "?j = ?k" using True that by simp
  then consider "a = b" | "?j < ?k" | "?k < ?j" by (meson linorder_neqE_nat)
  then show ?thesis
  proof cases
    case 1
    have "?w' div ?e mod 256 = uint v" by (rule byte_same) (use v in simp_all)
    then have "?w' div ?e mod 256 = uint v mod 256" using v by simp
    then have "word_of_int (?w' div ?e) = (word_of_int (uint v) :: byte)" by (rule word8_eq)
    then show ?thesis using p 1 by simp
  next
    case 2
    then obtain g where "?k = ?j + 1 + g" using less_imp_Suc_add by fastforce
    then have e: "?e = ?f * 256 * 256 ^ g" by (simp add: power_add)
    have w': "?w' = ?w + (uint v - ?w div ?e mod 256) * (?f * 256 * 256 ^ g)" unfolding e [symmetric] by (simp add: algebra_simps)
    have "?w' div ?f mod 256 = ?w div ?f mod 256" unfolding w' by (rule byte_low) simp
    then have "word_of_int (?w' div ?f) = (word_of_int (?w div ?f) :: byte)" by (rule word8_eq)
    moreover have "a \<noteq> b" using 2 by blast
    ultimately show ?thesis unfolding p by argo
  next
    case 3
    then obtain g where "?j = ?k + 1 + g" using less_imp_Suc_add by fastforce
    then have e: "?f = ?e * 256 * 256 ^ g" by (simp add: power_add)
    have "?w' div ?f = ?w div ?f" unfolding e by (rule byte_high) (use v in simp_all)
    moreover have "a \<noteq> b" using 3 by blast
    ultimately show ?thesis unfolding p by argo
  qed
next
  case False
  then show ?thesis by (auto simp: peekb_def pokeb_def poke_def Let_def)
qed

section \<open>The queue\<close>

definition pq_wf :: "nat \<Rightarrow> fs_state \<Rightarrow> bool" where
  "pq_wf i s \<longleftrightarrow> i < length (k_inodes s) \<and> length (i_zone (ino i s)) = 9 \<and>
     0 \<le> i_zone (ino i s) ! 0 \<and> i_zone (ino i s) ! 0 < 4096 \<and> i_zone (ino i s) ! 1 = 0 \<and>
     0 \<le> i_zone (ino i s) ! 2 \<and> i_zone (ino i s) ! 2 < 4096 \<and> i_zone (ino i s) ! 3 = 0"

definition pq_at :: "nat \<Rightarrow> fs_state \<Rightarrow> int \<Rightarrow> byte" where
  "pq_at i s k = peekb (i_size (ino i s) + (PIPE_TAIL (ino i s) + k) mod 4096) (k_mm s)"

definition pq_seq :: "nat \<Rightarrow> fs_state \<Rightarrow> byte list" where
  "pq_seq i s = map (\<lambda>k. pq_at i s (int k)) [0..<nat (PIPE_SIZE (ino i s))]"

lemma pipe_pointers:
  assumes "pq_wf i s"
  shows "PIPE_HEAD (ino i s) = i_zone (ino i s) ! 0" "PIPE_TAIL (ino i s) = i_zone (ino i s) ! 2"
    "0 \<le> PIPE_HEAD (ino i s)" "PIPE_HEAD (ino i s) < 4096" "0 \<le> PIPE_TAIL (ino i s)" "PIPE_TAIL (ino i s) < 4096"
  using assms by (simp_all add: pq_wf_def PIPE_HEAD_def PIPE_TAIL_def s32_id)

lemma PIPE_SIZE_range: "0 \<le> PIPE_SIZE n" "PIPE_SIZE n < 4096"
  by (simp_all add: PIPE_SIZE_def)

lemma length_pq_seq [simp]: "length (pq_seq i s) = nat (PIPE_SIZE (ino i s))"
  by (simp add: pq_seq_def)

lemma PIPE_EMPTY_seq: "pq_wf i s \<Longrightarrow> PIPE_EMPTY (ino i s) \<longleftrightarrow> pq_seq i s = []"
proof -
  assume "pq_wf i s"
  note p = pipe_pointers [OF this]
  have "PIPE_HEAD (ino i s) = PIPE_TAIL (ino i s) \<longleftrightarrow> PIPE_SIZE (ino i s) = 0"
    using p(3-6) mod_eq_dvd_iff [of "PIPE_HEAD (ino i s)" 4096 "PIPE_TAIL (ino i s)"] by (auto simp: PIPE_SIZE_def)
  then show ?thesis using PIPE_SIZE_range [of "ino i s"] by (auto simp: PIPE_EMPTY_def pq_seq_def)
qed

lemma PIPE_FULL_seq: "PIPE_FULL (ino i s) \<longleftrightarrow> length (pq_seq i s) = 4095"
  using PIPE_SIZE_range [of "ino i s"] by (auto simp: PIPE_FULL_def)

lemma pipe_head_pos: "pq_wf i s \<Longrightarrow> (PIPE_TAIL (ino i s) + PIPE_SIZE (ino i s)) mod 4096 = PIPE_HEAD (ino i s)"
  using pipe_pointers [of i s] by (simp add: PIPE_SIZE_def mod_simps)


text \<open>Putting and taking a byte.\<close>

lemma put_byte_seq:
  assumes w: "pq_wf i s" and l: "length (pq_seq i s) < 4095"
  shows "pq_wf i (put_byte i v s) \<and> pq_seq i (put_byte i v s) = pq_seq i s @ [v]"
proof -
  let ?n = "ino i s" and ?t = "put_byte i v s"
  note p = pipe_pointers [OF w]
  have i: "i < length (k_inodes s)" "length (i_zone ?n) = 9" using w by (simp_all add: pq_wf_def)
  have h: "INC_PIPE (PIPE_HEAD ?n) \<ge> 0" "INC_PIPE (PIPE_HEAD ?n) < 4096" by (simp_all add: INC_PIPE_def)
  have n: "ino i ?t = set_head (INC_PIPE (PIPE_HEAD ?n)) ?n" using i by (simp add: put_byte_def Let_def)
  have w': "pq_wf i ?t"
    using w h unfolding pq_wf_def n by (simp add: set_head_def put_byte_def Let_def u16_id)
  note p' = pipe_pointers [OF w']
  have hd: "PIPE_HEAD (ino i ?t) = INC_PIPE (PIPE_HEAD ?n)" and tl: "PIPE_TAIL (ino i ?t) = PIPE_TAIL ?n"
    using i h unfolding p'(1,2) unfolding n p(2) by (simp_all add: set_head_def u16_id)
  have sz: "PIPE_SIZE (ino i ?t) = PIPE_SIZE ?n + 1"
  proof -
    have "PIPE_SIZE (ino i ?t) = (PIPE_SIZE ?n + 1) mod 4096"
      unfolding PIPE_SIZE_def hd tl INC_PIPE_def by (simp add: mod_simps algebra_simps)
    moreover have "PIPE_SIZE ?n + 1 < 4096" using l PIPE_SIZE_range [of ?n] by (simp add: nat_less_iff)
    ultimately show ?thesis using PIPE_SIZE_range [of ?n] by simp
  qed
  have mm: "k_mm ?t = pokeb (i_size ?n + PIPE_HEAD ?n) v (k_mm s)" by (simp add: put_byte_def Let_def)
  have at: "pq_at i ?t k = (if (PIPE_TAIL ?n + k) mod 4096 = PIPE_HEAD ?n then v else pq_at i s k)" for k
    unfolding pq_at_def tl mm by (auto simp: n set_head_def peekb_pokeb)
  have "pq_at i ?t (int k) = pq_at i s (int k)" if k: "k < nat (PIPE_SIZE ?n)" for k
  proof -
    have "(PIPE_TAIL ?n + int k) mod 4096 \<noteq> PIPE_HEAD ?n"
    proof
      assume "(PIPE_TAIL ?n + int k) mod 4096 = PIPE_HEAD ?n"
      then have "(PIPE_TAIL ?n + int k) mod 4096 = (PIPE_TAIL ?n + PIPE_SIZE ?n) mod 4096" using pipe_head_pos [OF w] by simp
      then have "4096 dvd PIPE_SIZE ?n - int k" by (simp add: mod_eq_dvd_iff dvd_diff_commute)
      then have "4096 \<le> PIPE_SIZE ?n - int k" using k by (intro zdvd_imp_le) simp_all
      then show False using PIPE_SIZE_range [of ?n] by simp
    qed
    then show ?thesis by (simp add: at)
  qed
  moreover have "pq_at i ?t (PIPE_SIZE ?n) = v" using pipe_head_pos [OF w] by (simp add: at)
  moreover have "nat (PIPE_SIZE (ino i ?t)) = Suc (nat (PIPE_SIZE ?n))" using sz PIPE_SIZE_range [of ?n] by simp
  ultimately have "pq_seq i ?t = pq_seq i s @ [v]" using PIPE_SIZE_range [of ?n] by (simp add: pq_seq_def)
  then show ?thesis using w' by simp
qed

lemma get_byte_seq:
  assumes w: "pq_wf i s" and l: "pq_seq i s \<noteq> []"
  shows "fst (get_byte i s) = hd (pq_seq i s) \<and> pq_wf i (snd (get_byte i s)) \<and> pq_seq i (snd (get_byte i s)) = tl (pq_seq i s)"
proof -
  let ?n = "ino i s" and ?t = "snd (get_byte i s)"
  note p = pipe_pointers [OF w]
  have i: "i < length (k_inodes s)" "length (i_zone ?n) = 9" using w by (simp_all add: pq_wf_def)
  have h: "INC_PIPE (PIPE_TAIL ?n) \<ge> 0" "INC_PIPE (PIPE_TAIL ?n) < 4096" by (simp_all add: INC_PIPE_def)
  have n: "ino i ?t = set_tail (INC_PIPE (PIPE_TAIL ?n)) ?n" using i by (simp add: get_byte_def Let_def)
  have w': "pq_wf i ?t"
    using w h unfolding pq_wf_def n by (simp add: set_tail_def get_byte_def Let_def u16_id)
  note p' = pipe_pointers [OF w']
  have hd: "PIPE_HEAD (ino i ?t) = PIPE_HEAD ?n" and tl: "PIPE_TAIL (ino i ?t) = INC_PIPE (PIPE_TAIL ?n)"
    using i h unfolding p'(1,2) unfolding n p(1) by (simp_all add: set_tail_def u16_id)
  have pos: "0 < PIPE_SIZE ?n" using l PIPE_SIZE_range [of ?n] by (auto simp: pq_seq_def less_le)
  have sz: "PIPE_SIZE (ino i ?t) = PIPE_SIZE ?n - 1"
  proof -
    have "PIPE_SIZE (ino i ?t) = (PIPE_SIZE ?n - 1) mod 4096"
      unfolding PIPE_SIZE_def hd tl INC_PIPE_def by (simp add: mod_simps algebra_simps)
    then show ?thesis using pos PIPE_SIZE_range [of ?n] by simp
  qed
  have at: "pq_at i ?t k = pq_at i s (k + 1)" for k
    unfolding pq_at_def tl unfolding n by (simp add: set_tail_def get_byte_def Let_def INC_PIPE_def mod_simps algebra_simps)
  obtain k where k: "nat (PIPE_SIZE ?n) = Suc k" using pos by (metis Suc_pred zero_less_nat_eq)
  then have k': "nat (PIPE_SIZE (ino i ?t)) = k" using sz by simp
  have "pq_seq i s = pq_at i s 0 # pq_seq i ?t"
    unfolding pq_seq_def k k' by (simp add: at upt_rec [of 0 "Suc k"] map_Suc_upt [symmetric] del: upt_Suc) (simp add: algebra_simps)
  moreover have "pq_at i s 0 = fst (get_byte i s)" using p by (simp add: pq_at_def get_byte_def Let_def)
  ultimately show ?thesis using w' by simp
qed

interpretation pq: fifo "pq_wf i" "pq_seq i" 4095 "put_byte i" "get_byte i" id for i
proof
  show "pq_wf i s \<Longrightarrow> length (pq_seq i s) \<le> 4095" for s using PIPE_SIZE_range [of "ino i s"] by simp
qed (use put_byte_seq get_byte_seq in \<open>simp_all\<close>)


section \<open>Reading and writing\<close>

lemma wake_inode_pipe:
  assumes "pq_wf i s"
  shows "pq_wf i (wake_inode i s)" "pq_seq i (wake_inode i s) = pq_seq i s" "i_count (ino i (wake_inode i s)) = i_count (ino i s)"
proof -
  have i: "i < length (k_inodes s)" using assms by (simp add: pq_wf_def)
  obtain p sc where w: "wake_up (i_wait (ino i s)) (k_sched s) = (p, sc)" by fastforce
  have e: "wake_inode i s = upd_ino i (\<lambda>n. n\<lparr>i_wait := p\<rparr>) (s\<lparr>k_sched := sc\<rparr>)" by (simp add: wake_inode_def w)
  have n: "ino i (wake_inode i s) = (ino i s)\<lparr>i_wait := p\<rparr>" using i by (simp add: e ino_def upd_ino_def)
  have m: "k_mm (wake_inode i s) = k_mm s" "length (k_inodes (wake_inode i s)) = length (k_inodes s)" by (simp_all add: e)
  show "pq_wf i (wake_inode i s)" using assms unfolding pq_wf_def n m by simp
  show "pq_seq i (wake_inode i s) = pq_seq i s"
    unfolding pq_seq_def pq_at_def n m by (simp add: PIPE_SIZE_def PIPE_HEAD_def PIPE_TAIL_def)
  show "i_count (ino i (wake_inode i s)) = i_count (ino i s)" by (simp add: n)
qed

lemma take_bytes_seq:
  "pq_wf i s \<Longrightarrow>
   (case take_bytes n i acc s of (bs, t) \<Rightarrow> bs = acc @ take n (pq_seq i s) \<and> pq_wf i t \<and> pq_seq i t = drop n (pq_seq i s))"
proof (induction n arbitrary: acc s)
  case (Suc n)
  show ?case
  proof (cases "pq_seq i s")
    case Nil
    then show ?thesis using Suc.prems PIPE_EMPTY_seq [OF Suc.prems] by simp
  next
    case (Cons b bs)
    obtain c t where g: "get_byte i s = (c, t)" by fastforce
    have t: "c = b" "pq_wf i t" "pq_seq i t = bs" using pq.get_law [OF Suc.prems] Cons g by auto
    have "\<not> PIPE_EMPTY (ino i s)" using PIPE_EMPTY_seq [OF Suc.prems] Cons by simp
    then show ?thesis using Suc.IH [OF t(2), of "acc @ [b]"] g t Cons by auto
  qed
qed simp

lemma put_byte_count [simp]: "i < length (k_inodes s) \<Longrightarrow> i_count (ino i (put_byte i v s)) = i_count (ino i s)"
  by (simp add: put_byte_def Let_def set_head_def)

lemma write_pipe_loop_seq:
  assumes "pq_wf i s" "i_count (ino i s) = 2" "k = min (length bs) (4095 - length (pq_seq i s))"
  shows "\<exists>t. write_pipe_loop i bs d s = (d + int k, drop k bs, t) \<and> pq_wf i t \<and> i_count (ino i t) = 2 \<and>
    pq_seq i t = pq_seq i s @ take k bs"
  using assms
proof (induction bs arbitrary: d s k)
  case Nil
  then show ?case using wake_inode_pipe [OF Nil(1)] by simp
next
  case (Cons b bs)
  note w = wake_inode_pipe [OF Cons.prems(1)]
  show ?case
  proof (cases "PIPE_FULL (ino i s)")
    case True
    then have "k = 0" using Cons.prems(3) PIPE_FULL_seq [of i s] by simp
    then show ?thesis using True w Cons.prems(2) by (simp add: Let_def)
  next
    case False
    then have l: "length (pq_seq i s) < 4095" using PIPE_FULL_seq [of i s] pq.seq_bound [OF Cons.prems(1)] by linarith
    let ?t = "wake_inode i (put_byte i b s)"
    have i: "i < length (k_inodes s)" using Cons.prems(1) by (simp add: pq_wf_def)
    have p: "pq_wf i (put_byte i b s)" "pq_seq i (put_byte i b s) = pq_seq i s @ [b]"
      using pq.put_law [OF Cons.prems(1) l, of b] by simp_all
    have t: "pq_wf i ?t" "pq_seq i ?t = pq_seq i s @ [b]" "i_count (ino i ?t) = 2"
      using wake_inode_pipe [OF p(1)] p(2) Cons.prems(2) i by simp_all
    have k: "k = Suc (min (length bs) (4095 - length (pq_seq i ?t)))" unfolding Cons.prems(3) t(2) using l by (auto simp: min_def)
    from Cons.IH [OF t(1,3) refl, of "d + 1"] show ?thesis using False k t(2) by (auto simp del: length_pq_seq)
  qed
qed

text \<open>
  C29: A pipe with both ends open carries bytes in order: \<open>write_pipe\<close> appends as many of its bytes as fit,
  says how many, and keeps the rest for when it runs again; \<open>read_pipe\<close> of a pipe that is not empty
  then returns the oldest bytes, at most as many as asked for, and leaves the others queued.
\<close>

theorem pipe_in_order:
  assumes "pq_wf i s" "i_count (ino i s) = 2" "pq_seq i s @ bytes \<noteq> []"
    and k_def: "k = min (length bytes) (4095 - length (pq_seq i s))"
  shows "\<exists>t u. write_pipe i bytes s = (int k, drop k bytes, t) \<and> pq_seq i t = pq_seq i s @ take k bytes \<and>
    read_pipe i n t = Done (int (min (nat n) (length (pq_seq i t))), take (nat n) (pq_seq i s @ take k bytes), u) \<and>
    pq_wf i u \<and> pq_seq i u = drop (nat n) (pq_seq i s @ take k bytes)"
proof -
  note w = wake_inode_pipe [OF assms(1)]
  have c: "i_count (ino i (wake_inode i s)) = 2" using w(3) assms(2) by simp
  from write_pipe_loop_seq [OF w(1) c refl, of bytes 0] obtain t where
    t: "write_pipe i bytes s = (int k, drop k bytes, t)" "pq_wf i t" "pq_seq i t = pq_seq i s @ take k bytes"
    using c by (auto simp: write_pipe_def Let_def w(2) k_def simp del: length_pq_seq)
  obtain bs u where g: "take_bytes (nat n) i [] t = (bs, u)" by fastforce
  have u: "bs = take (nat n) (pq_seq i t)" "pq_wf i u" "pq_seq i u = drop (nat n) (pq_seq i t)"
    using take_bytes_seq [OF t(2), where n = "nat n" and acc = "[]"] g by simp_all
  have "0 < k" if "pq_seq i s = []" using assms(3) that by (simp add: k_def del: length_pq_seq)
  then have "pq_seq i t \<noteq> []" using assms(3) t(3) by auto
  then have "read_pipe i n t = Done (int (length bs), bs, wake_inode i u)"
    using PIPE_EMPTY_seq [OF t(2)] g by (simp add: read_pipe_def)
  moreover have "int (length bs) = int (min (nat n) (length (pq_seq i t)))" unfolding u(1) by (simp del: length_pq_seq)
  ultimately have "read_pipe i n t = Done (int (min (nat n) (length (pq_seq i t))), take (nat n) (pq_seq i s @ take k bytes), wake_inode i u)"
    unfolding u(1) t(3) by metis
  moreover note wake_inode_pipe(1) [OF u(2)] wake_inode_pipe(2) [OF u(2), unfolded u(3) t(3)]
  ultimately show ?thesis using t(1,3) by blast
qed

text \<open>A pipe on inode 0, empty, with both ends open.\<close>

definition one_pipe :: fs_state where
  "one_pipe = \<lparr>k_sched = sched_init, k_mm = \<lparr>mem_map = replicate PAGING_PAGES 0, pmem = (\<lambda>_. 0)\<rparr>, k_page = (\<lambda>_. 0), k_files = [],
     k_inodes = [zero_inode\<lparr>i_size := LOW_MEM, i_count := 2, i_pipe := 1\<rparr>], fs_bufs = [], fs_free = [], fs_hash = [], fs_null = None,
     fs_disk = (\<lambda>_ _. []), fs_bad = (\<lambda>_ _. False), fs_nr_sects = (\<lambda>_. 0), fs_last_inode = 0, fs_supers = []\<rparr>"

theorem pipe_in_order_witness:
  "\<exists>t u. write_pipe 0 [104, 105] one_pipe = (2, [], t) \<and> pq_seq 0 t = [104, 105] \<and>
    read_pipe 0 1 t = Done (1, [104], u) \<and> pq_wf 0 u \<and> pq_seq 0 u = [105]"
proof -
  have w: "pq_wf 0 one_pipe" "i_count (ino 0 one_pipe) = 2" "pq_seq 0 one_pipe = []"
    by (simp_all add: pq_wf_def one_pipe_def ino_def zero_inode_def pq_seq_def PIPE_SIZE_def PIPE_HEAD_def PIPE_TAIL_def s32_def)
  then show ?thesis using pipe_in_order [OF w(1,2), of "[104, 105]" 2 1] by (auto simp del: length_pq_seq)
qed

end
