(* ===== verification/FileDev.thy ===== *)
theory FileDev
  imports NameiSys EncrList
begin

text \<open>
  Files and block devices: src/fs/file_dev.c, \<open>block_read\<close> and \<open>block_write\<close> of src/fs/block_dev.c, and
  the functions of src/kernel/sys.c that encrypt a file and keep the list of encrypted files. User
  memory is the list of the bytes read from it or written to it. A use of an uninitialised or null
  pointer, and a read past the end of a block, is the outcome \<open>Oob\<close>.
\<close>

definition EIO :: int where "EIO = 5"

section \<open>Encrypting the blocks of a file\<close>

lemma bmap_bound: "bmap i (int c) s = Done r \<Longrightarrow> c < 262663"
  by (auto simp: bmap_def bmap_at_def split: if_splits)

text \<open>The loop of \<open>file_encr\<close> and \<open>file_decr\<close>, with the function applied to each block.\<close>

function blocks_loop :: "(byte list \<Rightarrow> byte list outcome) \<Rightarrow> nat \<Rightarrow> nat \<Rightarrow> fs_state \<Rightarrow> fs_state outcome" where
  "blocks_loop f i counter s =
     obind (bmap i (int counter) s) (\<lambda>(nr, s).
     if nr = 0 then Done s
     else
       obind (bread (i_dev (ino i s)) nr s) (\<lambda>(bh, s).
       case bh of
         None \<Rightarrow> Done s
       | Some b \<Rightarrow>
           obind (f (b_data (buf b s))) (\<lambda>d.
           obind (brelse (Some b) (upd_buf b (\<lambda>x. x\<lparr>b_data := d, b_dirt := 1\<rparr>) s)) (\<lambda>s.
           blocks_loop f i (Suc counter) s))))"
  by pat_completeness auto
termination
  by (relation "measure (\<lambda>(f, i, counter, s). 262663 - counter)") (auto dest: bmap_bound)

declare blocks_loop.simps [simp del]

definition touch :: "nat \<Rightarrow> fs_state \<Rightarrow> fs_state" where
  "touch i s = upd_ino i (\<lambda>n. n\<lparr>i_atime := now s\<rparr>) s"

definition file_encr :: "crypt_state \<Rightarrow> nat \<Rightarrow> fs_state \<Rightarrow> (int \<times> fs_state) outcome" where
  "file_encr c i s =
     obind (blocks_loop (\<lambda>d. buffer_encr (global_key c) d 1024) i 0 s) (\<lambda>s. Done (0, touch i s))"

definition file_decr :: "crypt_state \<Rightarrow> nat \<Rightarrow> fs_state \<Rightarrow> (int \<times> fs_state) outcome" where
  "file_decr c i s =
     obind (blocks_loop (\<lambda>d. buffer_decr (global_key c) d 1024) i 0 s) (\<lambda>s. Done (0, touch i s))"

section \<open>The list of encrypted files\<close>

text \<open>\<open>compare_name\<close>: the 13 characters of \<open>.fileList.txt\<close>.\<close>

definition list_name :: "byte list" where
  "list_name = [46, 102, 105, 108, 101, 76, 105, 115, 116, 46, 116, 120, 116]"

definition compare_name :: "byte list \<Rightarrow> bool" where
  "compare_name name = (take 13 name = list_name)"

text \<open>The search of the first block of the root directory; \<open>None\<close> when it ends at an empty entry.\<close>

function find_list :: "nat \<Rightarrow> byte list \<Rightarrow> int option outcome" where
  "find_list p d =
     (if p + 16 > length d then Oob
      else if entry_inode p d = 0 then Done None
      else if compare_name (entry_name p d) then Done (Some (entry_inode p d))
      else find_list (p + 16) d)"
  by pat_completeness auto
termination
  by (relation "measure (\<lambda>(p, d). length d - p)") auto

declare find_list.simps [simp del]

definition set_dirs :: "nat option \<Rightarrow> fs_state \<Rightarrow> fs_state" where
  "set_dirs r s = upd_task_cur (\<lambda>t. t\<lparr>t_root := r, t_pwd := r\<rparr>) s"

text \<open>
  The common beginning of \<open>mark_file\<close>, \<open>remove_file_mark\<close> and \<open>check_for_encr\<close>. The kernel's string
  \<open>"/"\<close> is passed to \<open>namei\<close>, which reads it with \<open>get_fs_byte\<close>, from the address space of the caller:
  \<open>upath\<close> is what is found there. The buffer \<open>bhead\<close> and the inodes are not released.
\<close>

definition open_list :: "byte list \<Rightarrow> fs_state \<Rightarrow> (nat \<times> fs_state) outcome" where
  "open_list upath s =
     obind (iget 0x301 1 s) (\<lambda>(root, s).
     obind (namei upath (set_dirs (Some root) s)) (\<lambda>(dir, s).
     obind (bread (i_dev (ino root s)) (i_zone (ino root s) ! 0) s) (\<lambda>(bh, s).
     case bh of
       None \<Rightarrow> Oob
     | Some b \<Rightarrow>
         obind (find_list 0 (b_data (buf b s))) (\<lambda>r.
         case r of None \<Rightarrow> Oob | Some nr \<Rightarrow> iget 0x301 nr s))))"

text \<open>\<open>mark_file\<close> and \<open>remove_file_mark\<close>: \<open>f\<close> changes the first block of the list.\<close>

definition edit_list :: "(fs_state \<Rightarrow> byte list \<Rightarrow> byte list outcome) \<Rightarrow> byte list \<Rightarrow> fs_state \<Rightarrow> (int \<times> fs_state) outcome" where
  "edit_list f upath s =
     obind (open_list upath s) (\<lambda>(l, s).
     obind (obind (bmap l 0 s) (\<lambda>(nr, s).
            if nr = 0 then Done s
            else
              obind (bread (i_dev (ino l s)) nr s) (\<lambda>(bh, s).
              case bh of
                None \<Rightarrow> Done s
              | Some b \<Rightarrow>
                  obind (f s (b_data (buf b s))) (\<lambda>d.
                  brelse (Some b) (upd_buf b (\<lambda>x. x\<lparr>b_data := d, b_dirt := 1\<rparr>) s))))) (\<lambda>s.
     Done (0, set_dirs None (touch l s))))"

definition mark_file :: "byte list \<Rightarrow> nat \<Rightarrow> fs_state \<Rightarrow> (int \<times> fs_state) outcome" where
  "mark_file upath i s = edit_list (\<lambda>s d. mark d (i_num (ino i s))) upath s"

definition remove_file_mark :: "byte list \<Rightarrow> nat \<Rightarrow> fs_state \<Rightarrow> (int \<times> fs_state) outcome" where
  "remove_file_mark upath i s = edit_list (\<lambda>s d. unmark d 1024 (i_num (ino i s))) upath s"

function check_loop :: "int \<Rightarrow> nat \<Rightarrow> nat \<Rightarrow> fs_state \<Rightarrow> (int \<times> fs_state) outcome" where
  "check_loop num l counter s =
     obind (bmap l (int counter) s) (\<lambda>(nr, s).
     if nr = 0 then Done (0, s)
     else
       obind (bread (i_dev (ino l s)) nr s) (\<lambda>(bh, s).
       case bh of
         None \<Rightarrow> Done (0, s)
       | Some b \<Rightarrow>
           let flag = i_node_check (b_data (buf b s)) num in
           obind (brelse (Some b) (upd_buf b (\<lambda>x. x\<lparr>b_dirt := 1\<rparr>) s)) (\<lambda>s.
           if flag = 1 then Done (1, s) else check_loop num l (Suc counter) s)))"
  by pat_completeness auto
termination
  by (relation "measure (\<lambda>(num, l, counter, s). 262663 - counter)") (auto dest: bmap_bound)

declare check_loop.simps [simp del]

definition check_for_encr :: "byte list \<Rightarrow> nat \<Rightarrow> fs_state \<Rightarrow> (int \<times> fs_state) outcome" where
  "check_for_encr upath i s =
     obind (open_list upath s) (\<lambda>(l, s).
     obind (check_loop (i_num (ino i s)) l 0 s) (\<lambda>(flag, s).
     Done (flag, set_dirs None (touch l s))))"

section \<open>The calls\<close>

text \<open>The open file of a descriptor, which is signed here and not checked to be positive.\<close>

definition filp_of :: "int \<Rightarrow> fs_state \<Rightarrow> nat option outcome" where
  "filp_of fd s = (if fd \<ge> int NR_OPEN then Done None else if fd < 0 then Oob else rd (t_filp (cur_task s)) (nat fd))"

definition inode_of :: "nat \<Rightarrow> fs_state \<Rightarrow> nat outcome" where
  "inode_of f s =
     obind (rd (k_files s) f) (\<lambda>fl. case f_inode fl of None \<Rightarrow> Oob | Some i \<Rightarrow> Done i)"

definition sys_encr :: "crypt_state \<Rightarrow> byte list \<Rightarrow> int \<Rightarrow> fs_state \<Rightarrow> (int \<times> fs_state) outcome" where
  "sys_encr c upath fd s =
     (if is_key_set c = 0 then Done (0, s)
      else
        obind (filp_of fd s) (\<lambda>p.
        case p of
          None \<Rightarrow> Done (- EINVAL, s)
        | Some f \<Rightarrow>
            obind (inode_of f s) (\<lambda>i.
            obind (check_for_encr upath i s) (\<lambda>(e, s).
            if e = 1 then Done (0, s)
            else
              obind (mark_file upath i s) (\<lambda>(_, s).
              obind (file_encr c i s) (\<lambda>(_, s). Done (0, s)))))))"

definition sys_decr :: "crypt_state \<Rightarrow> byte list \<Rightarrow> int \<Rightarrow> fs_state \<Rightarrow> (int \<times> fs_state) outcome" where
  "sys_decr c upath fd s =
     (if is_key_set c = 0 then Done (0, s)
      else
        obind (filp_of fd s) (\<lambda>p.
        case p of
          None \<Rightarrow> Done (- EINVAL, s)
        | Some f \<Rightarrow>
            obind (inode_of f s) (\<lambda>i.
            obind (check_for_encr upath i s) (\<lambda>(e, s).
            if e = 0 then Done (1, s)
            else
              obind (remove_file_mark upath i s) (\<lambda>(_, s).
              obind (file_decr c i s) (\<lambda>(_, s). Done (0, s)))))))"

section \<open>Reading and writing files\<close>

definition upd_file :: "nat \<Rightarrow> (file_t \<Rightarrow> file_t) \<Rightarrow> fs_state \<Rightarrow> fs_state" where
  "upd_file f g s = s\<lparr>k_files := (k_files s)[f := g (k_files s ! f)]\<rparr>"

definition pos_of :: "nat \<Rightarrow> fs_state \<Rightarrow> int" where "pos_of f s = f_pos (k_files s ! f)"

text \<open>Bytes of a block from an offset on, read and written.\<close>

definition get_bytes :: "int \<Rightarrow> nat \<Rightarrow> byte list \<Rightarrow> byte list outcome" where
  "get_bytes off n d = (if 0 \<le> off \<and> nat off + n \<le> length d then Done (take n (drop (nat off) d)) else Oob)"

definition put_bytes :: "int \<Rightarrow> byte list \<Rightarrow> byte list \<Rightarrow> byte list outcome" where
  "put_bytes off bs d =
     (if 0 \<le> off \<and> nat off + length bs \<le> length d then Done (take (nat off) d @ bs @ drop (nat off + length bs) d) else Oob)"

text \<open>The loop of \<open>file_read\<close>: the bytes that were read, what is left.\<close>

function read_loop :: "nat \<Rightarrow> nat \<Rightarrow> int \<Rightarrow> byte list \<Rightarrow> fs_state \<Rightarrow> (byte list \<times> int \<times> fs_state) outcome" where
  "read_loop i f left acc s =
     (if left \<le> 0 then Done (acc, left, s)
      else
        obind (bmap i (cdiv (pos_of f s) 1024) s) (\<lambda>(nr, s).
        obind (if nr = 0 then Done (False, None, s)
               else obind (bread (i_dev (ino i s)) nr s) (\<lambda>(bh, s). Done (bh = None, bh, s))) (\<lambda>(failed, bh, s).
        if failed then Done (acc, left, s)
        else
          let off = cmod (pos_of f s) 1024; chars = min (1024 - off) left;
              s = upd_file f (\<lambda>x. x\<lparr>f_pos := s32 (f_pos x + chars)\<rparr>) s in
          if chars \<le> 0 then Oob
          else
            obind (case bh of
                None \<Rightarrow> Done (replicate (nat chars) 0, s)
              | Some b \<Rightarrow>
                  obind (get_bytes off (nat chars) (b_data (buf b s))) (\<lambda>bs.
                  obind (brelse bh s) (\<lambda>s. Done (bs, s)))) (\<lambda>(bs, s).
            read_loop i f (left - chars) (acc @ bs) s))))"
  by pat_completeness auto
termination
  by (relation "measure (\<lambda>(i, f, left, acc, s). nat left)") auto

declare read_loop.simps [simp del]

text \<open>The decryption before and the encryption after an access to an encrypted file.\<close>

definition decr_first :: "crypt_state \<Rightarrow> byte list \<Rightarrow> nat \<Rightarrow> fs_state \<Rightarrow> (bool \<times> fs_state) outcome" where
  "decr_first c upath i s =
     (if is_key_set_fn c = 1 then
        obind (check_for_encr upath i s) (\<lambda>(e, s).
        if e = 1 then obind (file_decr c i s) (\<lambda>(_, s). Done (True, s)) else Done (False, s))
      else Done (False, s))"

definition file_read :: "crypt_state \<Rightarrow> byte list \<Rightarrow> nat \<Rightarrow> nat \<Rightarrow> int \<Rightarrow> fs_state \<Rightarrow> (int \<times> byte list \<times> fs_state) outcome" where
  "file_read c upath i f cnt s =
     (if i_num (ino i s) = 133 then Done (0, [], s)
      else
        obind (decr_first c upath i s) (\<lambda>(test, s).
        if cnt \<le> 0 then Done (0, [], s)
        else
          obind (read_loop i f cnt [] s) (\<lambda>(bs, left, s).
          obind (if test then obind (file_encr c i (touch i s)) (\<lambda>(_, s). Done s) else Done (touch i s)) (\<lambda>s.
          Done (if cnt - left \<noteq> 0 then cnt - left else - ERROR, bs, s)))))"

text \<open>The loop of \<open>file_write\<close>: the bytes that are left, the position and \<open>i\<close>.\<close>

definition write_chunk :: "nat \<Rightarrow> int \<Rightarrow> byte list \<Rightarrow> nat \<Rightarrow> fs_state \<Rightarrow> fs_state outcome" where
  "write_chunk i pos bs b s =
     (let c = cmod pos 1024; pos' = s32 (pos + int (length bs));
          s = upd_buf b (\<lambda>x. x\<lparr>b_dirt := 1\<rparr>) s;
          s = (if u32 pos' > i_size (ino i s) then upd_ino i (\<lambda>n. n\<lparr>i_size := u32 pos', i_dirt := 1\<rparr>) s else s) in
      obind (put_bytes c bs (b_data (buf b s))) (\<lambda>d.
      brelse (Some b) (upd_buf b (\<lambda>x. x\<lparr>b_data := d\<rparr>) s)))"

function write_loop :: "nat \<Rightarrow> int \<Rightarrow> byte list \<Rightarrow> int \<Rightarrow> fs_state \<Rightarrow> (int \<times> int \<times> fs_state) outcome" where
  "write_loop i pos bytes done s =
     (if bytes = [] then Done (done, pos, s)
      else
        obind (create_block i (cdiv pos 1024) s) (\<lambda>(block, s).
        if block = 0 then Done (done, pos, s)
        else
          obind (bread (i_dev (ino i s)) block s) (\<lambda>(bh, s).
          case bh of
            None \<Rightarrow> Done (done, pos, s)
          | Some b \<Rightarrow>
              let c = min (1024 - cmod pos 1024) (int (length bytes)) in
              if c \<le> 0 then Oob
              else
                obind (write_chunk i pos (take (nat c) bytes) b s) (\<lambda>s.
                write_loop i (s32 (pos + c)) (drop (nat c) bytes) (done + c) s))))"
  by pat_completeness auto
termination
  by (relation "measure (\<lambda>(i, pos, bytes, done, s). length bytes)") auto

declare write_loop.simps [simp del]

definition file_write :: "crypt_state \<Rightarrow> byte list \<Rightarrow> nat \<Rightarrow> nat \<Rightarrow> byte list \<Rightarrow> fs_state \<Rightarrow> (int \<times> fs_state) outcome" where
  "file_write c upath i f bytes s =
     (if i_num (ino i s) = 133 then Done (0, s)
      else
        obind (decr_first c upath i s) (\<lambda>(test, s).
        let append = (f_flags (k_files s ! f) AND O_APPEND \<noteq> 0) in
        obind (write_loop i (if append then s32 (i_size (ino i s)) else pos_of f s) bytes 0 s) (\<lambda>(n, pos, s).
        let s = upd_ino i (\<lambda>n. n\<lparr>i_mtime := now s\<rparr>) s;
            s = (if append then s else upd_ino i (\<lambda>n. n\<lparr>i_ctime := now s\<rparr>) (upd_file f (\<lambda>x. x\<lparr>f_pos := pos\<rparr>) s)) in
        obind (if test then obind (file_encr c i s) (\<lambda>(_, s). Done s) else Done s) (\<lambda>s.
        Done (if n \<noteq> 0 then n else -1, s)))))"

section \<open>Changing the case of a file\<close>

definition switch_char :: "byte \<Rightarrow> byte" where
  "switch_char ch =
     (if 97 \<le> sint ch \<and> sint ch \<le> 122 then ch - 32 else if 65 \<le> sint ch \<and> sint ch \<le> 90 then ch + 32 else ch)"

definition buffer_switch_case :: "byte list \<Rightarrow> byte list" where
  "buffer_switch_case d = map switch_char d"

text \<open>
  \<open>file_switch_case\<close>; \<open>sys_switch_case\<close> calls it without \<open>count\<close>, so that the value is whatever the
  stack holds. The loop condition is \<open>left\<close>, which the last round makes negative when \<open>count\<close> does not end
  with the block.
\<close>

function switch_loop :: "nat \<Rightarrow> nat \<Rightarrow> int \<Rightarrow> nat \<Rightarrow> fs_state \<Rightarrow> fs_state outcome" where
  "switch_loop i f left fuel s =
     (if left = 0 then Done s
      else if fuel = 0 then Fuel
      else
        obind (bmap i (cdiv (pos_of f s) 1024) s) (\<lambda>(nr, s).
        if nr = 0 then Done s
        else
          obind (bread (i_dev (ino i s)) nr s) (\<lambda>(bh, s).
          case bh of
            None \<Rightarrow> Done s
          | Some b \<Rightarrow>
              let chars = 1024 - cmod (pos_of f s) 1024;
                  s = upd_file f (\<lambda>x. x\<lparr>f_pos := s32 (f_pos x + chars)\<rparr>) s;
                  s = upd_buf b (\<lambda>x. x\<lparr>b_data := buffer_switch_case (b_data x), b_dirt := 1\<rparr>) s in
              obind (brelse bh s) (\<lambda>s. switch_loop i f (s32 (left - chars)) (fuel - 1) s))))"
  by pat_completeness auto
termination
  by (relation "measure (\<lambda>(i, f, left, fuel, s). fuel)") auto

declare switch_loop.simps [simp del]

definition file_switch_case :: "nat \<Rightarrow> nat \<Rightarrow> int \<Rightarrow> fs_state \<Rightarrow> (int \<times> fs_state) outcome" where
  "file_switch_case i f cnt s =
     (if cnt \<le> 0 then Done (0, s)
      else obind (switch_loop i f cnt 262664 s) (\<lambda>s. Done (0, touch i s)))"

definition sys_switch_case :: "int \<Rightarrow> int \<Rightarrow> fs_state \<Rightarrow> (int \<times> fs_state) outcome" where
  "sys_switch_case stack fd s =
     obind (filp_of fd s) (\<lambda>p.
     case p of
       None \<Rightarrow> Done (- EINVAL, s)
     | Some f \<Rightarrow> obind (inode_of f s) (\<lambda>i. file_switch_case i f stack s))"

section \<open>Block devices\<close>

text \<open>
  \<open>block_read\<close> and \<open>block_write\<close>: an offset inside the first block does not shorten the transfer of that
  block, which then runs past its end.
\<close>

function block_read_loop :: "int \<Rightarrow> int \<Rightarrow> int \<Rightarrow> int \<Rightarrow> int \<Rightarrow> byte list \<Rightarrow> fs_state \<Rightarrow> (int \<times> int \<times> byte list \<times> fs_state) outcome" where
  "block_read_loop dev block off pos left acc s =
     (if left \<le> 0 then Done (int (length acc), pos, acc, s)
      else
        obind (bread dev block s) (\<lambda>(bh, s).
        case bh of
          None \<Rightarrow> Done (if acc = [] then - EIO else int (length acc), pos, acc, s)
        | Some b \<Rightarrow>
            let chars = min left 1024 in
            obind (get_bytes off (nat chars) (b_data (buf b s))) (\<lambda>bs.
            obind (brelse bh (upd_buf b (\<lambda>x. x\<lparr>b_dirt := 1\<rparr>) s)) (\<lambda>s.
            block_read_loop dev (block + 1) 0 (s32 (pos + chars)) (left - chars) (acc @ bs) s))))"
  by pat_completeness auto
termination
  by (relation "measure (\<lambda>(dev, block, off, pos, left, acc, s). nat left)") auto

definition block_read :: "int \<Rightarrow> int \<Rightarrow> int \<Rightarrow> fs_state \<Rightarrow> (int \<times> int \<times> byte list \<times> fs_state) outcome" where
  "block_read dev pos cnt s = block_read_loop dev (u32 pos div 1024) (u32 pos mod 1024) pos cnt [] s"

function block_write_loop :: "int \<Rightarrow> int \<Rightarrow> int \<Rightarrow> int \<Rightarrow> byte list \<Rightarrow> int \<Rightarrow> fs_state \<Rightarrow> (int \<times> int \<times> fs_state) outcome" where
  "block_write_loop dev block off pos bytes written s =
     (if bytes = [] then Done (written, pos, s)
      else
        obind (bread dev block s) (\<lambda>(bh, s).
        case bh of
          None \<Rightarrow> Done (if written = 0 then - EIO else written, pos, s)
        | Some b \<Rightarrow>
            let chunk = take 1024 bytes; n = int (length chunk) in
            obind (put_bytes off chunk (b_data (buf b s))) (\<lambda>d.
            obind (brelse bh (upd_buf b (\<lambda>x. x\<lparr>b_data := d, b_dirt := 1\<rparr>) s)) (\<lambda>s.
            block_write_loop dev (block + 1) 0 (s32 (pos + n)) (drop 1024 bytes) (written + n) s))))"
  by pat_completeness auto
termination
  by (relation "measure (\<lambda>(dev, block, off, pos, bytes, written, s). length bytes)") auto

definition block_write :: "int \<Rightarrow> int \<Rightarrow> byte list \<Rightarrow> fs_state \<Rightarrow> (int \<times> int \<times> fs_state) outcome" where
  "block_write dev pos bytes s = block_write_loop dev (cdiv pos 1024) (cmod pos 1024) pos bytes 0 s"

declare block_read_loop.simps [simp del] block_write_loop.simps [simp del]

end
