(* ===== verification/OpenSys.thy ===== *)
theory OpenSys
  imports FileDev Pipe Tty
begin

text \<open>
  The system calls on files: src/fs/read_write.c, src/fs/char_dev.c, src/fs/fcntl.c, src/fs/open.c and
  src/fs/stat.c. The state joins the file system, the terminals and the key of the cipher; the
  terminal layer works on the scheduler state of the file system.
\<close>

record sys_state =
  sy_fs :: fs_state
  sy_tty :: tty_sys
  sy_crypt :: crypt_state

definition EBADF :: int where "EBADF = 9"
definition EMFILE :: int where "EMFILE = 24"
definition ESPIPE :: int where "ESPIPE = 29"

text \<open>Running an operation of the file system, and one of the terminals.\<close>

definition on_fs :: "(fs_state \<Rightarrow> ('a \<times> fs_state) outcome) \<Rightarrow> sys_state \<Rightarrow> ('a \<times> sys_state) outcome" where
  "on_fs f s = obind (f (sy_fs s)) (\<lambda>(r, fs). Done (r, s\<lparr>sy_fs := fs\<rparr>))"

definition tty_view :: "sys_state \<Rightarrow> tty_sys" where
  "tty_view s = (sy_tty s)\<lparr>ts_sched := k_sched (sy_fs s)\<rparr>"

definition tty_back :: "tty_sys \<Rightarrow> sys_state \<Rightarrow> sys_state" where
  "tty_back t s = s\<lparr>sy_tty := t, sy_fs := (sy_fs s)\<lparr>k_sched := ts_sched t\<rparr>\<rparr>"

section \<open>Character devices\<close>

text \<open>A transfer: the returned value, the bytes for the user, the bytes that a write still has to write.\<close>

datatype transfer = Transfer int "byte list" "byte list"

text \<open>\<open>rw_ttyx\<close>: \<open>req\<close> is the number of bytes to read or the bytes to write; \<open>fuel\<close> is that of the terminal layer.\<close>

datatype request = Read int | Write "byte list"

definition rw_ttyx :: "nat \<Rightarrow> request \<Rightarrow> int \<Rightarrow> sys_state \<Rightarrow> (transfer \<times> sys_state) outcome" where
  "rw_ttyx fuel req minor s =
     (case req of
        Read n \<Rightarrow>
          obind (tty_read fuel (nat (u32 minor)) n (tty_view s)) (\<lambda>(r, bs, t).
          Done (Transfer r (map word_of_int bs) [], tty_back t s))
      | Write bs \<Rightarrow>
          obind (tty_write fuel (nat (u32 minor)) (map uint bs) (tty_view s)) (\<lambda>(r, rest, t).
          Done (Transfer r [] (map word_of_int rest), tty_back t s)))"

definition rw_tty :: "nat \<Rightarrow> request \<Rightarrow> int \<Rightarrow> sys_state \<Rightarrow> (transfer \<times> sys_state) outcome" where
  "rw_tty fuel req minor s =
     (let t = t_tty (cur_task (sy_fs s)) in
      if t < 0 then Done (Transfer (- EPERM) [] [], s) else rw_ttyx fuel req t s)"

definition rw_char :: "nat \<Rightarrow> request \<Rightarrow> int \<Rightarrow> sys_state \<Rightarrow> (transfer \<times> sys_state) outcome" where
  "rw_char fuel req dev s =
     (if MAJOR dev \<ge> 8 then Panic ''rw_char: dev>NRDEV''
      else if MAJOR dev = 4 then rw_ttyx fuel req (MINOR dev) s
      else if MAJOR dev = 5 then rw_tty fuel req (MINOR dev) s
      else Panic ''Trying to r/w from/to nonexistent character device'')"

section \<open>Reading, writing, seeking\<close>

text \<open>The open file of a descriptor that is unsigned.\<close>

definition ufilp :: "nat \<Rightarrow> fs_state \<Rightarrow> nat option" where
  "ufilp fd s = (if fd \<ge> NR_OPEN then None else t_filp (cur_task s) ! fd)"

definition file_of :: "nat \<Rightarrow> fs_state \<Rightarrow> file_t" where "file_of f s = k_files s ! f"

definition sys_lseek :: "nat \<Rightarrow> int \<Rightarrow> int \<Rightarrow> fs_state \<Rightarrow> int \<times> fs_state" where
  "sys_lseek fd offset origin s =
     (case ufilp fd s of
        None \<Rightarrow> (- EBADF, s)
      | Some f \<Rightarrow>
          (case f_inode (file_of f s) of
             None \<Rightarrow> (- EBADF, s)
           | Some i \<Rightarrow>
               if \<not> IS_BLOCKDEV (MAJOR (i_dev (ino i s))) then (- EBADF, s)
               else if i_pipe (ino i s) \<noteq> 0 then (- ESPIPE, s)
               else
                 let set = (\<lambda>v. (v, upd_file f (\<lambda>x. x\<lparr>f_pos := v\<rparr>) s)) in
                 if origin = 0 then (if offset < 0 then (- EINVAL, s) else set offset)
                 else if origin = 1 then
                   (let v = s32 (pos_of f s + offset) in if v < 0 then (- EINVAL, s) else set v)
                 else if origin = 2 then
                   (let v = s32 (i_size (ino i s) + offset) in if v < 0 then (- EINVAL, s) else set v)
                 else (- EINVAL, s)))"

text \<open>The transfer by a pipe.\<close>

definition pipe_rw :: "request \<Rightarrow> nat \<Rightarrow> fs_state \<Rightarrow> (transfer \<times> fs_state) outcome" where
  "pipe_rw req i s =
     (case req of
        Read n \<Rightarrow> obind (read_pipe i n s) (\<lambda>(r, bs, s). Done (Transfer r bs [], s))
      | Write bs \<Rightarrow> (case write_pipe i bs s of (r, rest, s) \<Rightarrow> Done (Transfer r [] rest, s)))"

text \<open>The transfer by a block device, with the position of the file.\<close>

definition block_rw :: "request \<Rightarrow> int \<Rightarrow> nat \<Rightarrow> fs_state \<Rightarrow> (transfer \<times> fs_state) outcome" where
  "block_rw req dev f s =
     (case req of
        Read n \<Rightarrow>
          obind (block_read dev (pos_of f s) n s) (\<lambda>(r, pos, bs, s).
          Done (Transfer r bs [], upd_file f (\<lambda>x. x\<lparr>f_pos := pos\<rparr>) s))
      | Write bs \<Rightarrow>
          obind (block_write dev (pos_of f s) bs s) (\<lambda>(r, pos, s).
          Done (Transfer r [] [], upd_file f (\<lambda>x. x\<lparr>f_pos := pos\<rparr>) s)))"

text \<open>\<open>upath\<close> is the argument of \<open>FileDev\<close>; \<open>ubuf\<close> is the address of the user's buffer.\<close>

definition sys_read :: "nat \<Rightarrow> byte list \<Rightarrow> nat \<Rightarrow> int \<Rightarrow> int \<Rightarrow> sys_state \<Rightarrow> (transfer \<times> sys_state) outcome" where
  "sys_read fuel upath fd ubuf cnt s =
     (case (if cnt < 0 then None else ufilp fd (sy_fs s)) of
        None \<Rightarrow> Done (Transfer (- EINVAL) [] [], s)
      | Some f \<Rightarrow>
          if cnt = 0 then Done (Transfer 0 [] [], s)
          else
            obind (verify_area (t_data_base (cur_task (sy_fs s))) ubuf cnt (k_mm (sy_fs s))) (\<lambda>m.
            let fs = (sy_fs s)\<lparr>k_mm := m\<rparr>; s = s\<lparr>sy_fs := fs\<rparr> in
            obind (inode_of f fs) (\<lambda>i.
            let n = ino i fs in
            if i_pipe n \<noteq> 0 then
              (if odd (f_mode (file_of f fs)) then on_fs (pipe_rw (Read cnt) i) s else Done (Transfer (-1) [] [], s))
            else if S_ISCHR (i_mode n) then rw_char fuel (Read cnt) (i_zone n ! 0) s
            else if S_ISBLK (i_mode n) then on_fs (block_rw (Read cnt) (i_zone n ! 0) f) s
            else if S_ISDIR (i_mode n) \<or> S_ISREG (i_mode n) then
              (let cnt = (if u32 (cnt + pos_of f fs) > i_size n then s32 (i_size n - pos_of f fs) else cnt) in
               if cnt \<le> 0 then Done (Transfer 0 [] [], s)
               else on_fs (\<lambda>fs. obind (file_read (sy_crypt s) upath i f cnt fs) (\<lambda>(r, bs, fs). Done (Transfer r bs [], fs))) s)
            else Done (Transfer (- EINVAL) [] [], s))))"

definition sys_write :: "nat \<Rightarrow> byte list \<Rightarrow> nat \<Rightarrow> byte list \<Rightarrow> sys_state \<Rightarrow> (transfer \<times> sys_state) outcome" where
  "sys_write fuel upath fd bytes s =
     (case ufilp fd (sy_fs s) of
        None \<Rightarrow> Done (Transfer (- EINVAL) [] [], s)
      | Some f \<Rightarrow>
          if bytes = [] then Done (Transfer 0 [] [], s)
          else
            let fs = sy_fs s in
            obind (inode_of f fs) (\<lambda>i.
            let n = ino i fs in
            if i_pipe n \<noteq> 0 then
              (if odd (f_mode (file_of f fs) div 2) then on_fs (pipe_rw (Write bytes) i) s else Done (Transfer (-1) [] [], s))
            else if S_ISCHR (i_mode n) then rw_char fuel (Write bytes) (i_zone n ! 0) s
            else if S_ISBLK (i_mode n) then on_fs (block_rw (Write bytes) (i_zone n ! 0) f) s
            else if S_ISREG (i_mode n) then
              on_fs (\<lambda>fs. obind (file_write (sy_crypt s) upath i f bytes fs) (\<lambda>(r, fs). Done (Transfer r [] [], fs))) s
            else Done (Transfer (- EINVAL) [] [], s)))"

section \<open>Opening and closing\<close>

definition cloexec_clear :: "nat \<Rightarrow> fs_state \<Rightarrow> fs_state" where
  "cloexec_clear fd s = upd_task_cur (\<lambda>t. t\<lparr>t_close_on_exec := unset_bit fd (t_close_on_exec t)\<rparr>) s"

text \<open>What \<open>sys_open\<close> does for a terminal: refuse it, or make it the controlling terminal.\<close>

definition open_tty :: "nat \<Rightarrow> sys_state \<Rightarrow> (bool \<times> sys_state) outcome" where
  "open_tty i s =
     (let n = ino i (sy_fs s); c = cur_task (sy_fs s); d = i_zone n ! 0 in
      if \<not> S_ISCHR (i_mode n) then Done (True, s)
      else if MAJOR d = 4 then
        (if t_leader c \<noteq> 0 \<and> t_tty c < 0 then
           (let s = s\<lparr>sy_fs := upd_task_cur (\<lambda>t. t\<lparr>t_tty := MINOR d\<rparr>) (sy_fs s)\<rparr> in
            if nat (MINOR d) < length (ttys (sy_tty s)) then
              Done (True, s\<lparr>sy_tty := upd_tty (nat (MINOR d)) (\<lambda>t. t\<lparr>tty_pgrp := t_pgrp c\<rparr>) (sy_tty s)\<rparr>)
            else Oob)
         else Done (True, s))
      else if MAJOR d = 5 then Done (\<not> t_tty c < 0, s)
      else Done (True, s))"

definition sys_open :: "byte list \<Rightarrow> int \<Rightarrow> int \<Rightarrow> sys_state \<Rightarrow> (int \<times> sys_state) outcome" where
  "sys_open path flg mode s =
     (let fs = sy_fs s; mode = umasked mode fs in
      case find (\<lambda>fd. t_filp (cur_task fs) ! fd = None) [0..<NR_OPEN] of
        None \<Rightarrow> Done (- EINVAL, s)
      | Some fd \<Rightarrow>
          let fs = cloexec_clear fd fs; s = s\<lparr>sy_fs := fs\<rparr> in
          (case find (\<lambda>f. f_count (k_files fs ! f) = 0) [0..<NR_FILE] of
            None \<Rightarrow> Done (- EINVAL, s)
          | Some f \<Rightarrow>
              let fs = set_count f 1 (set_filp fd (Some f) fs); undo = (\<lambda>fs. set_count f 0 (set_filp fd None fs)) in
              obind (open_namei path flg mode fs) (\<lambda>(r, p, fs).
              case p of
                None \<Rightarrow> Done (r, s\<lparr>sy_fs := undo fs\<rparr>)
              | Some i \<Rightarrow>
                  obind (open_tty i (s\<lparr>sy_fs := fs\<rparr>)) (\<lambda>(ok, s).
                  if \<not> ok then
                    obind (iput (Some i) (sy_fs s)) (\<lambda>fs. Done (- EPERM, s\<lparr>sy_fs := undo fs\<rparr>))
                  else
                    Done (int fd, s\<lparr>sy_fs := upd_file f (\<lambda>x. x\<lparr>f_mode := i_mode (ino i (sy_fs s)), f_flags := u16 flg,
                      f_count := 1, f_inode := Some i, f_pos := 0\<rparr>) (sy_fs s)\<rparr>)))))"

definition sys_creat :: "byte list \<Rightarrow> int \<Rightarrow> sys_state \<Rightarrow> (int \<times> sys_state) outcome" where
  "sys_creat path mode s = sys_open path (O_CREAT OR O_TRUNC) mode s"

definition sys_close :: "nat \<Rightarrow> fs_state \<Rightarrow> (int \<times> fs_state) outcome" where
  "sys_close fd s =
     (if fd \<ge> NR_OPEN then Done (- EINVAL, s)
      else
        let s = cloexec_clear fd s in
        case t_filp (cur_task s) ! fd of
          None \<Rightarrow> Done (- EINVAL, s)
        | Some f \<Rightarrow>
            let s = set_filp fd None s in
            if f_count (file_of f s) = 0 then Panic ''Close: file count is 0''
            else
              let n = u16 (f_count (file_of f s) - 1); s = set_count f n s in
              if n \<noteq> 0 then Done (0, s)
              else obind (iput (f_inode (file_of f s)) s) (\<lambda>s. Done (0, s)))"

section \<open>Descriptors\<close>

definition dupfd :: "nat \<Rightarrow> nat \<Rightarrow> fs_state \<Rightarrow> int \<times> fs_state" where
  "dupfd fd arg s =
     (case ufilp fd s of
        None \<Rightarrow> (- EBADF, s)
      | Some f \<Rightarrow>
          if arg \<ge> NR_OPEN then (- EINVAL, s)
          else
            (case find (\<lambda>a. t_filp (cur_task s) ! a = None) [arg..<NR_OPEN] of
               None \<Rightarrow> (- EMFILE, s)
             | Some a \<Rightarrow>
                 let s = cloexec_clear a s in
                 (int a, set_count f (u16 (f_count (file_of f s) + 1)) (set_filp a (Some f) s))))"

definition sys_dup2 :: "nat \<Rightarrow> nat \<Rightarrow> fs_state \<Rightarrow> (int \<times> fs_state) outcome" where
  "sys_dup2 oldfd newfd s = obind (sys_close newfd s) (\<lambda>(_, s). Done (dupfd oldfd newfd s))"

definition sys_dup :: "nat \<Rightarrow> fs_state \<Rightarrow> int \<times> fs_state" where
  "sys_dup fildes s = dupfd fildes 0 s"

definition sys_fcntl :: "nat \<Rightarrow> int \<Rightarrow> nat \<Rightarrow> fs_state \<Rightarrow> int \<times> fs_state" where
  "sys_fcntl fd cmd arg s =
     (case ufilp fd s of
        None \<Rightarrow> (- EBADF, s)
      | Some f \<Rightarrow>
          if cmd = 0 then dupfd fd arg s
          else if cmd = 1 then (if bit (t_close_on_exec (cur_task s)) fd then 1 else 0, s)
          else if cmd = 2 then
            (0, upd_task_cur (\<lambda>t. t\<lparr>t_close_on_exec :=
                  (if odd arg then Bit_Operations.set_bit fd (t_close_on_exec t) else unset_bit fd (t_close_on_exec t))\<rparr>) s)
          else if cmd = 3 then (f_flags (file_of f s), s)
          else if cmd = 4 then
            (0, upd_file f (\<lambda>x. x\<lparr>f_flags := (f_flags x AND NOT (O_APPEND OR O_NONBLOCK)) OR (int arg AND (O_APPEND OR O_NONBLOCK))\<rparr>) s)
          else (-1, s))"

definition sys_fcntl64 :: "nat \<Rightarrow> int \<Rightarrow> nat \<Rightarrow> fs_state \<Rightarrow> int \<times> fs_state" where
  "sys_fcntl64 fd cmd arg s =
     (if ufilp fd s = None then (- EBADF, s)
      else if cmd = 12 \<or> cmd = 13 \<or> cmd = 14 then (- ENOSYS, s)
      else sys_fcntl fd cmd arg s)"

section \<open>Calls on names\<close>

text \<open>The calls that look up an inode, change it and put it back.\<close>

definition with_name :: "int \<Rightarrow> byte list \<Rightarrow> (nat \<Rightarrow> fs_state \<Rightarrow> (int \<times> fs_state) outcome) \<Rightarrow> fs_state \<Rightarrow> (int \<times> fs_state) outcome" where
  "with_name err path f s =
     obind (namei path s) (\<lambda>(p, s). case p of None \<Rightarrow> Done (err, s) | Some i \<Rightarrow> f i s)"

text \<open>\<open>tms\<close> are the two words behind the user's pointer, when it is not null.\<close>

definition sys_utime :: "byte list \<Rightarrow> (int \<times> int) option \<Rightarrow> fs_state \<Rightarrow> (int \<times> fs_state) outcome" where
  "sys_utime path tms s =
     with_name (- ENOENT) path (\<lambda>i s.
       let (actime, modtime) = (case tms of None \<Rightarrow> (now s, now s) | Some (a, m) \<Rightarrow> (u32 a, u32 m)) in
       leave [i] [] 0 (upd_ino i (\<lambda>n. n\<lparr>i_atime := actime, i_mtime := modtime, i_dirt := 1\<rparr>) s)) s"

text \<open>\<open>sys_access\<close> reads the inode after it was put back, and shifts by 6 for the group.\<close>

definition sys_access :: "byte list \<Rightarrow> int \<Rightarrow> fs_state \<Rightarrow> (int \<times> fs_state) outcome" where
  "sys_access path mode s =
     with_name (- EACCES) path (\<lambda>i s.
       let mode = mode AND 7; res = i_mode (ino i s) AND 0x1FF in
       obind (iput (Some i) s) (\<lambda>s.
       let c = cur_task s; n = ino i s;
           res = (if \<not> (t_euid c \<noteq> 0 \<and> t_uid c \<noteq> 0) then (if res AND 0x49 \<noteq> 0 then 0x1FF else 0x1B6) else res);
           res = (if t_euid c = i_uid n then res div 64 else if t_egid c = i_gid n then res div 64 else res) in
       Done (if res AND 7 AND mode = mode then 0 else - EACCES, s))) s"

definition sys_chdir :: "byte list \<Rightarrow> fs_state \<Rightarrow> (int \<times> fs_state) outcome" where
  "sys_chdir path s =
     with_name (- ENOENT) path (\<lambda>i s.
       if \<not> S_ISDIR (i_mode (ino i s)) then leave [i] [] (- ENOTDIR) s
       else obind (iput (t_pwd (cur_task s)) s) (\<lambda>s. Done (0, upd_task_cur (\<lambda>t. t\<lparr>t_pwd := Some i\<rparr>) s))) s"

definition sys_chroot :: "byte list \<Rightarrow> fs_state \<Rightarrow> (int \<times> fs_state) outcome" where
  "sys_chroot path s =
     with_name (- ENOENT) path (\<lambda>i s.
       if \<not> S_ISDIR (i_mode (ino i s)) then leave [i] [] (- ENOTDIR) s
       else obind (iput (t_root (cur_task s)) s) (\<lambda>s. Done (0, upd_task_cur (\<lambda>t. t\<lparr>t_root := Some i\<rparr>) s))) s"

definition sys_chmod :: "byte list \<Rightarrow> int \<Rightarrow> fs_state \<Rightarrow> (int \<times> fs_state) outcome" where
  "sys_chmod path mode s =
     with_name (- ENOENT) path (\<lambda>i s.
       let c = cur_task s; n = ino i s; user = (t_uid c \<noteq> 0 \<and> t_euid c \<noteq> 0) in
       if user \<and> t_uid c \<noteq> i_uid n \<and> t_euid c \<noteq> i_uid n then leave [i] [] (- EACCES) s
       else
         let mode = (if user then (mode AND 0x1FF) OR (i_mode n AND 0xE00) else mode) in
         leave [i] [] 0 (upd_ino i (\<lambda>n. n\<lparr>i_mode := u16 ((mode AND 0xFFF) OR (i_mode n AND NOT 0xFFF)), i_dirt := 1\<rparr>) s)) s"

definition sys_chown :: "byte list \<Rightarrow> int \<Rightarrow> int \<Rightarrow> fs_state \<Rightarrow> (int \<times> fs_state) outcome" where
  "sys_chown path uid gid s =
     with_name (- ENOENT) path (\<lambda>i s.
       let c = cur_task s in
       if t_uid c \<noteq> 0 \<and> t_euid c \<noteq> 0 then leave [i] [] (- EACCES) s
       else leave [i] [] 0 (upd_ino i (\<lambda>n. n\<lparr>i_uid := u16 uid, i_gid := u8 gid, i_dirt := 1\<rparr>) s)) s"

section \<open>Status\<close>

text \<open>The fields that \<open>cp_stat\<close> fills; the others are copied to the user uninitialised.\<close>

record stat_t =
  st_dev :: int
  st_ino :: int
  st_mode :: int
  st_nlink :: int
  st_uid :: int
  st_gid :: int
  st_rdev :: int
  st_size :: int
  st_atime :: int
  st_mtime :: int
  st_ctime :: int

definition stat_of :: "m_inode \<Rightarrow> stat_t" where
  "stat_of n = \<lparr>st_dev = i_dev n, st_ino = i_num n, st_mode = i_mode n, st_nlink = i_nlinks n, st_uid = i_uid n,
     st_gid = i_gid n, st_rdev = i_zone n ! 0, st_size = i_size n, st_atime = s32 (i_atime n), st_mtime = s32 (i_mtime n),
     st_ctime = s32 (i_ctime n)\<rparr>"

text \<open>\<open>sz\<close> is the size of the structure, 64 bytes for \<open>stat\<close>.\<close>

definition cp_stat :: "nat \<Rightarrow> int \<Rightarrow> nat \<Rightarrow> fs_state \<Rightarrow> (stat_t \<times> fs_state) outcome" where
  "cp_stat sz ubuf i s =
     obind (verify_area (t_data_base (cur_task s)) ubuf (int sz) (k_mm s)) (\<lambda>m.
     Done (stat_of (ino i s), s\<lparr>k_mm := m\<rparr>))"

definition sys_stat :: "byte list \<Rightarrow> int \<Rightarrow> fs_state \<Rightarrow> (int \<times> stat_t option \<times> fs_state) outcome" where
  "sys_stat path ubuf s =
     obind (namei path s) (\<lambda>(p, s).
     case p of
       None \<Rightarrow> Done (- ENOENT, None, s)
     | Some i \<Rightarrow>
         obind (cp_stat 64 ubuf i s) (\<lambda>(st, s).
         obind (iput (Some i) s) (\<lambda>s. Done (0, Some st, s))))"

definition sys_fstat :: "nat \<Rightarrow> int \<Rightarrow> fs_state \<Rightarrow> (int \<times> stat_t option \<times> fs_state) outcome" where
  "sys_fstat fd ubuf s =
     (case ufilp fd s of
        None \<Rightarrow> Done (- ENOENT, None, s)
      | Some f \<Rightarrow>
          (case f_inode (file_of f s) of
             None \<Rightarrow> Done (- ENOENT, None, s)
           | Some i \<Rightarrow> obind (cp_stat 64 ubuf i s) (\<lambda>(st, s). Done (0, Some st, s))))"

text \<open>\<open>stat64\<close> has the same fields in 96 bytes.\<close>

definition sys_lstat :: "byte list \<Rightarrow> int \<Rightarrow> fs_state \<Rightarrow> (int \<times> stat_t option \<times> fs_state) outcome" where
  "sys_lstat path ubuf s = sys_stat path ubuf s"

definition cp_stat64 :: "int \<Rightarrow> nat \<Rightarrow> fs_state \<Rightarrow> (stat_t \<times> fs_state) outcome" where
  "cp_stat64 ubuf i s =
     obind (verify_area (t_data_base (cur_task s)) ubuf 96 (k_mm s)) (\<lambda>m.
     Done (stat_of (ino i s), s\<lparr>k_mm := m\<rparr>))"

definition sys_stat64 :: "byte list \<Rightarrow> int \<Rightarrow> fs_state \<Rightarrow> (int \<times> stat_t option \<times> fs_state) outcome" where
  "sys_stat64 path ubuf s =
     obind (namei path s) (\<lambda>(p, s).
     case p of
       None \<Rightarrow> Done (- ENOENT, None, s)
     | Some i \<Rightarrow>
         obind (cp_stat64 ubuf i s) (\<lambda>(st, s).
         obind (iput (Some i) s) (\<lambda>s. Done (0, Some st, s))))"

definition sys_fstat64 :: "nat \<Rightarrow> int \<Rightarrow> fs_state \<Rightarrow> (int \<times> stat_t option \<times> fs_state) outcome" where
  "sys_fstat64 fd ubuf s =
     (case ufilp fd s of
        None \<Rightarrow> Done (- ENOENT, None, s)
      | Some f \<Rightarrow>
          (case f_inode (file_of f s) of
             None \<Rightarrow> Done (- ENOENT, None, s)
           | Some i \<Rightarrow> obind (cp_stat64 ubuf i s) (\<lambda>(st, s). Done (0, Some st, s))))"

definition sys_lstat64 :: "byte list \<Rightarrow> int \<Rightarrow> fs_state \<Rightarrow> (int \<times> stat_t option \<times> fs_state) outcome" where
  "sys_lstat64 path ubuf s = sys_stat64 path ubuf s"

section \<open>Device control\<close>

definition ENOTTY :: int where "ENOTTY = 25"

text \<open>
  The table \<open>ioctl_table\<close> has eight entries, of which 4 and 5 are \<open>tty_ioctl\<close>. The structures behind the
  user's pointer are arguments, as for \<open>tty_ioctl\<close>.
\<close>

definition sys_ioctl ::
  "nat \<Rightarrow> int \<Rightarrow> int \<Rightarrow> termios \<Rightarrow> termio \<Rightarrow> int \<Rightarrow> sys_state \<Rightarrow> (int \<times> ioctl_out \<times> sys_state) outcome" where
  "sys_ioctl fd cmd arg uios uio ulong s =
     (case ufilp fd (sy_fs s) of
        None \<Rightarrow> Done (- EBADF, No_out, s)
      | Some f \<Rightarrow>
          obind (inode_of f (sy_fs s)) (\<lambda>i.
          let n = ino i (sy_fs s); dev = i_zone n ! 0 in
          if \<not> S_ISCHR (i_mode n) \<and> \<not> S_ISBLK (i_mode n) then Done (- EINVAL, No_out, s)
          else if MAJOR dev \<ge> 8 then Panic ''unknown device for ioctl''
          else if MAJOR dev \<noteq> 4 \<and> MAJOR dev \<noteq> 5 then Done (- ENOTTY, No_out, s)
          else
            obind (tty_ioctl dev cmd arg uios uio ulong (tty_view s)) (\<lambda>(r, out, t).
            Done (r, out, tty_back t s))))"

end
