(* ===== verification/CacheOps.thy ===== *)
theory CacheOps
  imports Inode BitmapProps
begin

text \<open>
  What the file layer uses of the buffer cache: reading a block and releasing its buffer gives its
  contents and changes nothing that can be seen; changing the data in between changes that block
  alone. \<open>usable\<close> is the condition under which a block can be read, and it is kept.
\<close>

section \<open>What the cache leaves alone\<close>

definition rest where
  "rest s = (k_sched s, k_mm s, k_page s, k_files s, k_inodes s, fs_bad s, fs_nr_sects s, fs_last_inode s, fs_supers s,
     length (fs_bufs s))"

definition counts :: "fs_state \<Rightarrow> int list" where "counts s = map b_count (fs_bufs s)"

definition usable :: "fs_state \<Rightarrow> bool" where
  "usable s \<longleftrightarrow> cache_ok s \<and> (\<forall>c\<in>set (counts s). 0 \<le> c \<and> c < 255) \<and> 0 \<in> set (counts s)"

text \<open>The cache after operations that left every buffer as much in use as it was.\<close>

definition settled :: "fs_state \<Rightarrow> fs_state \<Rightarrow> bool" where
  "settled s s' \<longleftrightarrow> cache_ok s' \<and> counts s' = counts s \<and> rest s' = rest s"

lemma nth_counts [simp]: "i < length (fs_bufs s) \<Longrightarrow> counts s ! i = b_count (buf i s)"
  by (simp add: counts_def buf_def)

lemma length_counts [simp]: "length (counts s) = length (fs_bufs s)"
  by (simp add: counts_def)

lemma counts_self [simp]: "i < length (fs_bufs s) \<Longrightarrow> (counts s)[i := b_count (buf i s)] = counts s"
  by (metis length_counts list_update_id nth_counts)

lemma map_update_same: "f y = f (xs ! i) \<Longrightarrow> map f (xs[i := y]) = map f xs"
  by (metis list_update_id map_update)

lemma rest_upd_buf [simp]: "rest (upd_buf i f s) = rest s"
  by (simp add: rest_def upd_buf_def)

lemma rest_fields:
  "rest (s\<lparr>fs_free := a\<rparr>) = rest s" "rest (s\<lparr>fs_hash := b\<rparr>) = rest s" "rest (s\<lparr>fs_null := c\<rparr>) = rest s"
  "rest (s\<lparr>fs_disk := e\<rparr>) = rest s"
  by (simp_all add: rest_def)

lemma ll_rw_rest: "ll_rw_block rw i s = Done s' \<Longrightarrow> rest s' = rest s"
  by (auto simp: ll_rw_block_def rw_hd_def hd_transfer_def Let_def rest_fields split: if_splits)

lemma sync_loop_rest: "sync_loop P is s = Done s' \<Longrightarrow> rest s' = rest s"
proof (induction "is" arbitrary: s)
  case (Cons i "is")
  then obtain t where "(if \<not> P (buf i s) then Done s else obind (wait_on_buffer i s) (\<lambda>_.
      if b_dirt (buf i s) \<noteq> 0 then ll_rw_block True i s else Done s)) = Done t" "sync_loop P is t = Done s'"
    by (auto simp: outcome_simps)
  then show ?case using Cons.IH ll_rw_rest by (auto simp: outcome_simps split: if_splits)
qed simp

lemma rest_insert [simp]: "rest (insert_into_queues i s) = rest s"
  by (simp add: insert_into_queues_def Let_def rest_fields)

lemma remove_rest: "remove_from_queues i s = Done s' \<Longrightarrow> rest s' = rest s"
  by (auto simp: remove_from_queues_def Let_def rest_fields split: if_splits)

lemma get_hash_table_rest: "get_hash_table d n s = Done (r, s') \<Longrightarrow> rest s' = rest s"
  by (auto simp: get_hash_table_def Let_def outcome_simps split: option.splits)

lemma getblk_loop_rest: "getblk_loop k d n s = Done (i, s') \<Longrightarrow> rest s' = rest s"
proof (induction k arbitrary: s)
  case (Suc k)
  obtain r t where g: "get_hash_table d n s = Done (r, t)" "rest t = rest s"
    using Suc.prems get_hash_table_rest by (auto simp: outcome_simps)
  show ?case
  proof (cases r)
    case (Some j)
    then show ?thesis using Suc.prems g by simp
  next
    case None
    let ?u = "\<lambda>j v. upd_buf j (\<lambda>b. b\<lparr>b_dev := u16 d, b_blocknr := u16 n, b_dirt := 0, b_uptodate := 0\<rparr>) v"
    obtain j where j: "find_free t = Some j" using Suc.prems g None by (auto split: option.splits)
    then obtain t1 t2 where t: "remove_from_queues j (upd_buf j (\<lambda>b. b\<lparr>b_count := u8 (b_count b + 1)\<rparr>) t) = Done t1"
      "(if b_dirt (buf j t1) \<noteq> 0 then sync_dev (b_dev (buf j t1)) t1 else Done t1) = Done t2"
      "(if find_buffer d n (?u j t2) \<noteq> None
        then getblk_loop k d n (insert_into_queues j (upd_buf j (\<lambda>b. b\<lparr>b_dev := 0, b_blocknr := 0, b_count := 0\<rparr>) (?u j t2)))
        else Done (j, insert_into_queues j (?u j t2))) = Done (i, s')"
      using Suc.prems g None by (auto simp: outcome_simps Let_def)
    have r1: "rest t1 = rest s" using remove_rest [OF t(1)] g(2) by simp
    have r2: "rest t2 = rest t1"
      using t(2) sync_loop_rest by (auto simp: sync_dev_def split: if_splits)
    show ?thesis
    proof (cases "find_buffer d n (?u j t2) = None")
      case True
      then show ?thesis using t(3) r1 r2 by auto
    next
      case False
      then show ?thesis using t(3) r1 r2 Suc.IH by fastforce
    qed
  qed
qed simp

lemma brelse_rest: "brelse p s = Done s' \<Longrightarrow> rest s' = rest s"
  by (auto simp: brelse_def outcome_simps split: option.splits if_splits)

lemma bread_rest:
  assumes "bread d n s = Done (r, s')"
  shows "rest s' = rest s"
proof -
  obtain i t where g: "getblk d n s = Done (i, t)" using assms by (auto simp: bread_def outcome_simps)
  have t: "rest t = rest s" using getblk_loop_rest [of 2] g by (simp add: getblk_def)
  show ?thesis
  proof (cases "b_uptodate (buf i t) = 0")
    case True
    then obtain u where u: "ll_rw_block False i t = Done u"
      "(if b_uptodate (buf i u) \<noteq> 0 then Done (Some i, u) else obind (brelse (Some i) u) (\<lambda>s. Done (None, s))) = Done (r, s')"
      using assms g by (auto simp: bread_def outcome_simps)
    have "rest s' = rest u"
    proof (cases "b_uptodate (buf i u) = 0")
      case True
      then show ?thesis using u(2) brelse_rest [of "Some i" u] by (auto simp: outcome_simps)
    qed (use u(2) in simp)
    then show ?thesis using ll_rw_rest [OF u(1)] t by simp
  qed (use assms g t in \<open>simp add: bread_def\<close>)
qed

section \<open>Reading a block\<close>

lemma usable_free: "usable s \<Longrightarrow> find_free s \<noteq> None"
  by (auto simp: usable_def find_free_def find_None_iff cache_ok_def queues_ok_def counts_def in_set_conv_nth buf_def)

lemma usable_bounds: "usable s \<Longrightarrow> i < length (fs_bufs s) \<Longrightarrow> 0 \<le> b_count (buf i s) \<and> b_count (buf i s) < 255"
  by (metis (no_types) usable_def nth_mem length_counts nth_counts)

lemma counts_eqI:
  assumes "length (fs_bufs s') = length (fs_bufs s)" "i < length (fs_bufs s)" "b_count (buf i s') = c"
    "\<And>j. j < length (fs_bufs s) \<Longrightarrow> j \<noteq> i \<Longrightarrow> b_count (buf j s') = b_count (buf j s)"
  shows "counts s' = (counts s)[i := c]"
  by (rule nth_equalityI) (use assms in \<open>auto simp: nth_list_update\<close>)

lemma getblk_usable:
  assumes u: "usable s" and d: "0 < d" "d < 65536" "0 \<le> n" "n < 65536"
  shows "\<exists>i s'. getblk d n s = Done (i, s') \<and> got s d n i s' \<and> i < length (fs_bufs s) \<and> counts s' = (counts s)[i := b_count (buf i s) + 1]"
proof (cases "find_buffer d n s")
  case None
  obtain i where i: "find_free s = Some i" using usable_free [OF u] by blast
  have ok: "cache_ok s" using u by (simp add: usable_def)
  from getblk_uncached [OF ok d None i] obtain s' where
    s': "getblk d n s = Done (i, s')" "got s d n i s'" "b_count (buf i s') = 1" by blast
  have "i < length (fs_bufs s)" "b_count (buf i s) = 0" using find_free_Some [OF _ i] ok by (simp_all add: cache_ok_def)
  moreover have "counts s' = (counts s)[i := b_count (buf i s) + 1]"
    by (rule counts_eqI) (use s' calculation in \<open>simp_all add: got_def\<close>)
  ultimately show ?thesis using s' by blast
next
  case (Some i)
  have ok: "cache_ok s" using u by (simp add: usable_def)
  have i: "i < length (fs_bufs s)" using find_buffer_iff [of s d n i] Some ok d by (simp add: cache_ok_def)
  from getblk_cached [OF ok d(1) Some] usable_bounds [OF u i] obtain s' where
    s': "getblk d n s = Done (i, s')" "got s d n i s'" "b_count (buf i s') = b_count (buf i s) + 1" by blast
  moreover have "counts s' = (counts s)[i := b_count (buf i s) + 1]"
    by (rule counts_eqI) (use s' i in \<open>simp_all add: got_def\<close>)
  ultimately show ?thesis using i by blast
qed

text \<open>The state while the buffer of block \<open>n\<close> is held.\<close>

definition held :: "fs_state \<Rightarrow> int \<Rightarrow> int \<Rightarrow> nat \<Rightarrow> fs_state \<Rightarrow> bool" where
  "held s d n i s' \<longleftrightarrow> cache_ok s' \<and> i < length (fs_bufs s) \<and> holds s' d n i \<and> b_data (buf i s') = view s d n \<and>
     b_uptodate (buf i s') \<noteq> 0 \<and> counts s' = (counts s)[i := counts s ! i + 1] \<and> same_view s s' \<and> rest s' = rest s"

lemma bread_usable:
  assumes u: "usable s" and d: "0 < d" "d < 65536" "on_disk s d n"
  shows "\<exists>i s'. bread d n s = Done (Some i, s') \<and> held s d n i s'"
proof -
  have n: "0 \<le> n" "n < 65536" using d(3) by (simp_all add: on_disk_def)
  obtain i s1 where g: "getblk d n s = Done (i, s1)" "got s d n i s1" "i < length (fs_bufs s)"
    "counts s1 = (counts s)[i := b_count (buf i s) + 1]" using getblk_usable [OF u d(1,2) n] by blast
  have s1: "cache_ok s1" "bufs_ok s1" "same_view s s1" "i < length (fs_bufs s1)" "holds s1 d n i"
    "on_disk s1 = on_disk s" "length (fs_bufs s1) = length (fs_bufs s)" using g(2) by (auto simp: got_def cache_ok_def)
  have v: "view s d n = view s1 d n" using s1(3) d by (simp add: same_view_def)
  show ?thesis
  proof (cases "b_uptodate (buf i s1) = 0")
    case False
    then have "view s1 d n = b_data (buf i s1)" using view_cached [OF s1(2,4) _ s1(5)] d by simp
    moreover have b: "bread d n s = Done (Some i, s1)" using g(1) False by (simp add: bread_def)
    moreover note bread_rest [OF b]
    ultimately show ?thesis using s1 v False g by (auto simp: held_def)
  next
    case True
    have "on_disk s1 d n" using d(3) s1(6) by simp
    from read_ok [OF s1(1,4,5) d(1) True this] obtain s2 where
      s2: "ll_rw_block False i s1 = Done s2" "cache_ok s2" "same_view s1 s2" "holds s2 d n i" "b_uptodate (buf i s2) = 1"
      "b_data (buf i s2) = view s1 d n" "b_count (buf i s2) = b_count (buf i s1)" by blast
    have b: "bread d n s = Done (Some i, s2)" using g(1) True s2 by (simp add: bread_def)
    have l: "map b_count (fs_bufs s2) = map b_count (fs_bufs s1)"
      using s2(1) by (auto simp: ll_rw_block_def rw_hd_def hd_transfer_def Let_def upd_buf_def map_update_same split: if_splits)
    have "same_view s s2" using s1(3) s2(3) by (simp add: same_view_def)
    then show ?thesis using b s2 g(3,4) bread_rest [OF b] v l [folded counts_def] by (auto simp: held_def)
  qed
qed

section \<open>Releasing it\<close>

lemma brelse_settled:
  assumes h: "cache_ok s" "i < length (fs_bufs s)" "0 < b_count (buf i s)" "b_count (buf i s) < 256"
  shows "\<exists>s'. brelse (Some i) s = Done s' \<and> cache_ok s' \<and> same_view s s' \<and> counts s' = (counts s)[i := counts s ! i - 1] \<and> rest s' = rest s"
proof -
  have "b_lock (buf i s) = 0" using h(1,2) by (auto simp: cache_ok_def bufs_ok_def buf_ok_def)
  then have b: "brelse (Some i) s = Done (upd_buf i (\<lambda>b. b\<lparr>b_count := u8 (b_count b - 1)\<rparr>) s)"
    using h(3) by (simp add: brelse_def wait_on_buffer_def)
  moreover from brelse_ok [OF h] obtain s' where "brelse (Some i) s = Done s'" "cache_ok s'" "same_view s s'" by blast
  ultimately show ?thesis
    using h(2-4) by (auto intro!: counts_eqI simp: u8_id)
qed

lemma held_settled:
  assumes u: "usable s" and h: "held s d n i s1"
  shows "\<exists>s'. brelse (Some i) s1 = Done s' \<and> settled s s' \<and> same_view s s'"
proof -
  have len: "length (fs_bufs s1) = length (fs_bufs s)" using h by (simp add: held_def rest_def)
  have i: "i < length (fs_bufs s)" using h by (simp add: held_def)
  have c: "b_count (buf i s1) = b_count (buf i s) + 1"
    using h i len by (metis held_def length_counts nth_counts nth_list_update_eq)
  from brelse_settled [of s1 i] obtain s' where
    "brelse (Some i) s1 = Done s'" "cache_ok s'" "same_view s1 s'" "counts s' = (counts s1)[i := counts s1 ! i - 1]" "rest s' = rest s1"
    using h i c usable_bounds [OF u i] len by (auto simp: held_def)
  then show ?thesis using h i c len by (auto simp: held_def settled_def same_view_def)
qed

lemma held_modified:
  assumes u: "usable s" and h: "held s d n i s1" and d: "0 < d" "on_disk s d n"
    and f: "\<And>b. b_dev (f b) = b_dev b" "\<And>b. b_blocknr (f b) = b_blocknr b" "\<And>b. b_lock (f b) = b_lock b"
      "\<And>b. b_count (f b) = b_count b" "b_dirt (f (buf i s1)) \<noteq> 0" "b_uptodate (f (buf i s1)) \<noteq> 0"
  shows "\<exists>s'. brelse (Some i) (upd_buf i f s1) = Done s' \<and> settled s s' \<and> view s' d n = b_data (f (buf i s1)) \<and>
    (\<forall>e m. e \<noteq> 0 \<longrightarrow> (e, m) \<noteq> (d, n) \<longrightarrow> view s' e m = view s e m)"
proof -
  have len: "length (fs_bufs s1) = length (fs_bufs s)" using h by (simp add: held_def rest_def)
  have i: "i < length (fs_bufs s)" "i < length (fs_bufs s1)" using h len by (simp_all add: held_def)
  have s1: "cache_ok s1" "holds s1 d n i" "rest s1 = rest s" "same_view s s1" using h by (simp_all add: held_def)
  have od: "on_disk s1 d n" using d(2) s1(3) by (simp add: on_disk_def rest_def)
  note m = modify_ok [OF s1(1) i(2) s1(2) d(1) od, where f = f, OF f(1-3,5,6)]
  let ?t = "upd_buf i f s1"
  have ct: "counts ?t = counts s1" using i(2) f(4) by (intro nth_equalityI) (auto simp: counts_def upd_buf_def nth_list_update)
  have c1: "b_count (buf i s1) = b_count (buf i s) + 1"
    using h i by (metis held_def length_counts nth_counts nth_list_update_eq)
  then have c: "b_count (buf i ?t) = b_count (buf i s) + 1" using i f(4) by simp
  have it: "i < length (fs_bufs ?t)" "0 < b_count (buf i ?t)" "b_count (buf i ?t) < 256"
    using i c usable_bounds [OF u i(1)] by simp_all
  from brelse_settled [OF m(1) it] obtain s' where
    s': "brelse (Some i) ?t = Done s'" "cache_ok s'" "same_view ?t s'" "counts s' = (counts ?t)[i := counts ?t ! i - 1]" "rest s' = rest ?t"
    by blast
  have "counts s' = counts s" using s'(4) h i c1 unfolding ct by (simp add: held_def)
  then have "settled s s'" using s' s1(3) by (simp add: settled_def)
  moreover have "view s' e k = view ?t e k" if "e \<noteq> 0" for e k using s'(3) that by (simp add: same_view_def)
  moreover have "view s1 e k = view s e k" if "e \<noteq> 0" for e k using s1(4) that by (simp add: same_view_def)
  ultimately show ?thesis using s'(1) m(2,3) d(1) by auto
qed

lemma settled_usable: "usable s \<Longrightarrow> settled s s' \<Longrightarrow> usable s'"
  by (simp add: usable_def settled_def)

lemma settled_trans: "settled s t \<Longrightarrow> settled t u \<Longrightarrow> settled s u"
  by (simp add: settled_def)

lemma settled_refl: "usable s \<Longrightarrow> settled s s"
  by (simp add: usable_def settled_def)

lemma settled_fields:
  assumes "settled s s'"
  shows "k_inodes s' = k_inodes s" "k_sched s' = k_sched s" "fs_supers s' = fs_supers s" "ino i s' = ino i s" "on_disk s' = on_disk s"
    "k_files s' = k_files s" "get_super dv s' = get_super dv s" "super p s' = super p s" "k_mm s' = k_mm s"
  using assms by (simp_all add: settled_def rest_def ino_def on_disk_def [abs_def] get_super_def super_def)

section \<open>Changes outside the cache\<close>

definition same_cache :: "fs_state \<Rightarrow> fs_state \<Rightarrow> bool" where
  "same_cache s s' \<longleftrightarrow> fs_bufs s' = fs_bufs s \<and> fs_free s' = fs_free s \<and> fs_hash s' = fs_hash s \<and> fs_disk s' = fs_disk s \<and>
     fs_bad s' = fs_bad s \<and> fs_nr_sects s' = fs_nr_sects s"

lemma cache_frame:
  assumes "same_cache s s'"
  shows "buf i s' = buf i s" "holds s' = holds s" "on_disk s' = on_disk s" "cache_ok s' = cache_ok s" "counts s' = counts s"
    "view s' = view s" "usable s' = usable s"
proof -
  show b: "buf i s' = buf i s" for i using assms by (simp add: same_cache_def buf_def)
  show h: "holds s' = holds s" by (simp add: holds_def [abs_def] b)
  show o: "on_disk s' = on_disk s" using assms by (simp add: same_cache_def on_disk_def [abs_def])
  show c: "cache_ok s' = cache_ok s"
    using assms by (simp add: same_cache_def cache_ok_def bufs_ok_def queues_ok_def buf_ok_def o h b)
  show k: "counts s' = counts s" using assms by (simp add: same_cache_def counts_def)
  show "view s' = view s" using assms by (intro ext) (simp add: same_cache_def view_def h b split: option.splits)
  show "usable s' = usable s" by (simp add: usable_def c k)
qed

lemma same_cache_fields:
  "same_cache s (s\<lparr>k_inodes := x\<rparr>)" "same_cache s (s\<lparr>k_files := f\<rparr>)" "same_cache s (s\<lparr>k_sched := c\<rparr>)" "same_cache s (s\<lparr>fs_last_inode := e\<rparr>)"
  by (simp_all add: same_cache_def)

lemmas inodes_cache [simp] = cache_frame [OF same_cache_fields(1)]
lemmas files_cache [simp] = cache_frame [OF same_cache_fields(2)]
lemmas sched_cache [simp] = cache_frame [OF same_cache_fields(3)]
lemmas last_cache [simp] = cache_frame [OF same_cache_fields(4)]

lemma ino_fields [simp]:
  "ino i (s\<lparr>k_files := f\<rparr>) = ino i s" "ino i (s\<lparr>k_sched := c\<rparr>) = ino i s" "ino i (s\<lparr>fs_last_inode := e\<rparr>) = ino i s"
  by (simp_all add: ino_def)

lemma upd_ino_cache [simp]:
  "cache_ok (upd_ino i f s) = cache_ok s" "counts (upd_ino i f s) = counts s" "view (upd_ino i f s) = view s"
  "on_disk (upd_ino i f s) = on_disk s" "usable (upd_ino i f s) = usable s"
  by (simp_all add: upd_ino_def)

section \<open>Buffers that are held for longer\<close>

text \<open>At least \<open>k\<close> buffers are free.\<close>

definition spare :: "nat \<Rightarrow> fs_state \<Rightarrow> bool" where
  "spare k s \<longleftrightarrow> cache_ok s \<and> (\<forall>c\<in>set (counts s). 0 \<le> c \<and> c + int k \<le> 255) \<and> k \<le> length (filter (\<lambda>c. c = 0) (counts s))"

lemma spare_usable: "spare (Suc k) s \<Longrightarrow> usable s"
proof -
  assume s: "spare (Suc k) s"
  then have "filter (\<lambda>c. c = 0) (counts s) \<noteq> []" by (auto simp: spare_def)
  then have "0 \<in> set (counts s)" by (auto simp: filter_empty_conv)
  then show ?thesis using s by (auto simp: spare_def usable_def)
qed

lemma length_filter_update: "length (filter P xs) \<le> Suc (length (filter P (xs[i := x])))"
proof (induction xs arbitrary: i)
  case (Cons y ys)
  then show ?case by (cases i) (auto simp: le_SucI)
qed simp

lemma held_spare:
  assumes s: "spare (Suc k) s" and h: "held s d n i s'"
  shows "spare k s'"
proof -
  have c: "counts s' = (counts s)[i := counts s ! i + 1]" "cache_ok s'" "i < length (counts s)" using h by (simp_all add: held_def)
  have "0 \<le> c \<and> c + int k \<le> 255" if "c \<in> set (counts s')" for c
  proof -
    have "c = counts s ! i + 1 \<or> c \<in> set (counts s)" using that set_update_subset_insert c(1) by (metis insertE subsetD)
    moreover have "counts s ! i \<in> set (counts s)" using nth_mem [OF c(3)] .
    ultimately show ?thesis using s by (force simp: spare_def)
  qed
  moreover have "k \<le> length (filter (\<lambda>c. c = 0) (counts s'))"
    using s length_filter_update [of "\<lambda>c. c = 0" "counts s" i "counts s ! i + 1"] c(1) by (simp add: spare_def)
  ultimately show ?thesis using c(2) by (simp add: spare_def)
qed

lemma spare_inodes [simp]: "spare k (s\<lparr>k_inodes := x\<rparr>) = spare k s" "spare k (upd_ino i f s) = spare k s"
  by (simp_all add: spare_def)

lemma spare_fields [simp]: "spare k (s\<lparr>k_sched := x\<rparr>) = spare k s" "spare k (s\<lparr>fs_last_inode := e\<rparr>) = spare k s"
  by (simp_all add: spare_def)

section \<open>Buffers in use stay what they are\<close>

text \<open>A buffer in use whose contents are valid, of a block that can be written.\<close>

definition pinned :: "nat \<Rightarrow> fs_state \<Rightarrow> bool" where
  "pinned j s \<longleftrightarrow> j < length (fs_bufs s) \<and> 0 < b_count (buf j s) \<and> b_count (buf j s) < 255 \<and> b_uptodate (buf j s) \<noteq> 0 \<and>
     \<not> fs_bad s (b_dev (buf j s)) (b_blocknr (buf j s))"

definition pins :: "nat \<Rightarrow> fs_state \<Rightarrow> fs_state \<Rightarrow> bool" where
  "pins j s t \<longleftrightarrow> b_dev (buf j t) = b_dev (buf j s) \<and> b_blocknr (buf j t) = b_blocknr (buf j s) \<and> b_data (buf j t) = b_data (buf j s) \<and>
     b_uptodate (buf j t) \<noteq> 0 \<and> length (fs_bufs t) = length (fs_bufs s) \<and> fs_bad t = fs_bad s"

lemma pins_trans: "pins j s t \<Longrightarrow> pins j t u \<Longrightarrow> pins j s u"
  by (simp add: pins_def)

lemma pins_refl: "pinned j s \<Longrightarrow> pins j s s"
  by (simp add: pins_def pinned_def)

lemma pins_pinned: "pinned j s \<Longrightarrow> pins j s t \<Longrightarrow> b_count (buf j t) = b_count (buf j s) \<Longrightarrow> pinned j t"
  by (simp add: pins_def pinned_def)

lemma write_pins:
  assumes "ll_rw_block True i s = Done t" "pinned j s"
  shows "pins j s t \<and> b_count (buf j t) = b_count (buf j s)"
  using assms by (cases "i < length (fs_bufs s)")
    (auto simp: ll_rw_block_def rw_hd_def hd_transfer_def Let_def pins_def pinned_def buf_def upd_buf_def nth_list_update list_update_beyond split: if_splits)

lemma sync_pins: "sync_loop P is s = Done t \<Longrightarrow> pinned j s \<Longrightarrow> pins j s t \<and> b_count (buf j t) = b_count (buf j s)"
proof (induction "is" arbitrary: s)
  case (Cons i "is")
  then obtain u where u: "(if \<not> P (buf i s) then Done s else obind (wait_on_buffer i s) (\<lambda>_.
      if b_dirt (buf i s) \<noteq> 0 then ll_rw_block True i s else Done s)) = Done u" "sync_loop P is u = Done t"
    by (auto simp: outcome_simps)
  have "u = s \<or> ll_rw_block True i s = Done u" using u(1) by (auto simp: outcome_simps split: if_splits)
  then have p: "pins j s u \<and> b_count (buf j u) = b_count (buf j s)" using write_pins [of i s u j] pins_refl Cons.prems(2) by auto
  then have "pinned j u" using pins_pinned Cons.prems(2) by blast
  from Cons.IH [OF u(2) this] show ?case using p pins_trans by auto
qed (simp add: pins_refl)

lemma count_pins: "b_uptodate (buf j s) \<noteq> 0 \<Longrightarrow> pins j s (upd_buf i (\<lambda>b. b\<lparr>b_count := c b\<rparr>) s)"
  by (cases "i < length (fs_bufs s)"; cases "j = i") (simp_all add: pins_def buf_def upd_buf_def list_update_beyond)

lemma get_hash_table_pins:
  assumes "get_hash_table d n s = Done (r, t)" "pinned j s"
  shows "pins j s t" "r = None \<Longrightarrow> t = s"
  using assms count_pins pins_refl by (auto simp: get_hash_table_def Let_def outcome_simps pinned_def split: option.splits)

lemma find_free_zero: "find_free s = Some i \<Longrightarrow> b_count (buf i s) = 0"
  by (auto simp: find_free_def find_Some_iff)

lemma getblk_pins: "getblk_loop k d n s = Done (i, t) \<Longrightarrow> pinned j s \<Longrightarrow> pins j s t"
proof (induction k arbitrary: s)
  case (Suc k)
  obtain r s1 where g: "get_hash_table d n s = Done (r, s1)" using Suc.prems by (auto simp: outcome_simps)
  note gp = get_hash_table_pins [OF g Suc.prems(2)]
  show ?case
  proof (cases r)
    case (Some l)
    then show ?thesis using Suc.prems g gp(1) by simp
  next
    case None
    then have e: "s1 = s" using gp(2) by blast
    let ?u = "\<lambda>l v. upd_buf l (\<lambda>b. b\<lparr>b_dev := u16 d, b_blocknr := u16 n, b_dirt := 0, b_uptodate := 0\<rparr>) v"
    let ?c = "\<lambda>l v. insert_into_queues l (upd_buf l (\<lambda>b. b\<lparr>b_dev := 0, b_blocknr := 0, b_count := 0\<rparr>) v)"
    obtain l where l: "find_free s = Some l" using Suc.prems g None e by (auto split: option.splits)
    then obtain t1 t2 where t: "remove_from_queues l (upd_buf l (\<lambda>b. b\<lparr>b_count := u8 (b_count b + 1)\<rparr>) s) = Done t1"
      "(if b_dirt (buf l t1) \<noteq> 0 then sync_dev (b_dev (buf l t1)) t1 else Done t1) = Done t2"
      "(if find_buffer d n (?u l t2) \<noteq> None then getblk_loop k d n (?c l (?u l t2)) else Done (l, insert_into_queues l (?u l t2))) = Done (i, t)"
      using Suc.prems g None e by (auto simp: outcome_simps Let_def)
    have ne: "j \<noteq> l" using find_free_zero [OF l] Suc.prems(2) by (auto simp: pinned_def)
    have b1: "buf j t1 = buf j s" "length (fs_bufs t1) = length (fs_bufs s)" "fs_bad t1 = fs_bad s"
      using t(1) ne by (auto simp: remove_from_queues_def Let_def buf_def upd_buf_def split: if_splits)
    then have p1: "pinned j t1" "pins j s t1" using Suc.prems(2) by (simp_all add: pinned_def pins_def)
    have p2: "pins j t1 t2 \<and> b_count (buf j t2) = b_count (buf j t1)"
      using t(2) sync_pins p1(1) pins_refl by (auto simp: sync_dev_def split: if_splits)
    have p3: "pinned j t2" using pins_pinned p1(1) p2 by blast
    have st: "pins j s t2" using p1(2) p2 pins_trans by blast
    have fin: "pins j t2 (insert_into_queues l (?u l t2))" "pinned j (?c l (?u l t2))" "pins j t2 (?c l (?u l t2))"
      using p3 ne by (simp_all add: pins_def pinned_def insert_into_queues_def Let_def buf_def upd_buf_def)
    show ?thesis
    proof (cases "find_buffer d n (?u l t2) = None")
      case True
      then show ?thesis using t(3) st fin(1) pins_trans by auto
    next
      case False
      then have "pins j (?c l (?u l t2)) t" using t(3) Suc.IH fin(2) by auto
      then show ?thesis using st fin(3) pins_trans by blast
    qed
  qed
qed simp

lemma bread_pins:
  assumes "bread d n s = Done (r, t)" "pinned j s"
  shows "pins j s t"
proof -
  obtain i u where g: "getblk d n s = Done (i, u)" using assms(1) by (auto simp: bread_def outcome_simps)
  have p: "pins j s u" using getblk_pins [OF _ assms(2)] g by (simp add: getblk_def)
  show ?thesis
  proof (cases "b_uptodate (buf i u) = 0")
    case True
    then have "i \<noteq> j" using p by (auto simp: pins_def)
    then show ?thesis using assms(1) g True p
      by (auto simp: bread_def outcome_simps ll_rw_block_def rw_hd_def hd_transfer_def brelse_def wait_on_buffer_def pins_def Let_def buf_def upd_buf_def
          split: if_splits)
  qed (use assms(1) g p in \<open>simp add: bread_def\<close>)
qed

lemma brelse_pins: "brelse p s = Done t \<Longrightarrow> b_uptodate (buf j s) \<noteq> 0 \<Longrightarrow> pins j s t"
  using count_pins by (cases p) (auto simp: brelse_def outcome_simps pins_def split: if_splits)

end
