(* ===== verification/InodeProps.thy ===== *)
theory InodeProps
  imports CacheOps
begin

text \<open>
  Correctness of the inode layer: the layout of an inode on the disk, the block map of a file.
\<close>

section \<open>Numbers in a block\<close>

lemma length_put16 [simp]: "length (put16 p v d) = length d"
  by (simp add: put16_def)

lemma length_put32 [simp]: "length (put32 p v d) = length d"
  by (simp add: put32_def)

lemma uint_byte: "uint (word_of_int v :: byte) = v mod 256"
  by (simp add: uint_word_of_int)

lemma nth_put16_out: "k \<noteq> p \<Longrightarrow> k \<noteq> p + 1 \<Longrightarrow> put16 p v d ! k = d ! k"
  by (simp add: put16_def)

lemma nth_put32_out: "k < p \<or> p + 4 \<le> k \<Longrightarrow> put32 p v d ! k = d ! k"
  by (auto simp: put32_def nth_put16_out)

lemma get16_put16: "p + 1 < length d \<Longrightarrow> get16 p (put16 p v d) = u16 v"
proof -
  assume "p + 1 < length d"
  then have "get16 p (put16 p v d) = v mod 256 + 256 * (v div 256 mod 256)"
    by (simp add: get16_def put16_def uint_byte nth_list_update)
  moreover have "v mod (256 * 256) = 256 * (v div 256 mod 256) + v mod 256" by (rule zmod_zmult2_eq) simp
  ultimately show ?thesis by (simp add: u16_def)
qed

lemma get16_put16_out: "q + 1 < p \<or> p + 1 < q \<Longrightarrow> get16 q (put16 p v d) = get16 q d"
  by (auto simp: get16_def nth_put16_out)

lemma get16_put32_out: "q + 1 < p \<or> p + 3 < q \<Longrightarrow> get16 q (put32 p v d) = get16 q d"
  by (auto simp: get16_def nth_put32_out)

lemma get32_put16_out: "q + 3 < p \<or> p + 1 < q \<Longrightarrow> get32 q (put16 p v d) = get32 q d"
  by (auto simp: get32_def get16_put16_out)

lemma get32_put32_out: "q + 3 < p \<or> p + 3 < q \<Longrightarrow> get32 q (put32 p v d) = get32 q d"
  by (auto simp: get32_def get16_put32_out)

lemma get32_put32: "p + 3 < length d \<Longrightarrow> get32 p (put32 p v d) = u32 v"
proof -
  assume l: "p + 3 < length d"
  then have "get32 p (put32 p v d) = u16 v + 65536 * u16 (v div 65536)"
    by (simp add: get32_def put32_def get16_put16 get16_put16_out)
  moreover have "v mod (65536 * 65536) = 65536 * (v div 65536 mod 65536) + v mod 65536" by (rule zmod_zmult2_eq) simp
  ultimately show ?thesis by (simp add: u32_def u16_def)
qed

lemma get16_update_out: "k \<noteq> q \<Longrightarrow> k \<noteq> q + 1 \<Longrightarrow> get16 q (d[k := x]) = get16 q d"
  by (simp add: get16_def)

lemma get32_update_out: "k < q \<or> q + 3 < k \<Longrightarrow> get32 q (d[k := x]) = get32 q d"
  by (auto simp: get32_def get16_update_out)

section \<open>An inode on the disk\<close>

text \<open>The fields that \<open>struct d_inode\<close> has, in the range of their types.\<close>

definition disk_range :: "m_inode \<Rightarrow> bool" where
  "disk_range n \<longleftrightarrow> u16 (i_mode n) = i_mode n \<and> u16 (i_uid n) = i_uid n \<and> u32 (i_size n) = i_size n \<and>
     u32 (i_mtime n) = i_mtime n \<and> u8 (i_gid n) = i_gid n \<and> u8 (i_nlinks n) = i_nlinks n \<and>
     length (i_zone n) = 9 \<and> (\<forall>z\<in>set (i_zone n). u16 z = z)"

definition same_disk :: "m_inode \<Rightarrow> m_inode \<Rightarrow> bool" where
  "same_disk m n \<longleftrightarrow> i_mode m = i_mode n \<and> i_uid m = i_uid n \<and> i_size m = i_size n \<and> i_mtime m = i_mtime n \<and>
     i_gid m = i_gid n \<and> i_nlinks m = i_nlinks n \<and> i_zone m = i_zone n"

definition put_zones :: "nat \<Rightarrow> m_inode \<Rightarrow> nat list \<Rightarrow> byte list \<Rightarrow> byte list" where
  "put_zones p n ks d = fold (\<lambda>k. put16 (p + 14 + 2 * k) (i_zone n ! k)) ks d"

lemma length_put_zones [simp]: "length (put_zones p n ks d) = length d"
  unfolding put_zones_def by (induction ks arbitrary: d) simp_all

lemma put_zones_out: "(\<forall>k\<in>set ks. q + 1 < p + 14 + 2 * k \<or> p + 14 + 2 * k + 1 < q) \<Longrightarrow> get16 q (put_zones p n ks d) = get16 q d"
  unfolding put_zones_def by (induction ks arbitrary: d) (auto simp: get16_put16_out)

lemma put_zones_nth_out: "(\<forall>k\<in>set ks. q \<noteq> p + 14 + 2 * k \<and> q \<noteq> p + 15 + 2 * k) \<Longrightarrow> put_zones p n ks d ! q = d ! q"
  unfolding put_zones_def by (induction ks arbitrary: d) (auto simp: nth_put16_out)

lemma put_zones_get:
  "distinct ks \<Longrightarrow> k \<in> set ks \<Longrightarrow> \<forall>j\<in>set ks. p + 15 + 2 * j < length d \<Longrightarrow> get16 (p + 14 + 2 * k) (put_zones p n ks d) = u16 (i_zone n ! k)"
proof (induction ks arbitrary: d)
  case (Cons j ks)
  have e: "put_zones p n (j # ks) d = put_zones p n ks (put16 (p + 14 + 2 * j) (i_zone n ! j) d)" by (simp add: put_zones_def)
  show ?case
  proof (cases "k = j")
    case True
    have "get16 (p + 14 + 2 * j) (put_zones p n ks (put16 (p + 14 + 2 * j) (i_zone n ! j) d)) =
      get16 (p + 14 + 2 * j) (put16 (p + 14 + 2 * j) (i_zone n ! j) d)"
    proof (rule put_zones_out, intro ballI)
      fix l assume "l \<in> set ks"
      then have "l \<noteq> j" using Cons.prems(1) by auto
      then show "p + 14 + 2 * j + 1 < p + 14 + 2 * l \<or> p + 14 + 2 * l + 1 < p + 14 + 2 * j" by auto
    qed
    then show ?thesis using Cons.prems(3) True by (simp add: e get16_put16)
  next
    case False
    then show ?thesis using Cons by (simp add: e)
  qed
qed simp

lemma store_inode_zones: "store_inode p n d = put_zones p n [0..<9]
  ((put32 (p + 8) (i_mtime n) (put32 (p + 4) (i_size n) (put16 (p + 2) (i_uid n) (put16 p (i_mode n) d))))
     [p + 12 := word_of_int (i_gid n), p + 13 := word_of_int (i_nlinks n)])"
  by (simp add: store_inode_def put_zones_def)

lemma length_store_inode [simp]: "length (store_inode p n d) = length d"
  by (simp add: store_inode_zones)

lemma load_store:
  assumes "p + 32 \<le> length d" "disk_range n"
  shows "same_disk (load_inode p (store_inode p n d) m) n"
proof -
  let ?h = "(put32 (p + 8) (i_mtime n) (put32 (p + 4) (i_size n) (put16 (p + 2) (i_uid n) (put16 p (i_mode n) d))))
     [p + 12 := word_of_int (i_gid n), p + 13 := word_of_int (i_nlinks n)]"
  let ?s = "store_inode p n d"
  have out16: "get16 q ?s = get16 q ?h" if "q + 1 < p + 14" for q
    unfolding store_inode_zones by (rule put_zones_out) (use that in auto)
  then have out32: "get32 q ?s = get32 q ?h" if "q + 3 < p + 14" for q using that by (simp add: get32_def)
  have nth: "?s ! q = ?h ! q" if "q < p + 14" for q
    unfolding store_inode_zones by (rule put_zones_nth_out) (use that in auto)
  have f: "u16 (i_mode n) = i_mode n" "u16 (i_uid n) = i_uid n" "u32 (i_size n) = i_size n" "u32 (i_mtime n) = i_mtime n"
    "i_gid n mod 256 = i_gid n" "i_nlinks n mod 256 = i_nlinks n"
    using assms(2) by (simp_all add: disk_range_def u8_def)
  have "get16 p ?s = i_mode n" "get16 (p + 2) ?s = i_uid n"
    using assms(1) f(1,2) by (simp_all add: out16 get16_update_out get16_put32_out get16_put16_out get16_put16)
  moreover have "get32 (p + 4) ?s = i_size n" "get32 (p + 8) ?s = i_mtime n"
    using assms(1) f(3,4) by (simp_all add: out32 get32_update_out get32_put32_out get32_put32)
  moreover have "uint (?s ! (p + 12)) = i_gid n" "uint (?s ! (p + 13)) = i_nlinks n"
    using assms(1) f(5,6) by (simp_all add: nth uint_byte)
  moreover have "map (\<lambda>k. get16 (p + 14 + 2 * k) ?s) [0..<9] = i_zone n"
  proof (rule nth_equalityI)
    show "length (map (\<lambda>k. get16 (p + 14 + 2 * k) ?s) [0..<9]) = length (i_zone n)" using assms(2) by (simp add: disk_range_def)
    fix k assume "k < length (map (\<lambda>k. get16 (p + 14 + 2 * k) ?s) [0..<9])"
    then have k: "k < 9" by simp
    then have "i_zone n ! k \<in> set (i_zone n)" using assms(2) by (auto simp: disk_range_def)
    then have "u16 (i_zone n ! k) = i_zone n ! k" using assms(2) by (simp add: disk_range_def)
    moreover have "get16 (p + 14 + 2 * k) ?s = u16 (i_zone n ! k)"
      unfolding store_inode_zones by (rule put_zones_get) (use k assms(1) in auto)
    ultimately show "map (\<lambda>k. get16 (p + 14 + 2 * k) ?s) [0..<9] ! k = i_zone n ! k" using k by simp
  qed
  ultimately show ?thesis by (simp add: same_disk_def load_inode_def del: upt_Suc)
qed

text \<open>The other inodes of the block are not touched.\<close>

lemma store_nth_out: "q < p \<or> p + 32 \<le> q \<Longrightarrow> store_inode p n d ! q = d ! q"
  unfolding store_inode_zones
  by (subst put_zones_nth_out) (auto simp: nth_put32_out nth_put16_out)

lemma load_store_other: "q + 32 \<le> p \<or> p + 32 \<le> q \<Longrightarrow> load_inode q (store_inode p n d) m = load_inode q d m"
  by (auto simp: load_inode_def get16_def get32_def store_nth_out)


section \<open>The block map of a file\<close>

text \<open>An entry of an indirect block, and the block that holds block \<open>b\<close> of a file, 0 for a hole.\<close>

definition ind :: "fs_state \<Rightarrow> int \<Rightarrow> int \<Rightarrow> nat \<Rightarrow> int" where
  "ind s dev z k = (if z = 0 then 0 else get_zone k (view s dev z))"

definition file_block :: "m_inode \<Rightarrow> fs_state \<Rightarrow> nat \<Rightarrow> int" where
  "file_block n s b =
     (if b < 7 then i_zone n ! b
      else if b < 519 then ind s (i_dev n) (i_zone n ! 7) (b - 7)
      else ind s (i_dev n) (ind s (i_dev n) (i_zone n ! 8) ((b - 519) div 512)) ((b - 519) mod 512))"

text \<open>The indirect blocks of a file.\<close>

definition meta :: "m_inode \<Rightarrow> fs_state \<Rightarrow> int set" where
  "meta n s = {i_zone n ! 7, i_zone n ! 8} \<union> ind s (i_dev n) (i_zone n ! 8) ` {..<512}"

definition meta_ok :: "m_inode \<Rightarrow> fs_state \<Rightarrow> bool" where
  "meta_ok n s \<longleftrightarrow> 0 < i_dev n \<and> i_dev n < 65536 \<and> (\<forall>z\<in>meta n s. z \<noteq> 0 \<longrightarrow> on_disk s (i_dev n) z)"

lemma meta_cong:
  assumes "\<And>z. z \<in> meta n s \<Longrightarrow> z \<noteq> 0 \<Longrightarrow> view s' (i_dev n) z = view s (i_dev n) z"
  shows "meta n s' = meta n s" "b < 262663 \<Longrightarrow> file_block n s' b = file_block n s b"
proof -
  have c: "ind s' (i_dev n) z k = ind s (i_dev n) z k" if "z \<in> meta n s" for z k
    using assms [OF that] by (simp add: ind_def)
  have m: "i_zone n ! 7 \<in> meta n s" "i_zone n ! 8 \<in> meta n s"
    "k < 512 \<Longrightarrow> ind s (i_dev n) (i_zone n ! 8) k \<in> meta n s" for k by (auto simp: meta_def)
  show "meta n s' = meta n s" using c [OF m(2)] by (simp add: meta_def)
  show "file_block n s' b = file_block n s b" if "b < 262663"
    using that c [OF m(1)] c [OF m(2)] c [OF m(3), of "(b - 519) div 512"] by (auto simp: file_block_def)
qed

lemma meta_ok_cong:
  assumes "meta_ok n s" "same_view s s'" "on_disk s' = on_disk s"
  shows "meta_ok n s'" "meta n s' = meta n s" "b < 262663 \<Longrightarrow> file_block n s' b = file_block n s b"
proof -
  have v: "view s' (i_dev n) z = view s (i_dev n) z" for z using assms(1,2) by (simp add: meta_ok_def same_view_def)
  show "meta n s' = meta n s" "b < 262663 \<Longrightarrow> file_block n s' b = file_block n s b" using meta_cong [OF v] by auto
  then show "meta_ok n s'" using assms by (simp add: meta_ok_def)
qed

lemma ind_entry_reads:
  assumes "usable s" "0 < i_dev (ino i s)" "i_dev (ino i s) < 65536" "z \<noteq> 0 \<Longrightarrow> on_disk s (i_dev (ino i s)) z"
  shows "\<exists>s'. ind_entry i z k False s = Done (ind s (i_dev (ino i s)) z k, s') \<and> settled s s' \<and> same_view s s'"
proof (cases "z = 0")
  case True
  then show ?thesis using settled_refl [OF assms(1)] by (simp add: ind_entry_def ind_def same_view_def)
next
  case False
  then obtain b s1 where h: "bread (i_dev (ino i s)) z s = Done (Some b, s1)" "held s (i_dev (ino i s)) z b s1"
    using bread_usable [OF assms(1-3)] assms(4) by blast
  from held_settled [OF assms(1) h(2)] obtain s' where s': "brelse (Some b) s1 = Done s'" "settled s s'" "same_view s s'" by blast
  then have "ind_entry i z k False s = Done (get_zone k (b_data (buf b s1)), s')" using h(1) False by (simp add: ind_entry_def)
  then show ?thesis using s' h(2) False by (simp add: ind_def held_def)
qed

lemma bmap_reads:
  assumes u: "usable s" and m: "meta_ok (ino i s) s" and b: "b < 262663"
  shows "\<exists>s'. bmap i (int b) s = Done (file_block (ino i s) s b, s') \<and> settled s s' \<and> same_view s s'"
proof -
  let ?n = "ino i s"
  have d: "0 < i_dev ?n" "i_dev ?n < 65536" and od: "\<And>z. z \<in> meta ?n s \<Longrightarrow> z \<noteq> 0 \<Longrightarrow> on_disk s (i_dev ?n) z"
    using m by (auto simp: meta_ok_def)
  consider "b < 7" | "7 \<le> b" "b < 519" | "519 \<le> b" by linarith
  then show ?thesis
  proof cases
    case 1
    then show ?thesis using settled_refl [OF u]
      by (auto simp: bmap_def bmap_at_def zone_entry_def file_block_def same_view_def)
  next
    case 2
    have "i_zone ?n ! 7 \<in> meta ?n s" by (simp add: meta_def)
    from ind_entry_reads [OF u d, of "i_zone ?n ! 7" "b - 7"] od [OF this] 2 show ?thesis
      by (auto simp: bmap_def bmap_at_def zone_entry_def file_block_def Let_def nat_diff_distrib')
  next
    case 3
    let ?j = "(b - 519) div 512" and ?k = "(b - 519) mod 512"
    have j: "?j < 512" using b by (simp add: less_mult_imp_div_less)
    have z8: "i_zone ?n ! 8 \<in> meta ?n s" "ind s (i_dev ?n) (i_zone ?n ! 8) ?j \<in> meta ?n s" using j by (auto simp: meta_def)
    obtain s1 where s1: "ind_entry i (i_zone ?n ! 8) ?j False s = Done (ind s (i_dev ?n) (i_zone ?n ! 8) ?j, s1)" "settled s s1" "same_view s s1"
      using ind_entry_reads [OF u d] od [OF z8(1)] by blast
    note f = settled_fields [OF s1(2)]
    let ?z = "ind s (i_dev ?n) (i_zone ?n ! 8) ?j"
    have "\<exists>s2. ind_entry i ?z ?k False s1 = Done (ind s1 (i_dev (ino i s1)) ?z ?k, s2) \<and> settled s1 s2 \<and> same_view s1 s2"
      by (rule ind_entry_reads [OF settled_usable [OF u s1(2)]]) (use d od [OF z8(2)] f in simp_all)
    then obtain s2 where s2: "ind_entry i ?z ?k False s1 = Done (ind s1 (i_dev ?n) ?z ?k, s2)" "settled s1 s2" "same_view s1 s2"
      using f by auto
    have "ind s1 (i_dev ?n) ?z ?k = ind s (i_dev ?n) ?z ?k" using s1(3) d by (simp add: ind_def same_view_def)
    moreover have "nat ((int b - 519) div 512) = ?j" "nat ((int b - 519) mod 512) = ?k"
      using 3 by (simp_all add: nat_div_distrib nat_mod_distrib nat_diff_distrib')
    ultimately have "bmap i (int b) s = Done (file_block ?n s b, s2)"
      using 3 b s1(1) s2(1) by (simp add: bmap_def bmap_at_def zone_entry_def file_block_def Let_def)
    then show ?thesis using s1(2,3) s2(2,3) settled_trans by (auto simp: same_view_def)
  qed
qed

text \<open>
  C27: \<open>bmap\<close> of a block number that a file can have returns the block that the inode and the indirect blocks
  name for it, or 0 for a hole, leaves every buffer as it was and changes the contents of no block;
  a larger number is a panic.
\<close>

theorem bmap_correct:
  assumes "usable s" "meta_ok (ino i s) s"
  shows "if b < 7 + 512 + 512 * 512
    then \<exists>s'. bmap i (int b) s = Done (file_block (ino i s) s b, s') \<and> settled s s' \<and> same_view s s'
    else bmap i (int b) s = Panic ''_bmap: block>big''"
  using bmap_reads [OF assms] by (auto simp: bmap_def bmap_at_def)

text \<open>A disk just after \<open>buffer_init\<close>.\<close>

lemma boot_usable: "0 < n \<Longrightarrow> usable (fs_boot n disk)"
proof -
  assume "0 < n"
  then have "set (counts (fs_boot n disk)) = {0}" by (auto simp: counts_def fs_boot_def buffer_init_def empty_buffer_def)
  moreover have "cache_ok (fs_boot n disk)" by (simp add: fs_boot_def buffer_init_ok)
  ultimately show ?thesis by (simp add: usable_def)
qed

lemma boot_view: "d \<noteq> 0 \<Longrightarrow> view (fs_boot n disk) d = disk d"
proof
  fix m assume d: "d \<noteq> 0"
  have "\<not> holds (fs_boot n disk) d m i" if "i < n" for i
    using that d by (simp add: holds_def buf_def fs_boot_def buffer_init_def empty_buffer_def)
  then show "view (fs_boot n disk) d m = disk d m"
    by (auto simp: view_def find_None_iff find_Some_iff fs_boot_def buffer_init_def split: option.splits)
qed

lemma boot_on_disk: "on_disk (fs_boot n disk) 0x301 m \<longleftrightarrow> 0 \<le> m \<and> m < 500"
  by (auto simp: on_disk_def fs_boot_def buffer_init_def MAJOR_def MINOR_def NR_HD_def u32_def)

definition one_inode :: "int list \<Rightarrow> m_inode" where
  "one_inode zs = \<lparr>i_mode = S_IFREG, i_uid = 0, i_size = 1024, i_mtime = 0, i_gid = 0, i_nlinks = 1, i_zone = zs, i_wait = None,
     i_atime = 0, i_ctime = 0, i_dev = 0x301, i_num = 2, i_count = 1, i_lock = 0, i_dirt = 0, i_pipe = 0, i_mount = 0, i_seek = 0, i_update = 0\<rparr>"

definition one_file :: "int list \<Rightarrow> (int \<Rightarrow> int \<Rightarrow> byte list) \<Rightarrow> fs_state" where
  "one_file zs disk = (fs_boot 2 disk)\<lparr>k_inodes := [one_inode zs]\<rparr>"

lemma one_file_simps [simp]:
  "usable (one_file zs disk)" "ino 0 (one_file zs disk) = one_inode zs" "d \<noteq> 0 \<Longrightarrow> view (one_file zs disk) d = disk d"
  "on_disk (one_file zs disk) 0x301 m \<longleftrightarrow> 0 \<le> m \<and> m < 500" "length (k_inodes (one_file zs disk)) = 1"
  "i_dev (one_inode zs) = 0x301" "i_zone (one_inode zs) = zs"
  by (simp_all add: one_file_def boot_usable boot_view boot_on_disk [simplified] ino_def, simp_all add: one_inode_def)

theorem bmap_correct_witness:
  "let s = one_file [10, 0, 0, 0, 0, 0, 0, 11, 0] (\<lambda>_ _. replicate 1024 1) in
   \<exists>s'. bmap 0 (int 8) s = Done (file_block (ino 0 s) s 8, s') \<and> file_block (ino 0 s) s 8 = 257 \<and> settled s s' \<and> same_view s s'"
proof -
  let ?s = "one_file [10, 0, 0, 0, 0, 0, 0, 11, 0] (\<lambda>_ _. replicate 1024 1)"
  have m: "meta_ok (ino 0 ?s) ?s" by (auto simp: meta_ok_def meta_def ind_def)
  have "file_block (ino 0 ?s) ?s 8 = 257" by (simp add: file_block_def ind_def get_zone_def get16_def)
  then show ?thesis using bmap_correct [OF one_file_simps(1) m, of 8] by (simp add: Let_def)
qed
end
