(* ===== verification/FileProps.thy ===== *)
theory FileProps
  imports FileDev InodeProps KeySys
begin

text \<open>
  Encrypting and decrypting a file, through the block map and the buffer cache: the blocks of the
  file change as the cipher says, no other block does, and decryption gives the file again.
\<close>

section \<open>Files on a disk\<close>

text \<open>
  A file of \<open>k\<close> blocks without holes, whose blocks are on the disk, different from each other and from the
  file's indirect blocks, and full sized.
\<close>

definition file_ok :: "m_inode \<Rightarrow> nat \<Rightarrow> fs_state \<Rightarrow> bool" where
  "file_ok n k s \<longleftrightarrow> meta_ok n s \<and> k < 262663 \<and> file_block n s k = 0 \<and>
     (\<forall>b<k. file_block n s b \<noteq> 0 \<and> on_disk s (i_dev n) (file_block n s b) \<and> file_block n s b \<notin> meta n s \<and>
        length (view s (i_dev n) (file_block n s b)) = 1024) \<and>
     inj_on (file_block n s) {..<k}"

definition file_blocks :: "m_inode \<Rightarrow> nat \<Rightarrow> fs_state \<Rightarrow> (int \<times> int) set" where
  "file_blocks n k s = (\<lambda>b. (i_dev n, file_block n s b)) ` {..<k}"

text \<open>A change of the contents of the file's own blocks.\<close>

lemma file_ok_change:
  assumes ok: "file_ok n k s" and od: "on_disk s' = on_disk s"
    and v: "\<And>e m. e \<noteq> 0 \<Longrightarrow> (e, m) \<notin> file_blocks n k s \<Longrightarrow> view s' e m = view s e m"
    and len: "\<And>b. b < k \<Longrightarrow> length (view s' (i_dev n) (file_block n s b)) = 1024"
  shows "file_ok n k s'" "\<And>b. b < 262663 \<Longrightarrow> file_block n s' b = file_block n s b" "meta n s' = meta n s"
proof -
  have m: "meta_ok n s" "k < 262663" using ok by (simp_all add: file_ok_def)
  have mv: "view s' (i_dev n) z = view s (i_dev n) z" if "z \<in> meta n s" for z
    by (rule v) (use that ok m in \<open>auto simp: file_blocks_def file_ok_def meta_ok_def\<close>)
  show me: "meta n s' = meta n s" and fb: "\<And>b. b < 262663 \<Longrightarrow> file_block n s' b = file_block n s b" using meta_cong [OF mv] by simp_all
  have "\<forall>b<k. file_block n s' b = file_block n s b" using fb m(2) by simp
  moreover from this have "inj_on (file_block n s') {..<k} = inj_on (file_block n s) {..<k}" by (intro inj_on_cong) simp
  moreover have "meta_ok n s'" using m(1) me od by (simp add: meta_ok_def)
  ultimately show "file_ok n k s'" using ok fb [OF m(2)] len od me by (simp add: file_ok_def)
qed

section \<open>The loop over the blocks\<close>

lemma blocks_loop_step:
  assumes u: "usable s" and m: "meta_ok (ino i s) s" and c: "c < 262663" "file_block (ino i s) s c = z" "z \<noteq> 0" "on_disk s (i_dev (ino i s)) z"
    and f: "f (view s (i_dev (ino i s)) z) = Done d"
  shows "\<exists>s'. blocks_loop f i c s = blocks_loop f i (Suc c) s' \<and> settled s s' \<and> view s' (i_dev (ino i s)) z = d \<and>
    (\<forall>e m. e \<noteq> 0 \<longrightarrow> (e, m) \<noteq> (i_dev (ino i s), z) \<longrightarrow> view s' e m = view s e m)"
proof -
  let ?d = "i_dev (ino i s)"
  have dv: "0 < ?d" "?d < 65536" using m by (simp_all add: meta_ok_def)
  obtain s1 where s1: "bmap i (int c) s = Done (z, s1)" "settled s s1" "same_view s s1" using bmap_reads [OF u m c(1)] c(2) by blast
  note f1 = settled_fields [OF s1(2)]
  have u1: "usable s1" by (rule settled_usable [OF u s1(2)])
  have od: "on_disk s1 ?d z" using c(4) f1 by simp
  obtain b s2 where b: "bread ?d z s1 = Done (Some b, s2)" "held s1 ?d z b s2" using bread_usable [OF u1 dv od] by blast
  have data: "b_data (buf b s2) = view s ?d z" using b(2) s1(3) dv by (simp add: held_def same_view_def)
  have up: "b_uptodate (buf b s2) \<noteq> 0" using b(2) by (simp add: held_def)
  have "\<exists>s'. brelse (Some b) (upd_buf b (\<lambda>x. x\<lparr>b_data := d, b_dirt := 1\<rparr>) s2) = Done s' \<and> settled s1 s' \<and>
      view s' ?d z = b_data ((buf b s2)\<lparr>b_data := d, b_dirt := 1\<rparr>) \<and> (\<forall>e m. e \<noteq> 0 \<longrightarrow> (e, m) \<noteq> (?d, z) \<longrightarrow> view s' e m = view s1 e m)"
    by (rule held_modified [OF u1 b(2) dv(1) od]) (use up in simp_all)
  then obtain s' where s': "brelse (Some b) (upd_buf b (\<lambda>x. x\<lparr>b_data := d, b_dirt := 1\<rparr>) s2) = Done s'" "settled s1 s'"
      "view s' ?d z = d" "\<forall>e m. e \<noteq> 0 \<longrightarrow> (e, m) \<noteq> (?d, z) \<longrightarrow> view s' e m = view s1 e m" by auto
  have "blocks_loop f i c s = blocks_loop f i (Suc c) s'"
    by (subst blocks_loop.simps) (simp add: s1(1) c(3) f1(4) b(1) data f s'(1))
  then show ?thesis using s' settled_trans [OF s1(2) s'(2)] s1(3) by (auto simp: same_view_def)
qed

lemma blocks_loop_end:
  assumes "usable s" "meta_ok (ino i s) s" "c < 262663" "file_block (ino i s) s c = 0"
  shows "\<exists>s'. blocks_loop f i c s = Done s' \<and> settled s s' \<and> same_view s s'"
proof -
  obtain s' where s': "bmap i (int c) s = Done (0, s')" "settled s s'" "same_view s s'" using bmap_reads [OF assms(1-3)] assms(4) by auto
  have "blocks_loop f i c s = Done s'" by (subst blocks_loop.simps) (simp add: s'(1))
  then show ?thesis using s' by blast
qed

text \<open>What the loop from block \<open>c\<close> on does to the contents of the disk.\<close>

definition changed :: "(byte list \<Rightarrow> byte list outcome) \<Rightarrow> m_inode \<Rightarrow> nat \<Rightarrow> nat \<Rightarrow> fs_state \<Rightarrow> fs_state \<Rightarrow> bool" where
  "changed f n c k s s' \<longleftrightarrow>
     (\<forall>b. c \<le> b \<longrightarrow> b < k \<longrightarrow> f (view s (i_dev n) (file_block n s b)) = Done (view s' (i_dev n) (file_block n s b))) \<and>
     (\<forall>e m. e \<noteq> 0 \<longrightarrow> (\<forall>b. c \<le> b \<longrightarrow> b < k \<longrightarrow> (e, m) \<noteq> (i_dev n, file_block n s b)) \<longrightarrow> view s' e m = view s e m)"

lemma changed_inside: "changed f n c k s s' \<Longrightarrow> c \<le> b \<Longrightarrow> b < k \<Longrightarrow>
    f (view s (i_dev n) (file_block n s b)) = Done (view s' (i_dev n) (file_block n s b))"
  by (simp add: changed_def)

lemma changed_outside: "changed f n c k s s' \<Longrightarrow> e \<noteq> 0 \<Longrightarrow> (\<And>b. c \<le> b \<Longrightarrow> b < k \<Longrightarrow> (e, m) \<noteq> (i_dev n, file_block n s b)) \<Longrightarrow>
    view s' e m = view s e m"
  by (simp add: changed_def)

lemma file_okD:
  assumes "file_ok n k s"
  shows "meta_ok n s" "k < 262663" "file_block n s k = 0" "0 < i_dev n"
    "b < k \<Longrightarrow> file_block n s b \<noteq> 0" "b < k \<Longrightarrow> on_disk s (i_dev n) (file_block n s b)"
    "b < k \<Longrightarrow> length (view s (i_dev n) (file_block n s b)) = 1024"
    "b < k \<Longrightarrow> c < k \<Longrightarrow> file_block n s b = file_block n s c \<longleftrightarrow> b = c"
  using assms by (auto simp: file_ok_def meta_ok_def inj_on_def)

text \<open>One block, then the rest.\<close>

lemma changed_step:
  assumes ok: "file_ok n k s" and c: "c < k" and d: "f (view s (i_dev n) (file_block n s c)) = Done d"
    and v: "view s1 (i_dev n) (file_block n s c) = d"
      "\<And>e m. e \<noteq> 0 \<Longrightarrow> (e, m) \<noteq> (i_dev n, file_block n s c) \<Longrightarrow> view s1 e m = view s e m"
    and fb: "\<And>b. b < k \<Longrightarrow> file_block n s1 b = file_block n s b"
    and r: "changed f n (Suc c) k s1 s'"
  shows "changed f n c k s s'"
  unfolding changed_def
proof (intro conjI allI impI)
  let ?d = "i_dev n" and ?fb = "file_block n s"
  note o = file_okD [OF ok]
  have o8: "?fb b = ?fb c \<longleftrightarrow> b = c" if "b < k" for b using o(8) [OF that c] .
  fix b assume b: "c \<le> b" "b < k"
  show "f (view s ?d (?fb b)) = Done (view s' ?d (?fb b))"
  proof (cases "b = c")
    case True
    have ne: "?fb c \<noteq> ?fb b" if "Suc c \<le> b" "b < k" for b using o8 [of b] that by auto
    have "view s' ?d (?fb c) = view s1 ?d (?fb c)"
      by (rule changed_outside [OF r]) (use o(4) ne fb in simp_all)
    then show ?thesis using True d v(1) by simp
  next
    case False
    have "view s1 ?d (?fb b) = view s ?d (?fb b)" by (rule v(2)) (use o(4) o(8) [OF b(2) c] False in auto)
    then show ?thesis using changed_inside [OF r, of b] b False fb [OF b(2)] by simp
  qed
next
  fix e m assume e: "e \<noteq> 0" "\<forall>b. c \<le> b \<longrightarrow> b < k \<longrightarrow> (e, m) \<noteq> (i_dev n, file_block n s b)"
  have "view s' e m = view s1 e m" by (rule changed_outside [OF r e(1)]) (use e(2) fb in auto)
  also have "\<dots> = view s e m" by (rule v(2) [OF e(1)]) (use e(2) c in simp)
  finally show "view s' e m = view s e m" .
qed

lemma blocks_loop_ok:
  assumes "usable s" "file_ok n k s" "ino i s = n" "c \<le> k" and f: "\<And>x. length x = 1024 \<Longrightarrow> \<exists>d. f x = Done d \<and> length d = 1024"
  shows "\<exists>s'. blocks_loop f i c s = Done s' \<and> settled s s' \<and> changed f n c k s s'"
  using assms(1-4)
proof (induction "k - c" arbitrary: c s)
  case 0
  note o = file_okD [OF "0.prems"(2)]
  have "c = k" using 0 by simp
  then show ?case using blocks_loop_end [OF "0.prems"(1), of i c f] o(1-3) "0.prems"(3) by (auto simp: same_view_def changed_def)
next
  case (Suc x)
  let ?fb = "file_block n s" and ?d = "i_dev n"
  note o = file_okD [OF Suc.prems(2)]
  have c: "c < k" using Suc.hyps(2) by simp
  obtain d where d: "f (view s ?d (?fb c)) = Done d" "length d = 1024" using f [OF o(7) [OF c]] by blast
  have "\<exists>s1. blocks_loop f i c s = blocks_loop f i (Suc c) s1 \<and> settled s s1 \<and> view s1 (i_dev (ino i s)) (?fb c) = d \<and>
    (\<forall>e m. e \<noteq> 0 \<longrightarrow> (e, m) \<noteq> (i_dev (ino i s), ?fb c) \<longrightarrow> view s1 e m = view s e m)"
    by (rule blocks_loop_step [OF Suc.prems(1)]) (use o(1,2) o(5,6) [OF c] d(1) c Suc.prems(3) in simp_all)
  then obtain s1 where s1: "blocks_loop f i c s = blocks_loop f i (Suc c) s1" "settled s s1" "view s1 ?d (?fb c) = d"
    "\<And>e m. e \<noteq> 0 \<Longrightarrow> (e, m) \<noteq> (?d, ?fb c) \<Longrightarrow> view s1 e m = view s e m"
    unfolding Suc.prems(3) by blast
  note st = settled_fields [OF s1(2)]
  have l: "length (view s1 ?d (?fb b)) = 1024" if "b < k" for b
    using s1(3) s1(4) [of ?d "?fb b"] o(4) o(7) [OF that] o(8) [OF that c] d(2) by (cases "b = c") auto
  have v: "view s1 e m = view s e m" if "e \<noteq> 0" "(e, m) \<notin> file_blocks n k s" for e m
    by (rule s1(4) [OF that(1)]) (use that(2) c in \<open>auto simp: file_blocks_def\<close>)
  note ch = file_ok_change [OF Suc.prems(2) st(5) v l]
  have i1: "ino i s1 = n" using Suc.prems(3) st(4) by simp
  obtain s' where s': "blocks_loop f i (Suc c) s1 = Done s'" "settled s1 s'" "changed f n (Suc c) k s1 s'"
    using Suc.hyps(1) [OF _ settled_usable [OF Suc.prems(1) s1(2)] ch(1) i1] Suc.hyps(2) c by (metis Suc_leI diff_Suc_1 diff_Suc_eq_diff_pred minus_nat.diff_Suc old.nat.inject)
  have "changed f n c k s s'"
    by (rule changed_step [OF Suc.prems(2) c d(1) s1(3,4) _ s'(3)]) (use ch(2) o(2) in simp_all)
  then show ?case using s1(1) s'(1) settled_trans [OF s1(2) s'(2)] by auto
qed

section \<open>Encryption and decryption\<close>

text \<open>Touching an inode changes no block, and no field that the block map uses.\<close>

lemma touch_simps [simp]:
  "usable (touch i s) = usable s" "view (touch i s) = view s" "on_disk (touch i s) = on_disk s"
  by (simp_all add: touch_def)

lemma file_block_view: "view s' = view s \<Longrightarrow> file_block n s' b = file_block n s b" "view s' = view s \<Longrightarrow> meta n s' = meta n s"
proof -
  assume v: "view s' = view s"
  have i: "ind s' = ind s" by (intro ext) (simp add: ind_def v)
  show "file_block n s' b = file_block n s b" "meta n s' = meta n s" by (simp_all add: file_block_def meta_def i)
qed

text \<open>What keeps the block map keeps the file.\<close>

lemma file_ok_same:
  assumes ok: "file_ok n k t" and v: "same_view t s" "on_disk s = on_disk t" and n: "i_dev n' = i_dev n" "i_zone n' = i_zone n"
  shows "file_ok n' k s" "b < 262663 \<Longrightarrow> file_block n' s b = file_block n t b"
proof -
  have m: "meta_ok n t" and k: "k < 262663" using ok by (simp_all add: file_ok_def)
  note c = meta_ok_cong [OF m v]
  have e: "file_block n' s b = file_block n s b" "meta n' s = meta n s" for b by (simp_all add: file_block_def meta_def n)
  have w: "view s (i_dev n) z = view t (i_dev n) z" for z using m v(1) by (simp add: same_view_def meta_ok_def)
  show fb: "file_block n' s b = file_block n t b" if "b < 262663" for b using c(3) [OF that] e by simp
  then have "inj_on (file_block n' s) {..<k} = inj_on (file_block n t) {..<k}" using k by (intro inj_on_cong) simp
  then show "file_ok n' k s" using ok k fb c(1,2) e n w v(2) by (simp add: file_ok_def meta_ok_def)
qed

lemma same_map_touch: "i_dev (ino j (touch i s)) = i_dev (ino j s)" "i_zone (ino j (touch i s)) = i_zone (ino j s)"
proof -
  have "i_dev (ino j (touch i s)) = i_dev (ino j s) \<and> i_zone (ino j (touch i s)) = i_zone (ino j s)"
    by (cases "i < length (k_inodes s)") (auto simp: touch_def upd_ino_def ino_def nth_list_update list_update_beyond)
  then show "i_dev (ino j (touch i s)) = i_dev (ino j s)" "i_zone (ino j (touch i s)) = i_zone (ino j s)" by simp_all
qed

text \<open>
  The interface of the cipher for a whole file: a pass over the blocks with one direction and, later, a pass with the
  other one, which gives the disk back.
\<close>

locale file_cipher = block_cipher valid_key data_block enc dec
  for valid_key :: "'k \<Rightarrow> bool" and enc dec :: "'k \<Rightarrow> byte list \<Rightarrow> byte list outcome"
begin

lemma enc_total: "valid_key key \<Longrightarrow> length x = 1024 \<Longrightarrow> \<exists>y. enc key x = Done y \<and> length y = 1024"
  using enc_dec by (fastforce simp: data_block_def)

lemma dec_total: "valid_key key \<Longrightarrow> length x = 1024 \<Longrightarrow> \<exists>y. dec key x = Done y \<and> length y = 1024"
  using dec_enc by (fastforce simp: data_block_def)

lemma pass_there:
  assumes u: "usable s" and ok: "file_ok (ino i s) k s" and f: "valid_key key"
  shows "\<exists>t. blocks_loop (enc key) i 0 s = Done t \<and> settled s t \<and> changed (enc key) (ino i s) 0 k s t \<and> file_ok (ino i s) k t \<and>
    (\<forall>b<k. file_block (ino i s) t b = file_block (ino i s) s b)"
proof -
  let ?n = "ino i s"
  note F = enc_total [OF f]
  obtain t where t: "blocks_loop (enc key) i 0 s = Done t" "settled s t" "changed (enc key) ?n 0 k s t"
    using blocks_loop_ok [where f = "enc key", OF u ok refl _ F, of 0] by blast
  have out: "view t e m = view s e m" if "e \<noteq> 0" "(e, m) \<notin> file_blocks ?n k s" for e m
    by (rule changed_outside [OF t(3) that(1)]) (use that(2) in \<open>auto simp: file_blocks_def\<close>)
  have len: "length (view t (i_dev ?n) (file_block ?n s b)) = 1024" if "b < k" for b
    using F [OF file_okD(7) [OF ok that]] changed_inside [OF t(3) _ that] by auto
  note ch = file_ok_change [OF ok settled_fields(5) [OF t(2)] out len]
  show ?thesis using t ch file_okD(2) [OF ok] by auto
qed

lemma pass_back:
  assumes ok: "file_ok (ino i s) k s" and f: "valid_key key" and t: "changed (enc key) (ino i s) 0 k s t" "file_ok (ino i s) k t"
      "\<forall>b<k. file_block (ino i s) t b = file_block (ino i s) s b"
    and s1: "usable s1" "same_view t s1" "on_disk s1 = on_disk t" "i_dev (ino i s1) = i_dev (ino i s)" "i_zone (ino i s1) = i_zone (ino i s)"
  shows "\<exists>x. blocks_loop (dec key) i 0 s1 = Done x \<and> settled s1 x \<and> same_view s x"
proof -
  let ?n = "ino i s" and ?d = "i_dev (ino i s)"
  have d: "?d \<noteq> 0" using ok by (auto simp: file_ok_def meta_ok_def)
  note ok1 = file_ok_same [OF t(2) s1(2-5)]
  have fb: "file_block (ino i s1) s1 b = file_block ?n s b" if "b < k" for b
    using ok1(2) [of b] t(3) file_okD(2) [OF t(2)] that by simp
  have v1: "view s1 e m = view t e m" if "e \<noteq> 0" for e m using s1(2) that by (simp add: same_view_def)
  have gd: "dec key (view t ?d (file_block ?n s b)) = Done (view s ?d (file_block ?n s b))" if "b < k" for b
    using enc_dec [OF f] file_okD(7) [OF ok that] changed_inside [OF t(1) _ that] by (fastforce simp: data_block_def)
  note G = dec_total [OF f]
  obtain x where x: "blocks_loop (dec key) i 0 s1 = Done x" "settled s1 x" "changed (dec key) (ino i s1) 0 k s1 x"
    using blocks_loop_ok [where f = "dec key", OF s1(1) ok1(1) refl _ G, of 0] by blast
  have "view x e m = view s e m" if e: "e \<noteq> 0" for e m
  proof (cases "(e, m) \<in> file_blocks ?n k s")
    case True
    then show ?thesis using changed_inside [OF x(3)] fb gd v1 d s1(4) by (auto simp: file_blocks_def)
  next
    case False
    have "view x e m = view s1 e m"
      by (rule changed_outside [OF x(3) e]) (use False fb s1(4) in \<open>auto simp: file_blocks_def\<close>)
    moreover have "view t e m = view s e m"
      by (rule changed_outside [OF t(1) e]) (use False in \<open>auto simp: file_blocks_def\<close>)
    ultimately show ?thesis using v1 [OF e] by simp
  qed
  then show ?thesis using x by (auto simp: same_view_def)
qed

end

interpretation encrypting: file_cipher key_ok "\<lambda>key b. buffer_encr key b 1024" "\<lambda>key b. buffer_decr key b 1024"
  by unfold_locales

interpretation decrypting: file_cipher key_ok "\<lambda>key b. buffer_decr key b 1024" "\<lambda>key b. buffer_encr key b 1024"
  by unfold_locales (rule kernel_cipher.dec_enc kernel_cipher.enc_dec; assumption)+

lemma strlen_key_ok: "strlen key = Done gb \<Longrightarrow> key_ok key"
  by (auto simp: key_ok_def strlen_Done_iff in_set_conv_nth)

text \<open>
  C2: Encrypting a file and decrypting it with the same key gives every block of the disk the contents
  it had, as the kernel sees them through its cache; in between, each block of the file holds a
  permutation of its bytes, and no block outside the file changes.
\<close>

theorem file_encr_decr:
  assumes u: "usable s" and ok: "file_ok (ino i s) k s" and i: "i < length (k_inodes s)" and key: "strlen (global_key c) = Done gb"
  shows "\<exists>s1 s2. file_encr c i s = Done (0, s1) \<and> file_decr c i s1 = Done (0, s2) \<and>
    (\<forall>b<k. mset (view s1 (i_dev (ino i s)) (file_block (ino i s) s b)) = mset (view s (i_dev (ino i s)) (file_block (ino i s) s b)) \<and>
       buffer_encr (global_key c) (view s (i_dev (ino i s)) (file_block (ino i s) s b)) 1024 =
         Done (view s1 (i_dev (ino i s)) (file_block (ino i s) s b))) \<and>
    (\<forall>e m. e \<noteq> 0 \<longrightarrow> (e, m) \<notin> file_blocks (ino i s) k s \<longrightarrow> view s1 e m = view s e m) \<and>
    (\<forall>e m. e \<noteq> 0 \<longrightarrow> view s2 e m = view s e m) \<and> usable s2"
proof -
  let ?n = "ino i s" and ?E = "\<lambda>d. buffer_encr (global_key c) d 1024" and ?D = "\<lambda>d. buffer_decr (global_key c) d 1024"
  obtain t where t: "blocks_loop ?E i 0 s = Done t" "settled s t" "changed ?E ?n 0 k s t" "file_ok ?n k t"
      "\<forall>b<k. file_block ?n t b = file_block ?n s b"
    using encrypting.pass_there [OF u ok strlen_key_ok [OF key]] by blast
  define s1 where "s1 = touch i t"
  have u1: "usable s1" "same_view t s1" "on_disk s1 = on_disk t" "i_dev (ino i s1) = i_dev ?n" "i_zone (ino i s1) = i_zone ?n"
    using settled_usable [OF u t(2)] settled_fields(4) [OF t(2)] by (simp_all add: s1_def same_view_def same_map_touch)
  obtain x where x: "blocks_loop ?D i 0 s1 = Done x" "settled s1 x" "same_view s x"
    using encrypting.pass_back [OF ok strlen_key_ok [OF key] t(3-5) u1] by blast
  have enc: "?E (view s (i_dev ?n) (file_block ?n s b)) = Done (view t (i_dev ?n) (file_block ?n s b))" if "b < k" for b
    using changed_inside [OF t(3) _ that] by simp
  have perm: "mset (view t (i_dev ?n) (file_block ?n s b)) = mset (view s (i_dev ?n) (file_block ?n s b))" if "b < k" for b
    using encr_decr [OF key, of "view s (i_dev ?n) (file_block ?n s b)"] enc [OF that] file_okD(7) [OF ok that] by auto
  have out: "view t e m = view s e m" if "e \<noteq> 0" "(e, m) \<notin> file_blocks ?n k s" for e m
    by (rule changed_outside [OF t(3) that(1)]) (use that(2) in \<open>auto simp: file_blocks_def\<close>)
  have "file_encr c i s = Done (0, s1)" by (simp add: file_encr_def t(1) s1_def)
  moreover have "file_decr c i s1 = Done (0, touch i x)" by (simp add: file_decr_def x(1))
  moreover have "usable (touch i x)" "same_view s (touch i x)" using settled_usable [OF u1(1) x(2)] x(3) by (simp_all add: same_view_def)
  ultimately show ?thesis using enc perm out by (intro exI [of _ s1] exI [of _ "touch i x"]) (auto simp: s1_def same_view_def)
qed

theorem file_encr_decr_witness:
  "let s = one_file [10, 0, 0, 0, 0, 0, 0, 0, 0] (\<lambda>_ m. map (\<lambda>k. of_int m + of_nat k) [0..<1024]);
       c = crypt_init\<lparr>global_key := [98, 97, 0]\<rparr> in
   \<exists>s1 s2. file_encr c 0 s = Done (0, s1) \<and> file_decr c 0 s1 = Done (0, s2) \<and> mset (view s1 0x301 10) = mset (view s 0x301 10) \<and>
     view s2 0x301 10 = view s 0x301 10"
proof -
  let ?s = "one_file [10, 0, 0, 0, 0, 0, 0, 0, 0] (\<lambda>_ m. map (\<lambda>k. of_int m + of_nat k) [0..<1024])"
  let ?c = "crypt_init\<lparr>global_key := [98, 97, 0]\<rparr>"
  have ok: "file_ok (ino 0 ?s) 1 ?s"
    by (auto simp: file_ok_def meta_ok_def meta_def file_block_def ind_def inj_on_def simp del: upt_Suc)
  have key: "strlen (global_key ?c) = Done 2" by (simp add: crypt_init_def strlen_Done_iff nth_Cons split: nat.splits)
  have fb: "file_block (ino 0 ?s) ?s 0 = 10" "i_dev (ino 0 ?s) = 0x301" by (simp_all add: file_block_def)
  have i: "0 < length (k_inodes ?s)" by simp
  from file_encr_decr [OF one_file_simps(1) ok i key] fb show ?thesis
    unfolding Let_def by (elim exE conjE) (intro exI conjI, assumption, assumption, auto)
qed

end
