(* ===== verification/HdDriver.thy ===== *)
theory HdDriver
  imports Inode
begin

text \<open>
  The hard disk driver below the buffer cache, src/kernel/hd.c: the table of requests with the
  linked queue through it, the elevator of \<open>add_request\<close>, the registers of the controller, and the
  interrupt routines. A request is an index into \<open>request\<close>. What the controller answers is an
  argument: \<open>io k p\<close> is the value that the \<open>k\<close>-th read of a port gives when the port is \<open>p\<close>; what is
  written to the ports is logged in \<open>hd_log\<close>, in order.
\<close>

unbundle bit_operations_syntax

section \<open>Data\<close>

definition NR_REQUEST :: nat where "NR_REQUEST = 32"
definition MAX_ERRORS :: int where "MAX_ERRORS = 5"
definition MAX_HD :: nat where "MAX_HD = 2"

text \<open>\<open>HD_TYPE\<close> of config.h: heads, sectors per track, cylinders.\<close>

definition HD_HEAD :: int where "HD_HEAD = 4"
definition HD_SECT :: int where "HD_SECT = 20"
definition HD_CYL :: int where "HD_CYL = 1024"

record hd_request =
  rq_hd :: int
  rq_nsector :: int
  rq_sector :: int
  rq_head :: int
  rq_cyl :: int
  rq_cmd :: int
  rq_errors :: int
  rq_bh :: nat
  rq_next :: "nat option"

text \<open>The routines that \<open>do_hd\<close> can point to.\<close>

datatype hd_handler = Read_intr | Write_intr | Do_request

record hd_state =
  hd_fs :: fs_state
  hd_parts :: "(int \<times> int) list"
  request :: "hd_request list"
  this_request :: "nat option"
  sorting :: int
  do_hd :: "hd_handler option"
  wait_for_request :: "nat option"
  hd_reads :: nat
  hd_log :: "(int \<times> int) list"

type_synonym ports = "nat \<Rightarrow> int \<Rightarrow> int"

definition upd_req :: "nat \<Rightarrow> (hd_request \<Rightarrow> hd_request) \<Rightarrow> hd_state \<Rightarrow> hd_state" where
  "upd_req r f s = s\<lparr>request := (request s)[r := f (request s ! r)]\<rparr>"

definition hd_upd_buf :: "nat \<Rightarrow> (buffer_head \<Rightarrow> buffer_head) \<Rightarrow> hd_state \<Rightarrow> hd_state" where
  "hd_upd_buf b f s = s\<lparr>hd_fs := upd_buf b f (hd_fs s)\<rparr>"

section \<open>Ports\<close>

definition HD_DATA :: int where "HD_DATA = 0x1f0"
definition HD_ERROR :: int where "HD_ERROR = 0x1f1"
definition HD_STATUS :: int where "HD_STATUS = 0x1f7"
definition HD_CMD :: int where "HD_CMD = 0x3f6"
definition ERR_STAT :: int where "ERR_STAT = 0x01"
definition DRQ_STAT :: int where "DRQ_STAT = 0x08"
definition SEEK_STAT :: int where "SEEK_STAT = 0x10"
definition WRERR_STAT :: int where "WRERR_STAT = 0x20"
definition READY_STAT :: int where "READY_STAT = 0x40"
definition BUSY_STAT :: int where "BUSY_STAT = 0x80"
definition WIN_READ :: int where "WIN_READ = 0x20"
definition WIN_WRITE :: int where "WIN_WRITE = 0x30"
definition WIN_SPECIFY :: int where "WIN_SPECIFY = 0x91"

lemmas hd_consts = HD_DATA_def HD_ERROR_def HD_STATUS_def HD_CMD_def ERR_STAT_def DRQ_STAT_def SEEK_STAT_def WRERR_STAT_def
  READY_STAT_def BUSY_STAT_def WIN_READ_def WIN_WRITE_def WIN_SPECIFY_def NR_REQUEST_def MAX_ERRORS_def MAX_HD_def
  HD_HEAD_def HD_SECT_def HD_CYL_def

definition inb :: "ports \<Rightarrow> int \<Rightarrow> hd_state \<Rightarrow> int \<times> hd_state" where
  "inb io p s = (u8 (io (hd_reads s) p), s\<lparr>hd_reads := Suc (hd_reads s)\<rparr>)"

definition outb :: "int \<Rightarrow> int \<Rightarrow> hd_state \<Rightarrow> hd_state" where
  "outb v p s = s\<lparr>hd_log := hd_log s @ [(p, u8 v)]\<rparr>"

text \<open>\<open>rep insw\<close>: \<open>n\<close> 16-bit words from a port into the bytes from \<open>off\<close> on.\<close>

fun insw :: "ports \<Rightarrow> nat \<Rightarrow> int \<Rightarrow> nat \<Rightarrow> nat \<Rightarrow> byte list \<Rightarrow> byte list" where
  "insw io k p 0 off d = d"
| "insw io k p (Suc n) off d =
     insw io (Suc k) p n (off + 2) (d[off := word_of_int (io k p), Suc off := word_of_int (io k p div 256)])"

definition port_read :: "ports \<Rightarrow> nat \<Rightarrow> nat \<Rightarrow> nat \<Rightarrow> hd_state \<Rightarrow> hd_state" where
  "port_read io b off nr s =
     (hd_upd_buf b (\<lambda>x. x\<lparr>b_data := insw io (hd_reads s) HD_DATA nr off (b_data x)\<rparr>) s)\<lparr>hd_reads := hd_reads s + nr\<rparr>"

definition port_write :: "nat \<Rightarrow> nat \<Rightarrow> nat \<Rightarrow> hd_state \<Rightarrow> hd_state" where
  "port_write b off nr s =
     (let d = b_data (buf b (hd_fs s)) in
      s\<lparr>hd_log := hd_log s @ map (\<lambda>k. (HD_DATA, uint (d ! (off + 2 * k)) + 256 * uint (d ! (off + 2 * k + 1)))) [0..<nr]\<rparr>)"

section \<open>The controller\<close>

fun ready_loop :: "ports \<Rightarrow> nat \<Rightarrow> hd_state \<Rightarrow> int \<times> hd_state" where
  "ready_loop io 0 s = (0, s)"
| "ready_loop io (Suc retries) s =
     (if retries = 0 then (0, s)
      else let (v, s) = inb io HD_STATUS s in
           if v AND 0xc0 \<noteq> 0x40 then ready_loop io retries s else (int retries, s))"

definition controller_ready :: "ports \<Rightarrow> hd_state \<Rightarrow> int \<times> hd_state" where
  "controller_ready io s = ready_loop io 1000 s"

definition win_result :: "ports \<Rightarrow> hd_state \<Rightarrow> int \<times> hd_state" where
  "win_result io s =
     (let (i, s) = inb io HD_STATUS s in
      if i AND (BUSY_STAT OR READY_STAT OR WRERR_STAT OR SEEK_STAT OR ERR_STAT) = READY_STAT OR SEEK_STAT then (0, s)
      else (1, if i AND 1 \<noteq> 0 then snd (inb io HD_ERROR s) else s))"

definition hd_out :: "ports \<Rightarrow> int \<Rightarrow> int \<Rightarrow> int \<Rightarrow> int \<Rightarrow> int \<Rightarrow> int \<Rightarrow> hd_handler \<Rightarrow> hd_state \<Rightarrow> hd_state outcome" where
  "hd_out io drive nsect sect head cyl cmd intr_addr s =
     (if u32 drive > 1 \<or> u32 head > 15 then Panic ''Trying to write bad sector''
      else
        let (r, s) = controller_ready io s in
        if r = 0 then Panic ''HD controller not ready''
        else
          let s = s\<lparr>do_hd := Some intr_addr\<rparr>;
              s = outb 0 HD_CMD s;
              s = outb (-1) (HD_DATA + 1) s;
              s = outb nsect (HD_DATA + 2) s;
              s = outb sect (HD_DATA + 3) s;
              s = outb cyl (HD_DATA + 4) s;
              s = outb (u32 cyl div 256) (HD_DATA + 5) s;
              s = outb (0xB0 OR (u32 drive * 16) OR u32 head) (HD_DATA + 6) s
          in Done (outb cmd (HD_DATA + 7) s))"

fun busy_loop :: "ports \<Rightarrow> nat \<Rightarrow> hd_state \<Rightarrow> hd_state" where
  "busy_loop io 0 s = s"
| "busy_loop io (Suc n) s =
     (let (v, s) = inb io HD_STATUS s in
      if READY_STAT = v AND (BUSY_STAT OR READY_STAT) then s else busy_loop io n s)"

definition drive_busy :: "ports \<Rightarrow> hd_state \<Rightarrow> int \<times> hd_state" where
  "drive_busy io s =
     (let (i, s) = inb io HD_STATUS (busy_loop io 100000 s) in
      if i AND (BUSY_STAT OR READY_STAT OR SEEK_STAT) = READY_STAT OR SEEK_STAT then (0, s) else (1, s))"

fun reset_loop :: "ports \<Rightarrow> nat \<Rightarrow> hd_state \<Rightarrow> hd_state" where
  "reset_loop io 0 s = s"
| "reset_loop io (Suc n) s = (let (r, s) = drive_busy io s in if r \<noteq> 0 then reset_loop io n s else s)"

definition reset_controller :: "ports \<Rightarrow> hd_state \<Rightarrow> hd_state" where
  "reset_controller io s =
     (let s = outb 0 HD_CMD (outb 4 HD_CMD s);
          s = reset_loop io 10000 s;
          s = snd (drive_busy io s)
      in snd (inb io HD_STATUS s))"

definition reset_hd :: "ports \<Rightarrow> int \<Rightarrow> hd_state \<Rightarrow> hd_state outcome" where
  "reset_hd io nr s =
     hd_out io nr HD_SECT HD_SECT (HD_HEAD - 1) HD_CYL WIN_SPECIFY Do_request (reset_controller io s)"

section \<open>Buffers and sleepers\<close>

definition lock_buffer :: "nat \<Rightarrow> hd_state \<Rightarrow> hd_state" where
  "lock_buffer b s = hd_upd_buf b (\<lambda>x. x\<lparr>b_lock := 1\<rparr>) s"

definition unlock_buffer :: "nat \<Rightarrow> hd_state \<Rightarrow> hd_state" where
  "unlock_buffer b s =
     (let s = hd_upd_buf b (\<lambda>x. x\<lparr>b_lock := 0\<rparr>) s;
          (p, sc) = wake_up (b_wait (buf b (hd_fs s))) (k_sched (hd_fs s))
      in hd_upd_buf b (\<lambda>x. x\<lparr>b_wait := p\<rparr>) (s\<lparr>hd_fs := (hd_fs s)\<lparr>k_sched := sc\<rparr>\<rparr>))"

definition wake_requesters :: "hd_state \<Rightarrow> hd_state" where
  "wake_requesters s =
     (let (p, sc) = wake_up (wait_for_request s) (k_sched (hd_fs s))
      in s\<lparr>wait_for_request := p, hd_fs := (hd_fs s)\<lparr>k_sched := sc\<rparr>\<rparr>)"

section \<open>Starting a request\<close>

fun poll_drq :: "ports \<Rightarrow> nat \<Rightarrow> hd_state \<Rightarrow> int \<times> hd_state" where
  "poll_drq io 0 s = (0, s)"
| "poll_drq io (Suc n) s =
     (let (v, s) = inb io HD_STATUS s; r = v AND DRQ_STAT in if r = 0 then poll_drq io n s else (r, s))"

definition do_request :: "ports \<Rightarrow> hd_state \<Rightarrow> hd_state outcome" where
  "do_request io s =
     (if sorting s \<noteq> 0 then Done s
      else case this_request s of
        None \<Rightarrow> Done (s\<lparr>do_hd := None\<rparr>)
      | Some r \<Rightarrow>
          let q = request s ! r in
          if rq_cmd q = WIN_WRITE then
            obind (hd_out io (rq_hd q) (rq_nsector q) (rq_sector q) (rq_head q) (rq_cyl q) (rq_cmd q) Write_intr s) (\<lambda>s.
            let (d, s) = poll_drq io 3000 s in
            if d = 0 then reset_hd io (rq_hd q) s
            else Done (port_write (rq_bh q) (512 * nat (rq_nsector q AND 1)) 256 s))
          else if rq_cmd q = WIN_READ then
            hd_out io (rq_hd q) (rq_nsector q) (rq_sector q) (rq_head q) (rq_cyl q) (rq_cmd q) Read_intr s
          else Panic ''unknown hd-command'')"

section \<open>Interrupts\<close>

definition bad_rw_intr :: "ports \<Rightarrow> hd_state \<Rightarrow> hd_state outcome" where
  "bad_rw_intr io s =
     (case this_request s of
        None \<Rightarrow> Oob
      | Some r \<Rightarrow>
          let q = request s ! r; s = upd_req r (\<lambda>q. q\<lparr>rq_errors := s32 (rq_errors q + 1)\<rparr>) s;
              s = (if rq_errors q \<ge> MAX_ERRORS then
                     let s = hd_upd_buf (rq_bh q) (\<lambda>x. x\<lparr>b_uptodate := 0\<rparr>) s;
                         s = wake_requesters (unlock_buffer (rq_bh q) s)
                     in (upd_req r (\<lambda>q. q\<lparr>rq_hd := -1\<rparr>) s)\<lparr>this_request := rq_next q\<rparr>
                   else s)
          in reset_hd io (rq_hd q) s)"

text \<open>The common end of \<open>read_intr\<close> and \<open>write_intr\<close>: the request is done, the next one starts.\<close>

definition end_request :: "ports \<Rightarrow> hd_state \<Rightarrow> hd_state outcome" where
  "end_request io s =
     (case this_request s of
        None \<Rightarrow> Oob
      | Some r \<Rightarrow>
          let b = rq_bh (request s ! r);
              s = hd_upd_buf b (\<lambda>x. x\<lparr>b_uptodate := 1, b_dirt := 0\<rparr>) s;
              s = unlock_buffer b (wake_requesters s);
              s = (upd_req r (\<lambda>q. q\<lparr>rq_hd := -1\<rparr>) s)\<lparr>this_request := rq_next (request s ! r)\<rparr>
          in do_request io s)"

text \<open>
  The routine of a read. The first sector is taken and the request is ended in the same call; the
  second sector is taken by an interrupt that arrives right after the transfer of the first one,
  before the next statement. \<open>nest\<close> is the number of interrupts that arrive there.
\<close>

fun read_intr :: "ports \<Rightarrow> nat \<Rightarrow> hd_state \<Rightarrow> hd_state outcome" where
  "read_intr io nest s =
     (let (w, s) = win_result io s in
      if w \<noteq> 0 then bad_rw_intr io s
      else case this_request s of
        None \<Rightarrow> Oob
      | Some r \<Rightarrow>
          if rq_nsector (request s ! r) = 2 then
            let s = upd_req r (\<lambda>q. q\<lparr>rq_nsector := 1\<rparr>) s;
                s = port_read io (rq_bh (request s ! r)) 0 256 s
            in obind (case nest of 0 \<Rightarrow> Done s | Suc n \<Rightarrow> read_intr io n s) (\<lambda>s.
               case this_request s of
                 None \<Rightarrow> Oob
               | Some r \<Rightarrow> end_request io (upd_req r (\<lambda>q. q\<lparr>rq_errors := 0\<rparr>) s))
          else Done (port_read io (rq_bh (request s ! r)) 512 256 s))"

declare read_intr.simps [simp del]

definition write_intr :: "ports \<Rightarrow> hd_state \<Rightarrow> hd_state outcome" where
  "write_intr io s =
     (let (w, s) = win_result io s in
      if w \<noteq> 0 then bad_rw_intr io s
      else case this_request s of
        None \<Rightarrow> Oob
      | Some r \<Rightarrow>
          let s = upd_req r (\<lambda>q. q\<lparr>rq_nsector := s32 (rq_nsector q - 1)\<rparr>) s in
          if rq_nsector (request s ! r) \<noteq> 0 then Done (port_write (rq_bh (request s ! r)) 512 256 s)
          else end_request io s)"

text \<open>An interrupt calls \<open>do_hd\<close>, or \<open>unexpected_hd_interrupt\<close> when it is null.\<close>

definition hd_interrupt :: "ports \<Rightarrow> nat \<Rightarrow> hd_state \<Rightarrow> hd_state outcome" where
  "hd_interrupt io nest s =
     (case do_hd s of
        None \<Rightarrow> Panic ''Unexpected HD interrupt''
      | Some Read_intr \<Rightarrow> read_intr io nest s
      | Some Write_intr \<Rightarrow> write_intr io s
      | Some Do_request \<Rightarrow> do_request io s)"

section \<open>The elevator\<close>

definition IN_ORDER :: "hd_request \<Rightarrow> hd_request \<Rightarrow> bool" where
  "IN_ORDER s1 s2 \<longleftrightarrow>
     (rq_hd s1 < rq_hd s2 \<or> rq_hd s1 = rq_hd s2) \<and>
     ((rq_cyl s1 < rq_cyl s2 \<or> rq_cyl s1 = rq_cyl s2) \<and>
      ((rq_head s1 < rq_head s2 \<or> rq_head s1 = rq_head s2) \<and> rq_sector s1 < rq_sector s2))"

text \<open>
  The place where a request goes: the entry after which it is linked. The walk along the queue
  visits at most all requests of the table; \<open>Fuel\<close> is a queue that never ends.
\<close>

fun find_place :: "nat \<Rightarrow> hd_request list \<Rightarrow> nat \<Rightarrow> nat \<Rightarrow> nat outcome" where
  "find_place 0 rs req tmp = Fuel"
| "find_place (Suc n) rs req tmp =
     (case rq_next (rs ! tmp) of
        None \<Rightarrow> Done tmp
      | Some nx \<Rightarrow>
          if (IN_ORDER (rs ! tmp) (rs ! req) \<or> \<not> IN_ORDER (rs ! tmp) (rs ! nx)) \<and> IN_ORDER (rs ! req) (rs ! nx) then Done tmp
          else find_place n rs req nx)"

definition add_request :: "ports \<Rightarrow> nat \<Rightarrow> hd_state \<Rightarrow> hd_state outcome" where
  "add_request io req s =
     (if rq_nsector (request s ! req) \<noteq> 2 then Panic ''nsector!=2 not implemented''
      else
        let s = s\<lparr>sorting := 1\<rparr> in
        obind (case this_request s of
            None \<Rightarrow> Done (s\<lparr>this_request := Some req\<rparr>)
          | Some tmp \<Rightarrow>
              (case rq_next (request s ! tmp) of
                 None \<Rightarrow> Done (upd_req tmp (\<lambda>q. q\<lparr>rq_next := Some req\<rparr>) s)
               | Some nx \<Rightarrow>
                   obind (find_place (length (request s)) (request s) req nx) (\<lambda>tmp.
                   let s = upd_req req (\<lambda>q. q\<lparr>rq_next := rq_next (request s ! tmp)\<rparr>) s
                   in Done (upd_req tmp (\<lambda>q. q\<lparr>rq_next := Some req\<rparr>) s))))
          (\<lambda>s. let s = s\<lparr>sorting := 0\<rparr> in if do_hd s = None then do_request io s else Done s))"

section \<open>A transfer\<close>

text \<open>
  Everything of \<open>rw_abs_hd\<close> up to the wait for the buffer: \<open>Sleep\<close> is the wait for a free request.
\<close>

definition free_request :: "hd_state \<Rightarrow> nat option" where
  "free_request s = find (\<lambda>r. rq_hd (request s ! r) < 0) [0..<length (request s)]"

definition queue_request :: "ports \<Rightarrow> bool \<Rightarrow> int \<Rightarrow> int \<Rightarrow> int \<Rightarrow> int \<Rightarrow> nat \<Rightarrow> hd_state \<Rightarrow> hd_state outcome" where
  "queue_request io rw nr sec head cyl b s =
     (let s = lock_buffer b s in
      case free_request s of
        None \<Rightarrow> Sleep
      | Some r \<Rightarrow>
          add_request io r
            (upd_req r (\<lambda>_. \<lparr>rq_hd = nr, rq_nsector = 2, rq_sector = sec, rq_head = head, rq_cyl = cyl,
               rq_cmd = (if rw then WIN_WRITE else WIN_READ), rq_errors = 0, rq_bh = b, rq_next = None\<rparr>) s))"

definition rw_abs_hd :: "ports \<Rightarrow> bool \<Rightarrow> int \<Rightarrow> int \<Rightarrow> int \<Rightarrow> int \<Rightarrow> nat \<Rightarrow> hd_state \<Rightarrow> hd_state outcome" where
  "rw_abs_hd io rw nr sec head cyl b s =
     obind (queue_request io rw nr sec head cyl b s) (\<lambda>s. obind (wait_on_buffer b (hd_fs s)) (\<lambda>_. Done s))"

text \<open>The geometry: drive, sector, head and cylinder of the first sector of a buffer's block.\<close>

definition hd_chs :: "nat \<Rightarrow> hd_state \<Rightarrow> (int \<times> int \<times> int \<times> int) option" where
  "hd_chs b s =
     (let x = buf b (hd_fs s); block = u32 (b_blocknr x * 2); dev = MINOR (b_dev x) in
      if dev \<ge> 5 * NR_HD \<or> u32 (block + 2) > u32 (snd (hd_parts s ! nat dev)) then None
      else let block = u32 (block + fst (hd_parts s ! nat dev)); dev = dev div 5;
               sec = block mod HD_SECT; track = block div HD_SECT; head = track mod HD_HEAD; cyl = track div HD_HEAD
           in Some (dev, sec + 1, head, cyl))"

definition hd_rw :: "ports \<Rightarrow> bool \<Rightarrow> nat \<Rightarrow> hd_state \<Rightarrow> hd_state outcome" where
  "hd_rw io rw b s =
     (case hd_chs b s of None \<Rightarrow> Done s | Some (dev, sec, head, cyl) \<Rightarrow> rw_abs_hd io rw dev sec head cyl b s)"

section \<open>Initialisation\<close>

definition hd_init :: "ports \<Rightarrow> hd_state \<Rightarrow> hd_state" where
  "hd_init io s =
     (let s = s\<lparr>request := map (\<lambda>q. q\<lparr>rq_hd := -1, rq_next := None\<rparr>) (request s),
                hd_parts := (hd_parts s)[0 := (0, HD_HEAD * HD_SECT * HD_CYL)]\<rparr>;
          (v, s) = inb io 0x21 s;
          s = outb (v AND 0xfb) 0x21 s;
          (v, s) = inb io 0xA1 s
      in outb (v AND 0xbf) 0xA1 s)"

text \<open>
  \<open>sys_setup\<close> for one drive, after the sector with the partition table was read into the buffer \<open>b\<close>.
\<close>

definition setup_drive :: "nat \<Rightarrow> nat \<Rightarrow> hd_state \<Rightarrow> hd_state outcome" where
  "setup_drive drive b s =
     (let x = buf b (hd_fs s); d = b_data x in
      if b_uptodate x = 0 then Panic []
      else if d ! 510 \<noteq> 0x55 \<or> d ! 511 \<noteq> 0xAA then Panic []
      else Done (s\<lparr>hd_parts := fold (\<lambda>i ps. ps[i + 5 * drive := (s32 (get32 (0x1BE + 16 * (i - 1) + 8) d), s32 (get32 (0x1BE + 16 * (i - 1) + 12) d))])
                     [1..<5] (hd_parts s)\<rparr>))"

end
