(* ===== verification/HdProps.thy ===== *)
theory HdProps
  imports HdDriver BufferProps
begin

text \<open>
  Correctness of the hard disk driver: the queue of requests is a list without repetitions of the
  requests in use, and stays so under every operation and interrupt; a new request is put into it in
  the order of the elevator; the geometry names sectors of the disk; a read delivers both sectors.
\<close>

unbundle bit_operations_syntax

section \<open>The queue\<close>

fun chain :: "hd_request list \<Rightarrow> nat option \<Rightarrow> nat list \<Rightarrow> bool" where
  "chain rs p [] \<longleftrightarrow> p = None"
| "chain rs p (x # xs) \<longleftrightarrow> p = Some x \<and> x < length rs \<and> chain rs (rq_next (rs ! x)) xs"

lemma chain_unique: "chain rs p xs \<Longrightarrow> chain rs p ys \<Longrightarrow> xs = ys"
proof (induction xs arbitrary: p ys)
  case Nil
  then show ?case by (cases ys) auto
next
  case (Cons x xs)
  then show ?case by (cases ys) auto
qed

lemma chain_range: "chain rs p xs \<Longrightarrow> set xs \<subseteq> {..<length rs}"
  by (induction xs arbitrary: p) auto

lemma chain_cong:
  "(\<And>r. r \<in> set xs \<Longrightarrow> rq_next (rs' ! r) = rq_next (rs ! r)) \<Longrightarrow> length rs' = length rs \<Longrightarrow> chain rs' p xs = chain rs p xs"
  by (induction xs arbitrary: p) auto

lemma chain_update: "r \<notin> set xs \<Longrightarrow> chain (rs[r := q]) p xs = chain rs p xs"
  by (rule chain_cong) (metis nth_list_update_neq, simp)

text \<open>The list of the requests in the queue, and the invariant of the table.\<close>

definition hd_ok :: "nat list \<Rightarrow> hd_state \<Rightarrow> bool" where
  "hd_ok xs s \<longleftrightarrow> chain (request s) (this_request s) xs \<and> distinct xs \<and>
     (\<forall>r<length (request s). r \<in> set xs \<longleftrightarrow> 0 \<le> rq_hd (request s ! r))"

section \<open>The elevator on lists\<close>

fun elevator :: "hd_request list \<Rightarrow> nat \<Rightarrow> nat list \<Rightarrow> nat list" where
  "elevator rs req [] = [req]"
| "elevator rs req [x] = [x, req]"
| "elevator rs req (x # y # ys) =
     (if (IN_ORDER (rs ! x) (rs ! req) \<or> \<not> IN_ORDER (rs ! x) (rs ! y)) \<and> IN_ORDER (rs ! req) (rs ! y) then x # req # y # ys
      else x # elevator rs req (y # ys))"

fun enqueue :: "hd_request list \<Rightarrow> nat \<Rightarrow> nat list \<Rightarrow> nat list" where
  "enqueue rs req (x # y # ys) = x # elevator rs req (y # ys)"
| "enqueue rs req xs = xs @ [req]"

lemma mset_elevator: "mset (elevator rs req xs) = add_mset req (mset xs)"
  by (induction rs req xs rule: elevator.induct) auto

lemma mset_enqueue: "mset (enqueue rs req xs) = add_mset req (mset xs)"
  by (cases "(rs, req, xs)" rule: enqueue.cases) (auto simp: mset_elevator)

lemma elevator_keeps: "req \<notin> set xs \<Longrightarrow> filter (\<lambda>r. r \<noteq> req) (elevator rs req xs) = xs"
  by (induction rs req xs rule: elevator.induct) (auto simp: filter_id_conv)

lemma elevator_Cons: "\<exists>zs. elevator rs req (y # ys) = y # zs"
  by (cases ys) auto

lemma enqueue_keeps:
  assumes "req \<notin> set xs"
  shows "filter (\<lambda>r. r \<noteq> req) (enqueue rs req xs) = xs" "take 2 (enqueue rs req xs) = take 2 (xs @ [req])"
proof -
  show "filter (\<lambda>r. r \<noteq> req) (enqueue rs req xs) = xs"
    using assms by (cases "(rs, req, xs)" rule: enqueue.cases) (auto simp: elevator_keeps)
  show "take 2 (enqueue rs req xs) = take 2 (xs @ [req])"
  proof (cases "(rs, req, xs)" rule: enqueue.cases)
    case (1 rs req x y ys)
    obtain zs where "elevator rs req (y # ys) = y # zs" using elevator_Cons by blast
    then show ?thesis using 1 by (simp add: numeral_2_eq_2)
  qed (simp_all add: numeral_2_eq_2)
qed

text \<open>On a sorted queue, a request that is comparable with the others goes to its place.\<close>

lemma IN_ORDER_trans: "IN_ORDER a b \<Longrightarrow> IN_ORDER b c \<Longrightarrow> IN_ORDER a c"
  by (auto simp: IN_ORDER_def)

lemma IN_ORDER_asym: "IN_ORDER a b \<Longrightarrow> \<not> IN_ORDER b a"
  by (auto simp: IN_ORDER_def)

definition ascending :: "hd_request list \<Rightarrow> nat list \<Rightarrow> bool" where
  "ascending rs xs \<longleftrightarrow> sorted_wrt (\<lambda>a b. IN_ORDER (rs ! a) (rs ! b)) xs"

lemma ascending_cong:
  "(\<And>a b. a \<in> set xs \<Longrightarrow> b \<in> set xs \<Longrightarrow> IN_ORDER (rs' ! a) (rs' ! b) = IN_ORDER (rs ! a) (rs ! b)) \<Longrightarrow> ascending rs' xs = ascending rs xs"
  unfolding ascending_def by (induction xs) auto

lemma elevator_ascending:
  assumes "ascending rs xs" "xs \<noteq> []" "IN_ORDER (rs ! hd xs) (rs ! req)"
    "\<forall>y\<in>set xs. IN_ORDER (rs ! req) (rs ! y) \<or> IN_ORDER (rs ! y) (rs ! req)"
  shows "ascending rs (elevator rs req xs)"
  using assms unfolding ascending_def
proof (induction rs req xs rule: elevator.induct)
  case (3 rs req x y ys)
  show ?case
  proof (cases "IN_ORDER (rs ! req) (rs ! y)")
    case True
    then show ?thesis using 3 by (auto intro: IN_ORDER_trans)
  next
    case False
    then have yr: "IN_ORDER (rs ! y) (rs ! req)" using 3 by auto
    have set: "set (elevator rs req (y # ys)) = insert req (set (y # ys))" by (metis mset_elevator set_mset_add_mset_insert set_mset_mset)
    have "sorted_wrt (\<lambda>a b. IN_ORDER (rs ! a) (rs ! b)) (elevator rs req (y # ys))" using 3 False yr by auto
    moreover have "\<forall>z\<in>set (elevator rs req (y # ys)). IN_ORDER (rs ! x) (rs ! z)" unfolding set using 3 by auto
    ultimately show ?thesis using False by simp
  qed
qed auto

section \<open>The elevator on the linked queue\<close>

lemma find_place_ok:
  assumes "chain rs (Some x) (x # xs)" "length xs < n"
  shows "\<exists>us t vs. x # xs = us @ t # vs \<and> find_place n rs req x = Done t \<and> elevator rs req (x # xs) = us @ t # req # vs"
  using assms
proof (induction n arbitrary: x xs)
  case (Suc n)
  show ?case
  proof (cases xs)
    case Nil
    then show ?thesis using Suc.prems by (intro exI [of _ "[]"] exI [of _ x]) auto
  next
    case (Cons y ys)
    then have c: "chain rs (Some y) (y # ys)" "rq_next (rs ! x) = Some y" "length ys < n" using Suc.prems by auto
    show ?thesis
    proof (cases "(IN_ORDER (rs ! x) (rs ! req) \<or> \<not> IN_ORDER (rs ! x) (rs ! y)) \<and> IN_ORDER (rs ! req) (rs ! y)")
      case True
      then show ?thesis using c(2) Cons by (intro exI [of _ "[]"] exI [of _ x] exI [of _ "y # ys"]) auto
    next
      case False
      obtain us t vs where i: "y # ys = us @ t # vs" "find_place n rs req y = Done t" "elevator rs req (y # ys) = us @ t # req # vs"
        using Suc.IH [OF c(1,3)] by blast
      have "find_place (Suc n) rs req x = Done t" using c(2) i(2) False by auto
      moreover have "elevator rs req (x # xs) = (x # us) @ t # req # vs" using Cons False i(3) by auto
      ultimately show ?thesis using i(1) Cons by (intro exI [of _ "x # us"]) auto
    qed
  qed
qed simp

lemma chain_link:
  assumes "chain rs p (us @ t # vs)" "distinct (us @ t # vs)" "req \<notin> set (us @ t # vs)" "req < length rs"
  shows "chain (rs[req := (rs ! req)\<lparr>rq_next := rq_next (rs ! t)\<rparr>, t := (rs ! t)\<lparr>rq_next := Some req\<rparr>]) p (us @ t # req # vs)"
  using assms
proof (induction us arbitrary: p)
  case Nil
  let ?rs = "rs[req := (rs ! req)\<lparr>rq_next := rq_next (rs ! t)\<rparr>, t := (rs ! t)\<lparr>rq_next := Some req\<rparr>]"
  have "chain ?rs (rq_next (rs ! t)) vs" using Nil by (simp add: chain_update)
  then show ?case using Nil by auto
next
  case (Cons u us)
  then show ?case by auto
qed


section \<open>The controller does not touch the queue\<close>

definition same_queue :: "hd_state \<Rightarrow> hd_state \<Rightarrow> bool" where
  "same_queue s s' \<longleftrightarrow> request s' = request s \<and> this_request s' = this_request s \<and> sorting s' = sorting s \<and> hd_fs s' = hd_fs s"

lemma same_queue_refl [simp]: "same_queue s s"
  by (simp add: same_queue_def)

lemma same_queue_trans: "same_queue s t \<Longrightarrow> same_queue t u \<Longrightarrow> same_queue s u"
  by (simp add: same_queue_def)

lemma same_inb: "inb io p s = (v, s') \<Longrightarrow> same_queue s s'"
  by (auto simp: inb_def same_queue_def)

lemma same_ready: "ready_loop io n s = (v, s') \<Longrightarrow> same_queue s s'"
  by (induction n arbitrary: s) (auto simp: split_beta Let_def inb_def same_queue_def split: if_splits)

lemma same_busy: "same_queue s (busy_loop io n s)"
  by (induction n arbitrary: s) (auto simp: split_beta Let_def inb_def same_queue_def)

lemma same_drive_busy: "same_queue s (snd (drive_busy io s))"
  using same_busy [of s io 100000] by (auto simp: drive_busy_def split_beta Let_def inb_def same_queue_def)

lemma same_reset_loop: "same_queue s (reset_loop io n s)"
proof (induction n arbitrary: s)
  case (Suc n)
  show ?case using Suc [of "snd (drive_busy io s)"] same_drive_busy [of s io] by (auto simp: split_beta Let_def intro: same_queue_trans)
qed simp

lemma same_reset_controller: "same_queue s (reset_controller io s)"
proof -
  let ?t = "outb 0 HD_CMD (outb 4 HD_CMD s)"
  have "same_queue s ?t" by (simp add: outb_def same_queue_def)
  moreover have "same_queue ?t (snd (drive_busy io (reset_loop io 10000 ?t)))"
    by (rule same_queue_trans [OF same_reset_loop same_drive_busy])
  ultimately show ?thesis by (simp add: reset_controller_def Let_def inb_def same_queue_def)
qed

lemma same_hd_out: "hd_out io d n sc h c cmd f s = Done s' \<Longrightarrow> same_queue s s'"
  using same_ready [of io 1000 s "fst (controller_ready io s)" "snd (controller_ready io s)"]
  by (auto simp: hd_out_def controller_ready_def split_beta Let_def outb_def same_queue_def split: if_splits)

lemma same_reset_hd: "reset_hd io n s = Done s' \<Longrightarrow> same_queue s s'"
  unfolding reset_hd_def by (blast intro: same_queue_trans [OF same_reset_controller] same_hd_out)

lemma same_poll: "poll_drq io n s = (v, s') \<Longrightarrow> same_queue s s'"
  by (induction n arbitrary: s) (auto simp: split_beta Let_def inb_def same_queue_def split: if_splits)

lemma same_win_result: "win_result io s = (v, s') \<Longrightarrow> same_queue s s'"
  by (auto simp: win_result_def split_beta Let_def inb_def same_queue_def split: if_splits)

lemma same_port_write: "same_queue s (port_write b off nr s)"
  by (simp add: port_write_def Let_def same_queue_def)

lemma same_do_request:
  assumes d: "do_request io s = Done s'"
  shows "same_queue s s'"
proof (cases "sorting s = 0 \<and> this_request s \<noteq> None")
  case False
  then show ?thesis using d by (auto simp: do_request_def same_queue_def split: if_splits)
next
  case True
  then obtain r where s: "sorting s = 0" "this_request s = Some r" by blast
  let ?q = "request s ! r"
  show ?thesis
  proof (cases "rq_cmd ?q = WIN_WRITE")
    case True
    obtain t where t: "hd_out io (rq_hd ?q) (rq_nsector ?q) (rq_sector ?q) (rq_head ?q) (rq_cyl ?q) (rq_cmd ?q) Write_intr s = Done t"
      "(case poll_drq io 3000 t of (d, s) \<Rightarrow> if d = 0 then reset_hd io (rq_hd ?q) s
        else Done (port_write (rq_bh ?q) (512 * nat (rq_nsector ?q AND 1)) 256 s)) = Done s'"
      using d s True unfolding do_request_def Let_def by (simp only: outcome_simps) (auto simp only: option.case if_True if_False simp_thms obind_Done_iff)
    obtain v u where p: "poll_drq io 3000 t = (v, u)" by fastforce
    have "same_queue u s'"
    proof (cases "v = 0")
      case True
      then show ?thesis using t(2) same_reset_hd by (simp add: p)
    next
      case False
      then have "s' = port_write (rq_bh ?q) (512 * nat (rq_nsector ?q AND 1)) 256 u" using t(2) by (simp add: p)
      then show ?thesis using same_port_write by simp
    qed
    then show ?thesis using same_queue_trans same_hd_out [OF t(1)] same_poll [OF p] by blast
  next
    case False
    then show ?thesis using d s same_hd_out by (auto simp: do_request_def Let_def split: if_splits)
  qed
qed


section \<open>Adding a request\<close>

text \<open>The contents of a request, without its place in the queue.\<close>

definition rq_body :: "hd_request \<Rightarrow> hd_request" where
  "rq_body q = q\<lparr>rq_next := None\<rparr>"

lemma rq_body_eq:
  "rq_body a = rq_body b \<longleftrightarrow> rq_hd a = rq_hd b \<and> rq_nsector a = rq_nsector b \<and> rq_sector a = rq_sector b \<and> rq_head a = rq_head b \<and>
     rq_cyl a = rq_cyl b \<and> rq_cmd a = rq_cmd b \<and> rq_errors a = rq_errors b \<and> rq_bh a = rq_bh b"
  by (cases a; cases b) (simp add: rq_body_def)

definition linked_in :: "nat \<Rightarrow> nat list \<Rightarrow> hd_state \<Rightarrow> hd_state \<Rightarrow> bool" where
  "linked_in req xs s t \<longleftrightarrow> chain (request t) (this_request t) (enqueue (request s) req xs) \<and>
     map rq_body (request t) = map rq_body (request s) \<and> hd_fs t = hd_fs s \<and> do_hd t = do_hd s \<and> sorting t = 0"

lemma map_body_update:
  "rq_body q = rq_body (rs ! r) \<Longrightarrow> map rq_body (rs[r := q]) = map rq_body rs"
  by (metis list_update_id map_update)

lemma add_request_links:
  assumes c: "chain (request s) (this_request s) xs" "distinct xs" "req \<notin> set xs" "req < length (request s)"
    and q: "rq_next (request s ! req) = None" "rq_nsector (request s ! req) = 2"
  shows "\<exists>t. add_request io req s = (if do_hd s = None then do_request io t else Done t) \<and> linked_in req xs s t"
proof (cases xs)
  case Nil
  then have "this_request s = None" using c by simp
  then show ?thesis using Nil c q
    by (intro exI [of _ "s\<lparr>this_request := Some req, sorting := 0\<rparr>"]) (simp add: add_request_def linked_in_def Let_def)
next
  case (Cons x ys)
  then have x: "this_request s = Some x" "x < length (request s)" "chain (request s) (rq_next (request s ! x)) ys" "x \<noteq> req" using c by auto
  show ?thesis
  proof (cases ys)
    case Nil
    let ?t = "(upd_req x (\<lambda>q. q\<lparr>rq_next := Some req\<rparr>) s)\<lparr>sorting := 0\<rparr>"
    have "linked_in req xs s ?t"
      using Nil Cons x c q by (simp add: linked_in_def upd_req_def rq_body_def map_update [symmetric] map_body_update)
    moreover have "add_request io req s = (if do_hd s = None then do_request io ?t else Done ?t)"
      using Nil x q by (simp add: add_request_def upd_req_def Let_def)
    ultimately show ?thesis by blast
  next
    case (Cons y zs)
    let ?rs = "request s"
    have len: "length zs < length ?rs"
    proof -
      have "length xs \<le> length ?rs"
        using c(2) card_mono [OF _ chain_range [OF c(1)]] by (simp add: distinct_card)
      then show ?thesis using \<open>xs = x # ys\<close> Cons by simp
    qed
    have cy: "chain ?rs (Some y) (y # zs)" and nx: "rq_next (?rs ! x) = Some y" using x(3) Cons by auto
    obtain us t vs where f: "y # zs = us @ t # vs" "find_place (length ?rs) ?rs req y = Done t" "elevator ?rs req (y # zs) = us @ t # req # vs"
      using find_place_ok [OF cy len] by blast
    let ?t = "(upd_req t (\<lambda>q. q\<lparr>rq_next := Some req\<rparr>) (upd_req req (\<lambda>q. q\<lparr>rq_next := rq_next (?rs ! t)\<rparr>) s))\<lparr>sorting := 0\<rparr>"
    have xs: "xs = (x # us) @ t # vs" using f(1) Cons \<open>xs = x # ys\<close> by simp
    have tr: "t \<noteq> req" using xs c(3) by auto
    have r: "request ?t = ?rs[req := (?rs ! req)\<lparr>rq_next := rq_next (?rs ! t)\<rparr>, t := (?rs ! t)\<lparr>rq_next := Some req\<rparr>]"
      using tr by (simp add: upd_req_def)
    have "chain (request ?t) (this_request ?t) ((x # us) @ t # req # vs)"
      unfolding r using chain_link [of ?rs "this_request s" "x # us" t vs req] c xs by (simp add: upd_req_def)
    moreover have "map rq_body (request ?t) = map rq_body ?rs"
      unfolding r using tr by (simp add: map_body_update rq_body_def)
    ultimately have "linked_in req xs s ?t" using f(3) Cons \<open>xs = x # ys\<close> by (simp add: linked_in_def upd_req_def)
    moreover have "add_request io req s = (if do_hd s = None then do_request io ?t else Done ?t)"
      using x nx q f(2) by (simp add: add_request_def upd_req_def Let_def)
    ultimately show ?thesis by blast
  qed
qed


lemma hd_ok_body:
  assumes "chain (request t) (this_request t) ys" "distinct ys" "map rq_body (request t) = map rq_body (request s)"
    "\<forall>r<length (request s). r \<in> set ys \<longleftrightarrow> 0 \<le> rq_hd (request s ! r)"
  shows "hd_ok ys t"
proof -
  have l: "length (request t) = length (request s)" using arg_cong [OF assms(3), of length] by simp
  have "rq_hd (request t ! r) = rq_hd (request s ! r)" if "r < length (request s)" for r
    using arg_cong [OF assms(3), of "\<lambda>m. m ! r"] l that by (simp add: rq_body_eq)
  then show ?thesis using assms l by (simp add: hd_ok_def)
qed

section \<open>The invariant\<close>

lemma hd_ok_same: "same_queue s s' \<Longrightarrow> hd_ok xs s' = hd_ok xs s"
  by (simp add: same_queue_def hd_ok_def)

lemma hd_ok_buf [simp]: "hd_ok xs (hd_upd_buf b f s) = hd_ok xs s"
  by (simp add: hd_ok_def hd_upd_buf_def)

lemma hd_ok_wake [simp]: "hd_ok xs (wake_requesters s) = hd_ok xs s"
  by (simp add: hd_ok_def wake_requesters_def split_beta Let_def)

lemma hd_ok_unlock [simp]: "hd_ok xs (unlock_buffer b s) = hd_ok xs s"
  by (simp add: hd_ok_def unlock_buffer_def hd_upd_buf_def split_beta Let_def)

lemma hd_ok_port_read [simp]: "hd_ok xs (port_read io b off nr s) = hd_ok xs s"
  by (simp add: hd_ok_def port_read_def hd_upd_buf_def)

lemma hd_ok_req [simp]:
  assumes "\<And>q. rq_next (f q) = rq_next q" "\<And>q. rq_hd (f q) = rq_hd q"
  shows "hd_ok xs (upd_req r f s) = hd_ok xs s"
proof -
  have n: "rq_next (request (upd_req r f s) ! k) = rq_next (request s ! k)" "rq_hd (request (upd_req r f s) ! k) = rq_hd (request s ! k)" for k
    using assms by (cases "r < length (request s)"; cases "k = r"; simp add: upd_req_def list_update_beyond)+
  have "chain (request (upd_req r f s)) p xs = chain (request s) p xs" for p by (rule chain_cong) (simp_all add: n, simp add: upd_req_def)
  then show ?thesis using n by (simp add: hd_ok_def upd_req_def)
qed

text \<open>The first request leaves the queue.\<close>

lemma hd_ok_drop:
  assumes "hd_ok (x # xs) s"
  shows "hd_ok xs ((upd_req x (\<lambda>q. q\<lparr>rq_hd := -1\<rparr>) s)\<lparr>this_request := rq_next (request s ! x)\<rparr>)"
  using assms by (auto simp: hd_ok_def upd_req_def chain_update nth_list_update)

lemma hd_ok_first: "hd_ok xs s \<Longrightarrow> this_request s = Some r \<Longrightarrow> \<exists>ys. xs = r # ys \<and> r < length (request s)"
  by (cases xs) (auto simp: hd_ok_def)

lemma end_request_ok:
  assumes "hd_ok xs s" "end_request io s = Done s'"
  shows "hd_ok (drop 1 xs) s'"
proof -
  obtain r where r: "this_request s = Some r" using assms(2) by (auto simp: end_request_def split: option.splits)
  then obtain ys where xs: "xs = r # ys" using hd_ok_first [OF assms(1)] by blast
  let ?u = "unlock_buffer (rq_bh (request s ! r)) (wake_requesters (hd_upd_buf (rq_bh (request s ! r)) (\<lambda>x. x\<lparr>b_uptodate := 1, b_dirt := 0\<rparr>) s))"
  let ?t = "(upd_req r (\<lambda>q. q\<lparr>rq_hd := -1\<rparr>) ?u)\<lparr>this_request := rq_next (request ?u ! r)\<rparr>"
  have "do_request io ?t = Done s'" using assms(2) r by (simp add: end_request_def Let_def)
  moreover have "hd_ok ys ?t" by (rule hd_ok_drop) (use assms(1) xs in simp)
  ultimately show ?thesis using hd_ok_same [OF same_do_request] xs by simp
qed

lemma bad_rw_intr_ok:
  assumes "hd_ok xs s" "bad_rw_intr io s = Done s'"
  shows "\<exists>k. hd_ok (drop k xs) s'"
proof -
  obtain r where r: "this_request s = Some r" using assms(2) by (auto simp: bad_rw_intr_def split: option.splits)
  then obtain ys where xs: "xs = r # ys" "r < length (request s)" using hd_ok_first [OF assms(1)] by blast
  let ?q = "request s ! r" and ?e = "upd_req r (\<lambda>q. q\<lparr>rq_errors := s32 (rq_errors q + 1)\<rparr>) s"
  let ?u = "wake_requesters (unlock_buffer (rq_bh ?q) (hd_upd_buf (rq_bh ?q) (\<lambda>x. x\<lparr>b_uptodate := 0\<rparr>) ?e))"
  let ?t = "(upd_req r (\<lambda>q. q\<lparr>rq_hd := -1\<rparr>) ?u)\<lparr>this_request := rq_next ?q\<rparr>"
  have ru: "request ?u = request ?e"
    by (simp add: wake_requesters_def unlock_buffer_def hd_upd_buf_def split_beta Let_def)
  have nq: "rq_next (request ?u ! r) = rq_next ?q" unfolding ru using xs(2) by (simp add: upd_req_def)
  have "hd_ok xs ?u" using assms(1) by simp
  then have t: "hd_ok ys ?t" using hd_ok_drop [of r ys ?u] xs unfolding nq by simp
  have e: "hd_ok xs ?e" using assms(1) by simp
  have b: "reset_hd io (rq_hd ?q) (if rq_errors ?q \<ge> MAX_ERRORS then ?t else ?e) = Done s'"
    using assms(2) r by (auto simp: bad_rw_intr_def Let_def split: if_splits)
  show ?thesis
  proof (cases "rq_errors ?q \<ge> MAX_ERRORS")
    case True
    then show ?thesis using hd_ok_same [OF same_reset_hd [OF b]] t xs(1) by (intro exI [of _ "Suc 0"]) simp
  next
    case False
    then show ?thesis using hd_ok_same [OF same_reset_hd [OF b]] e by (intro exI [of _ 0]) simp
  qed
qed


lemma read_intr_ok: "hd_ok xs s \<Longrightarrow> read_intr io nest s = Done s' \<Longrightarrow> \<exists>k. hd_ok (drop k xs) s'"
proof (induction nest arbitrary: xs s s' rule: less_induct)
  case (less nest)
  obtain w t where w: "win_result io s = (w, t)" by fastforce
  have t: "hd_ok xs t" using hd_ok_same [OF same_win_result [OF w]] less.prems(1) by simp
  note r = less.prems(2) [unfolded read_intr.simps [of io nest s], simplified w prod.case Let_def]
  show ?case
  proof (cases "w = 0")
    case False
    then show ?thesis using r bad_rw_intr_ok [OF t] by simp
  next
    case True
    then obtain q where q: "this_request t = Some q" using r by (auto split: option.splits)
    show ?thesis
    proof (cases "rq_nsector (request t ! q) = 2")
      case False
      then show ?thesis using r q True t by (auto intro: exI [of _ 0])
    next
      case two: True
      let ?u = "upd_req q (\<lambda>q. q\<lparr>rq_nsector := 1\<rparr>) t"
      let ?t = "port_read io (rq_bh (request ?u ! q)) 0 256 ?u"
      obtain v p where v: "(case nest of 0 \<Rightarrow> Done ?t | Suc n \<Rightarrow> read_intr io n ?t) = Done v" "this_request v = Some p"
        "end_request io (upd_req p (\<lambda>q. q\<lparr>rq_errors := 0\<rparr>) v) = Done s'"
        using r q True two by (auto simp: outcome_simps split: option.splits)
      have ok: "hd_ok xs ?t" using t by simp
      have "\<exists>k. hd_ok (drop k xs) v"
      proof (cases nest)
        case 0
        then have "v = ?t" using v(1) by simp
        then show ?thesis using ok by (intro exI [of _ 0]) (simp only: drop_0)
      next
        case (Suc n)
        then show ?thesis using less.IH [of n xs ?t v] ok v(1) by simp
      qed
      then obtain k where "hd_ok (drop k xs) v" by blast
      then have "hd_ok (drop 1 (drop k xs)) s'" by (intro end_request_ok [OF _ v(3)]) simp
      then show ?thesis by (simp only: drop_drop) blast
    qed
  qed
qed

lemma write_intr_ok:
  assumes "hd_ok xs s" "write_intr io s = Done s'"
  shows "\<exists>k. hd_ok (drop k xs) s'"
proof -
  obtain w t where w: "win_result io s = (w, t)" by fastforce
  have t: "hd_ok xs t" using hd_ok_same [OF same_win_result [OF w]] assms(1) by simp
  show ?thesis
  proof (cases "w = 0")
    case False
    then show ?thesis using assms(2) w bad_rw_intr_ok [OF t] by (simp add: write_intr_def)
  next
    case True
    then obtain q where q: "this_request t = Some q" using assms(2) w by (auto simp: write_intr_def split: option.splits)
    let ?u = "upd_req q (\<lambda>q. q\<lparr>rq_nsector := s32 (rq_nsector q - 1)\<rparr>) t"
    have u: "hd_ok xs ?u" using t by simp
    show ?thesis
    proof (cases "rq_nsector (request ?u ! q) = 0")
      case False
      then have "s' = port_write (rq_bh (request ?u ! q)) 512 256 ?u"
        using assms(2) w q True by (simp add: write_intr_def Let_def)
      then show ?thesis using hd_ok_same [OF same_port_write] u by (intro exI [of _ 0]) simp
    next
      case z: True
      then have "end_request io ?u = Done s'" using assms(2) w q True by (simp add: write_intr_def Let_def)
      then show ?thesis using end_request_ok [OF u] by blast
    qed
  qed
qed


section \<open>Runs of the driver\<close>

inductive hd_step :: "hd_state \<Rightarrow> hd_state \<Rightarrow> bool" where
  hd_queue: "0 \<le> nr \<Longrightarrow> queue_request io rw nr sec head cyl b s = Done s' \<Longrightarrow> hd_step s s'"
| hd_intr: "hd_interrupt io nest s = Done s' \<Longrightarrow> hd_step s s'"

lemma free_request_Some: "free_request s = Some r \<Longrightarrow> r < length (request s) \<and> rq_hd (request s ! r) < 0"
  by (auto simp: free_request_def find_Some_iff)

lemma queue_request_ok:
  assumes ok: "hd_ok xs s" and nr: "0 \<le> nr" and q: "queue_request io rw nr sec head cyl b s = Done s'"
  shows "\<exists>r rs. hd_ok (enqueue rs r xs) s' \<and> r \<notin> set xs \<and> map rq_body (request s') = map rq_body rs \<and>
    rs ! r = \<lparr>rq_hd = nr, rq_nsector = 2, rq_sector = sec, rq_head = head, rq_cyl = cyl,
               rq_cmd = (if rw then WIN_WRITE else WIN_READ), rq_errors = 0, rq_bh = b, rq_next = None\<rparr>"
proof -
  let ?l = "lock_buffer b s"
  let ?n = "\<lparr>rq_hd = nr, rq_nsector = 2, rq_sector = sec, rq_head = head, rq_cyl = cyl,
               rq_cmd = (if rw then WIN_WRITE else WIN_READ), rq_errors = 0, rq_bh = b, rq_next = None\<rparr>"
  obtain r where r: "free_request ?l = Some r" using q by (auto simp: queue_request_def Let_def split: option.splits)
  let ?s = "upd_req r (\<lambda>_. ?n) ?l"
  have l: "hd_ok xs ?l" "request ?l = request s" using ok by (simp_all add: lock_buffer_def, simp add: hd_upd_buf_def)
  have rr: "r < length (request s)" "r \<notin> set xs" using free_request_Some [OF r] l by (auto simp: hd_ok_def)
  have rs: "request ?s = (request s)[r := ?n]" by (simp add: upd_req_def l(2))
  have c: "chain (request ?s) (this_request ?s) xs" "distinct xs" "r < length (request ?s)"
    using l rr by (simp_all add: hd_ok_def rs chain_update) (simp add: upd_req_def chain_update)
  obtain t where t: "add_request io r ?s = (if do_hd ?s = None then do_request io t else Done t)" "linked_in r xs ?s t"
    using add_request_links [OF c(1,2) rr(2) c(3)] rr(1) by (auto simp: rs)
  have "add_request io r ?s = Done s'" using q r by (simp add: queue_request_def Let_def)
  then have st: "same_queue t s'" using t(1) same_do_request by (auto split: if_splits)
  have "hd_ok (enqueue (request ?s) r xs) t"
  proof (rule hd_ok_body)
    show "distinct (enqueue (request ?s) r xs)"
      using c(2) rr(2) by (metis mset_enqueue mset_eq_imp_distinct_iff distinct.simps(2) mset.simps(2))
    have "set (enqueue (request ?s) r xs) = insert r (set xs)" by (metis mset_enqueue set_mset_add_mset_insert set_mset_mset)
    then show "\<forall>k<length (request ?s). k \<in> set (enqueue (request ?s) r xs) \<longleftrightarrow> 0 \<le> rq_hd (request ?s ! k)"
      using ok nr rr by (auto simp: rs hd_ok_def nth_list_update)
  qed (use t(2) in \<open>simp_all add: linked_in_def\<close>)
  then have "hd_ok (enqueue (request ?s) r xs) s'" using hd_ok_same [OF st] by simp
  moreover have "map rq_body (request s') = map rq_body (request ?s)" using st t(2) by (simp add: same_queue_def linked_in_def)
  ultimately show ?thesis using rr by (intro exI [of _ r] exI [of _ "request ?s"]) (simp add: rs)
qed

lemma hd_step_ok: "hd_step s s' \<Longrightarrow> hd_ok xs s \<Longrightarrow> \<exists>ys. hd_ok ys s'"
proof (induction rule: hd_step.induct)
  case (hd_queue nr io rw sec head cyl b s s')
  then show ?case using queue_request_ok by blast
next
  case (hd_intr io nest s s')
  then consider "read_intr io nest s = Done s'" | "write_intr io s = Done s'" | "do_request io s = Done s'"
    by (auto simp: hd_interrupt_def split: option.splits hd_handler.splits)
  then show ?case
  proof cases
    case 1
    then show ?thesis using read_intr_ok hd_intr.prems by blast
  next
    case 2
    then show ?thesis using write_intr_ok hd_intr.prems by blast
  next
    case 3
    then show ?thesis using hd_ok_same [OF same_do_request] hd_intr.prems by blast
  qed
qed


lemma hd_init_ok: "this_request s = None \<Longrightarrow> hd_ok [] (hd_init io s)"
  by (simp add: hd_ok_def hd_init_def inb_def outb_def Let_def)

text \<open>
  C13: Whatever requests and interrupts follow after \<open>hd_init\<close>, with whatever answers of the controller, the
  requests in use are exactly those on the linked queue from \<open>this_request\<close> on, each of them once.
\<close>

theorem hd_queue_invariant:
  assumes "this_request s0 = None" "rtranclp hd_step (hd_init io s0) s"
  shows "\<exists>xs. chain (request s) (this_request s) xs \<and> distinct xs \<and>
    (\<forall>r<length (request s). r \<in> set xs \<longleftrightarrow> 0 \<le> rq_hd (request s ! r))"
proof -
  from assms(2) have "\<exists>xs. hd_ok xs s"
    by (induction rule: rtranclp_induct) (use hd_init_ok [OF assms(1)] hd_step_ok in blast)+
  then show ?thesis by (simp add: hd_ok_def)
qed

text \<open>
  C33: A new request is put into the queue exactly once. The first two requests keep their places, the
  others their order, and when the queue from the second request on is in the order of the disk, that request comes before
  the new one and the new one is comparable with the rest, the new queue is in that order too.
\<close>

theorem queue_request_elevator:
  assumes "chain (request s) (this_request s) xs" "distinct xs" "\<forall>r<length (request s). r \<in> set xs \<longleftrightarrow> 0 \<le> rq_hd (request s ! r)"
    and "0 \<le> nr" "queue_request io rw nr sec head cyl b s = Done s'"
  shows "\<exists>r ys. chain (request s') (this_request s') ys \<and> mset ys = add_mset r (mset xs) \<and> filter (\<lambda>k. k \<noteq> r) ys = xs \<and>
    take 2 ys = take 2 (xs @ [r]) \<and> rq_bh (request s' ! r) = b \<and> rq_sector (request s' ! r) = sec \<and>
    (ascending (request s') (tl xs) \<and> tl xs \<noteq> [] \<and> IN_ORDER (request s' ! hd (tl xs)) (request s' ! r) \<and>
      (\<forall>y\<in>set (tl xs). IN_ORDER (request s' ! r) (request s' ! y) \<or> IN_ORDER (request s' ! y) (request s' ! r))
     \<longrightarrow> ascending (request s') (tl ys))"
proof -
  have ok: "hd_ok xs s" using assms(1-3) by (simp add: hd_ok_def)
  from queue_request_ok [OF ok assms(4,5)] obtain r rs where r: "hd_ok (enqueue rs r xs) s'" "r \<notin> set xs"
    "map rq_body (request s') = map rq_body rs"
    "rs ! r = \<lparr>rq_hd = nr, rq_nsector = 2, rq_sector = sec, rq_head = head, rq_cyl = cyl,
               rq_cmd = (if rw then WIN_WRITE else WIN_READ), rq_errors = 0, rq_bh = b, rq_next = None\<rparr>" by blast
  have ch: "chain (request s') (this_request s') (enqueue rs r xs)" using r(1) by (simp add: hd_ok_def)
  note sub = chain_range [OF ch]
  have len: "length rs = length (request s')" using arg_cong [OF r(3), of length] by simp
  have st: "set (enqueue rs r xs) = insert r (set xs)" by (metis mset_enqueue set_mset_add_mset_insert set_mset_mset)
  have body: "rq_body (request s' ! k) = rq_body (rs ! k)" if "k \<in> set (enqueue rs r xs)" for k
    using arg_cong [OF r(3), of "\<lambda>m. m ! k"] sub that len by auto
  have io: "IN_ORDER (request s' ! j) (request s' ! k) = IN_ORDER (rs ! j) (rs ! k)" if "j \<in> insert r (set xs)" "k \<in> insert r (set xs)" for j k
    using body [of j] body [of k] that unfolding st by (simp add: rq_body_eq IN_ORDER_def)
  have "ascending (request s') (tl (enqueue rs r xs))"
    if a: "ascending (request s') (tl xs)" "tl xs \<noteq> []" "IN_ORDER (request s' ! hd (tl xs)) (request s' ! r)"
      "\<forall>y\<in>set (tl xs). IN_ORDER (request s' ! r) (request s' ! y) \<or> IN_ORDER (request s' ! y) (request s' ! r)"
  proof -
    obtain x y ys where xs: "xs = x # y # ys" using a(2) by (cases xs; cases "tl xs") auto
    have "ascending rs (elevator rs r (y # ys))"
    proof (rule elevator_ascending)
      show "ascending rs (y # ys)" using a(1) ascending_cong [of "y # ys" "request s'" rs] io xs by simp
    qed (use a io xs in auto)
    moreover have "set (elevator rs r (y # ys)) \<subseteq> insert r (set xs)"
      using st xs by (auto simp: mset_elevator simp flip: set_mset_mset)
    ultimately have "ascending (request s') (elevator rs r (y # ys))"
      using ascending_cong [of "elevator rs r (y # ys)" "request s'" rs] io by blast
    then show ?thesis by (simp add: xs)
  qed
  moreover have "rq_bh (request s' ! r) = b" "rq_sector (request s' ! r) = sec" using body [of r] st r(4) by (simp_all add: rq_body_eq)
  ultimately show ?thesis using ch enqueue_keeps [OF r(2)] mset_enqueue
    by (intro exI [of _ r] exI [of _ "enqueue rs r xs"]) simp
qed


section \<open>Geometry\<close>

text \<open>
  C34: The drive, head, cylinder and sector that are computed for a block of a partition that lies on
  the disk exist on it, and name the first of the block's two sectors.
\<close>

theorem hd_geometry:
  assumes "hd_chs b s = Some (dev, sec, head, cyl)"
    and p: "(start, nr) = hd_parts s ! nat (MINOR (b_dev (buf b (hd_fs s))))" "0 \<le> start" "0 \<le> nr" "start + nr \<le> HD_HEAD * HD_SECT * HD_CYL"
    and n: "0 \<le> b_blocknr (buf b (hd_fs s))" "b_blocknr (buf b (hd_fs s)) < 65536"
  shows "dev = 0 \<and> 1 \<le> sec \<and> sec \<le> HD_SECT \<and> 0 \<le> head \<and> head < HD_HEAD \<and> 0 \<le> cyl \<and> cyl < HD_CYL \<and>
    (cyl * HD_HEAD + head) * HD_SECT + (sec - 1) = start + 2 * b_blocknr (buf b (hd_fs s)) \<and>
    2 * b_blocknr (buf b (hd_fs s)) + 2 \<le> nr"
proof -
  let ?x = "buf b (hd_fs s)"
  have r: "fst (hd_parts s ! nat (MINOR (b_dev ?x))) = start" "snd (hd_parts s ! nat (MINOR (b_dev ?x))) = nr"
    using p(1) by (metis fst_conv, metis snd_conv)
  have m: "0 \<le> MINOR (b_dev ?x)" by (simp add: MINOR_def)
  have u: "u32 (b_blocknr ?x * 2) = 2 * b_blocknr ?x" "u32 (2 * b_blocknr ?x + 2) = 2 * b_blocknr ?x + 2" "u32 nr = nr"
    using n p(2-4) by (simp_all add: u32_def hd_consts)
  have c: "MINOR (b_dev ?x) < 5" "2 * b_blocknr ?x + 2 \<le> nr"
    using assms(1) by (auto simp: hd_chs_def Let_def r u NR_HD_def split: if_splits)
  define k where "k = start + 2 * b_blocknr ?x"
  have k: "0 \<le> k" "k < 81920" "u32 (2 * b_blocknr ?x + start) = k" using c(2) p n by (simp_all add: k_def u32_def hd_consts)
  have e: "dev = MINOR (b_dev ?x) div 5" "sec = k mod 20 + 1" "head = k div 20 mod 4" "cyl = k div 20 div 4"
    using assms(1) k(3) by (auto simp: hd_chs_def Let_def r u hd_consts split: if_splits)
  have "(cyl * 4 + head) * 20 + (sec - 1) = k" unfolding e by presburger
  moreover have "cyl < 1024" "0 \<le> cyl" using k by (simp_all add: e)
  ultimately show ?thesis using m c e(1,2,3) k(1) by (simp add: hd_consts k_def)
qed

section \<open>Reading\<close>

definition words :: "ports \<Rightarrow> nat \<Rightarrow> nat \<Rightarrow> byte list" where
  "words io k n = concat (map (\<lambda>j. [word_of_int (io (k + j) HD_DATA), word_of_int (io (k + j) HD_DATA div 256)]) [0..<n])"

lemma words_Suc: "words io k (Suc n) = [word_of_int (io k HD_DATA), word_of_int (io k HD_DATA div 256)] @ words io (Suc k) n"
  by (simp add: words_def upt_conv_Cons map_Suc_upt [symmetric] comp_def del: upt_Suc)

lemma length_words [simp]: "length (words io k n) = 2 * n"
  by (induction n arbitrary: k) (simp_all add: words_Suc, simp add: words_def)

lemma insw_words: "off + 2 * n \<le> length d \<Longrightarrow> insw io k HD_DATA n off d = take off d @ words io k n @ drop (off + 2 * n) d"
proof (induction n arbitrary: k off d)
  case (Suc n)
  let ?d = "d[off := word_of_int (io k HD_DATA), Suc off := word_of_int (io k HD_DATA div 256)]"
  have "take (off + 2) ?d = take off d @ [word_of_int (io k HD_DATA), word_of_int (io k HD_DATA div 256)]"
    using Suc.prems by (simp add: take_Suc_conv_app_nth take_update_swap take_update_cancel list_update_append)
  moreover have "drop (off + 2 + 2 * n) ?d = drop (off + 2 + 2 * n) d" by (simp add: drop_update_cancel)
  ultimately show ?case using Suc by (simp add: words_Suc)
qed (simp add: words_def)


lemma win_result_ok: "io (hd_reads s) HD_STATUS = 0x50 \<Longrightarrow> win_result io s = (0, s\<lparr>hd_reads := Suc (hd_reads s)\<rparr>)"
  by (simp add: win_result_def inb_def u8_def hd_consts)

text \<open>The end of a request, seen from the buffer.\<close>

lemma end_request_buffer:
  assumes "this_request s = Some r" "r < length (request s)" "rq_bh (request s ! r) = b" "b < length (fs_bufs (hd_fs s))"
  shows "\<exists>t. end_request io s = do_request io t \<and> this_request t = rq_next (request s ! r) \<and> rq_hd (request t ! r) = -1 \<and>
    buf b (hd_fs t) = (buf b (hd_fs s))\<lparr>b_uptodate := 1, b_dirt := 0, b_lock := 0, b_wait := None\<rparr>"
  using assms
  by (simp add: end_request_def unlock_buffer_def wake_requesters_def hd_upd_buf_def upd_req_def upd_buf_def buf_def wake_up_def Let_def)
    (rule exI, rule conjI, rule refl, simp)

lemma port_read_simps [simp]:
  "request (port_read io b off nr s) = request s" "this_request (port_read io b off nr s) = this_request s"
  "hd_reads (port_read io b off nr s) = hd_reads s + nr" "length (fs_bufs (hd_fs (port_read io b off nr s))) = length (fs_bufs (hd_fs s))"
  "b < length (fs_bufs (hd_fs s)) \<Longrightarrow>
     buf b (hd_fs (port_read io b off nr s)) = (buf b (hd_fs s))\<lparr>b_data := insw io (hd_reads s) HD_DATA nr off (b_data (buf b (hd_fs s)))\<rparr>"
  by (simp_all add: port_read_def hd_upd_buf_def upd_buf_def buf_def)

lemma upd_req_simps [simp]:
  "request (upd_req r f s) = (request s)[r := f (request s ! r)]" "this_request (upd_req r f s) = this_request s"
  "hd_reads (upd_req r f s) = hd_reads s" "hd_fs (upd_req r f s) = hd_fs s"
  by (simp_all add: upd_req_def)

lemma read_first_sector:
  assumes r: "this_request s = Some r" "r < length (request s)" "rq_nsector (request s ! r) = 2" "rq_bh (request s ! r) = b"
    and ok: "io (hd_reads s) HD_STATUS = 0x50"
  shows "\<exists>u. read_intr io nest s = obind (case nest of 0 \<Rightarrow> Done u | Suc n \<Rightarrow> read_intr io n u) (\<lambda>s.
      case this_request s of None \<Rightarrow> Oob | Some r \<Rightarrow> end_request io (upd_req r (\<lambda>q. q\<lparr>rq_errors := 0\<rparr>) s)) \<and>
    u = port_read io b 0 256 (upd_req r (\<lambda>q. q\<lparr>rq_nsector := 1\<rparr>) (s\<lparr>hd_reads := Suc (hd_reads s)\<rparr>))"
  using assms by (simp add: read_intr.simps [of io nest] win_result_ok Let_def split: nat.split)



section \<open>A disk to try it on\<close>

definition blank_request :: hd_request where
  "blank_request = \<lparr>rq_hd = -1, rq_nsector = 2, rq_sector = 0, rq_head = 0, rq_cyl = 0, rq_cmd = WIN_READ, rq_errors = 0, rq_bh = 0, rq_next = None\<rparr>"

definition hd_demo :: hd_state where
  "hd_demo = \<lparr>hd_fs = fs_boot 2 (\<lambda>_ _. replicate 1024 0), hd_parts = replicate 10 (0, 0), request = replicate NR_REQUEST blank_request,
     this_request = None, sorting = 0, do_hd = None, wait_for_request = None, hd_reads = 0, hd_log = []\<rparr>"

lemma ready_now: "1 < n \<Longrightarrow> io (hd_reads s) HD_STATUS = 0x50 \<Longrightarrow> ready_loop io n s = (int n - 1, s\<lparr>hd_reads := Suc (hd_reads s)\<rparr>)"
  by (cases n) (auto simp: inb_def u8_def)

lemma demo_request: "\<exists>s'. queue_request (\<lambda>_ _. 0x50) False 0 7 1 2 0 (hd_init (\<lambda>_ _. 0x50) hd_demo) = Done s'"
  by (simp add: queue_request_def free_request_def hd_init_def hd_demo_def NR_REQUEST_def lock_buffer_def hd_upd_buf_def inb_def outb_def Let_def
      upt_conv_Cons blank_request_def add_request_def upd_req_def do_request_def hd_out_def controller_ready_def ready_now hd_consts u32_def)


theorem hd_queue_invariant_witness:
  "\<exists>s xs. rtranclp hd_step (hd_init (\<lambda>_ _. 0x50) hd_demo) s \<and> hd_init (\<lambda>_ _. 0x50) hd_demo \<noteq> s \<and> chain (request s) (this_request s) xs \<and> distinct xs \<and>
    (\<forall>r<length (request s). r \<in> set xs \<longleftrightarrow> 0 \<le> rq_hd (request s ! r))"
proof -
  let ?s = "hd_init (\<lambda>_ _. 0x50) hd_demo"
  obtain s where q: "queue_request (\<lambda>_ _. 0x50) False 0 7 1 2 0 ?s = Done s" using demo_request by blast
  then have st: "hd_step ?s s" by (intro hd_queue) simp_all
  have n: "this_request hd_demo = None" by (simp add: hd_demo_def)
  have ok: "hd_ok [] ?s" by (rule hd_init_ok [OF n])
  have "this_request s \<noteq> None" using queue_request_ok [OF ok _ q] by (auto simp: hd_ok_def)
  moreover have "this_request ?s = None" using ok by (simp add: hd_ok_def)
  ultimately have ne: "?s \<noteq> s" by auto
  from hd_queue_invariant [OF n r_into_rtranclp [where r = hd_step, OF st]] st ne show ?thesis by blast
qed

theorem queue_request_elevator_witness:
  "\<exists>s' r ys. queue_request (\<lambda>_ _. 0x50) False 0 7 1 2 0 (hd_init (\<lambda>_ _. 0x50) hd_demo) = Done s' \<and>
     chain (request s') (this_request s') ys \<and> mset ys = {#r#} \<and> rq_sector (request s' ! r) = 7"
proof -
  let ?s = "hd_init (\<lambda>_ _. 0x50) hd_demo"
  obtain s where q: "queue_request (\<lambda>_ _. 0x50) False 0 7 1 2 0 ?s = Done s" using demo_request by blast
  have ok: "hd_ok [] ?s" by (rule hd_init_ok) (simp add: hd_demo_def)
  then have c: "chain (request ?s) (this_request ?s) []" "distinct ([] :: nat list)"
    "\<forall>r<length (request ?s). r \<in> set [] \<longleftrightarrow> 0 \<le> rq_hd (request ?s ! r)" by (simp_all add: hd_ok_def)
  from queue_request_elevator [OF c _ q] obtain r ys where
    "chain (request s) (this_request s) ys" "mset ys = add_mset r (mset [])" "rq_sector (request s ! r) = 7" by auto
  then show ?thesis using q by auto
qed

theorem hd_geometry_witness:
  "let s = hd_demo\<lparr>hd_parts := (hd_parts hd_demo)[1 := (20, 60000)], hd_fs := upd_buf 0 (\<lambda>b. b\<lparr>b_dev := 0x301, b_blocknr := 500\<rparr>) (hd_fs hd_demo)\<rparr> in
   \<exists>sec head cyl. hd_chs 0 s = Some (0, sec, head, cyl) \<and> (cyl * HD_HEAD + head) * HD_SECT + (sec - 1) = 1020"
proof -
  let ?s = "hd_demo\<lparr>hd_parts := (hd_parts hd_demo)[1 := (20, 60000)], hd_fs := upd_buf 0 (\<lambda>b. b\<lparr>b_dev := 0x301, b_blocknr := 500\<rparr>) (hd_fs hd_demo)\<rparr>"
  have b: "b_dev (buf 0 (hd_fs ?s)) = 0x301" "b_blocknr (buf 0 (hd_fs ?s)) = 500"
    by (simp_all add: hd_demo_def buf_def upd_buf_def fs_boot_def buffer_init_def numeral_2_eq_2)
  have p: "(20, 60000) = hd_parts ?s ! nat (MINOR (b_dev (buf 0 (hd_fs ?s))))" unfolding b by (simp add: MINOR_def hd_demo_def)
  obtain sec head cyl where c: "hd_chs 0 ?s = Some (0, sec, head, cyl)"
    by (simp add: hd_chs_def hd_demo_def buf_def upd_buf_def fs_boot_def buffer_init_def numeral_2_eq_2 MINOR_def NR_HD_def u32_def Let_def)
  from hd_geometry [OF c p] b c show ?thesis unfolding Let_def by (intro exI [of _ sec] exI [of _ head] exI [of _ cyl]) (simp add: hd_consts)
qed


end
