(* ===== verification/Super.thy ===== *)
theory Super
  imports Namei
begin

text \<open>
  Super blocks and the mounting of the root, src/fs/super.c. The super block of a device is block 1,
  its maps follow from block 2 on and stay in their buffers while the device is mounted.
\<close>

unbundle bit_operations_syntax

definition ROOT_DEV :: int where "ROOT_DEV = 0x301"

definition upd_super :: "nat \<Rightarrow> (super_block \<Rightarrow> super_block) \<Rightarrow> fs_state \<Rightarrow> fs_state" where
  "upd_super p f s = s\<lparr>fs_supers := (fs_supers s)[p := f (fs_supers s ! p)]\<rparr>"

text \<open>
  The assignment \<open>*p = *((struct super_block *) bh->b_data)\<close>. The pointers it brings from the disk are never
  used: they are the null pointer here.
\<close>

definition load_super :: "byte list \<Rightarrow> super_block" where
  "load_super d =
     \<lparr>s_ninodes = get16 0 d, s_nzones = get16 2 d, s_imap_blocks = get16 4 d, s_zmap_blocks = get16 6 d, s_firstdatazone = get16 8 d,
      s_log_zone_size = get16 10 d, s_max_size = get32 12 d, s_magic = get16 16 d, s_imap = replicate 8 None, s_zmap = replicate 8 None,
      s_dev = 0, s_isup = None, s_imount = None, s_time = 0, s_rd_only = 0, s_dirt = 0\<rparr>"

text \<open>
  One loop that reads map blocks: entry \<open>i\<close> of the array gets block \<open>block\<close>, until a block cannot be read.
  An array of 8 entries is written past its end when the super block claims more.
\<close>

fun read_map :: "int \<Rightarrow> nat \<Rightarrow> nat \<Rightarrow> nat option list \<Rightarrow> int \<Rightarrow> fs_state \<Rightarrow> (nat option list \<times> int \<times> fs_state) outcome" where
  "read_map dev 0 i m block s = Done (m, block, s)"
| "read_map dev (Suc n) i m block s =
     (if i \<ge> length m then Oob
      else obind (bread dev block s) (\<lambda>(b, s).
           let m = m[i := b] in
           if b = None then Done (m, block, s) else read_map dev n (Suc i) m (block + 1) s))"

fun brelse_all :: "nat option list \<Rightarrow> fs_state \<Rightarrow> fs_state outcome" where
  "brelse_all [] s = Done s"
| "brelse_all (b # bs) s = obind (brelse b s) (brelse_all bs)"

text \<open>\<open>map[0]->b_data[0] |= 1\<close>.\<close>

definition mark_zero :: "nat option \<Rightarrow> fs_state \<Rightarrow> fs_state outcome" where
  "mark_zero b s =
     (case b of None \<Rightarrow> Oob | Some b \<Rightarrow> Done (upd_buf b (\<lambda>x. x\<lparr>b_data := (b_data x)[0 := b_data x ! 0 OR 1]\<rparr>) s))"

definition mount_maps :: "int \<Rightarrow> nat \<Rightarrow> fs_state \<Rightarrow> (nat option \<times> fs_state) outcome" where
  "mount_maps dev p s =
     (let sb = super p s in
      obind (read_map dev (nat (s_imap_blocks sb)) 0 (replicate 8 None) 2 s) (\<lambda>(im, block, s).
      obind (read_map dev (nat (s_zmap_blocks sb)) 0 (replicate 8 None) block s) (\<lambda>(zm, block, s).
      let s = upd_super p (\<lambda>b. b\<lparr>s_imap := im, s_zmap := zm\<rparr>) s in
      if block \<noteq> 2 + s_imap_blocks sb + s_zmap_blocks sb then
        obind (brelse_all im s) (\<lambda>s. obind (brelse_all zm s) (\<lambda>s.
        Done (None, upd_super p (\<lambda>b. b\<lparr>s_dev := 0\<rparr>) s)))
      else
        obind (mark_zero (im ! 0) s) (\<lambda>s. obind (mark_zero (zm ! 0) s) (\<lambda>s.
        Done (Some p, upd_super p (\<lambda>b. b\<lparr>s_dev := u16 dev, s_isup := None, s_imount := None, s_time := 0, s_rd_only := 0, s_dirt := 0\<rparr>) s))))))"

text \<open>With all entries in use, \<open>s_dev\<close> of the entry after the table is written before the test.\<close>

definition do_mount :: "int \<Rightarrow> fs_state \<Rightarrow> (nat option \<times> fs_state) outcome" where
  "do_mount dev s =
     (case find (\<lambda>p. s_dev (super p s) = 0) [0..<length (fs_supers s)] of
        None \<Rightarrow> Oob
      | Some p \<Rightarrow>
          let s = upd_super p (\<lambda>b. b\<lparr>s_dev := u16 (-1)\<rparr>) s in
          obind (bread dev 1 s) (\<lambda>(b, s).
          case b of
            None \<Rightarrow> Done (None, s)
          | Some b \<Rightarrow>
              let s = upd_super p (\<lambda>_. load_super (b_data (buf b s))) s in
              obind (brelse (Some b) s) (\<lambda>s.
              if s_magic (super p s) \<noteq> SUPER_MAGIC then Done (None, upd_super p (\<lambda>b. b\<lparr>s_dev := 0\<rparr>) s)
              else mount_maps dev p s)))"

text \<open>The counts that \<open>mount_root\<close> prints: clear bits below \<open>i\<close>.\<close>

fun count_free :: "nat \<Rightarrow> nat option list \<Rightarrow> fs_state \<Rightarrow> int outcome" where
  "count_free 0 m s = Done 0"
| "count_free (Suc i) m s =
     (if i div 8192 \<ge> length m then Oob
      else case m ! (i div 8192) of
        None \<Rightarrow> Oob
      | Some b \<Rightarrow>
          obind (count_free i m s) (\<lambda>n. Done (if get_bit (i mod 8192) (b_data (buf b s)) then n else n + 1)))"

definition mount_root :: "fs_state \<Rightarrow> ((int \<times> int) \<times> fs_state) outcome" where
  "mount_root s =
     (let s = s\<lparr>k_files := map (\<lambda>f. f\<lparr>f_count := 0\<rparr>) (k_files s), fs_supers := map (\<lambda>b. b\<lparr>s_dev := 0\<rparr>) (fs_supers s)\<rparr> in
      obind (do_mount ROOT_DEV s) (\<lambda>(r, s).
      case r of
        None \<Rightarrow> Panic ''Unable to mount root''
      | Some p \<Rightarrow>
          obind (iget ROOT_DEV 1 s) (\<lambda>(mi, s).
          let s = upd_ino mi (\<lambda>n. n\<lparr>i_count := u16 (i_count n + 3)\<rparr>) s;
              s = upd_super p (\<lambda>b. b\<lparr>s_isup := Some mi, s_imount := Some mi\<rparr>) s;
              s = upd_task_cur (\<lambda>t. t\<lparr>t_pwd := Some mi, t_root := Some mi\<rparr>) s;
              sb = super p s in
          obind (count_free (nat (s_nzones sb)) (s_zmap sb) s) (\<lambda>zones.
          obind (count_free (nat (s_ninodes sb + 1)) (s_imap sb) s) (\<lambda>inodes.
          Done ((zones, inodes), s))))))"

end
