(* ===== verification/Exec.thy ===== *)
theory Exec
  imports OpenSys
begin

text \<open>
  Loading a program, src/fs/exec.c. The memory of the user is a function from addresses to bytes: that of
  the calling program until its page tables are freed, zero pages from then on, with the argument pages
  at its top once they are mapped. \<open>tail\<close> are the bytes that follow the data of a block in the memory
  of the kernel, which the copies of whole words and of section headers can reach. \<open>fuel\<close> bounds the scans
  for the end of a string or of a pointer array in user memory.
\<close>

unbundle bit_operations_syntax

record exec_state =
  ex_fs :: fs_state
  ex_um :: "int \<Rightarrow> byte"

definition MAX_ARG_PAGES :: nat where "MAX_ARG_PAGES = 32"
definition PAGE_SIZE :: int where "PAGE_SIZE = 4096"
definition ENOEXEC :: int where "ENOEXEC = 8"

section \<open>User memory\<close>

type_synonym umem = "int \<Rightarrow> byte"

definition get_fs_byte :: "umem \<Rightarrow> int \<Rightarrow> byte" where "get_fs_byte um a = um (u32 a)"

definition put_fs_byte :: "byte \<Rightarrow> int \<Rightarrow> umem \<Rightarrow> umem" where "put_fs_byte v a um = um(u32 a := v)"

definition get_fs_long :: "umem \<Rightarrow> int \<Rightarrow> int" where
  "get_fs_long um a = uint (um (u32 a)) + 256 * uint (um (u32 (a + 1))) + 65536 * uint (um (u32 (a + 2))) + 16777216 * uint (um (u32 (a + 3)))"

definition put_fs_long :: "int \<Rightarrow> int \<Rightarrow> umem \<Rightarrow> umem" where
  "put_fs_long v a um =
     put_fs_byte (word_of_int (v div 16777216)) (a + 3) (put_fs_byte (word_of_int (v div 65536)) (a + 2)
       (put_fs_byte (word_of_int (v div 256)) (a + 1) (put_fs_byte (word_of_int v) a um)))"

text \<open>\<open>while (get_fs_byte(p++)) ;\<close>, the address after the terminating zero.\<close>

fun skip_string :: "nat \<Rightarrow> umem \<Rightarrow> int \<Rightarrow> int outcome" where
  "skip_string 0 um p = Fuel"
| "skip_string (Suc fuel) um p =
     (if get_fs_byte um p = 0 then Done (u32 (p + 1)) else skip_string fuel um (u32 (p + 1)))"

section \<open>Arguments\<close>

text \<open>The pointers to \<open>n\<close> strings from \<open>p\<close> on go to \<open>tab\<close> on; the result are the next string and the next slot.\<close>

fun string_table :: "nat \<Rightarrow> nat \<Rightarrow> int \<Rightarrow> int \<Rightarrow> umem \<Rightarrow> (int \<times> int \<times> umem) outcome" where
  "string_table fuel 0 p tab um = Done (p, tab, um)"
| "string_table fuel (Suc n) p tab um =
     (let um = put_fs_long p tab um in
      obind (skip_string fuel um p) (\<lambda>p. string_table fuel n p (u32 (tab + 4)) um))"

definition create_tables :: "nat \<Rightarrow> int \<Rightarrow> nat \<Rightarrow> nat \<Rightarrow> umem \<Rightarrow> (int \<times> umem) outcome" where
  "create_tables fuel p argc envc um =
     (let sp = u32 (p - p mod 4);
          envp = u32 (sp - 4 * (int envc + 1));
          argv = u32 (envp - 4 * (int argc + 1));
          sp = u32 (argv - 4);
          um = put_fs_long (int argc) sp um in
      obind (string_table fuel argc p argv um) (\<lambda>(p, argv, um).
      let um = put_fs_long 0 argv um in
      obind (string_table fuel envc p envp um) (\<lambda>(p, envp, um).
      Done (sp, put_fs_long 0 envp um))))"

fun count_loop :: "nat \<Rightarrow> umem \<Rightarrow> int \<Rightarrow> nat outcome" where
  "count_loop 0 um tmp = Fuel"
| "count_loop (Suc fuel) um tmp =
     (if get_fs_long um tmp = 0 then Done 0 else obind (count_loop fuel um (u32 (tmp + 4))) (\<lambda>n. Done (Suc n)))"

definition count_args :: "nat \<Rightarrow> umem \<Rightarrow> int \<Rightarrow> nat outcome" where
  "count_args fuel um argv = (if argv = 0 then Done 0 else count_loop fuel um argv)"

text \<open>The length of a string with its zero byte.\<close>

fun len_loop :: "nat \<Rightarrow> umem \<Rightarrow> int \<Rightarrow> nat outcome" where
  "len_loop 0 um tmp = Fuel"
| "len_loop (Suc fuel) um tmp =
     (if get_fs_byte um tmp = 0 then Done 1 else obind (len_loop fuel um (u32 (tmp + 1))) (\<lambda>n. Done (Suc n)))"

text \<open>\<open>while (i<MAX_ARG_PAGES && !page[i])\<close>: pages for the new string, and whether there was memory for all of them.\<close>

fun alloc_pages :: "nat \<Rightarrow> nat \<Rightarrow> int list \<Rightarrow> mm_state \<Rightarrow> bool \<times> int list \<times> mm_state" where
  "alloc_pages 0 i page m = (True, page, m)"
| "alloc_pages (Suc n) i page m =
     (if page ! i \<noteq> 0 then (True, page, m)
      else let (a, m) = get_free_page m in
           if a = 0 then (False, page, m) else alloc_pages n (Suc i) (page[i := a]) m)"

text \<open>The bytes of a string, from its zero byte down, into the pages below \<open>p\<close>.\<close>

fun copy_down :: "nat \<Rightarrow> umem \<Rightarrow> int \<Rightarrow> int list \<Rightarrow> int \<Rightarrow> mm_state \<Rightarrow> (int \<times> mm_state) outcome" where
  "copy_down 0 um tmp page p m = Done (p, m)"
| "copy_down (Suc len) um tmp page p m =
     (let p = u32 (p - 1); tmp = u32 (tmp - 1) in
      obind (rd page (nat (p div PAGE_SIZE))) (\<lambda>a.
      if a = 0 then Panic ''nonexistent page in exec.c''
      else copy_down len um tmp page p (pokeb (a + p mod PAGE_SIZE) (get_fs_byte um tmp) m)))"

text \<open>
  The test \<open>p-len < 0\<close> compares an unsigned value and never holds. The pages allocated before a
  failure are part of the result, which then is 0.
\<close>

fun copy_strings :: "nat \<Rightarrow> umem \<Rightarrow> nat \<Rightarrow> int \<Rightarrow> int list \<Rightarrow> int \<Rightarrow> mm_state \<Rightarrow> (int \<times> int list \<times> mm_state) outcome" where
  "copy_strings fuel um 0 argv page p m = Done (p, page, m)"
| "copy_strings fuel um (Suc argc) argv page p m =
     (let tmp = get_fs_long um (argv + 4 * int argc) in
      if tmp = 0 then Panic ''argc is wrong''
      else
        obind (len_loop fuel um tmp) (\<lambda>len.
        let i = u32 (p - int len) div 4096 in
        case alloc_pages (MAX_ARG_PAGES - nat i) (nat i) page m of
          (ok, page, m) \<Rightarrow>
            if \<not> ok then Done (0, page, m)
            else obind (copy_down len um (u32 (tmp + int len)) page p m) (\<lambda>(p, m).
            copy_strings fuel um argc argv page p m)))"

section \<open>Blocks of the executable\<close>

definition read_file_block_ind :: "int \<Rightarrow> int \<Rightarrow> int \<Rightarrow> fs_state \<Rightarrow> (nat option \<times> fs_state) outcome" where
  "read_file_block_ind dev indb block_num s =
     obind (bread dev indb s) (\<lambda>(ih, s).
     case ih of
       None \<Rightarrow> Done (None, s)
     | Some ih \<Rightarrow>
         if block_num < 0 \<or> block_num \<ge> 512 then Oob
         else
           let block = get_zone (nat block_num) (b_data (buf ih s)) in
           obind (if block \<noteq> 0 then bread dev block s else Done (None, s)) (\<lambda>(bh, s).
           obind (brelse (Some ih) s) (\<lambda>s. Done (bh, s))))"

text \<open>The index into the last table is \<open>block_num - (block_num - 1) * 512\<close> from 512 on.\<close>

definition read_file_block :: "nat \<Rightarrow> int \<Rightarrow> fs_state \<Rightarrow> (nat option \<times> fs_state) outcome" where
  "read_file_block i block_num s =
     (let n = ino i s in
      if block_num \<le> 6 then (if block_num < 0 then Oob else bread (i_dev n) (i_zone n ! nat block_num) s)
      else if block_num - 7 < 512 then read_file_block_ind (i_dev n) (i_zone n ! 7) (block_num - 7) s
      else
        let b = block_num - 519 in
        if b > 512 * 512 then Panic ''Impossibly long executable''
        else if i_zone n ! 8 = 0 then Done (None, s)
        else
          obind (bread (i_dev n) (i_zone n ! 8) s) (\<lambda>(dind, s).
          case dind of
            None \<Rightarrow> Done (None, s)
          | Some d \<Rightarrow>
              if b div 512 \<ge> 512 then Oob
              else
                let table = get_zone (nat (b div 512)) (b_data (buf d s)) in
                obind (brelse (Some d) s) (\<lambda>s.
                read_file_block_ind (i_dev n) table (if b \<ge> 512 then s32 (b - (b - 1) * 512) else b) s)))"

section \<open>Sections\<close>

text \<open>\<open>cp_block\<close>: whole words, as many as fit.\<close>

definition cp_block :: "byte list \<Rightarrow> byte list \<Rightarrow> nat \<Rightarrow> int \<Rightarrow> nat \<Rightarrow> umem \<Rightarrow> umem" where
  "cp_block tail d off dest n um = fold (\<lambda>k. put_fs_byte ((d @ tail) ! (off + k)) (dest + int k)) [0..<4 * (n div 4)] um"

text \<open>The blocks of a section; \<open>off\<close>, below 1024, is 0 after the first one. The flag is the failure of a read.\<close>

function copy_blocks :: "byte list \<Rightarrow> nat \<Rightarrow> int \<Rightarrow> nat \<Rightarrow> int \<Rightarrow> nat \<Rightarrow> exec_state \<Rightarrow> (int \<times> exec_state) outcome" where
  "copy_blocks tail i block_num off dest n s =
     (if n = 0 \<or> off \<ge> 1024 then Done (0, s)
      else
        obind (read_file_block i block_num (ex_fs s)) (\<lambda>(bh, fs).
        case bh of
          None \<Rightarrow> Done (-1, s\<lparr>ex_fs := fs\<rparr>)
        | Some b \<Rightarrow>
            let cp = min n (1024 - off);
                um = cp_block tail (b_data (buf b fs)) off dest (cp + 3) (ex_um s) in
            obind (brelse (Some b) fs) (\<lambda>fs.
            copy_blocks tail i (block_num + 1) 0 (u32 (dest + int cp)) (n - cp) (s\<lparr>ex_fs := fs, ex_um := um\<rparr>))))"
  by pat_completeness auto
termination by (relation "measure (\<lambda>(_, _, _, _, _, n, _). n)") auto

declare copy_blocks.simps [simp del]

definition copy_section :: "byte list \<Rightarrow> nat \<Rightarrow> int \<Rightarrow> int \<Rightarrow> int \<Rightarrow> exec_state \<Rightarrow> (int \<times> exec_state) outcome" where
  "copy_section tail i from dest sz s =
     copy_blocks tail i (from div 1024) (nat (from mod 1024)) dest (nat sz) s"

fun create_bss_section :: "nat \<Rightarrow> int \<Rightarrow> umem \<Rightarrow> umem" where
  "create_bss_section 0 dest um = um"
| "create_bss_section (Suc n) dest um = create_bss_section n (u32 (dest + 1)) (put_fs_byte 0 dest um)"

section \<open>The ELF file\<close>

record elf_hdr =
  e_type :: int
  e_machine :: int
  e_entry :: int
  e_shoff :: int
  e_ehsize :: int
  e_shentsize :: int
  e_shnum :: int

definition elf_hdr_of :: "byte list \<Rightarrow> elf_hdr" where
  "elf_hdr_of d = \<lparr>e_type = get16 16 d, e_machine = get16 18 d, e_entry = get32 24 d, e_shoff = get32 32 d, e_ehsize = get16 40 d,
     e_shentsize = get16 46 d, e_shnum = get16 48 d\<rparr>"

record elf_shdr =
  sh_type :: int
  sh_addr :: int
  sh_offset :: int
  sh_size :: int

definition elf_shdr_of :: "nat \<Rightarrow> byte list \<Rightarrow> elf_shdr" where
  "elf_shdr_of p d = \<lparr>sh_type = get32 (p + 4) d, sh_addr = get32 (p + 12) d, sh_offset = get32 (p + 16) d, sh_size = get32 (p + 20) d\<rparr>"

definition SHT_PROGBITS :: int where "SHT_PROGBITS = 1"
definition SHT_NOBITS :: int where "SHT_NOBITS = 8"
definition ET_EXEC :: int where "ET_EXEC = 2"
definition EM_386 :: int where "EM_386 = 3"

definition is_valid_elf :: "byte list \<Rightarrow> bool" where
  "is_valid_elf d \<longleftrightarrow> take 4 d = [0x7f, 0x45, 0x4c, 0x46] \<and> e_type (elf_hdr_of d) = ET_EXEC \<and> e_machine (elf_hdr_of d) = EM_386"

text \<open>
  The loop over the sections, from the last to the first. \<open>lb\<close> and \<open>bht\<close> are the block of the section
  table that is held and its buffer, which is the null pointer at the start although \<open>lb\<close> is 0.
\<close>

fun sect_loop :: "byte list \<Rightarrow> nat \<Rightarrow> elf_hdr \<Rightarrow> nat \<Rightarrow> int \<Rightarrow> nat option \<Rightarrow> int \<Rightarrow> exec_state \<Rightarrow> (int \<times> int \<times> exec_state) outcome" where
  "sect_loop tail i ex 0 lb bht sz s = obind (brelse bht (ex_fs s)) (\<lambda>fs. Done (0, sz, s\<lparr>ex_fs := fs\<rparr>))"
| "sect_loop tail i ex (Suc nsect) lb bht sz s =
     (let at = u32 (e_shoff ex + int nsect * e_shentsize ex) in
      obind (if at div 1024 = lb then Done (bht, ex_fs s)
             else obind (brelse bht (ex_fs s)) (read_file_block i (at div 1024))) (\<lambda>(b, fs).
      let s = s\<lparr>ex_fs := fs\<rparr> in
      case b of
        None \<Rightarrow> if at div 1024 = lb then Oob else Done (-1, sz, s)
      | Some b \<Rightarrow>
          let sect = elf_shdr_of (nat (at mod 1024)) (b_data (buf b fs) @ tail);
              more = (\<lambda>s. sect_loop tail i ex nsect (at div 1024) (Some b)
                        (if sz < u32 (sh_addr sect + sh_size sect) then u32 (sh_addr sect + sh_size sect) else sz) s) in
          if sh_size sect = 0 \<or> sh_addr sect = 0 then sect_loop tail i ex nsect (at div 1024) (Some b) sz s
          else if sh_type sect = SHT_PROGBITS then
            obind (copy_section tail i (sh_offset sect) (sh_addr sect) (sh_size sect) s) (\<lambda>(r, s).
            if r \<noteq> 0 then obind (brelse (Some b) (ex_fs s)) (\<lambda>fs. Done (-1, sz, s\<lparr>ex_fs := fs\<rparr>)) else more s)
          else if sh_type sect = SHT_NOBITS then
            more (s\<lparr>ex_um := create_bss_section (nat (sh_size sect)) (sh_addr sect) (ex_um s)\<rparr>)
          else sect_loop tail i ex nsect (at div 1024) (Some b) sz s))"

text \<open>The result is the failure flag, the entry point and the length of the program.\<close>

definition load_elf_binary :: "byte list \<Rightarrow> nat \<Rightarrow> nat \<Rightarrow> exec_state \<Rightarrow> (int \<times> int \<times> int \<times> exec_state) outcome" where
  "load_elf_binary tail i bh s =
     (let d = b_data (buf bh (ex_fs s)); ex = elf_hdr_of d in
      if \<not> is_valid_elf d then Done (-1, 0, 0, s)
      else
        let sz = u32 (e_ehsize ex + e_shnum ex * e_shentsize ex) in
        if e_shnum ex \<le> 1 then Done (-1, e_entry ex, sz, s)
        else obind (sect_loop tail i ex (nat (e_shnum ex)) 0 None sz s) (\<lambda>(r, sz, s). Done (r, e_entry ex, sz, s)))"

section \<open>The new program\<close>

text \<open>The argument pages at the end of the data segment.\<close>

fun map_pages :: "nat \<Rightarrow> int list \<Rightarrow> int \<Rightarrow> mm_state \<Rightarrow> mm_state outcome" where
  "map_pages 0 page data_base m = Done m"
| "map_pages (Suc i) page data_base m =
     (let data_base = u32 (data_base - PAGE_SIZE) in
      obind (if page ! i \<noteq> 0 then obind (put_page (page ! i) data_base m) (\<lambda>(_, _, _, m). Done m) else Done m)
        (map_pages i page data_base))"

definition arg_memory :: "int list \<Rightarrow> mm_state \<Rightarrow> umem \<Rightarrow> umem" where
  "arg_memory page m um a =
     (let k = (a - (0x4000000 - int MAX_ARG_PAGES * PAGE_SIZE)) div PAGE_SIZE in
      if 0 \<le> k \<and> k < int MAX_ARG_PAGES \<and> page ! nat k \<noteq> 0 then peekb (page ! nat k + a mod PAGE_SIZE) m else um a)"

definition change_ldt :: "int \<Rightarrow> int list \<Rightarrow> exec_state \<Rightarrow> (int \<times> exec_state) outcome" where
  "change_ldt text_size page s =
     (let code_limit = u32 (text_size + PAGE_SIZE - 1) div 4096 * 4096;
          data_limit = 0x4000000;
          base = t_code_base (cur_task (ex_fs s));
          fs = upd_task_cur (\<lambda>t. t\<lparr>t_code_base := base, t_code_limit := code_limit, t_data_base := base, t_data_limit := data_limit\<rparr>) (ex_fs s) in
      obind (map_pages MAX_ARG_PAGES page (u32 (base + data_limit)) (k_mm fs)) (\<lambda>m.
      Done (data_limit, s\<lparr>ex_fs := fs\<lparr>k_mm := m\<rparr>, ex_um := arg_memory page m (ex_um s)\<rparr>)))"

fun free_pages :: "int list \<Rightarrow> mm_state \<Rightarrow> mm_state outcome" where
  "free_pages [] m = Done m"
| "free_pages (a # as) m = obind (free_page a m) (free_pages as)"

text \<open>The files that are closed on the way.\<close>

fun close_marked :: "nat list \<Rightarrow> fs_state \<Rightarrow> fs_state outcome" where
  "close_marked [] s = Done s"
| "close_marked (fd # fds) s =
     obind (if bit (t_close_on_exec (cur_task s)) fd then sys_close fd s else Done (0, s)) (\<lambda>(_, s). close_marked fds s)"

text \<open>The execute permission of the caller.\<close>

definition may_execute :: "nat \<Rightarrow> fs_state \<Rightarrow> bool" where
  "may_execute i s =
     (let n = ino i s; c = cur_task s; mode = i_mode n in
      odd (if t_uid c \<noteq> 0 \<and> t_euid c \<noteq> 0 then
             (if t_euid c = i_uid n then mode div 64 else if t_egid c = i_gid n then mode div 8 else mode)
           else if mode AND 0x49 \<noteq> 0 then 1 else mode))"

definition free_user :: "fs_state \<Rightarrow> fs_state outcome" where
  "free_user s =
     (let c = cur_task s in
      obind (free_page_tables (t_code_base c) (t_code_limit c) (k_mm s)) (\<lambda>(_, m).
      obind (free_page_tables (t_data_base c) (t_data_limit c) m) (\<lambda>(_, m). Done (s\<lparr>k_mm := m\<rparr>))))"

text \<open>
  The part after the point of no return. The result of a success is the new \<open>eip\<close> and stack pointer.
\<close>

definition exec_commit :: "nat \<Rightarrow> byte list \<Rightarrow> nat \<Rightarrow> nat \<Rightarrow> int list \<Rightarrow> int \<Rightarrow> nat \<Rightarrow> nat \<Rightarrow> exec_state \<Rightarrow>
    (int \<times> (int \<times> int) option \<times> exec_state) outcome" where
  "exec_commit fuel tail i bh page p argc envc s =
     (let fs = upd_task_cur (\<lambda>t. t\<lparr>t_sig_fn := replicate 32 0\<rparr>) (ex_fs s) in
      obind (close_marked [0..<NR_OPEN] fs) (\<lambda>fs.
      obind (free_user (upd_task_cur (\<lambda>t. t\<lparr>t_close_on_exec := 0\<rparr>) fs)) (\<lambda>fs.
      obind (load_elf_binary tail i bh (s\<lparr>ex_fs := fs, ex_um := (\<lambda>_. 0)\<rparr>)) (\<lambda>(r, b_entry, b_size, s).
      obind (brelse (Some bh) (ex_fs s)) (\<lambda>fs.
      if r \<noteq> 0 then obind (iput (Some i) fs) (\<lambda>fs. Done (- EACCES, None, s\<lparr>ex_fs := fs\<rparr>))
      else
        let sc = k_sched fs;
            sc = (if last_task_used_math sc = Some (current sc) then sc\<lparr>last_task_used_math := None\<rparr> else sc);
            fs = upd_task_cur (\<lambda>t. t\<lparr>t_used_math := 0\<rparr>) (fs\<lparr>k_sched := sc\<rparr>) in
        obind (change_ldt b_size page (s\<lparr>ex_fs := fs\<rparr>)) (\<lambda>(lim, s).
        let p = u32 (p + lim - int MAX_ARG_PAGES * PAGE_SIZE) in
        obind (create_tables fuel p argc envc (ex_um s)) (\<lambda>(p, um).
        let fs = upd_task_cur (\<lambda>t. t\<lparr>t_brk := b_size, t_end_data := b_size, t_end_code := b_size, t_start_stack := p - p mod 4096\<rparr>) (ex_fs s) in
        obind (iput (Some i) fs) (\<lambda>fs.
        Done (0, Some (b_entry, p), s\<lparr>ex_fs := fs,
          ex_um := create_bss_section (nat ((4096 - b_size mod 4096) mod 4096)) b_size um\<rparr>)))))))))"

definition do_execve :: "nat \<Rightarrow> byte list \<Rightarrow> int \<Rightarrow> byte list \<Rightarrow> int \<Rightarrow> int \<Rightarrow> exec_state \<Rightarrow>
    (int \<times> (int \<times> int) option \<times> exec_state) outcome" where
  "do_execve fuel tail cs path argv envp s =
     (if cs AND 0xffff \<noteq> 0x000f then Panic ''execve called from supervisor mode''
      else
        obind (namei path (ex_fs s)) (\<lambda>(r, fs).
        let fail = (\<lambda>i e fs. obind (iput (Some i) fs) (\<lambda>fs. Done (e, None, s\<lparr>ex_fs := fs\<rparr>))) in
        case r of
          None \<Rightarrow> Done (- ENOENT, None, s\<lparr>ex_fs := fs\<rparr>)
        | Some i \<Rightarrow>
            if \<not> S_ISREG (i_mode (ino i fs)) then fail i (- EACCES) fs
            else if \<not> may_execute i fs then fail i (- ENOEXEC) fs
            else
              obind (bread (i_dev (ino i fs)) (i_zone (ino i fs) ! 0) fs) (\<lambda>(b, fs).
              case b of
                None \<Rightarrow> fail i (- EACCES) fs
              | Some bh \<Rightarrow>
                  obind (count_args fuel (ex_um s) argv) (\<lambda>argc.
                  obind (count_args fuel (ex_um s) envp) (\<lambda>envc.
                  obind (copy_strings fuel (ex_um s) envc envp (replicate MAX_ARG_PAGES 0) (PAGE_SIZE * int MAX_ARG_PAGES) (k_mm fs)) (\<lambda>(p, page, m).
                  obind (copy_strings fuel (ex_um s) argc argv page p m) (\<lambda>(p, page, m).
                  let fs = fs\<lparr>k_mm := m\<rparr> in
                  if p = 0 then obind (free_pages page m) (\<lambda>m. fail i (-1) (fs\<lparr>k_mm := m\<rparr>))
                  else exec_commit fuel tail i bh page p argc envc (s\<lparr>ex_fs := fs\<rparr>))))))))"

end
