(* ===== verification/Dirents.thy ===== *)
theory Dirents
  imports Exec
begin

text \<open>
  Listing a directory, src/fs/sys_getdents.c: one entry per call, at the position of the open file. The
  entry that names the list of encrypted files is hidden from \<open>sys_getdents\<close>, not from \<open>sys_getdents64\<close>.
  What the calls write for the user, the inode number and the name, is part of the result. \<open>tail\<close> are the
  bytes after the data of a block, as in \<open>Exec\<close>.
\<close>

text \<open>\<open>".fileList.txt"\<close>\<close>

definition hidden_name :: "byte list" where
  "hidden_name = [0x2e, 0x66, 0x69, 0x6c, 0x65, 0x4c, 0x69, 0x73, 0x74, 0x2e, 0x74, 0x78, 0x74]"

definition hidden :: "byte list \<Rightarrow> bool" where
  "hidden name \<longleftrightarrow> take 13 name = hidden_name"

definition name_of :: "byte list \<Rightarrow> byte list" where
  "name_of name = takeWhile (\<lambda>c. c \<noteq> 0) name"

text \<open>The inner loop: the entries of one block from offset \<open>off\<close>, with \<open>pos\<close> the position in the directory.\<close>

function scan_entries :: "bool \<Rightarrow> byte list \<Rightarrow> nat \<Rightarrow> int \<Rightarrow> int \<Rightarrow> int \<times> (int \<times> byte list) option" where
  "scan_entries hide d off pos sz =
     (if off < 1024 \<and> u32 pos < sz then
        let name = entry_name off d; nr = entry_inode off d; off' = off + 16; pos = s32 (pos + 16) in
        if \<not> (hide \<and> hidden name) \<and> nr \<noteq> 0 \<and> name_of name \<noteq> [] then (pos, Some (nr, name_of name))
        else scan_entries hide d off' pos sz
      else (pos, None))"
  by pat_completeness auto
termination by (relation "measure (\<lambda>(_, _, off, _, _). 1024 - off)") auto

declare scan_entries.simps [simp del]

text \<open>The outer loop; every round moves the position, so that \<open>sz\<close> rounds are enough.\<close>

fun getdents_loop :: "nat \<Rightarrow> byte list \<Rightarrow> bool \<Rightarrow> nat \<Rightarrow> int \<Rightarrow> int \<Rightarrow> fs_state \<Rightarrow> (int \<times> (int \<times> byte list) option \<times> fs_state) outcome" where
  "getdents_loop fuel tail hide i pos sz s =
     (if \<not> u32 pos < sz then Done (pos, None, s)
      else case fuel of 0 \<Rightarrow> Fuel | Suc fuel \<Rightarrow>
        let off = nat (pos mod 1024) in
        obind (read_file_block i (cdiv pos 1024) s) (\<lambda>(bh, s).
        case bh of
          None \<Rightarrow> getdents_loop fuel tail hide i (s32 (pos + (1024 - int off))) sz s
        | Some b \<Rightarrow>
            (case scan_entries hide (b_data (buf b s) @ tail) off pos sz of
               (pos, r) \<Rightarrow>
                 obind (brelse (Some b) s) (\<lambda>s.
                 case r of None \<Rightarrow> getdents_loop fuel tail hide i pos sz s | Some e \<Rightarrow> Done (pos, Some e, s)))))"

declare getdents_loop.simps [simp del]

text \<open>The returned value is the length of the name, 0 at the end.\<close>

definition minix_getdents_gen :: "bool \<Rightarrow> byte list \<Rightarrow> nat \<Rightarrow> nat \<Rightarrow> fs_state \<Rightarrow> (int \<times> (int \<times> byte list) option \<times> fs_state) outcome" where
  "minix_getdents_gen hide tail i f s =
     (if \<not> S_ISDIR (i_mode (ino i s)) then Done (- EBADF, None, s)
      else
        obind (getdents_loop (nat (i_size (ino i s))) tail hide i (pos_of f s) (i_size (ino i s)) s) (\<lambda>(pos, r, s).
        Done (case r of None \<Rightarrow> 0 | Some (_, name) \<Rightarrow> int (length name), r, upd_file f (\<lambda>x. x\<lparr>f_pos := pos\<rparr>) s)))"

definition minix_getdents :: "byte list \<Rightarrow> nat \<Rightarrow> nat \<Rightarrow> fs_state \<Rightarrow> (int \<times> (int \<times> byte list) option \<times> fs_state) outcome" where
  "minix_getdents tail i f s = minix_getdents_gen True tail i f s"

definition minix_getdents64 :: "byte list \<Rightarrow> nat \<Rightarrow> nat \<Rightarrow> fs_state \<Rightarrow> (int \<times> (int \<times> byte list) option \<times> fs_state) outcome" where
  "minix_getdents64 tail i f s = minix_getdents_gen False tail i f s"

text \<open>\<open>sz\<close> is the size of the user's structure.\<close>

definition getdents_call :: "(nat \<Rightarrow> nat \<Rightarrow> fs_state \<Rightarrow> (int \<times> (int \<times> byte list) option \<times> fs_state) outcome) \<Rightarrow> int \<Rightarrow> nat \<Rightarrow> int \<Rightarrow> fs_state \<Rightarrow>
    (int \<times> (int \<times> byte list) option \<times> fs_state) outcome" where
  "getdents_call g sz fd dirp s =
     (case ufilp fd s of
        None \<Rightarrow> Done (- EBADF, None, s)
      | Some f \<Rightarrow>
          (case f_inode (file_of f s) of
             None \<Rightarrow> Done (- EBADF, None, s)
           | Some i \<Rightarrow>
               obind (verify_area (t_data_base (cur_task s)) dirp sz (k_mm s)) (\<lambda>m. g i f (s\<lparr>k_mm := m\<rparr>))))"

definition sys_getdents :: "byte list \<Rightarrow> nat \<Rightarrow> int \<Rightarrow> fs_state \<Rightarrow> (int \<times> (int \<times> byte list) option \<times> fs_state) outcome" where
  "sys_getdents tail fd dirp s = getdents_call (minix_getdents tail) 268 fd dirp s"

definition sys_getdents64 :: "byte list \<Rightarrow> nat \<Rightarrow> int \<Rightarrow> fs_state \<Rightarrow> (int \<times> (int \<times> byte list) option \<times> fs_state) outcome" where
  "sys_getdents64 tail fd dirp s = getdents_call (minix_getdents64 tail) 276 fd dirp s"

end
