(* ===== verification/ExitSys.thy ===== *)
theory ExitSys
  imports Exec
begin

text \<open>
  The end of a task: \<open>do_exit\<close> and \<open>sys_exit\<close> of src/kernel/exit.c, over the file system, the terminals and
  the memory of the task.
\<close>

unbundle bit_operations_syntax

text \<open>Children of the task become children of task 0.\<close>

definition orphan_children :: "sched_state \<Rightarrow> sched_state" where
  "orphan_children s =
     (let pid = t_pid (cur s) in
      s\<lparr>tasks := map (map_option (\<lambda>t. if t_father t = pid then t\<lparr>t_father := 0\<rparr> else t)) (tasks s)\<rparr>)"

fun close_all :: "nat list \<Rightarrow> fs_state \<Rightarrow> fs_state outcome" where
  "close_all [] s = Done s"
| "close_all (fd # fds) s =
     obind (if t_filp (cur_task s) ! fd \<noteq> None then sys_close fd s else Done (0, s)) (\<lambda>(_, s). close_all fds s)"

text \<open>An operation of \<open>Process\<close> on the part of the state that it knows.\<close>

definition on_kernel :: "(kstate \<Rightarrow> kstate outcome) \<Rightarrow> fs_state \<Rightarrow> fs_state outcome" where
  "on_kernel f s = obind (f (kstate.truncate s)) (\<lambda>k. Done (s\<lparr>k_sched := k_sched k, k_mm := k_mm k\<rparr>))"

definition exit_files :: "fs_state \<Rightarrow> fs_state outcome" where
  "exit_files s =
     obind (close_all [0..<NR_OPEN] s) (\<lambda>s.
     obind (iput (t_pwd (cur_task s)) s) (\<lambda>s.
     let s = upd_task_cur (\<lambda>t. t\<lparr>t_pwd := None\<rparr>) s in
     obind (iput (t_root (cur_task s)) s) (\<lambda>s.
     Done (upd_task_cur (\<lambda>t. t\<lparr>t_root := None\<rparr>) s))))"

definition exit_tty :: "sys_state \<Rightarrow> sys_state outcome" where
  "exit_tty s =
     (let c = cur_task (sy_fs s) in
      if t_leader c \<noteq> 0 \<and> t_tty c \<ge> 0 then
        (if nat (t_tty c) < length (ttys (sy_tty s)) then
           Done (s\<lparr>sy_tty := upd_tty (nat (t_tty c)) (\<lambda>t. t\<lparr>tty_pgrp := 0\<rparr>) (sy_tty s)\<rparr>)
         else Oob)
      else Done s)"

definition exit_task :: "int \<Rightarrow> fs_state \<Rightarrow> fs_state outcome" where
  "exit_task code s =
     (let sc = k_sched s;
          sc = (if last_task_used_math sc = Some (current sc) then sc\<lparr>last_task_used_math := None\<rparr> else sc);
          s = s\<lparr>k_sched := sc\<rparr> in
      if t_father (cur sc) \<noteq> 0 then
        let sc = upd_cur (\<lambda>t. t\<lparr>t_state := TASK_ZOMBIE\<rparr>) sc;
            sc = do_kill (t_father (cur sc)) SIGCHLD 1 sc;
            sc = upd_cur (\<lambda>t. t\<lparr>t_exit_code := code\<rparr>) sc
        in Done (s\<lparr>k_sched := sc\<rparr>)
      else on_kernel (release (Some (current sc))) s)"

definition do_exit :: "int \<Rightarrow> sys_state \<Rightarrow> sys_state outcome" where
  "do_exit code s =
     obind (free_user (sy_fs s)) (\<lambda>fs.
     obind (exit_files (fs\<lparr>k_sched := orphan_children (k_sched fs)\<rparr>)) (\<lambda>fs.
     obind (exit_tty (s\<lparr>sy_fs := fs\<rparr>)) (\<lambda>s.
     obind (exit_task code (sy_fs s)) (\<lambda>fs.
     case schedule (k_sched fs) of None \<Rightarrow> Fuel | Some sc \<Rightarrow> Done (s\<lparr>sy_fs := fs\<lparr>k_sched := sc\<rparr>\<rparr>)))))"

definition sys_exit :: "int \<Rightarrow> sys_state \<Rightarrow> sys_state outcome" where
  "sys_exit error_code s = do_exit ((error_code AND 0xff) * 256) s"

end
