(* ===== verification/InodeTable.thy ===== *)
theory InodeTable
  imports InodeProps
begin

text \<open>
  The table of inodes in memory: writing an inode and reading it again, and \<open>iget\<close>, which keeps one entry
  for each inode.
\<close>

section \<open>Writing and reading an inode\<close>

lemma wake_cache [simp]:
  "view (wake_inode i s) = view s" "usable (wake_inode i s) = usable s" "on_disk (wake_inode i s) = on_disk s"
  "view (unlock_inode i s) = view s" "usable (unlock_inode i s) = usable s" "on_disk (unlock_inode i s) = on_disk s"
  by (simp_all add: wake_inode_def unlock_inode_def split_beta Let_def)

lemma brelse_upd_ino: "brelse p (upd_ino i f s) = obind (brelse p s) (\<lambda>s. Done (upd_ino i f s))"
  by (cases p) (auto simp: brelse_def upd_ino_def upd_buf_def buf_def wait_on_buffer_def)

lemma upd_buf_ino: "upd_ino i f (upd_buf b g s) = upd_buf b g (upd_ino i f s)"
  by (simp add: upd_ino_def upd_buf_def)

lemma ino_frame [simp]:
  "ino j (upd_buf b g s) = ino j s" "ino j (s\<lparr>k_sched := x\<rparr>) = ino j s" "fs_supers (upd_ino i f s) = fs_supers s" "fs_supers (upd_buf b g s) = fs_supers s"
  "get_super d (upd_ino i f s) = get_super d s" "super p (upd_ino i f s) = super p s" "k_inodes (upd_buf b g s) = k_inodes s"
  by (simp_all add: ino_def upd_buf_def upd_ino_def get_super_def super_def)

lemma ino_unlock: "i < length (k_inodes s) \<Longrightarrow> ino j (unlock_inode i s) = (if j = i then (ino i s)\<lparr>i_lock := 0, i_wait := None\<rparr> else ino j s)"
  by (auto simp: unlock_inode_def wake_inode_def wake_up_def ino_def upd_ino_def Let_def)

lemma unlock_fields [simp]:
  "fs_supers (unlock_inode i s) = fs_supers s" "length (k_inodes (unlock_inode i s)) = length (k_inodes s)"
  by (simp_all add: unlock_inode_def wake_inode_def upd_ino_def split_beta Let_def)

text \<open>An inode of a mounted device, in the table and not locked.\<close>

definition inode_ok :: "nat \<Rightarrow> nat \<Rightarrow> fs_state \<Rightarrow> bool" where
  "inode_ok i p s \<longleftrightarrow> i < length (k_inodes s) \<and> i_lock (ino i s) = 0 \<and> 0 < i_dev (ino i s) \<and> i_dev (ino i s) < 65536 \<and>
     get_super (i_dev (ino i s)) s = Some p \<and> on_disk s (i_dev (ino i s)) (inode_block (super p s) (ino i s)) \<and>
     length (view s (i_dev (ino i s)) (inode_block (super p s) (ino i s))) = 1024"

lemma inode_block_lock [simp]: "inode_block sb (n\<lparr>i_lock := l\<rparr>) = inode_block sb n" "inode_offset (n\<lparr>i_lock := l\<rparr>) = inode_offset n"
  by (simp_all add: inode_block_def inode_offset_def)

lemma offset_fits: "inode_offset n + 32 \<le> 1024"
proof -
  have "nat (u32 (i_num n - 1) mod INODES_PER_BLOCK) \<le> 31" by (simp add: INODES_PER_BLOCK_def)
  then show ?thesis by (simp add: inode_offset_def)
qed

lemma bread_inode_held:
  assumes u: "usable s" and ok: "inode_ok i p s"
  shows "\<exists>b s2. bread_inode i (upd_ino i (\<lambda>n. n\<lparr>i_lock := 1\<rparr>) s) = Done (b, s2) \<and>
    held (upd_ino i (\<lambda>n. n\<lparr>i_lock := 1\<rparr>) s) (i_dev (ino i s)) (inode_block (super p s) (ino i s)) b s2"
proof -
  let ?s = "upd_ino i (\<lambda>n. n\<lparr>i_lock := 1\<rparr>) s"
  have i: "ino i ?s = (ino i s)\<lparr>i_lock := 1\<rparr>" using ok by (simp add: inode_ok_def)
  obtain b s2 where "bread (i_dev (ino i s)) (inode_block (super p s) (ino i s)) ?s = Done (Some b, s2)"
    "held ?s (i_dev (ino i s)) (inode_block (super p s) (ino i s)) b s2"
    using bread_usable [of ?s "i_dev (ino i s)" "inode_block (super p s) (ino i s)"] u ok by (auto simp: inode_ok_def)
  then show ?thesis using ok i by (auto simp: bread_inode_def inode_ok_def)
qed


lemma write_inode_stores:
  assumes u: "usable s" and ok: "inode_ok i p s"
  shows "\<exists>s'. write_inode i s = Done s' \<and> usable s' \<and> on_disk s' = on_disk s \<and> fs_supers s' = fs_supers s \<and> length (k_inodes s') = length (k_inodes s) \<and>
    view s' (i_dev (ino i s)) (inode_block (super p s) (ino i s)) =
      store_inode (inode_offset (ino i s)) (ino i s) (view s (i_dev (ino i s)) (inode_block (super p s) (ino i s))) \<and>
    (\<forall>e m. e \<noteq> 0 \<longrightarrow> (e, m) \<noteq> (i_dev (ino i s), inode_block (super p s) (ino i s)) \<longrightarrow> view s' e m = view s e m) \<and>
    ino i s' = (ino i s)\<lparr>i_dirt := 0, i_wait := None\<rparr> \<and> (\<forall>j. j \<noteq> i \<longrightarrow> ino j s' = ino j s)"
proof -
  let ?n = "ino i s" and ?s1 = "upd_ino i (\<lambda>n. n\<lparr>i_lock := 1\<rparr>) s"
  let ?d = "i_dev ?n" and ?z = "inode_block (super p s) ?n"
  have i: "i < length (k_inodes s)" and l: "i_lock ?n = 0" and d: "0 < ?d" "?d < 65536" and od: "on_disk ?s1 ?d ?z" and us: "usable ?s1"
    using ok u by (simp_all add: inode_ok_def)
  obtain b s2 where b: "bread_inode i ?s1 = Done (b, s2)" "held ?s1 ?d ?z b s2" using bread_inode_held [OF u ok] by blast
  have r2: "rest s2 = rest ?s1" "b_data (buf b s2) = view s ?d ?z" "b_uptodate (buf b s2) \<noteq> 0" using b(2) by (simp_all add: held_def)
  have k2: "k_inodes s2 = k_inodes ?s1" "fs_supers s2 = fs_supers ?s1" using r2(1) by (simp_all add: rest_def)
  have n2: "ino j s2 = (if j = i then ?n\<lparr>i_lock := 1\<rparr> else ino j s)" for j using k2 i by (auto simp: ino_def upd_ino_def)
  define m where "m = ?n\<lparr>i_lock := 1\<rparr>"
  let ?f = "\<lambda>x. x\<lparr>b_data := store_inode (inode_offset m) m (b_data x), b_dirt := 1\<rparr>"
  have "\<exists>s3. brelse (Some b) (upd_buf b ?f s2) = Done s3 \<and> settled ?s1 s3 \<and> view s3 ?d ?z = b_data (?f (buf b s2)) \<and>
    (\<forall>e k. e \<noteq> 0 \<longrightarrow> (e, k) \<noteq> (?d, ?z) \<longrightarrow> view s3 e k = view ?s1 e k)"
    by (rule held_modified [OF us b(2) d(1) od]) (use r2(3) in simp_all)
  then obtain s3 where s3: "brelse (Some b) (upd_buf b ?f s2) = Done s3" "settled ?s1 s3"
    "view s3 ?d ?z = store_inode (inode_offset m) m (view s ?d ?z)" "\<forall>e k. e \<noteq> 0 \<longrightarrow> (e, k) \<noteq> (?d, ?z) \<longrightarrow> view s3 e k = view s e k"
    using r2(2) by auto
  note f3 = settled_fields [OF s3(2)]
  have st: "store_inode (inode_offset m) m = store_inode (inode_offset ?n) ?n" by (intro ext) (simp add: m_def store_inode_def)
  let ?s' = "unlock_inode i (upd_ino i (\<lambda>n. n\<lparr>i_dirt := 0\<rparr>) s3)"
  have w: "write_inode i s = Done ?s'"
    using l b(1) n2 s3(1) by (simp add: write_inode_def lock_inode_def brelse_upd_ino m_def Let_def)
  have len: "length (k_inodes s3) = length (k_inodes s)" using f3(1) by (simp add: upd_ino_def)
  have n3: "ino j s3 = (if j = i then m else ino j s)" for j using f3(4) [of j] i by (simp add: m_def ino_def upd_ino_def)
  have j: "ino j ?s' = (if j = i then ?n\<lparr>i_dirt := 0, i_wait := None\<rparr> else ino j s)" for j
    using i len l n3 by (auto simp: ino_unlock m_def) 
  have sup: "fs_supers ?s' = fs_supers s" "length (k_inodes ?s') = length (k_inodes s)"
    using f3(3) len by simp_all
  show ?thesis unfolding w using s3(3,4) settled_usable [OF us s3(2)] f3(5) sup j by (simp add: st)
qed


lemma read_inode_loads:
  assumes u: "usable s" and ok: "inode_ok i p s"
  shows "\<exists>s'. read_inode i s = Done s' \<and> usable s' \<and> same_view s s' \<and> length (k_inodes s') = length (k_inodes s) \<and>
    ino i s' = (load_inode (inode_offset (ino i s)) (view s (i_dev (ino i s)) (inode_block (super p s) (ino i s))) (ino i s))\<lparr>i_wait := None\<rparr> \<and>
    (\<forall>j. j \<noteq> i \<longrightarrow> ino j s' = ino j s)"
proof -
  let ?n = "ino i s" and ?s1 = "upd_ino i (\<lambda>n. n\<lparr>i_lock := 1\<rparr>) s"
  let ?d = "i_dev ?n" and ?z = "inode_block (super p s) ?n"
  have i: "i < length (k_inodes s)" and l: "i_lock ?n = 0" and us: "usable ?s1" using ok u by (simp_all add: inode_ok_def)
  obtain b s2 where b: "bread_inode i ?s1 = Done (b, s2)" "held ?s1 ?d ?z b s2" using bread_inode_held [OF u ok] by blast
  have r2: "rest s2 = rest ?s1" "b_data (buf b s2) = view s ?d ?z" using b(2) by (simp_all add: held_def)
  have k2: "k_inodes s2 = k_inodes ?s1" using r2(1) by (simp add: rest_def)
  have n2: "ino j s2 = (if j = i then ?n\<lparr>i_lock := 1\<rparr> else ino j s)" for j using k2 i by (auto simp: ino_def upd_ino_def)
  obtain s3 where s3: "brelse (Some b) s2 = Done s3" "settled ?s1 s3" "same_view ?s1 s3" using held_settled [OF us b(2)] by blast
  note f3 = settled_fields [OF s3(2)]
  let ?f = "load_inode (inode_offset ?n) (view s ?d ?z)"
  let ?s' = "unlock_inode i (upd_ino i ?f s3)"
  have w: "read_inode i s = Done ?s'"
    using l b(1) n2 s3(1) r2(2) by (simp add: read_inode_def lock_inode_def brelse_upd_ino Let_def)
  have len: "length (k_inodes s3) = length (k_inodes s)" using f3(1) by (simp add: upd_ino_def)
  have n3: "ino j s3 = (if j = i then ?n\<lparr>i_lock := 1\<rparr> else ino j s)" for j using f3(4) [of j] i by (simp add: ino_def upd_ino_def)
  have j: "ino j ?s' = (if j = i then (?f ?n)\<lparr>i_wait := None\<rparr> else ino j s)" for j
    using i len l n3 by (auto simp: ino_unlock load_inode_def)
  show ?thesis unfolding w using settled_usable [OF us s3(2)] s3(3) len j by (simp add: same_view_def)
qed



definition two_inodes :: fs_state where
  "two_inodes = (fs_boot 2 (\<lambda>_ _. replicate 1024 7))
     \<lparr>k_inodes := [(one_inode [5, 6, 0, 0, 0, 0, 0, 0, 0])\<lparr>i_dirt := 1\<rparr>, one_inode (replicate 9 0)],
      fs_supers := [\<lparr>s_ninodes = 32, s_nzones = 100, s_imap_blocks = 1, s_zmap_blocks = 1, s_firstdatazone = 5,
           s_log_zone_size = 0, s_max_size = 1000, s_magic = SUPER_MAGIC, s_imap = replicate 8 None,
           s_zmap = replicate 8 None, s_dev = 0x301, s_isup = None, s_imount = None, s_time = 0, s_rd_only = 0, s_dirt = 0\<rparr>]\<rparr>"

lemma supers_cache [simp]:
  "view (s\<lparr>fs_supers := x\<rparr>) = view s" "on_disk (s\<lparr>fs_supers := x\<rparr>) = on_disk s" "usable (s\<lparr>fs_supers := x\<rparr>) = usable s"
proof -
  have h: "holds (s\<lparr>fs_supers := x\<rparr>) = holds s" by (simp add: holds_def [abs_def] buf_def)
  have o: "on_disk (s\<lparr>fs_supers := x\<rparr>) = on_disk s" by (simp add: on_disk_def [abs_def])
  have b: "buf i (s\<lparr>fs_supers := x\<rparr>) = buf i s" for i by (simp add: buf_def)
  show "view (s\<lparr>fs_supers := x\<rparr>) = view s" by (intro ext) (simp add: view_def h b split: option.splits)
  show "on_disk (s\<lparr>fs_supers := x\<rparr>) = on_disk s" by (rule o)
  show "usable (s\<lparr>fs_supers := x\<rparr>) = usable s"
    by (simp add: usable_def cache_ok_def bufs_ok_def queues_ok_def buf_ok_def o h b counts_def)
qed

lemma two_inodes_ok: "usable two_inodes" "inode_ok 0 0 two_inodes" "disk_range (ino 0 two_inodes)"
proof -
  show "usable two_inodes" by (simp add: two_inodes_def boot_usable)
  have n: "ino 0 two_inodes = (one_inode [5, 6, 0, 0, 0, 0, 0, 0, 0])\<lparr>i_dirt := 1\<rparr>" by (simp add: two_inodes_def ino_def)
  have sb: "get_super 0x301 two_inodes = Some 0" "s_imap_blocks (super 0 two_inodes) = 1" "s_zmap_blocks (super 0 two_inodes) = 1"
    by (simp_all add: two_inodes_def get_super_def super_def)
  have z: "inode_block (super 0 two_inodes) (ino 0 two_inodes) = 4"
    by (simp add: n sb inode_block_def one_inode_def u32_def s32_def INODES_PER_BLOCK_def)
  show "inode_ok 0 0 two_inodes"
    unfolding inode_ok_def z by (simp add: n sb one_inode_def [THEN arg_cong] boot_on_disk boot_view)
      (simp add: two_inodes_def one_inode_def boot_on_disk boot_view sb)
  show "disk_range (ino 0 two_inodes)" by (simp add: n one_inode_def disk_range_def u16_def u32_def u8_def S_IFREG_def)
qed



section \<open>The table of inodes\<close>

text \<open>No two entries stand for the same inode of a device.\<close>

definition table_ok :: "fs_state \<Rightarrow> bool" where
  "table_ok s \<longleftrightarrow> length (k_inodes s) = NR_INODE \<and>
     (\<forall>i<NR_INODE. \<forall>j<NR_INODE. i_dev (ino i s) \<noteq> 0 \<and> i_dev (ino i s) = i_dev (ino j s) \<and> i_num (ino i s) = i_num (ino j s) \<longrightarrow> i = j)"

lemma table_okD: "table_ok s \<Longrightarrow> i < NR_INODE \<Longrightarrow> j < NR_INODE \<Longrightarrow> i_dev (ino i s) \<noteq> 0 \<Longrightarrow> i_dev (ino i s) = i_dev (ino j s) \<Longrightarrow>
    i_num (ino i s) = i_num (ino j s) \<Longrightarrow> i = j"
  by (simp add: table_ok_def)

lemma table_ok_frame:
  assumes t: "table_ok s" and l: "length (k_inodes s') = NR_INODE"
    and f: "\<And>j. j \<noteq> e \<Longrightarrow> i_dev (ino j s') = i_dev (ino j s) \<and> i_num (ino j s') = i_num (ino j s)"
    and e: "i_dev (ino e s') = 0 \<or> (\<forall>j<NR_INODE. j \<noteq> e \<longrightarrow> \<not> (i_dev (ino j s) = i_dev (ino e s') \<and> i_num (ino j s) = i_num (ino e s')))"
  shows "table_ok s'"
  unfolding table_ok_def
proof (intro conjI l allI impI)
  fix i j assume ij: "i < NR_INODE" "j < NR_INODE" "i_dev (ino i s') \<noteq> 0 \<and> i_dev (ino i s') = i_dev (ino j s') \<and> i_num (ino i s') = i_num (ino j s')"
  have ne: False if "k < NR_INODE" "k \<noteq> e" "i_dev (ino e s') \<noteq> 0" "i_dev (ino e s') = i_dev (ino k s')" "i_num (ino e s') = i_num (ino k s')" for k
  proof -
    have "\<not> (i_dev (ino k s) = i_dev (ino e s') \<and> i_num (ino k s) = i_num (ino e s'))" using e that(1-3) by blast
    then show False using conjunct1 [OF f [OF that(2)]] conjunct2 [OF f [OF that(2)]] that(4,5) by metis
  qed
  consider "i = j" | "i = e" "j \<noteq> e" | "j = e" "i \<noteq> e" | "i \<noteq> e" "j \<noteq> e" by blast
  then show "i = j"
  proof cases
    case 2
    then show ?thesis using ne [OF ij(2) 2(2)] ij(3) by blast
  next
    case 3
    then show ?thesis using ne [OF ij(1) 3(2)] ij(3) by metis
  next
    case 4
    then show ?thesis using f [OF 4(1)] f [OF 4(2)] ij(3) table_okD [OF t ij(1,2)] by metis
  qed
qed

definition idle :: "nat \<Rightarrow> fs_state \<Rightarrow> bool" where
  "idle e s \<longleftrightarrow> i_count (ino e s) = 0 \<and> i_lock (ino e s) = 0 \<and> i_dirt (ino e s) = 0"

lemma find_empty_Some: "find_empty s = Some e \<Longrightarrow> fs_last_inode s \<le> NR_INODE \<Longrightarrow> e < NR_INODE \<and> i_count (ino e s) = 0"
proof -
  let ?xs = "[fs_last_inode s..<NR_INODE] @ [0..<fs_last_inode s]"
  assume "find_empty s = Some e" and l: "fs_last_inode s \<le> NR_INODE"
  then obtain k where k: "k < length ?xs" "?xs ! k = e" "i_count (ino e s) = 0" unfolding find_empty_def find_Some_iff by blast
  then have "e \<in> set ?xs" using nth_mem by metis
  then show ?thesis using k(3) l by auto
qed

lemma get_empty_idle:
  assumes "find_empty s = Some e" "idle e s"
  shows "get_empty_inode s = Done (e, upd_ino e (\<lambda>_. zero_inode\<lparr>i_count := 1\<rparr>) (s\<lparr>fs_last_inode := e\<rparr>))"
  using assms by (simp add: get_empty_inode_def idle_def wait_on_inode_def ino_def Let_def)

lemma super_last [simp]: "get_super d (s\<lparr>fs_last_inode := x\<rparr>) = get_super d s" "super p (s\<lparr>fs_last_inode := x\<rparr>) = super p s"
  by (simp_all add: get_super_def super_def)

text \<open>The table after \<open>iget\<close> of the inode in entry \<open>i\<close>, which has taken and put back the unused entry \<open>e\<close>.\<close>

definition used_again :: "nat \<Rightarrow> nat \<Rightarrow> fs_state \<Rightarrow> fs_state" where
  "used_again e i s = upd_ino i (\<lambda>n. n\<lparr>i_count := i_count n + 1\<rparr>) (upd_ino e (\<lambda>_. zero_inode) (s\<lparr>fs_last_inode := e\<rparr>))"

lemma iget_in_table:
  assumes t: "table_ok s" and e: "find_empty s = Some e" "fs_last_inode s \<le> NR_INODE" "idle e s"
    and i: "i < NR_INODE" "i \<noteq> e" "i_dev (ino i s) = dev" "dev \<noteq> 0" "i_num (ino i s) = nr" "i_lock (ino i s) = 0"
      "0 \<le> i_count (ino i s)" "i_count (ino i s) < 65535"
  shows "iget dev nr s = Done (i, used_again e i s)"
proof -
  have len: "length (k_inodes s) = NR_INODE" using t by (simp add: table_ok_def)
  have en: "e < NR_INODE" using find_empty_Some [OF e(1,2)] by simp
  define s1 where "s1 = upd_ino e (\<lambda>_. zero_inode\<lparr>i_count := 1\<rparr>) (s\<lparr>fs_last_inode := e\<rparr>)"
  have g: "get_empty_inode s = Done (e, s1)" using get_empty_idle [OF e(1,3)] by (simp add: s1_def)
  have n1: "ino j s1 = (if j = e then zero_inode\<lparr>i_count := 1\<rparr> else ino j s)" for j
    using en len by (auto simp: s1_def ino_def upd_ino_def)
  have "\<not> (i_dev (ino j s1) = dev \<and> i_num (ino j s1) = nr)" if "j < i" for j
    using table_okD [OF t, of j i] that i n1 by (auto simp: zero_inode_def)
  then have f: "find (\<lambda>i. i_dev (ino i s1) = dev \<and> i_num (ino i s1) = nr) [0..<NR_INODE] = Some i"
    unfolding find_Some_iff using i n1 [of i] by (intro exI [of _ i]) simp
  let ?s2 = "upd_ino i (\<lambda>n. n\<lparr>i_count := u16 (i_count n + 1)\<rparr>) s1"
  have l1: "length (k_inodes s1) = NR_INODE" using len by (simp add: s1_def upd_ino_def)
  have "iput (Some e) ?s2 = Done (upd_ino e (\<lambda>n. n\<lparr>i_count := u16 (i_count n - 1)\<rparr>) ?s2)"
    using n1 i(1,2) en l1 by (simp add: iput_def wait_on_inode_def zero_inode_def)
  moreover have "upd_ino e (\<lambda>n. n\<lparr>i_count := u16 (i_count n - 1)\<rparr>) ?s2 = used_again e i s"
    using i en len by (simp add: s1_def used_again_def upd_ino_def ino_def u16_id list_update_swap u16_def zero_inode_def)
  ultimately show ?thesis using i n1 g f by (simp add: iget_def wait_on_inode_def Let_def)
qed

lemma used_again_ino:
  assumes "length (k_inodes s) = NR_INODE" "e < NR_INODE" "i < NR_INODE" "i \<noteq> e"
  shows "ino j (used_again e i s) =
    (if j = i then (ino i s)\<lparr>i_count := i_count (ino i s) + 1\<rparr> else if j = e then zero_inode else ino j s)"
  using assms by (auto simp: used_again_def ino_def upd_ino_def)

lemma used_again_simps [simp]:
  "usable (used_again e i s) = usable s" "view (used_again e i s) = view s" "on_disk (used_again e i s) = on_disk s"
  "k_sched (used_again e i s) = k_sched s" "k_files (used_again e i s) = k_files s" "fs_last_inode (used_again e i s) = e"
  "length (k_inodes (used_again e i s)) = length (k_inodes s)"
proof -
  show "usable (used_again e i s) = usable s" "view (used_again e i s) = view s" "on_disk (used_again e i s) = on_disk s"
    by (simp_all add: used_again_def)
  show "k_sched (used_again e i s) = k_sched s" "k_files (used_again e i s) = k_files s" "fs_last_inode (used_again e i s) = e"
    "length (k_inodes (used_again e i s)) = length (k_inodes s)" by (simp_all add: used_again_def upd_ino_def)
qed




end
