(* ===== verification/Tool.thy ===== *)
theory Tool
  imports OpenSys Printk
begin

text \<open>
  The tool window of src/kernel/console.c: a list of files and a clipboard, drawn over the upper right
  corner of the screen and worked by function keys and arrows. The arrays of the window are lists of
  bytes of the size of the C arrays. The routines run in the keyboard interrupt; \<open>namei\<close> reads its path with
  \<open>get_fs_byte\<close>, from the memory of the interrupted task at the address of \<open>current_addres\<close>: \<open>upath\<close> is
  what is found there.
\<close>

section \<open>State\<close>

definition TOOL_COL_START :: int where "TOOL_COL_START = 57"
definition TOOL_COL_END :: int where "TOOL_COL_END = 79"
definition TOOL_LINE_START :: int where "TOOL_LINE_START = 0"
definition TOOL_LINE_END :: int where "TOOL_LINE_END = 12"

lemmas tool_consts = TOOL_COL_START_def TOOL_COL_END_def TOOL_LINE_START_def TOOL_LINE_END_def

record tool_state =
  tw_sys :: sys_state
  tw_tool :: int
  f1_down_flag :: int
  dir_inode :: "nat option"
  root_inode :: "nat option"
  tw_type :: "int list"
  tw_inode :: "int list"
  tw_name :: "byte list list"
  selected_index :: int
  list_count :: int
  character_for_input :: byte
  text_clip :: "byte list list"
  selected_index_clip :: int
  current_addres :: "byte list"

definition on_con :: "(console \<Rightarrow> console outcome) \<Rightarrow> tool_state \<Rightarrow> tool_state outcome" where
  "on_con f s =
     obind (f (ts_con (sy_tty (tw_sys s)))) (\<lambda>c. Done (s\<lparr>tw_sys := (tw_sys s)\<lparr>sy_tty := (sy_tty (tw_sys s))\<lparr>ts_con := c\<rparr>\<rparr>\<rparr>))"

definition tool_fs :: "fs_state \<Rightarrow> tool_state \<Rightarrow> tool_state" where
  "tool_fs fs s = s\<lparr>tw_sys := (tw_sys s)\<lparr>sy_fs := fs\<rparr>\<rparr>"

abbreviation fs_of :: "tool_state \<Rightarrow> fs_state" where "fs_of s \<equiv> sy_fs (tw_sys s)"

section \<open>Drawing\<close>

text \<open>\<open>gotoxy\<close> and the store of a character with an attribute, for a list of positions.\<close>

fun plot :: "int \<Rightarrow> (int \<times> int \<times> int) list \<Rightarrow> console \<Rightarrow> console outcome" where
  "plot a [] c = Done c"
| "plot a ((px, py, ch) # ps) c = obind (put_cell a ch (gotoxy px py c)) (plot a ps)"

definition framed :: "(console \<Rightarrow> console outcome) \<Rightarrow> console \<Rightarrow> console outcome" where
  "framed f c = obind (f (save_cur c)) (\<lambda>c. Done (restore_cur c))"

definition frame_cells :: "(int \<times> int \<times> int) list" where
  "frame_cells =
     map (\<lambda>i. (i, 0, 35)) [TOOL_COL_START..TOOL_COL_END - 2] @
     map (\<lambda>i. (i, TOOL_LINE_END - 1, 35)) [TOOL_COL_START..TOOL_COL_END - 2] @
     map (\<lambda>i. (TOOL_COL_START, i, 35)) [TOOL_LINE_START..TOOL_LINE_END - 1] @
     map (\<lambda>i. (TOOL_COL_END - 1, i, 35)) [TOOL_LINE_START..TOOL_LINE_END - 1] @
     concat (map (\<lambda>i. map (\<lambda>j. (j, i, 32)) [TOOL_COL_START + 1..TOOL_COL_END - 2]) [TOOL_LINE_START + 1..TOOL_LINE_END - 2])"

definition tool_draw :: "console \<Rightarrow> console outcome" where
  "tool_draw c = framed (plot (con_attr c) frame_cells) c"

definition col_write_start :: "nat \<Rightarrow> int" where
  "col_write_start n = TOOL_COL_START + (12 - int (n div 2)) - 1"

definition text_cells :: "int \<Rightarrow> byte list \<Rightarrow> (int \<times> int \<times> int) list" where
  "text_cells row t = map (\<lambda>j. (col_write_start (length t) + int j, row, uint (t ! j))) [0..<length t]"

text \<open>The characters of a C string in an array.\<close>

definition c_string :: "byte list \<Rightarrow> byte list outcome" where
  "c_string b = obind (strlen b) (\<lambda>n. Done (take n b))"

definition set_path_name :: "byte list \<Rightarrow> console \<Rightarrow> console outcome" where
  "set_path_name path c =
     framed (plot (con_attr c)
       ((col_write_start (length path) - 1, 0, 91) # text_cells 0 path @ [(col_write_start (length path) + int (length path), 0, 93)])) c"

fun draw_rows :: "(nat \<Rightarrow> int) \<Rightarrow> byte list list \<Rightarrow> nat list \<Rightarrow> console \<Rightarrow> console outcome" where
  "draw_rows clr rows [] c = Done c"
| "draw_rows clr rows (i # is) c =
     obind (c_string (rows ! i)) (\<lambda>t. obind (plot (clr i) (text_cells (int i + 1) t) c) (draw_rows clr rows is))"

definition draw_list_clip :: "tool_state \<Rightarrow> console \<Rightarrow> console outcome" where
  "draw_list_clip s c = framed (draw_rows (\<lambda>_. 0x06) (text_clip s) [0..<10]) c"

text \<open>
  The colour of an entry. For a type that is none of the four, \<open>col\<close> keeps the colour of the entry
  before; before the first entry it has no defined value (\<open>stale\<close>).
\<close>

fun entry_colour :: "int \<Rightarrow> int list \<Rightarrow> nat \<Rightarrow> int" where
  "entry_colour stale ty i =
     (if ty ! i = 0 then 0x07 else if ty ! i = 1 then 0x03 else if ty ! i = 2 then 0x02 else if ty ! i = 3 then 0x06
      else case i of 0 \<Rightarrow> stale | Suc k \<Rightarrow> entry_colour stale ty k)"

definition draw_list :: "int \<Rightarrow> tool_state \<Rightarrow> console \<Rightarrow> console outcome" where
  "draw_list stale s c =
     (if list_count s = 0 then Done c
      else framed (draw_rows (entry_colour stale (tw_type s)) (tw_name s) [0..<nat (list_count s)]) c)"

fun recolour :: "int \<Rightarrow> (int \<times> int) list \<Rightarrow> console \<Rightarrow> console outcome" where
  "recolour a [] c = Done c"
| "recolour a ((px, py) # ps) c =
     (let c = gotoxy px py c in
      obind (vget (con_pos c) (con_vmem c)) (\<lambda>v. obind (put_cell a v c) (recolour a ps)))"

definition mark_row :: "int \<Rightarrow> console \<Rightarrow> console outcome" where
  "mark_row row c = framed (recolour 0x30 (map (\<lambda>j. (j, row)) [TOOL_COL_START + 1..TOOL_COL_END - 2])) c"

definition mark_selected_clip :: "tool_state \<Rightarrow> console \<Rightarrow> console outcome" where
  "mark_selected_clip s c = mark_row (selected_index_clip s + 1) c"

definition mark_selected :: "tool_state \<Rightarrow> console \<Rightarrow> console outcome" where
  "mark_selected s c = mark_row (selected_index s + 1) c"

text \<open>\<open>"clipboard"\<close>\<close>

definition clip_title :: "byte list" where
  "clip_title = [0x63, 0x6c, 0x69, 0x70, 0x62, 0x6f, 0x61, 0x72, 0x64]"

definition print_name_and_index :: "console \<Rightarrow> console outcome" where
  "print_name_and_index c = framed (plot 0x03 (map (\<lambda>i. (int i, 0,
     [80, 97, 118, 108, 101, 32, 80, 114, 105, 99, 97, 32, 82, 78, 32, 55, 53, 47, 50, 48, 49, 56] ! i)) [0..<22])) c"

section \<open>The clipboard\<close>

definition show_clip :: "tool_state \<Rightarrow> tool_state outcome" where
  "show_clip s =
     obind (on_con tool_draw s) (\<lambda>s. obind (on_con (draw_list_clip s) s) (\<lambda>s.
     obind (on_con (mark_selected_clip s) s) (on_con (set_path_name clip_title))))"

definition titled_clip :: "tool_state \<Rightarrow> tool_state outcome" where
  "titled_clip s =
     obind (on_con tool_draw s) (\<lambda>s. obind (on_con (set_path_name clip_title) s) (\<lambda>s.
     obind (on_con (draw_list_clip s) s) (\<lambda>s. on_con (mark_selected_clip s) s)))"

definition clip_row :: "tool_state \<Rightarrow> byte list" where
  "clip_row s = text_clip s ! nat (selected_index_clip s)"

definition put_char_to_clip :: "tool_state \<Rightarrow> tool_state outcome" where
  "put_char_to_clip s =
     obind (strlen (clip_row s)) (\<lambda>n.
     if n < 19 then
       show_clip (s\<lparr>text_clip := (text_clip s)[nat (selected_index_clip s) := (clip_row s)[n := character_for_input s]]\<rparr>)
     else Done s)"

definition remove_char_for_clip :: "tool_state \<Rightarrow> tool_state outcome" where
  "remove_char_for_clip s =
     obind (strlen (clip_row s)) (\<lambda>n.
     if n \<noteq> 0 then
       show_clip (s\<lparr>text_clip := (text_clip s)[nat (selected_index_clip s) := (clip_row s)[n - 1 := 0]]\<rparr>)
     else Done s)"

text \<open>The selected text goes to the input queue of the first terminal, whatever room it has.\<close>

definition type_in :: "byte list \<Rightarrow> tool_state \<Rightarrow> tool_state" where
  "type_in t s =
     s\<lparr>tw_sys := (tw_sys s)\<lparr>sy_tty := upd_tty 0 (on_read_q (fold (\<lambda>b. PUTCH (uint b)) t)) (sy_tty (tw_sys s))\<rparr>\<rparr>"

definition paste_to_con :: "tool_state \<Rightarrow> tool_state outcome" where
  "paste_to_con s =
     (if tw_tool s = 2 then obind (c_string (clip_row s)) (\<lambda>t. Done (type_in t s))
      else
        obind (c_string (current_addres s)) (\<lambda>a.
        obind (c_string (tw_name s ! nat (selected_index s))) (\<lambda>t. Done (type_in t (type_in a s)))))"

section \<open>The list of files\<close>

text \<open>\<open>strcpy\<close> into an array of \<open>n\<close> bytes whose old contents are \<open>old\<close>, and \<open>strcat\<close> to the string in it.\<close>

definition strcpy_to :: "byte list \<Rightarrow> byte list \<Rightarrow> byte list outcome" where
  "strcpy_to t old = (if length t < length old then Done (t @ [0] @ drop (Suc (length t)) old) else Oob)"

definition strcat_to :: "byte list \<Rightarrow> byte list \<Rightarrow> byte list outcome" where
  "strcat_to t old = obind (strlen old) (\<lambda>n. strcpy_to (take n old @ t) old)"

definition mode_type :: "int \<Rightarrow> int" where
  "mode_type m = (if m = 16877 then 1 else if m = 33188 then 0 else if m = 33261 then 2 else if m = 8685 then 3 else -1)"

text \<open>
  The entries of the first block of the directory. The name of an entry is copied up to a zero byte, which
  can be in the next entry; a walk past the block is \<open>Oob\<close>.
\<close>

function fill_loop :: "byte list \<Rightarrow> nat \<Rightarrow> nat \<Rightarrow> tool_state \<Rightarrow> (nat \<times> tool_state) outcome" where
  "fill_loop d p i s =
     (if \<not> i < 10 then Done (i, s)
      else if p + 16 > 1024 then Oob
      else if entry_inode p d = 0 then Done (i, s)
      else if entry_name p d ! 0 = 0x2e then fill_loop d (p + 16) i s
      else
        obind (iget 0x301 (entry_inode p d) (fs_of s)) (\<lambda>(n, fs).
        obind (c_string (drop (p + 2) d)) (\<lambda>t.
        obind (strcpy_to t (tw_name s ! i)) (\<lambda>nm.
        obind (iput (Some n) fs) (\<lambda>fs'.
        fill_loop d (p + 16) (Suc i)
          (tool_fs fs' (s\<lparr>tw_type := (tw_type s)[i := mode_type (i_mode (ino n fs))], tw_inode := (tw_inode s)[i := entry_inode p d],
             tw_name := (tw_name s)[i := nm]\<rparr>)))))))"
  by pat_completeness auto
termination by (relation "measure (\<lambda>(_, p, _, _). 1024 - p)") auto

declare fill_loop.simps [simp del]

text \<open>The buffer of the directory block is not released.\<close>

definition fill_list :: "tool_state \<Rightarrow> tool_state outcome" where
  "fill_list s =
     (case dir_inode s of
        None \<Rightarrow> Oob
      | Some d \<Rightarrow>
          obind (bread (i_dev (ino d (fs_of s))) (i_zone (ino d (fs_of s)) ! 0) (fs_of s)) (\<lambda>(b, fs).
          case b of
            None \<Rightarrow> Oob
          | Some b \<Rightarrow> obind (fill_loop (b_data (buf b fs)) 0 0 (tool_fs fs s)) (\<lambda>(i, s). Done (s\<lparr>list_count := int i\<rparr>))))"

definition openR :: "byte list \<Rightarrow> tool_state \<Rightarrow> tool_state outcome" where
  "openR upath s =
     obind (iget 0x301 1 (fs_of s)) (\<lambda>(r, fs).
     obind (namei upath (upd_task_cur (\<lambda>t. t\<lparr>t_root := Some r, t_pwd := Some r\<rparr>) fs)) (\<lambda>(d, fs).
     Done ((tool_fs fs s)\<lparr>root_inode := Some r, dir_inode := d\<rparr>)))"

definition closeR :: "tool_state \<Rightarrow> tool_state outcome" where
  "closeR s =
     obind (iput (root_inode s) (fs_of s)) (\<lambda>fs.
     obind (iput (dir_inode s) fs) (\<lambda>fs.
     Done (tool_fs (upd_task_cur (\<lambda>t. t\<lparr>t_root := None, t_pwd := None\<rparr>) fs) s)))"

definition show_path :: "tool_state \<Rightarrow> tool_state outcome" where
  "show_path s = obind (c_string (current_addres s)) (\<lambda>p. on_con (set_path_name p) s)"

definition tool_dir :: "int \<Rightarrow> tool_state \<Rightarrow> tool_state outcome" where
  "tool_dir stale s =
     obind (on_con tool_draw s) (\<lambda>s. obind (show_path s) (\<lambda>s. obind (fill_list s) (\<lambda>s.
     obind (on_con (draw_list stale s) s) (\<lambda>s. on_con (mark_selected s) s))))"

definition tool_start :: "int \<Rightarrow> byte list \<Rightarrow> tool_state \<Rightarrow> tool_state outcome" where
  "tool_start stale upath s =
     (if tw_tool s = 1 then titled_clip (s\<lparr>tw_tool := 2\<rparr>)
      else if tw_tool s = 2 then tool_dir stale (s\<lparr>tw_tool := 1\<rparr>)
      else if tw_tool s = 0 then
        obind (strcpy_to [0x2f] (current_addres s)) (\<lambda>a.
        obind (openR upath (s\<lparr>tw_tool := 1, current_addres := a\<rparr>)) (\<lambda>s.
        obind (tool_dir stale s) closeR))
      else Done s)"

text \<open>A new directory: without entries the window stays as it is and \<open>closeR\<close> is not called.\<close>

definition enter_dir :: "int \<Rightarrow> byte list \<Rightarrow> tool_state \<Rightarrow> tool_state outcome" where
  "enter_dir stale upath s =
     obind (openR upath s) (\<lambda>s. obind (on_con tool_draw s) (\<lambda>s. obind (show_path s) (\<lambda>s. obind (fill_list s) (\<lambda>s.
     obind (on_con (draw_list stale s) s) (\<lambda>s.
     if list_count s = 0 then Done s
     else
       let s = s\<lparr>selected_index := 0\<rparr> in
       obind (on_con (mark_selected s) s) closeR)))))"

definition arr_right :: "nat \<Rightarrow> int \<Rightarrow> byte list \<Rightarrow> tool_state \<Rightarrow> tool_state outcome" where
  "arr_right fuel stale upath s =
     (if tw_tool s = 2 then Done s
      else if tw_type s ! nat (selected_index s) \<noteq> 1 then
        obind (printk fuel [78, 111, 116, 32, 97, 32, 100, 105, 114, 10] [] (tty_view (tw_sys s))) (\<lambda>(_, t).
        Done (s\<lparr>tw_sys := tty_back t (tw_sys s)\<rparr>))
      else
        obind (c_string (tw_name s ! nat (selected_index s))) (\<lambda>n.
        obind (strcat_to n (current_addres s)) (\<lambda>a. obind (strcat_to [0x2f] a) (\<lambda>a.
        enter_dir stale upath (s\<lparr>current_addres := a\<rparr>)))))"

text \<open>The search for the last \<open>/\<close> from index \<open>i\<close> down, and the cut after it.\<close>

fun cut_path :: "nat \<Rightarrow> byte list \<Rightarrow> byte list outcome" where
  "cut_path i a =
     (if i \<ge> length a then Oob
      else if a ! i = 0x2f then wr a (Suc i) 0
      else case i of 0 \<Rightarrow> Oob | Suc k \<Rightarrow> cut_path k a)"

declare cut_path.simps [simp del]

definition arr_left :: "int \<Rightarrow> byte list \<Rightarrow> tool_state \<Rightarrow> tool_state outcome" where
  "arr_left stale upath s =
     (if tw_tool s = 2 then Done s
      else
        obind (strlen (current_addres s)) (\<lambda>n.
        if n = 1 then Done s
        else if n < 2 then Oob
        else obind (cut_path (n - 2) (current_addres s)) (\<lambda>a. enter_dir stale upath (s\<lparr>current_addres := a\<rparr>))))"

definition show_dir :: "int \<Rightarrow> tool_state \<Rightarrow> tool_state outcome" where
  "show_dir stale s =
     obind (on_con tool_draw s) (\<lambda>s. obind (show_path s) (\<lambda>s.
     obind (on_con (draw_list stale s) s) (\<lambda>s. on_con (mark_selected s) s)))"

definition arr_down :: "int \<Rightarrow> tool_state \<Rightarrow> tool_state outcome" where
  "arr_down stale s =
     (if tw_tool s = 2 then
        titled_clip (s\<lparr>selected_index_clip := (if selected_index_clip s + 1 < 10 then selected_index_clip s + 1 else 0)\<rparr>)
      else if selected_index s + 1 < list_count s then show_dir stale (s\<lparr>selected_index := selected_index s + 1\<rparr>)
      else Done s)"

definition arr_up :: "int \<Rightarrow> tool_state \<Rightarrow> tool_state outcome" where
  "arr_up stale s =
     (if tw_tool s = 2 then
        titled_clip (s\<lparr>selected_index_clip := (if selected_index_clip s - 1 \<ge> 0 then selected_index_clip s - 1 else 9)\<rparr>)
      else if selected_index s - 1 \<ge> 0 then show_dir stale (s\<lparr>selected_index := selected_index s - 1\<rparr>)
      else Done s)"

definition f1_down :: "tool_state \<Rightarrow> tool_state" where "f1_down s = s\<lparr>f1_down_flag := 1\<rparr>"

definition f1_up :: "tool_state \<Rightarrow> tool_state" where "f1_up s = s\<lparr>f1_down_flag := 0\<rparr>"

end
