(* ===== verification/ToolProps.thy ===== *)
theory ToolProps
  imports Tool ConsoleWf BufferProps
begin

text \<open>
  The tool window: no key leaves the screen or the arrays of the clipboard, whose rows stay
  terminated, and editing keys are inverse to each other.
\<close>

section \<open>Drawing stays on the screen\<close>

definition on_screen :: "int \<times> int \<times> int \<Rightarrow> bool" where
  "on_screen p \<longleftrightarrow> (case p of (px, py, _) \<Rightarrow> 0 \<le> px \<and> px < columns \<and> 0 \<le> py \<and> py < lines)"

lemma gotoxy_on: "0 \<le> px \<Longrightarrow> px < columns \<Longrightarrow> 0 \<le> py \<Longrightarrow> py < lines \<Longrightarrow> con_x (gotoxy px py c) = px"
  by (simp add: gotoxy_def con_consts u32_id)

lemma plot_safe: "con_wf c \<Longrightarrow> \<forall>p\<in>set ps. on_screen p \<Longrightarrow> con_safe (plot a ps c)"
proof (induction ps arbitrary: c)
  case (Cons p ps)
  obtain px py ch where p: "p = (px, py, ch)" by (cases p) auto
  have "con_safe (put_cell a ch (gotoxy px py c))"
    by (rule put_cell_safe) (use Cons.prems p in \<open>simp_all add: gotoxy_wf on_screen_def gotoxy_on\<close>)
  then show ?case using Cons p by (auto intro: con_safe_bind)
qed simp

lemma recolour_safe: "con_wf c \<Longrightarrow> \<forall>(px, py)\<in>set ps. on_screen (px, py, 0) \<Longrightarrow> con_safe (recolour a ps c)"
proof (induction ps arbitrary: c)
  case (Cons p ps)
  obtain px py where p: "p = (px, py)" by (cases p) auto
  let ?c = "gotoxy px py c"
  have x: "con_wf ?c" "con_x ?c < columns" using Cons.prems p by (simp_all add: gotoxy_wf on_screen_def gotoxy_on)
  then have "vid_ok (con_pos ?c)" by (auto simp: con_wf_def con_consts vid_ok_def)
  then have "recolour a (p # ps) c = obind (put_cell a (con_vmem ?c (con_pos ?c)) ?c) (recolour a ps)" by (simp add: p vget_def Let_def)
  then show ?case using Cons p con_safe_bind [OF put_cell_safe [OF x]] by simp
qed simp

lemma framed_safe: "(\<And>c. con_wf c \<Longrightarrow> con_safe (f c)) \<Longrightarrow> con_wf c \<Longrightarrow> con_safe (framed f c)"
  unfolding framed_def by (rule con_safe_bind) (simp_all add: save_cur_wf restore_cur_wf)

lemma frame_on_screen: "\<forall>p\<in>set frame_cells. on_screen p"
  by (auto simp: frame_cells_def on_screen_def tool_consts con_consts)

lemma tool_draw_safe: "con_wf c \<Longrightarrow> con_safe (tool_draw c)"
  unfolding tool_draw_def by (rule framed_safe [OF plot_safe]) (simp_all add: frame_on_screen)

lemma text_on_screen: "length t \<le> 19 \<Longrightarrow> 0 \<le> row \<Longrightarrow> row < lines \<Longrightarrow> \<forall>p\<in>set (text_cells row t). on_screen p"
  by (auto simp: text_cells_def on_screen_def col_write_start_def tool_consts con_consts)

lemma path_safe:
  assumes "length t \<le> 19" "con_wf c"
  shows "con_safe (set_path_name t c)"
proof -
  have "\<forall>p\<in>set (text_cells 0 t). on_screen p" by (rule text_on_screen) (simp_all add: assms(1) con_consts)
  moreover have "on_screen (col_write_start (length t) - 1, 0, 91)" "on_screen (col_write_start (length t) + int (length t), 0, 93)"
    using assms(1) by (simp_all add: on_screen_def col_write_start_def tool_consts con_consts)
  ultimately show ?thesis unfolding set_path_name_def by (intro framed_safe [OF plot_safe] assms(2)) auto
qed

lemma mark_row_safe: "0 \<le> row \<Longrightarrow> row < lines \<Longrightarrow> con_wf c \<Longrightarrow> con_safe (mark_row row c)"
  unfolding mark_row_def by (rule framed_safe [OF recolour_safe]) (auto simp: on_screen_def tool_consts con_consts)

section \<open>Rows of text\<close>

text \<open>An array of 20 bytes that holds a string.\<close>

definition row_ok :: "byte list \<Rightarrow> bool" where
  "row_ok b \<longleftrightarrow> length b = 20 \<and> b ! 19 = 0"

lemma row_strlen: "row_ok b \<Longrightarrow> \<exists>n\<le>19. strlen b = Done n"
proof -
  assume b: "row_ok b"
  then have "b ! 19 \<in> set b" by (intro nth_mem) (simp add: row_ok_def)
  then have "0 \<in> set b" using b by (simp add: row_ok_def)
  then obtain n where n: "strlen b = Done n" using strlen_total by blast
  then have "n \<le> 19" using b by (metis row_ok_def strlen_Done_iff not_le)
  then show ?thesis using n by blast
qed

text \<open>A row of the clipboard: zero bytes behind the text.\<close>

definition padded :: "byte list \<Rightarrow> bool" where
  "padded b \<longleftrightarrow> (\<exists>t. length t \<le> 19 \<and> 0 \<notin> set t \<and> b = t @ replicate (20 - length t) 0)"

definition text_of :: "byte list \<Rightarrow> byte list" where
  "text_of b = takeWhile (\<lambda>c. c \<noteq> 0) b"

lemma text_of_padded: "0 \<notin> set t \<Longrightarrow> text_of (t @ replicate m 0) = t"
  by (induction t) (auto simp: text_of_def takeWhile_replicate)

lemma strlen_padded: "0 \<notin> set t \<Longrightarrow> 0 < m \<Longrightarrow> strlen (t @ replicate m 0) = Done (length t)"
  by (induction t) (auto, cases m, auto)

lemma padded_ok: "padded b \<Longrightarrow> row_ok b"
  by (auto simp: padded_def row_ok_def nth_append)

lemma padded_strlen: "padded b \<Longrightarrow> strlen b = Done (length (text_of b)) \<and> length (text_of b) \<le> 19"
  unfolding padded_def by (elim exE conjE) (simp add: strlen_padded text_of_padded)

lemma padded_put:
  assumes "padded b" "length (text_of b) < 19" "c \<noteq> 0"
  shows "padded (b[length (text_of b) := c])" "text_of (b[length (text_of b) := c]) = text_of b @ [c]"
proof -
  obtain t where t: "length t \<le> 19" "0 \<notin> set t" "b = t @ replicate (20 - length t) 0" using assms(1) by (auto simp: padded_def)
  then have tx: "text_of b = t" by (simp add: text_of_padded)
  have "20 - length t = Suc (19 - length t)" using assms(2) tx by simp
  then have e: "b[length (text_of b) := c] = (t @ [c]) @ replicate (20 - length (t @ [c])) 0" unfolding tx by (simp add: t(3))
  have n: "0 \<notin> set (t @ [c])" using t(2) assms(3) by simp
  show "text_of (b[length (text_of b) := c]) = text_of b @ [c]" unfolding e text_of_padded [OF n] by (simp add: tx)
  show "padded (b[length (text_of b) := c])" unfolding e padded_def using n assms(2) tx by (intro exI [of _ "t @ [c]"]) auto
qed

lemma padded_remove:
  assumes "padded b" "text_of b \<noteq> []"
  shows "padded (b[length (text_of b) - 1 := 0])" "text_of (b[length (text_of b) - 1 := 0]) = butlast (text_of b)"
proof -
  obtain t where t: "length t \<le> 19" "0 \<notin> set t" "b = t @ replicate (20 - length t) 0" using assms(1) by (auto simp: padded_def)
  then have tx: "text_of b = t" by (simp add: text_of_padded)
  obtain u x where u: "t = u @ [x]" using assms(2) tx by (cases t rule: rev_cases) auto
  have "20 - length u = Suc (20 - length t)" using t(1) u by simp
  then have e: "b[length (text_of b) - 1 := 0] = u @ replicate (20 - length u) 0"
    unfolding tx by (simp add: t(3) u list_update_append)
  have n: "0 \<notin> set u" using t(2) u by simp
  show "text_of (b[length (text_of b) - 1 := 0]) = butlast (text_of b)" unfolding e text_of_padded [OF n] by (simp add: tx u)
  show "padded (b[length (text_of b) - 1 := 0])" unfolding e padded_def using n t(1) u by (intro exI [of _ u]) auto
qed

lemma draw_rows_safe:
  "con_wf c \<Longrightarrow> \<forall>i\<in>set is. i < 20 \<and> row_ok (rows ! i) \<Longrightarrow> con_safe (draw_rows clr rows is c)"
proof (induction "is" arbitrary: c)
  case (Cons i "is")
  obtain n where n: "n \<le> 19" "strlen (rows ! i) = Done n" using row_strlen Cons.prems(2) by auto
  have "con_safe (plot (clr i) (text_cells (int i + 1) (take n (rows ! i))) c)"
    by (rule plot_safe [OF Cons.prems(1)], rule text_on_screen) (use n Cons.prems(2) in \<open>auto simp: con_consts\<close>)
  then show ?case using Cons n by (auto simp: c_string_def intro: con_safe_bind)
qed simp


section \<open>The state of the window\<close>

definition tool_wf :: "tool_state \<Rightarrow> bool" where
  "tool_wf s \<longleftrightarrow> con_wf (ts_con (sy_tty (tw_sys s))) \<and>
     length (text_clip s) = 10 \<and> (\<forall>r\<in>set (text_clip s). padded r) \<and> 0 \<le> selected_index_clip s \<and> selected_index_clip s < 10 \<and>
     length (tw_name s) = 10 \<and> (\<forall>r\<in>set (tw_name s). row_ok r) \<and> 0 \<le> list_count s \<and> list_count s \<le> 10 \<and>
     0 \<le> selected_index s \<and> selected_index s < 10 \<and> row_ok (current_addres s)"

definition set_con :: "console \<Rightarrow> tool_state \<Rightarrow> tool_state" where
  "set_con c s = s\<lparr>tw_sys := (tw_sys s)\<lparr>sy_tty := (sy_tty (tw_sys s))\<lparr>ts_con := c\<rparr>\<rparr>\<rparr>"

lemma set_con_simps [simp]:
  "set_con c (set_con d s) = set_con c s" "ts_con (sy_tty (tw_sys (set_con c s))) = c" "text_clip (set_con c s) = text_clip s"
  "selected_index_clip (set_con c s) = selected_index_clip s" "tw_name (set_con c s) = tw_name s" "list_count (set_con c s) = list_count s"
  "selected_index (set_con c s) = selected_index s" "current_addres (set_con c s) = current_addres s" "tw_type (set_con c s) = tw_type s"
  "tw_tool (set_con c s) = tw_tool s"
  by (simp_all add: set_con_def)

text \<open>The outcome changes the screen only.\<close>

definition redrawn :: "tool_state \<Rightarrow> tool_state outcome \<Rightarrow> bool" where
  "redrawn s r \<longleftrightarrow> (\<exists>c. con_wf c \<and> r = Done (set_con c s))"

lemma redrawn_on_con:
  assumes "con_wf (ts_con (sy_tty (tw_sys s)))" "\<And>c. con_wf c \<Longrightarrow> con_safe (f c)"
  shows "redrawn s (on_con f s)"
  using assms(2) [OF assms(1)] by (auto simp: redrawn_def con_safe_def on_con_def set_con_def)

lemma redrawn_bind:
  "redrawn s r \<Longrightarrow> (\<And>c. con_wf c \<Longrightarrow> redrawn (set_con c s) (g (set_con c s))) \<Longrightarrow> redrawn s (obind r g)"
  by (fastforce simp: redrawn_def)

lemma redrawn_wf: "redrawn s r \<Longrightarrow> tool_wf s \<Longrightarrow> \<exists>s'. r = Done s' \<and> tool_wf s'"
  by (auto simp: redrawn_def tool_wf_def)

lemma tool_wfD:
  assumes "tool_wf s"
  shows "con_wf (ts_con (sy_tty (tw_sys s)))" "i < 10 \<Longrightarrow> padded (text_clip s ! i)" "i < 10 \<Longrightarrow> row_ok (tw_name s ! i)"
  using assms by (auto simp: tool_wf_def)

lemma tool_wf_con [simp]: "tool_wf s \<Longrightarrow> con_wf c \<Longrightarrow> tool_wf (set_con c s)"
  by (simp add: tool_wf_def)

lemma clip_rows_safe: "tool_wf s \<Longrightarrow> con_wf c \<Longrightarrow> con_safe (draw_list_clip s c)"
  unfolding draw_list_clip_def by (rule framed_safe [OF draw_rows_safe]) (auto dest: tool_wfD intro: padded_ok)

lemma list_safe: "tool_wf s \<Longrightarrow> con_wf c \<Longrightarrow> con_safe (draw_list stale s c)"
  unfolding draw_list_def
  by (cases "list_count s = 0") (auto intro!: framed_safe [OF draw_rows_safe] intro: tool_wfD simp: tool_wf_def)

lemma marks_safe: "tool_wf s \<Longrightarrow> con_wf c \<Longrightarrow> con_safe (mark_selected_clip s c)" "tool_wf s \<Longrightarrow> con_wf c \<Longrightarrow> con_safe (mark_selected s c)"
  unfolding mark_selected_clip_def mark_selected_def by (rule mark_row_safe; auto simp: tool_wf_def con_consts)+

lemma title_safe: "con_wf c \<Longrightarrow> con_safe (set_path_name clip_title c)"
  by (rule path_safe) (simp_all add: clip_title_def)

lemmas draw_safe = tool_draw_safe clip_rows_safe list_safe marks_safe title_safe

lemma show_clip_redrawn: "tool_wf s \<Longrightarrow> redrawn s (show_clip s)"
  unfolding show_clip_def by (intro redrawn_bind redrawn_on_con draw_safe) (auto dest: tool_wfD)

lemma titled_clip_redrawn: "tool_wf s \<Longrightarrow> redrawn s (titled_clip s)"
  unfolding titled_clip_def by (intro redrawn_bind redrawn_on_con draw_safe) (auto dest: tool_wfD)

lemma show_path_redrawn: "tool_wf s \<Longrightarrow> redrawn s (show_path s)"
proof -
  assume w: "tool_wf s"
  then obtain n where n: "n \<le> 19" "strlen (current_addres s) = Done n" using row_strlen [of "current_addres s"] by (auto simp: tool_wf_def)
  then have "redrawn s (on_con (set_path_name (take n (current_addres s))) s)"
    by (intro redrawn_on_con path_safe tool_wfD(1) [OF w]) auto
  then show ?thesis using n by (simp add: show_path_def c_string_def)
qed

lemma show_dir_redrawn: "tool_wf s \<Longrightarrow> redrawn s (show_dir stale s)"
  unfolding show_dir_def by (intro redrawn_bind redrawn_on_con show_path_redrawn draw_safe) (auto dest: tool_wfD)


section \<open>Keys\<close>

definition clip_texts :: "tool_state \<Rightarrow> byte list list" where
  "clip_texts s = map text_of (text_clip s)"

lemma clip_texts_con [simp]: "clip_texts (set_con c s) = clip_texts s"
  by (simp add: clip_texts_def)

lemma redrawn_texts: "redrawn s r \<Longrightarrow> tool_wf s \<Longrightarrow> \<exists>s'. r = Done s' \<and> tool_wf s' \<and> clip_texts s' = clip_texts s \<and>
    selected_index_clip s' = selected_index_clip s"
  by (auto simp: redrawn_def)

lemma clip_row_padded: "tool_wf s \<Longrightarrow> padded (clip_row s)"
  unfolding clip_row_def by (rule tool_wfD(2)) (auto simp: tool_wf_def)

lemma tool_wf_row: "tool_wf s \<Longrightarrow> padded b \<Longrightarrow> tool_wf (s\<lparr>text_clip := (text_clip s)[k := b]\<rparr>)"
  by (auto simp: tool_wf_def set_update_subset_insert dest!: set_update_subset_insert [THEN subsetD])

lemma texts_row: "clip_texts (s\<lparr>text_clip := (text_clip s)[k := b]\<rparr>) = (clip_texts s)[k := text_of b]"
  by (simp add: clip_texts_def map_update)

lemma sel_lt: "tool_wf s \<Longrightarrow> nat (selected_index_clip s) < length (text_clip s)"
  by (auto simp: tool_wf_def)

lemma sel_text: "tool_wf s \<Longrightarrow> clip_texts s ! nat (selected_index_clip s) = text_of (clip_row s)"
  by (simp add: clip_texts_def clip_row_def sel_lt)

text \<open>
  C36: On a clipboard of ten texts, typing a character adds it to the end of the selected text while that has less than 19
  characters, and the erase key removes the last character; neither writes outside the arrays or the screen, and
  the rows stay strings.
\<close>

theorem clipboard_edits:
  assumes w: "tool_wf s" and c: "character_for_input s \<noteq> 0"
  shows "\<exists>s1 s2. put_char_to_clip s = Done s1 \<and> tool_wf s1 \<and> remove_char_for_clip s = Done s2 \<and> tool_wf s2 \<and>
    (let k = nat (selected_index_clip s); t = clip_texts s ! k in
     clip_texts s1 = (clip_texts s)[k := (if length t < 19 then t @ [character_for_input s] else t)] \<and>
     clip_texts s2 = (clip_texts s)[k := butlast t])"
proof -
  let ?k = "nat (selected_index_clip s)" and ?t = "text_of (clip_row s)"
  note p = clip_row_padded [OF w] and st = sel_text [OF w]
  note sl = conjunct1 [OF padded_strlen [OF p]]
  have same: "clip_texts s = (clip_texts s)[?k := ?t]" using st by (metis list_update_id)
  have "\<exists>s1. put_char_to_clip s = Done s1 \<and> tool_wf s1 \<and>
    clip_texts s1 = (clip_texts s)[?k := (if length ?t < 19 then ?t @ [character_for_input s] else ?t)]"
  proof (cases "length ?t < 19")
    case True
    let ?b = "(clip_row s)[length ?t := character_for_input s]"
    note b = padded_put [OF p True c]
    have "tool_wf (s\<lparr>text_clip := (text_clip s)[?k := ?b]\<rparr>)" by (rule tool_wf_row [OF w b(1)])
    from redrawn_texts [OF show_clip_redrawn [OF this] this] show ?thesis
      using True sl by (auto simp: put_char_to_clip_def texts_row b(2))
  next
    case False
    then show ?thesis using w sl same by (simp add: put_char_to_clip_def)
  qed
  moreover have "\<exists>s2. remove_char_for_clip s = Done s2 \<and> tool_wf s2 \<and> clip_texts s2 = (clip_texts s)[?k := butlast ?t]"
  proof (cases "?t = []")
    case False
    let ?b = "(clip_row s)[length ?t - 1 := 0]"
    note b = padded_remove [OF p False]
    have "tool_wf (s\<lparr>text_clip := (text_clip s)[?k := ?b]\<rparr>)" by (rule tool_wf_row [OF w b(1)])
    from redrawn_texts [OF show_clip_redrawn [OF this] this] show ?thesis
      using False sl by (auto simp: remove_char_for_clip_def texts_row b(2) [simplified])
  next
    case True
    then show ?thesis using w sl same by (simp add: remove_char_for_clip_def)
  qed
  ultimately show ?thesis unfolding Let_def st by auto
qed

text \<open>
  The arrow keys keep the state of the window well-formed and stay on the screen: in the
  clipboard the selection moves round its ten rows, up and down being inverse to each other, and in the list of files it
  moves between the first and the last entry.
\<close>

theorem arrows_wf:
  assumes "tool_wf s"
  shows "\<exists>s1 s2. arr_down stale s = Done s1 \<and> tool_wf s1 \<and> arr_up stale s = Done s2 \<and> tool_wf s2 \<and>
    (if tw_tool s = 2 then selected_index_clip s1 = (selected_index_clip s + 1) mod 10 \<and> selected_index_clip s2 = (selected_index_clip s - 1) mod 10
     else selected_index s1 = (if selected_index s + 1 < list_count s then selected_index s + 1 else selected_index s) \<and>
       selected_index s2 = max 0 (selected_index s - 1))"
proof (cases "tw_tool s = 2")
  case True
  let ?m = "\<lambda>i. s\<lparr>selected_index_clip := i\<rparr>"
  have m: "\<exists>s'. titled_clip (?m i) = Done s' \<and> tool_wf s' \<and> selected_index_clip s' = i" if "0 \<le> i" "i < 10" for i
  proof -
    have "tool_wf (?m i)" using assms that by (simp add: tool_wf_def)
    from redrawn_texts [OF titled_clip_redrawn [OF this] this] show ?thesis by auto
  qed
  have r: "0 \<le> selected_index_clip s" "selected_index_clip s < 10" using assms by (simp_all add: tool_wf_def)
  have "(if selected_index_clip s + 1 < 10 then selected_index_clip s + 1 else 0) = (selected_index_clip s + 1) mod 10"
    "(if selected_index_clip s - 1 \<ge> 0 then selected_index_clip s - 1 else 9) = (selected_index_clip s - 1) mod 10"
    using r by presburger+
  then show ?thesis using m [of "(selected_index_clip s + 1) mod 10"] m [of "(selected_index_clip s - 1) mod 10"] True
    by (simp add: arr_down_def arr_up_def) blast
next
  case False
  let ?m = "\<lambda>i. s\<lparr>selected_index := i\<rparr>"
  have m: "\<exists>s'. show_dir stale (?m i) = Done s' \<and> tool_wf s' \<and> selected_index s' = i" if "0 \<le> i" "i < 10" for i
  proof -
    have "tool_wf (?m i)" using assms that by (simp add: tool_wf_def)
    from show_dir_redrawn [OF this, of stale] this show ?thesis by (auto simp: redrawn_def)
  qed
  have r: "0 \<le> selected_index s" "selected_index s < 10" "list_count s \<le> 10" using assms by (simp_all add: tool_wf_def)
  have "\<exists>s1. arr_down stale s = Done s1 \<and> tool_wf s1 \<and>
      selected_index s1 = (if selected_index s + 1 < list_count s then selected_index s + 1 else selected_index s)"
    using m [of "selected_index s + 1"] assms False r by (cases "selected_index s + 1 < list_count s") (auto simp: arr_down_def)
  moreover have "\<exists>s2. arr_up stale s = Done s2 \<and> tool_wf s2 \<and> selected_index s2 = max 0 (selected_index s - 1)"
    using m [of "selected_index s - 1"] assms False r by (cases "selected_index s - 1 \<ge> 0") (auto simp: arr_up_def)
  ultimately show ?thesis using False by auto
qed


definition tool_demo :: "fs_state \<Rightarrow> tool_state" where
  "tool_demo fs = \<lparr>tw_sys = \<lparr>sy_fs = fs, sy_tty = console_tty, sy_crypt = crypt_init\<rparr>, tw_tool = 2, f1_down_flag = 1, dir_inode = None,
     root_inode = None, tw_type = replicate 10 0, tw_inode = replicate 10 0, tw_name = replicate 10 (replicate 20 0), selected_index = 0,
     list_count = 0, character_for_input = 0x61, text_clip = replicate 10 (replicate 20 0), selected_index_clip = 9,
     current_addres = replicate 20 0\<rparr>"

lemma demo_wf: "tool_wf (tool_demo fs)"
proof -
  have "con_wf (ts_con console_tty)" unfolding console_tty_def by (simp add: con_init_wf con_consts)
  moreover have "padded (replicate 20 0)" unfolding padded_def by (intro exI [of _ "[]"]) simp
  ultimately show ?thesis by (simp add: tool_wf_def tool_demo_def row_ok_def)
qed

lemma demo_texts: "clip_texts (tool_demo fs) = replicate 10 []"
  by (simp add: clip_texts_def tool_demo_def text_of_def)

theorem clipboard_edits_witness:
  "\<exists>s1. put_char_to_clip (tool_demo (fs_boot 2 (\<lambda>_ _. []))) = Done s1 \<and> clip_texts s1 = (replicate 10 [])[9 := [0x61]]"
  using clipboard_edits [OF demo_wf, of "fs_boot 2 (\<lambda>_ _. [])"] unfolding demo_texts by (auto simp: tool_demo_def Let_def)

theorem arrows_wf_witness:
  "\<exists>s1. arr_down 0 (tool_demo (fs_boot 2 (\<lambda>_ _. []))) = Done s1 \<and> tool_wf s1 \<and> selected_index_clip s1 = 0"
  using arrows_wf [OF demo_wf, of 0 "fs_boot 2 (\<lambda>_ _. [])"] by (auto simp: tool_demo_def)

end
