(* ===== verification/DirProps.thy ===== *)
theory DirProps
  imports FileDev FileProps
begin

text \<open>
  Searching a directory: \<open>find_entry\<close> finds the first entry that matches, in whichever block of the
  directory it is, and holds the buffer of that block.
\<close>

lemma held_rebase:
  assumes "settled s s0" "same_view s s0" "d \<noteq> 0" "held s0 d n i t"
  shows "held s d n i t"
proof -
  have "length (fs_bufs s0) = length (fs_bufs s)" "counts s0 = counts s" "rest s0 = rest s" using assms(1) by (simp_all add: settled_def rest_def)
  then show ?thesis using assms(2-4) by (simp add: held_def same_view_def)
qed

text \<open>A directory of \<open>k\<close> entries: its blocks are on the disk.\<close>

definition dir_ok :: "m_inode \<Rightarrow> nat \<Rightarrow> fs_state \<Rightarrow> bool" where
  "dir_ok n k s \<longleftrightarrow> meta_ok n s \<and> i_size n = 16 * int k \<and> k \<le> 64 * 262663 \<and>
     (\<forall>b. b = 0 \<or> 64 * b < k \<longrightarrow> file_block n s b \<noteq> 0 \<and> on_disk s (i_dev n) (file_block n s b))"

text \<open>Entry \<open>i\<close> of a directory matches a name.\<close>

definition entry_at :: "m_inode \<Rightarrow> fs_state \<Rightarrow> nat \<Rightarrow> byte list \<Rightarrow> nat \<Rightarrow> bool" where
  "entry_at n s len name i = match len name (16 * (i mod 64)) (view s (i_dev n) (file_block n s (i div 64)))"

lemma next_block_held:
  assumes u: "usable s" and ok: "dir_ok (ino dir s) k s" and i: "i < k" and h: "held s (i_dev (ino dir s)) z b t"
  shows "\<exists>b' t'. next_dir_block dir i b t = Done (Some b', t') \<and> held s (i_dev (ino dir s)) (file_block (ino dir s) s (i div 64)) b' t'"
proof -
  let ?n = "ino dir s" and ?z = "file_block (ino dir s) s (i div 64)"
  have m: "meta_ok ?n s" and d: "0 < i_dev ?n" "i_dev ?n < 65536" and bl: "?z \<noteq> 0" "on_disk s (i_dev ?n) ?z" "i div 64 < 262663"
    using ok i by (auto simp: dir_ok_def meta_ok_def)
  obtain s1 where s1: "brelse (Some b) t = Done s1" "settled s s1" "same_view s s1" using held_settled [OF u h] by blast
  note f1 = settled_fields [OF s1(2)]
  have m1: "meta_ok (ino dir s1) s1" "file_block (ino dir s1) s1 (i div 64) = ?z" using meta_ok_cong [OF m s1(3) f1(5)] f1(4) bl(3) by simp_all
  obtain s2 where s2: "bmap dir (int (i div 64)) s1 = Done (?z, s2)" "settled s1 s2" "same_view s1 s2"
    using bmap_reads [OF settled_usable [OF u s1(2)] m1(1) bl(3)] m1(2) by auto
  have st: "settled s s2" "same_view s s2" using settled_trans [OF s1(2) s2(2)] s1(3) s2(3) by (simp_all add: same_view_def)
  note f2 = settled_fields [OF st(1)]
  obtain b' t' where b': "bread (i_dev ?n) ?z s2 = Done (Some b', t')" "held s2 (i_dev ?n) ?z b' t'"
    using bread_usable [OF settled_usable [OF u st(1)] d, of ?z] bl(2) f2(5) by auto
  have "next_dir_block dir i b t = Done (Some b', t')"
    using s1(1) s2(1) bl(1) f2(4) b'(1) by (simp add: next_dir_block_def DIR_ENTRIES_PER_BLOCK_def)
  then show ?thesis using held_rebase [OF st _ b'(2)] d by auto
qed

lemma find_loop_first:
  assumes u: "usable s" and ok: "dir_ok (ino dir s) k s"
  shows "held s (i_dev (ino dir s)) (file_block (ino dir s) s c) b t \<Longrightarrow> 64 * c \<le> i \<Longrightarrow> i \<le> 64 * c + 64 \<Longrightarrow> p = 16 * (i - 64 * c) \<Longrightarrow>
    \<exists>r t'. find_loop dir name len k i (Some b) p t = Done (r, t') \<and>
      (case find (entry_at (ino dir s) s len name) [i..<k] of
         None \<Rightarrow> r = None \<and> settled s t' \<and> same_view s t'
       | Some j \<Rightarrow> \<exists>b'. r = Some (b', 16 * (j mod 64)) \<and> held s (i_dev (ino dir s)) (file_block (ino dir s) s (j div 64)) b' t')"
proof (induction "k - i" arbitrary: c b t i p)
  case 0
  then obtain t' where "brelse (Some b) t = Done t'" "settled s t'" "same_view s t'" using held_settled [OF u] by blast
  then show ?case using 0 by (simp add: find_loop.simps [of dir name len k i])
next
  case (Suc x)
  let ?n = "ino dir s"
  have ik: "i < k" "[i..<k] = i # [Suc i..<k]" using Suc.hyps(2) by (simp_all add: upt_conv_Cons)
  have "\<exists>b1 t1. (if p \<ge> BLOCK_SIZE then next_dir_block dir i b t else Done (Some b, t)) = Done (Some b1, t1) \<and>
      held s (i_dev ?n) (file_block ?n s (i div 64)) b1 t1"
  proof (cases "p \<ge> BLOCK_SIZE")
    case True
    then show ?thesis using next_block_held [OF u ok ik(1) Suc.prems(1)] by simp
  next
    case False
    then have "i div 64 = c" using Suc.prems(2-4) by (simp add: BLOCK_SIZE_def)
    then show ?thesis using False Suc.prems(1) by simp
  qed
  then obtain b1 t1 where b1: "(if p \<ge> BLOCK_SIZE then next_dir_block dir i b t else Done (Some b, t)) = Done (Some b1, t1)"
    "held s (i_dev ?n) (file_block ?n s (i div 64)) b1 t1" by blast
  have p1: "(if p \<ge> BLOCK_SIZE then 0 else p) = 16 * (i mod 64)"
  proof -
    obtain r where "i = 64 * c + r" "r \<le> 64" using Suc.prems(2,3) by (metis le_Suc_ex nat_add_left_cancel_le)
    then show ?thesis using Suc.prems(4) by (cases "r = 64") (auto simp: BLOCK_SIZE_def)
  qed
  have data: "b_data (buf b1 t1) = view s (i_dev ?n) (file_block ?n s (i div 64))" using b1(2) by (simp add: held_def)
  have step: "find_loop dir name len k i (Some b) p t =
      (if entry_at ?n s len name i then Done (Some (b1, 16 * (i mod 64)), t1) else find_loop dir name len k (i + 1) (Some b1) (16 * (i mod 64) + 16) t1)"
    using ik(1) b1(1) p1 data by (simp add: find_loop.simps [of dir name len k i] entry_at_def Let_def)
  show ?case
  proof (cases "entry_at ?n s len name i")
    case True
    then show ?thesis using step ik(2) b1(2) by simp
  next
    case False
    have "16 * (i mod 64) + 16 = 16 * (i + 1 - 64 * (i div 64))" by (simp add: minus_mod_eq_mult_div [symmetric])
    from Suc.hyps(1) [OF _ b1(2) _ _ this] show ?thesis using step False ik(2) Suc.hyps(2) by simp
  qed
qed


text \<open>
  C32: \<open>find_entry\<close> returns the first entry of the directory that matches the name, if there is one: its buffer, which
  holds the block of the directory with that entry and is held once more, and its offset there. If there is none, it
  returns the null pointer and every buffer is as before. No block changes its contents.
\<close>

theorem find_entry_first:
  assumes u: "usable s" and ok: "dir_ok (ino dir s) k s" and len: "0 < namelen"
  shows "\<exists>r s'. find_entry dir name namelen s = Done (r, s') \<and> same_view s s' \<and>
    (case find (entry_at (ino dir s) s (min namelen NAME_LEN) name) [0..<k] of
       None \<Rightarrow> r = None \<and> settled s s'
     | Some j \<Rightarrow> \<exists>b. r = Some (b, 16 * (j mod 64)) \<and> held s (i_dev (ino dir s)) (file_block (ino dir s) s (j div 64)) b s')"
proof -
  let ?n = "ino dir s"
  have d: "0 < i_dev ?n" "i_dev ?n < 65536" and z: "file_block ?n s 0 \<noteq> 0" "on_disk s (i_dev ?n) (file_block ?n s 0)" and k: "i_size ?n = 16 * int k"
    using ok by (auto simp: dir_ok_def meta_ok_def)
  obtain b t where b: "bread (i_dev ?n) (file_block ?n s 0) s = Done (Some b, t)" "held s (i_dev ?n) (file_block ?n s 0) b t"
    using bread_usable [OF u d z(2)] by blast
  obtain l where l: "min namelen NAME_LEN = l" "l \<noteq> 0" using len by (simp add: NAME_LEN_def)
  have e: "find_entry dir name namelen s = find_loop dir name l k 0 (Some b) 0 t"
    using b(1) z(1) l(2) by (simp add: find_entry_def file_block_def k Let_def l(1))
  from find_loop_first [OF u ok b(2), of 0 0 name l] show ?thesis
    unfolding e l(1) by (fastforce simp: held_def split: option.splits)
qed

text \<open>A directory whose second entry is \<open>a\<close>, after an entry that was deleted.\<close>

definition dir_block :: "byte list" where
  "dir_block = [0, 0, 97] @ replicate 13 0 @ [5, 0, 97] @ replicate 1005 0"

lemma dir_block_entries:
  "\<not> match 1 [97] 0 dir_block" "match 1 [97] 16 dir_block"
  by (simp_all add: dir_block_def match_def entry_inode_def entry_name_def get16_def NAME_LEN_def nth_append take_Cons')

theorem find_entry_first_witness:
  "let s = one_file [10, 0, 0, 0, 0, 0, 0, 0, 0] (\<lambda>_ _. dir_block) in
   \<exists>b s'. find_entry 0 [97] 1 s = Done (Some (b, 16), s') \<and> held s 0x301 10 b s'"
proof -
  let ?s = "one_file [10, 0, 0, 0, 0, 0, 0, 0, 0] (\<lambda>_ _. dir_block)"
  have z: "file_block (ino 0 ?s) ?s 0 = 10" by (simp add: file_block_def)
  have ok: "dir_ok (ino 0 ?s) 64 ?s"
    using z by (auto simp: dir_ok_def meta_ok_def meta_def ind_def, simp add: one_inode_def)
  have "entry_at (ino 0 ?s) ?s 1 [97] i = match 1 [97] (16 * i) dir_block" if "i < 2" for i
    using that z by (simp add: entry_at_def)
  then have "find (entry_at (ino 0 ?s) ?s (min 1 NAME_LEN) [97]) [0..<64] = Some 1"
    using dir_block_entries by (simp add: NAME_LEN_def upt_conv_Cons)
  then show ?thesis using find_entry_first [OF one_file_simps(1) ok, of 1 "[97]"] z by (auto simp: Let_def)
qed

end
