(* ===== verification/FileRW.thy ===== *)
theory FileRW
  imports FileProps
begin

text \<open>
  Reading and writing a file: \<open>file_read\<close> gives the bytes of the file, holes as zeros, and \<open>file_write\<close> over blocks that the
  file has changes these bytes and no others.
\<close>

section \<open>Changes of the table of open files\<close>

lemma upd_file_cache [simp]:
  "cache_ok (upd_file f g s) = cache_ok s" "counts (upd_file f g s) = counts s" "view (upd_file f g s) = view s"
  "on_disk (upd_file f g s) = on_disk s" "usable (upd_file f g s) = usable s" "holds (upd_file f g s) = holds s"
  "buf i (upd_file f g s) = buf i s" "ino i (upd_file f g s) = ino i s" "length (k_files (upd_file f g s)) = length (k_files s)"
  "length (fs_bufs (upd_file f g s)) = length (fs_bufs s)"
  by (simp_all add: upd_file_def)

lemma upd_file_rest: "rest s = rest s' \<Longrightarrow> rest (upd_file f g s) = rest (upd_file f g s')"
  by (simp add: rest_def upd_file_def)

lemma upd_file_settled: "settled s s' \<Longrightarrow> settled (upd_file f g s) (upd_file f g s')"
  by (auto simp: settled_def intro: upd_file_rest)

lemma upd_file_held: "held s d n i s' \<Longrightarrow> held (upd_file f g s) d n i (upd_file f g s')"
  by (auto simp: held_def same_view_def intro: upd_file_rest)

lemma pos_upd_file: "f < length (k_files s) \<Longrightarrow> pos_of f (upd_file f g s) = f_pos (g (k_files s ! f))"
  by (simp add: pos_of_def upd_file_def)

lemma upd_file_twice: "f < length (k_files s) \<Longrightarrow> upd_file f g (upd_file f h s) = upd_file f (g \<circ> h) s"
  by (simp add: upd_file_def)

section \<open>The bytes of a file\<close>

definition file_byte :: "m_inode \<Rightarrow> fs_state \<Rightarrow> nat \<Rightarrow> byte" where
  "file_byte n s p = (let z = file_block n s (p div 1024) in if z = 0 then 0 else view s (i_dev n) z ! (p mod 1024))"

text \<open>Every block of a file that is not a hole can be read.\<close>

definition readable :: "m_inode \<Rightarrow> nat \<Rightarrow> fs_state \<Rightarrow> bool" where
  "readable n K s \<longleftrightarrow> meta_ok n s \<and> K \<le> 262663 \<and>
     (\<forall>b<K. file_block n s b \<noteq> 0 \<longrightarrow> on_disk s (i_dev n) (file_block n s b) \<and> length (view s (i_dev n) (file_block n s b)) = 1024)"

lemma readableD:
  assumes "readable n K s" "p < 1024 * K"
  shows "p div 1024 < 262663" "meta_ok n s"
    "file_block n s (p div 1024) \<noteq> 0 \<Longrightarrow> on_disk s (i_dev n) (file_block n s (p div 1024))"
    "file_block n s (p div 1024) \<noteq> 0 \<Longrightarrow> length (view s (i_dev n) (file_block n s (p div 1024))) = 1024"
proof -
  have "p div 1024 < K" using assms(2) by (simp add: less_mult_imp_div_less mult.commute)
  then show "p div 1024 < 262663" "meta_ok n s"
    "file_block n s (p div 1024) \<noteq> 0 \<Longrightarrow> on_disk s (i_dev n) (file_block n s (p div 1024))"
    "file_block n s (p div 1024) \<noteq> 0 \<Longrightarrow> length (view s (i_dev n) (file_block n s (p div 1024))) = 1024"
    using assms(1) by (auto simp: readable_def)
qed

lemma readable_cong:
  assumes r: "readable n K s" and v: "same_view s s'" "on_disk s' = on_disk s"
  shows "readable n K s'" "p < 1024 * K \<Longrightarrow> file_byte n s' p = file_byte n s p"
proof -
  have m: "meta_ok n s" using r by (simp add: readable_def)
  note c = meta_ok_cong [OF m v]
  have e: "view s' (i_dev n) z = view s (i_dev n) z" for z using m v(1) by (simp add: same_view_def meta_ok_def)
  show "readable n K s'" using r c e v(2) by (simp add: readable_def)
  show "file_byte n s' p = file_byte n s p" if "p < 1024 * K"
    using c(3) [OF readableD(1) [OF r that]] e by (simp add: file_byte_def Let_def)
qed

definition moved :: "nat \<Rightarrow> nat \<Rightarrow> fs_state \<Rightarrow> fs_state" where
  "moved f p s = upd_file f (\<lambda>x. x\<lparr>f_pos := int p\<rparr>) s"

lemma moved_twice: "f < length (k_files s) \<Longrightarrow> moved f q (moved f p s) = moved f q s"
  by (simp add: moved_def upd_file_def)

lemma bytes_of_block:
  assumes r: "readable n K s" and p: "p < 1024 * K" "p mod 1024 + c \<le> 1024" and z: "file_block n s (p div 1024) = z"
  shows "map (\<lambda>k. file_byte n s (p + k)) [0..<c] = (if z = 0 then replicate c 0 else take c (drop (p mod 1024) (view s (i_dev n) z)))"
proof -
  have l: "z \<noteq> 0 \<Longrightarrow> length (view s (i_dev n) z) = 1024" using readableD(4) [OF r p(1)] z by simp
  have "(p + k) div 1024 = p div 1024" "(p + k) mod 1024 = p mod 1024 + k" if "k < c" for k
  proof -
    have "p mod 1024 + k < 1024" using that p(2) by simp
    moreover have "p + k = 1024 * (p div 1024) + (p mod 1024 + k)" by simp
    ultimately show "(p + k) div 1024 = p div 1024" "(p + k) mod 1024 = p mod 1024 + k"
      by (metis add.right_neutral div_less div_mult_self4 zero_neq_numeral) (metis \<open>p + k = _\<close> \<open>p mod 1024 + k < 1024\<close> mod_less mod_mult_self4)
  qed
  then show ?thesis using l p(2) z by (auto intro!: nth_equalityI simp: file_byte_def)
qed

section \<open>Reading\<close>

lemma read_step:
  assumes u: "usable s" and r: "readable (ino i s) K s" and f: "f < length (k_files s)"
    and p: "pos_of f s = int p" "p + l < 2147483648" "p < 1024 * K" and l: "0 < l" and c: "c = min (1024 - p mod 1024) l"
  shows "\<exists>s'. read_loop i f (int l) acc s = read_loop i f (int (l - c)) (acc @ map (\<lambda>k. file_byte (ino i s) s (p + k)) [0..<c]) s' \<and>
    settled (moved f (p + c) s) s' \<and> same_view s s'"
proof -
  let ?n = "ino i s" and ?b = "p div 1024" and ?g = "\<lambda>x :: file_t. x\<lparr>f_pos := s32 (f_pos x + int c)\<rparr>"
  let ?z = "file_block ?n s ?b"
  note rd = readableD [OF r p(3)]
  have m: "meta_ok ?n s" "0 < i_dev ?n" "i_dev ?n < 65536" and b: "?b < 262663" using rd(1,2) by (auto simp: meta_ok_def)
  obtain s1 where s1: "bmap i (int ?b) s = Done (?z, s1)" "settled s s1" "same_view s s1" using bmap_reads [OF u m(1) b] by blast
  note f1 = settled_fields [OF s1(2)]
  have pos: "cdiv (pos_of f s) 1024 = int ?b" "cmod (pos_of f s) 1024 = int (p mod 1024)" "pos_of f s1 = pos_of f s" using p(1) f1(6)
    by (simp_all add: cdiv_nonneg cmod_nonneg zdiv_int zmod_int pos_of_def)
  obtain L where L: "l - c = L" "int l - int c = int L" using c by (simp add: of_nat_diff)
  have ch: "min (1024 - int (p mod 1024)) (int l) = int c" "\<not> int c \<le> 0" "\<not> int l \<le> 0" using c l by auto
  have mv: "upd_file f ?g s1 = moved f (p + c) s1"
    using p(1,2) c pos(3) f f1(6) by (simp add: moved_def upd_file_def pos_of_def s32_id)
  have bytes: "map (\<lambda>k. file_byte ?n s (p + k)) [0..<c] = (if ?z = 0 then replicate c 0 else take c (drop (p mod 1024) (view s (i_dev ?n) ?z)))"
    by (rule bytes_of_block [OF r p(3)]) (use c in auto)
  show ?thesis
  proof (cases "?z = 0")
    case True
    have "read_loop i f (int l) acc s = read_loop i f (int L) (acc @ replicate c 0) (moved f (p + c) s1)"
      using pos s1(1) True ch mv L by (subst read_loop.simps) (simp add: Let_def)
    moreover have "settled (moved f (p + c) s) (moved f (p + c) s1)" unfolding moved_def by (rule upd_file_settled [OF s1(2)])
    moreover have "same_view s (moved f (p + c) s1)" using s1(3) by (simp add: same_view_def moved_def)
    ultimately show ?thesis using bytes True L by auto
  next
    case False
    have od: "on_disk s1 (i_dev ?n) ?z" "length (view s (i_dev ?n) ?z) = 1024" using rd(3,4) False f1(5) by simp_all
    obtain d s2 where d: "bread (i_dev ?n) ?z s1 = Done (Some d, s2)" "held s1 (i_dev ?n) ?z d s2"
      using bread_usable [OF settled_usable [OF u s1(2)] m(2,3) od(1)] by blast
    have p2: "pos_of f s2 = pos_of f s" "length (k_files s2) = length (k_files s)" using d(2) f1(6) by (simp_all add: held_def rest_def pos_of_def)
    have mv2: "upd_file f ?g s2 = moved f (p + c) s2"
      using p(1,2) c p2 f by (simp add: moved_def upd_file_def pos_of_def s32_id)
    have h: "held (moved f (p + c) s1) (i_dev ?n) ?z d (moved f (p + c) s2)" unfolding moved_def by (rule upd_file_held [OF d(2)])
    have um: "usable (moved f (p + c) s1)" using settled_usable [OF u s1(2)] by (simp add: moved_def)
    obtain s' where s': "brelse (Some d) (moved f (p + c) s2) = Done s'" "settled (moved f (p + c) s1) s'" "same_view (moved f (p + c) s1) s'"
      using held_settled [OF um h] by blast
    have data: "b_data (buf d s2) = view s (i_dev ?n) ?z" using d(2) s1(3) m(2) by (simp add: held_def same_view_def)
    have g: "get_bytes (int (p mod 1024)) c (view s (i_dev ?n) ?z) = Done (take c (drop (p mod 1024) (view s (i_dev ?n) ?z)))"
      using od(2) c by (simp add: get_bytes_def)
    have "read_loop i f (int l) acc s = read_loop i f (int L) (acc @ take c (drop (p mod 1024) (view s (i_dev ?n) ?z))) s'"
      using L pos s1(1) False ch mv2 d(1) f1(4) p2(1) s'(1) data g by (subst read_loop.simps) (simp add: Let_def moved_def)
    moreover have "settled (moved f (p + c) s) s'"
      by (rule settled_trans [OF _ s'(2)]) (use upd_file_settled [OF s1(2)] in \<open>simp add: moved_def\<close>)
    moreover have "same_view s s'" using s1(3) s'(3) by (simp add: same_view_def moved_def)
    ultimately show ?thesis using bytes False L by auto
  qed
qed

definition file_bytes :: "m_inode \<Rightarrow> fs_state \<Rightarrow> nat \<Rightarrow> nat \<Rightarrow> byte list" where
  "file_bytes n s p l = map (\<lambda>k. file_byte n s (p + k)) [0..<l]"

lemma file_bytes_append: "file_bytes n s p (c + l) = file_bytes n s p c @ file_bytes n s (p + c) l"
  by (auto intro!: nth_equalityI simp: file_bytes_def nth_append)

lemma read_loop_reads:
  assumes "usable s" "readable (ino i s) K s" "f < length (k_files s)" "pos_of f s = int p" "p + l \<le> 1024 * K"
  shows "\<exists>s'. read_loop i f (int l) acc s = Done (acc @ file_bytes (ino i s) s p l, 0, s') \<and> settled (moved f (p + l) s) s' \<and> same_view s s'"
  using assms
proof (induction l arbitrary: s p acc rule: less_induct)
  case (less l)
  show ?case
  proof (cases "l = 0")
    case True
    have "(k_files s ! f)\<lparr>f_pos := int p\<rparr> = k_files s ! f" using less.prems(4) by (cases "k_files s ! f") (simp add: pos_of_def)
    then have "moved f p s = s" by (simp add: moved_def upd_file_def)
    then show ?thesis using True settled_refl [OF less.prems(1)]
      by (subst read_loop.simps) (simp add: file_bytes_def same_view_def)
  next
    case False
    define c where "c = min (1024 - p mod 1024) l"
    have c: "0 < c" "c \<le> l" using False by (simp_all add: c_def)
    obtain s1 where s1: "read_loop i f (int l) acc s = read_loop i f (int (l - c)) (acc @ map (\<lambda>k. file_byte (ino i s) s (p + k)) [0..<c]) s1"
      "settled (moved f (p + c) s) s1" "same_view s s1"
      using read_step [OF less.prems(1-4) _ _ _ c_def] False less.prems(2,5) by (auto simp: readable_def)
    note st = settled_fields [OF s1(2)]
    have n1: "ino i s1 = ino i s" "on_disk s1 = on_disk s" using st(4,5) by (simp_all add: moved_def)
    have u1: "usable s1" by (rule settled_usable [OF _ s1(2)]) (use less.prems(1) in \<open>simp add: moved_def\<close>)
    have r1: "readable (ino i s1) K s1" unfolding n1 by (rule readable_cong(1) [OF less.prems(2) s1(3) n1(2)])
    have f1: "f < length (k_files s1)" "pos_of f s1 = int (p + c)"
      using st(6) less.prems(3) by (simp_all add: moved_def pos_of_def upd_file_def)
    obtain s2 where s2: "read_loop i f (int (l - c)) (acc @ file_bytes (ino i s) s p c) s1 =
        Done ((acc @ file_bytes (ino i s) s p c) @ file_bytes (ino i s) s1 (p + c) (l - c), 0, s2)"
      "settled (moved f (p + c + (l - c)) s1) s2" "same_view s1 s2"
    proof -
      have "l - c < l" "p + c + (l - c) \<le> 1024 * K" using c less.prems(5) by simp_all
      from less.IH [OF this(1) u1 r1 f1 this(2), of "acc @ file_bytes (ino i s) s p c"] show ?thesis unfolding n1(1) using that by blast
    qed
    have e: "p + c + (l - c) = p + l" using c(2) by simp
    have "file_bytes (ino i s) s1 (p + c) (l - c) = file_bytes (ino i s) s (p + c) (l - c)"
      using readable_cong(2) [OF less.prems(2) s1(3) n1(2)] c(2) less.prems(5) by (simp add: file_bytes_def)
    moreover have "file_bytes (ino i s) s p l = file_bytes (ino i s) s p c @ file_bytes (ino i s) s (p + c) (l - c)"
      using file_bytes_append [of _ _ p c "l - c"] c(2) by simp
    ultimately have "read_loop i f (int l) acc s = Done (acc @ file_bytes (ino i s) s p l, 0, s2)"
      using s1(1) s2(1) by (simp add: file_bytes_def)
    moreover have "settled (moved f (p + l) s) s2"
      using settled_trans [OF upd_file_settled [OF s1(2), of f "\<lambda>x. x\<lparr>f_pos := int (p + l)\<rparr>"] s2(2) [unfolded e moved_def]]
        moved_twice [OF less.prems(3), of "p + l" "p + c"] by (simp add: moved_def)
    moreover have "same_view s s2" using s1(3) s2(3) by (simp add: same_view_def)
    ultimately show ?thesis by blast
  qed
qed

text \<open>
  C6: When no key is set, reading at a position of a file gives the bytes of its blocks from that position on, a hole as
  zeros; it advances the position by their number, leaves every buffer as it was and changes no block.
\<close>

theorem file_read_correct:
  assumes "usable s" "readable (ino i s) K s" "f < length (k_files s)" "pos_of f s = int p" "0 < l" "p + l \<le> 1024 * K"
    and "is_key_set_fn c \<noteq> 1" "i_num (ino i s) \<noteq> 133"
  shows "\<exists>s'. file_read c upath i f (int l) s = Done (int l, file_bytes (ino i s) s p l, s') \<and> same_view s s' \<and>
    pos_of f s' = int (p + l) \<and> usable s' \<and> counts s' = counts s"
proof -
  obtain t where t: "read_loop i f (int l) [] s = Done (file_bytes (ino i s) s p l, 0, t)" "settled (moved f (p + l) s) t" "same_view s t"
    using read_loop_reads [OF assms(1-4,6), of "[]"] by auto
  have "usable t" by (rule settled_usable [OF _ t(2)]) (use assms(1) in \<open>simp add: moved_def\<close>)
  moreover have "counts t = counts s" using t(2) by (simp add: settled_def moved_def)
  moreover have "pos_of f t = int (p + l)" using settled_fields(6) [OF t(2)] assms(3) by (simp add: moved_def pos_of_def upd_file_def)
  ultimately show ?thesis using t(1,3) assms(5,7,8)
    by (simp add: file_read_def decr_first_def same_view_def touch_def pos_of_def upd_ino_def)
qed

text \<open>A file of one block, open at a position.\<close>

definition open_file :: "int \<Rightarrow> byte list \<Rightarrow> fs_state" where
  "open_file p d = (one_file [10, 0, 0, 0, 0, 0, 0, 0, 0] (\<lambda>_ _. d))\<lparr>k_files := [\<lparr>f_mode = 3, f_flags = 0, f_count = 1, f_inode = Some 0, f_pos = p\<rparr>]\<rparr>"

lemma open_file_simps [simp]:
  "usable (open_file p d)" "ino 0 (open_file p d) = one_inode [10, 0, 0, 0, 0, 0, 0, 0, 0]" "pos_of 0 (open_file p d) = p"
  "e \<noteq> 0 \<Longrightarrow> view (open_file p d) e m = d" "length (k_files (open_file p d)) = 1" "length (k_inodes (open_file p d)) = 1"
  "on_disk (open_file p d) 0x301 m \<longleftrightarrow> 0 \<le> m \<and> m < 500" "f_flags (k_files (open_file p d) ! 0) = 0"
  by (simp_all add: open_file_def pos_of_def)

lemma one_block: "file_block (one_inode [10, 0, 0, 0, 0, 0, 0, 0, 0]) s b = (if b = 0 then 10 else 0)"
  by (auto simp: file_block_def ind_def nth_Cons split: nat.splits)

lemma one_meta: "meta (one_inode [10, 0, 0, 0, 0, 0, 0, 0, 0]) s = {0}"
  by (auto simp: meta_def ind_def)

lemma open_file_sound: "length d = 1024 \<Longrightarrow> readable (ino 0 (open_file p d)) 262663 (open_file p d)"
  by (simp add: readable_def one_block one_meta meta_ok_def)

theorem file_read_correct_witness:
  "\<exists>s'. file_read crypt_init [] 0 0 (int 6) (open_file 1021 (replicate 1024 7)) = Done (int 6, [7, 7, 7, 0, 0, 0], s')"
proof -
  let ?s = "open_file 1021 (replicate 1024 7)"
  have r: "readable (ino 0 ?s) 262663 ?s" by (rule open_file_sound) simp
  have f: "0 < length (k_files ?s)" "pos_of 0 ?s = int 1021" "is_key_set_fn crypt_init \<noteq> 1" "i_num (ino 0 ?s) \<noteq> 133"
    by (simp_all add: is_key_set_fn_def crypt_init_def one_inode_def)
  have "file_bytes (ino 0 ?s) ?s 1021 6 = [7, 7, 7, 0, 0, 0]"
    by (simp add: file_bytes_def file_byte_def one_block upt_conv_Cons)
  then show ?thesis using file_read_correct [OF open_file_simps(1) r f(1,2) _ _ f(3,4), of 6 "[]"] by auto
qed

section \<open>Writing\<close>

text \<open>For a block that the file has, \<open>create_block\<close> is \<open>bmap\<close>.\<close>

lemma ind_entry_create:
  assumes "usable s" "0 < i_dev (ino i s)" "i_dev (ino i s) < 65536" "on_disk s (i_dev (ino i s)) z" "ind s (i_dev (ino i s)) z k \<noteq> 0"
  shows "ind_entry i z k True s = ind_entry i z k False s"
proof (cases "z = 0")
  case False
  then obtain b s1 where h: "bread (i_dev (ino i s)) z s = Done (Some b, s1)" "held s (i_dev (ino i s)) z b s1"
    using bread_usable [OF assms(1-4)] by blast
  then have "get_zone k (b_data (buf b s1)) \<noteq> 0" using assms(5) False by (simp add: ind_def held_def)
  then show ?thesis using h(1) by (simp add: ind_entry_def)
qed (simp add: ind_entry_def)

lemma create_block_reads:
  assumes u: "usable s" and m: "meta_ok (ino i s) s" and b: "b < 262663" and z: "file_block (ino i s) s b \<noteq> 0"
  shows "create_block i (int b) s = bmap i (int b) s"
proof -
  let ?n = "ino i s" and ?d = "i_dev (ino i s)"
  have d: "0 < ?d" "?d < 65536" and od: "\<And>z. z \<in> meta ?n s \<Longrightarrow> z \<noteq> 0 \<Longrightarrow> on_disk s ?d z" using m by (auto simp: meta_ok_def)
  consider "b < 7" | "7 \<le> b" "b < 519" | "519 \<le> b" by linarith
  then show ?thesis
  proof cases
    case 1
    then show ?thesis using z by (simp add: create_block_def bmap_def bmap_at_def zone_entry_def file_block_def)
  next
    case 2
    then have z7: "ind s ?d (i_zone ?n ! 7) (b - 7) \<noteq> 0" using z by (simp add: file_block_def)
    then have "i_zone ?n ! 7 \<noteq> 0" by (auto simp: ind_def)
    moreover have "ind_entry i (i_zone ?n ! 7) (b - 7) True s = ind_entry i (i_zone ?n ! 7) (b - 7) False s"
      by (rule ind_entry_create [OF u d _ z7]) (rule od, use calculation in \<open>simp_all add: meta_def\<close>)
    ultimately show ?thesis using 2 by (simp add: create_block_def bmap_def bmap_at_def zone_entry_def Let_def nat_diff_distrib')
  next
    case 3
    let ?j = "(b - 519) div 512" and ?k = "(b - 519) mod 512"
    let ?z = "ind s ?d (i_zone ?n ! 8) ?j"
    have zz: "ind s ?d ?z ?k \<noteq> 0" using z 3 by (simp add: file_block_def)
    then have nz: "?z \<noteq> 0" by (metis ind_def)
    then have n8: "i_zone ?n ! 8 \<noteq> 0" by (metis ind_def)
    have j: "?j < 512" using b by (simp add: less_mult_imp_div_less)
    have o: "on_disk s ?d (i_zone ?n ! 8)" "on_disk s ?d ?z" using od n8 nz j by (auto simp: meta_def)
    obtain s1 where s1: "ind_entry i (i_zone ?n ! 8) ?j False s = Done (?z, s1)" "settled s s1" "same_view s s1"
      using ind_entry_reads [OF u d] o(1) by blast
    note f = settled_fields [OF s1(2)]
    have "ind s1 ?d ?z ?k = ind s ?d ?z ?k" using s1(3) d by (simp add: ind_def same_view_def)
    then have "ind_entry i ?z ?k True s1 = ind_entry i ?z ?k False s1"
      using ind_entry_create [OF settled_usable [OF u s1(2)], of i ?z ?k] d o(2) zz f by simp
    moreover have "nat ((int b - 519) div 512) = ?j" "nat ((int b - 519) mod 512) = ?k"
      using 3 by (simp_all add: nat_div_distrib nat_mod_distrib nat_diff_distrib')
    ultimately show ?thesis using 3 n8 s1(1) ind_entry_create [OF u d o(1) nz]
      by (simp add: create_block_def bmap_def bmap_at_def zone_entry_def Let_def)
  qed
qed

text \<open>A file whose blocks are different from each other and from its indirect blocks.\<close>

definition sound_file :: "m_inode \<Rightarrow> fs_state \<Rightarrow> bool" where
  "sound_file n s \<longleftrightarrow> readable n 262663 s \<and> (\<forall>b<262663. file_block n s b \<noteq> 0 \<longrightarrow> file_block n s b \<notin> meta n s) \<and>
     (\<forall>b<262663. \<forall>c<262663. file_block n s b \<noteq> 0 \<longrightarrow> file_block n s b = file_block n s c \<longrightarrow> b = c)"

definition in_file :: "m_inode \<Rightarrow> fs_state \<Rightarrow> int \<Rightarrow> int \<Rightarrow> bool" where
  "in_file n s e m \<longleftrightarrow> e = i_dev n \<and> (\<exists>b<262663. file_block n s b = m \<and> m \<noteq> 0)"

definition grown :: "nat \<Rightarrow> m_inode \<Rightarrow> m_inode" where
  "grown p n = (if int p > i_size n then n\<lparr>i_size := int p, i_dirt := 1\<rparr> else n)"

lemma grown_simps [simp]:
  "i_dev (grown p n) = i_dev n" "i_zone (grown p n) = i_zone n" "i_size (grown p n) = max (i_size n) (int p)"
  "file_block (grown p n) s b = file_block n s b" "meta (grown p n) s = meta n s" "file_byte (grown p n) s q = file_byte n s q"
  "readable (grown p n) 262663 s = readable n 262663 s" "sound_file (grown p n) s = sound_file n s" "meta_ok (grown p n) s = meta_ok n s"
  "in_file (grown p n) s e m = in_file n s e m"
proof -
  show z: "i_dev (grown p n) = i_dev n" "i_zone (grown p n) = i_zone n" "i_size (grown p n) = max (i_size n) (int p)" by (simp_all add: grown_def)
  show fb: "file_block (grown p n) s b = file_block n s b" for b by (simp add: file_block_def z)
  show m: "meta (grown p n) s = meta n s" by (simp add: meta_def z)
  show "file_byte (grown p n) s q = file_byte n s q" by (simp add: file_byte_def Let_def fb z)
  show mo: "meta_ok (grown p n) s = meta_ok n s" by (simp add: meta_ok_def m z)
  show r: "readable (grown p n) 262663 s = readable n 262663 s" by (simp add: readable_def mo fb z)
  show "sound_file (grown p n) s = sound_file n s" by (simp add: sound_file_def r fb m)
  show "in_file (grown p n) s e m = in_file n s e m" by (simp add: in_file_def fb z)
qed

lemma sound_change:
  assumes ok: "sound_file n s" and od: "on_disk s' = on_disk s" and b: "b < 262663" "file_block n s b = z" "z \<noteq> 0"
    and v: "\<And>e m. e \<noteq> 0 \<Longrightarrow> (e, m) \<noteq> (i_dev n, z) \<Longrightarrow> view s' e m = view s e m" and len: "length (view s' (i_dev n) z) = 1024"
  shows "sound_file n s'" "\<And>c. c < 262663 \<Longrightarrow> file_block n s' c = file_block n s c" "in_file n s' e m = in_file n s e m"
proof -
  have r: "readable n 262663 s" "i_dev n \<noteq> 0" using ok by (auto simp: sound_file_def readable_def meta_ok_def)
  have nm: "z \<notin> meta n s" using ok b by (auto simp: sound_file_def)
  have v': "view s' (i_dev n) m = view s (i_dev n) m" if "m \<noteq> z" for m using v r(2) that by simp
  have mv: "view s' (i_dev n) y = view s (i_dev n) y" if "y \<in> meta n s" for y by (rule v') (use nm that in auto)
  show fb: "\<And>c. c < 262663 \<Longrightarrow> file_block n s' c = file_block n s c" using meta_cong [OF mv] by simp
  have me: "meta n s' = meta n s" using meta_cong [OF mv] by simp
  have "length (view s' (i_dev n) (file_block n s c)) = 1024" if "c < 262663" "file_block n s c \<noteq> 0" for c
    using that r(1) v' [of "file_block n s c"] len by (cases "file_block n s c = z") (auto simp: readable_def)
  then have "readable n 262663 s'" using r(1) me fb od by (simp add: readable_def meta_ok_def)
  then show "sound_file n s'" using ok fb me by (simp add: sound_file_def)
  show "in_file n s' e m = in_file n s e m" using fb by (auto simp: in_file_def)
qed

lemma upd_ino_settled: "settled s s' \<Longrightarrow> settled (upd_ino i g s) (upd_ino i g s')"
  by (auto simp: settled_def rest_def upd_ino_def)

lemma upd_ino_held: "held s d n i s' \<Longrightarrow> held (upd_ino j g s) d n i (upd_ino j g s')"
  by (auto simp: held_def same_view_def rest_def upd_ino_def holds_def buf_def)

lemma nth_splice: "x + length bs \<le> length d \<Longrightarrow> y < length d \<Longrightarrow>
    (take x d @ bs @ drop (x + length bs) d) ! y = (if x \<le> y \<and> y < x + length bs then bs ! (y - x) else d ! y)"
  by (auto simp: nth_append)

lemma file_byte_put:
  assumes ok: "sound_file n s" and b: "b < 262663" "file_block n s b = z" "z \<noteq> 0" "p div 1024 = b" and c: "p mod 1024 + length bs \<le> 1024"
    and v: "view s' (i_dev n) z = take (p mod 1024) (view s (i_dev n) z) @ bs @ drop (p mod 1024 + length bs) (view s (i_dev n) z)"
      "\<And>e m. e \<noteq> 0 \<Longrightarrow> (e, m) \<noteq> (i_dev n, z) \<Longrightarrow> view s' e m = view s e m"
    and fb: "\<And>c. c < 262663 \<Longrightarrow> file_block n s' c = file_block n s c" and q: "q < 1024 * 262663"
  shows "file_byte n s' q = (if p \<le> q \<and> q < p + length bs then bs ! (q - p) else file_byte n s q)"
proof -
  have d: "i_dev n \<noteq> 0" and len: "length (view s (i_dev n) z) = 1024" using ok b by (auto simp: sound_file_def readable_def meta_ok_def)
  have qb: "q div 1024 < 262663" using q by (simp add: less_mult_imp_div_less mult.commute)
  have qm: "q mod 1024 < 1024" by simp
  have eq: "p = 1024 * b + p mod 1024" using b(4) by auto
  have e2: "q = 1024 * (q div 1024) + q mod 1024" by simp
  show ?thesis
  proof (cases "q div 1024 = b")
    case True
    then have e3: "q = 1024 * b + q mod 1024" by auto
    have "p \<le> q \<longleftrightarrow> p mod 1024 \<le> q mod 1024" by (subst (1) eq, subst (1) e3) simp
    moreover have "q < p + length bs \<longleftrightarrow> q mod 1024 < p mod 1024 + length bs" by (subst (1) eq, subst (1) e3) simp
    moreover have "q - p = q mod 1024 - p mod 1024" by (subst (1) eq, subst (1) e3) simp
    moreover have "file_byte n s' q = view s' (i_dev n) z ! (q mod 1024)" "file_byte n s q = view s (i_dev n) z ! (q mod 1024)"
      using True b(1-3) fb [OF b(1)] by (simp_all add: file_byte_def)
    moreover have "view s' (i_dev n) z ! (q mod 1024) = (if p mod 1024 \<le> q mod 1024 \<and> q mod 1024 < p mod 1024 + length bs
        then bs ! (q mod 1024 - p mod 1024) else view s (i_dev n) z ! (q mod 1024))"
      unfolding v(1) by (rule nth_splice) (use len c qm in simp_all)
    ultimately show ?thesis by simp
  next
    case False
    have "\<not> (p \<le> q \<and> q < p + length bs)"
    proof
      assume "p \<le> q \<and> q < p + length bs"
      moreover have "p + length bs \<le> 1024 * b + 1024" "1024 * b \<le> p" using eq c by linarith+
      ultimately have "q div 1024 = b" by (intro div_nat_eqI) simp_all
      then show False using False by simp
    qed
    moreover have "file_block n s (q div 1024) \<noteq> z" using ok b qb False by (auto simp: sound_file_def)
    then have "view s' (i_dev n) (file_block n s (q div 1024)) = view s (i_dev n) (file_block n s (q div 1024))" using v(2) d by simp
    ultimately show ?thesis using fb [OF qb] by (auto simp: file_byte_def Let_def)
  qed
qed

lemma upd_ino_ino: "i < length (k_inodes s) \<Longrightarrow> ino i (upd_ino i g s) = g (ino i s)"
  by (simp add: upd_ino_def ino_def)

lemma upd_ino_cong: "k_inodes s = k_inodes s' \<Longrightarrow> g (ino i s) = h (ino i s) \<Longrightarrow> upd_ino i g s = upd_ino i h s"
  by (simp add: upd_ino_def ino_def)

lemma write_chunk_held:
  assumes u: "usable s" and h: "held s d z b s1" and d: "0 < d" "on_disk s d z" "length (view s d z) = 1024"
    and p: "p + length bs < 2147483648" "p mod 1024 + length bs \<le> 1024" and i: "i < length (k_inodes s)"
  shows "\<exists>s'. write_chunk i (int p) bs b s1 = Done s' \<and> settled (upd_ino i (grown (p + length bs)) s) s' \<and>
    view s' d z = take (p mod 1024) (view s d z) @ bs @ drop (p mod 1024 + length bs) (view s d z) \<and>
    (\<forall>e m. e \<noteq> 0 \<longrightarrow> (e, m) \<noteq> (d, z) \<longrightarrow> view s' e m = view s e m)"
proof -
  let ?d = "take (p mod 1024) (view s d z) @ bs @ drop (p mod 1024 + length bs) (view s d z)"
  let ?g = "grown (p + length bs)" and ?u = "\<lambda>x :: buffer_head. x\<lparr>b_dirt := 1, b_data := ?d\<rparr>"
  have f: "k_inodes s1 = k_inodes s" "length (fs_bufs s1) = length (fs_bufs s)" "b < length (fs_bufs s1)" "b_data (buf b s1) = view s d z"
    using h by (auto simp: held_def rest_def)
  have od: "on_disk (upd_ino i ?g s) d z" "usable (upd_ino i ?g s)" using u d(2) by simp_all
  have up: "b_uptodate (buf b (upd_ino i ?g s1)) \<noteq> 0" using h by (simp add: held_def upd_ino_def buf_def)
  have "\<exists>s'. brelse (Some b) (upd_buf b ?u (upd_ino i ?g s1)) = Done s' \<and> settled (upd_ino i ?g s) s' \<and>
      view s' d z = b_data (?u (buf b (upd_ino i ?g s1))) \<and> (\<forall>e m. e \<noteq> 0 \<longrightarrow> (e, m) \<noteq> (d, z) \<longrightarrow> view s' e m = view (upd_ino i ?g s) e m)"
    by (rule held_modified [OF od(2) upd_ino_held [OF h] d(1) od(1)]) (use up in simp_all)
  then obtain s' where s': "brelse (Some b) (upd_buf b ?u (upd_ino i ?g s1)) = Done s'" "settled (upd_ino i ?g s) s'"
      "view s' d z = ?d" "\<forall>e m. e \<noteq> 0 \<longrightarrow> (e, m) \<noteq> (d, z) \<longrightarrow> view s' e m = view s e m" by auto
  let ?t = "upd_buf b (\<lambda>x. x\<lparr>b_dirt := 1\<rparr>) s1"
  have e: "(if u32 (s32 (int p + int (length bs))) > i_size (ino i ?t) then upd_ino i (\<lambda>n. n\<lparr>i_size := u32 (s32 (int p + int (length bs))), i_dirt := 1\<rparr>) ?t else ?t)
      = upd_ino i ?g ?t"
  proof -
    have "u32 (s32 (int p + int (length bs))) = int (p + length bs)" using p(1) by (simp add: s32_id u32_id)
    moreover have "i < length (k_inodes ?t)" using i f(1) by (simp add: upd_buf_def)
    ultimately show ?thesis by (auto simp: upd_ino_def grown_def ino_def)
  qed
  have "upd_buf b (\<lambda>x. x\<lparr>b_data := ?d\<rparr>) (upd_ino i ?g ?t) = upd_buf b ?u (upd_ino i ?g s1)"
    using f(3) by (simp add: upd_buf_def upd_ino_def ino_def buf_def)
  moreover have "b_data (buf b (upd_ino i ?g ?t)) = view s d z" using f(3,4) by (simp add: upd_ino_def buf_def upd_buf_def)
  moreover have "cmod (int p) 1024 = int (p mod 1024)" by (simp add: cmod_nonneg zmod_int)
  then have "put_bytes (cmod (int p) 1024) bs (view s d z) = Done ?d" using p(2) d(3) by (simp add: put_bytes_def)
  ultimately have "write_chunk i (int p) bs b s1 = brelse (Some b) (upd_buf b ?u (upd_ino i ?g s1))"
    using e by (simp add: write_chunk_def Let_def)
  then show ?thesis using s' by auto
qed

text \<open>What writing \<open>bs\<close> at \<open>p\<close> does to a file and to the rest of the disk.\<close>

definition wrote :: "nat \<Rightarrow> nat \<Rightarrow> byte list \<Rightarrow> fs_state \<Rightarrow> fs_state \<Rightarrow> bool" where
  "wrote i p bs s s' \<longleftrightarrow> usable s' \<and> counts s' = counts s \<and> k_files s' = k_files s \<and> length (k_inodes s') = length (k_inodes s) \<and>
     ino i s' = grown (p + length bs) (ino i s) \<and> sound_file (ino i s') s' \<and> k_sched s' = k_sched s \<and>
     (\<forall>b<262663. file_block (ino i s') s' b = file_block (ino i s) s b) \<and>
     (\<forall>q<1024 * 262663. file_byte (ino i s') s' q = (if p \<le> q \<and> q < p + length bs then bs ! (q - p) else file_byte (ino i s) s q)) \<and>
     (\<forall>e m. e \<noteq> 0 \<longrightarrow> \<not> in_file (ino i s) s e m \<longrightarrow> view s' e m = view s e m)"

lemma write_step:
  assumes u: "usable s" and ok: "sound_file (ino i s) s" and i: "i < length (k_inodes s)" and p: "p + length bytes < 2147483648" "p < 1024 * 262663"
    and z: "file_block (ino i s) s (p div 1024) \<noteq> 0" and c: "c = min (1024 - p mod 1024) (length bytes)" "bytes \<noteq> []"
  shows "\<exists>s'. write_loop i (int p) bytes dn s = write_loop i (int (p + c)) (drop c bytes) (dn + int c) s' \<and> wrote i p (take c bytes) s s'"
proof -
  let ?n = "ino i s" and ?b = "p div 1024"
  let ?z = "file_block ?n s ?b" and ?bs = "take c bytes"
  have m: "meta_ok ?n s" "0 < i_dev ?n" "i_dev ?n < 65536" and b: "?b < 262663"
    using ok p(2) by (auto simp: sound_file_def readable_def meta_ok_def less_mult_imp_div_less mult.commute)
  have l: "length ?bs = c" "0 < c" "p mod 1024 + c \<le> 1024" "p + c < 2147483648" using c p by auto
  obtain s1 where s1: "bmap i (int ?b) s = Done (?z, s1)" "settled s s1" "same_view s s1" using bmap_reads [OF u m(1) b] by blast
  note f1 = settled_fields [OF s1(2)]
  have vz: "view s1 e k = view s e k" if "e \<noteq> 0" for e k using s1(3) that by (simp add: same_view_def)
  have od: "on_disk s1 (i_dev ?n) ?z" "length (view s1 (i_dev ?n) ?z) = 1024" using ok z b f1(5) vz m(2) by (simp_all add: sound_file_def readable_def)
  obtain d s2 where d: "bread (i_dev ?n) ?z s1 = Done (Some d, s2)" "held s1 (i_dev ?n) ?z d s2"
    using bread_usable [OF settled_usable [OF u s1(2)] m(2,3) od(1)] by blast
  obtain s' where s': "write_chunk i (int p) ?bs d s2 = Done s'" "settled (upd_ino i (grown (p + c)) s1) s'"
      "view s' (i_dev ?n) ?z = take (p mod 1024) (view s (i_dev ?n) ?z) @ ?bs @ drop (p mod 1024 + c) (view s (i_dev ?n) ?z)"
      "\<And>e k. e \<noteq> 0 \<Longrightarrow> (e, k) \<noteq> (i_dev ?n, ?z) \<Longrightarrow> view s' e k = view s e k"
    using write_chunk_held [OF settled_usable [OF u s1(2)] d(2) m(2) od, of p ?bs i] l i f1(1) vz m(2) by auto
  note f2 = settled_fields [OF s'(2)]
  have n': "ino i s' = grown (p + c) ?n" using f2(4) i f1(1,4) by (simp add: upd_ino_ino)
  have len: "length (view s' (i_dev ?n) ?z) = 1024" using s'(3) od(2) vz m(2) l by simp
  have od': "on_disk s' = on_disk s" using f1(5) f2(5) by simp
  note ch = sound_change [OF ok od' b refl z s'(4) len]
  have fb: "file_byte ?n s' q = (if p \<le> q \<and> q < p + c then ?bs ! (q - p) else file_byte ?n s q)" if "q < 1024 * 262663" for q
    using file_byte_put [OF ok b refl z refl _ _ s'(4) ch(2) that, of ?bs] s'(3) l by simp
  have cm: "cmod (int p) 1024 = int (p mod 1024)" by (simp add: cmod_nonneg zmod_int)
  have pos: "cdiv (int p) 1024 = int ?b" "min (1024 - cmod (int p) 1024) (int (length bytes)) = int c" "s32 (int p + int c) = int (p + c)"
  proof -
    have "int (1024 - p mod 1024) = 1024 - int (p mod 1024)" by (simp add: of_nat_diff)
    then show "min (1024 - cmod (int p) 1024) (int (length bytes)) = int c" unfolding cm c(1) by (simp only: of_nat_min)
    show "cdiv (int p) 1024 = int ?b" by (simp add: cdiv_nonneg zdiv_int)
    show "s32 (int p + int c) = int (p + c)" using l(4) by (simp add: s32_id)
  qed
  have "write_loop i (int p) bytes dn s = write_loop i (int (p + c)) (drop c bytes) (dn + int c) s'"
    using c(2) l(2) create_block_reads [OF u m(1) b z] s1(1) z d(1) f1(4) pos s'(1) by (subst write_loop.simps) (simp add: Let_def)
  moreover have "view s' e k = view s e k" if "e \<noteq> 0" "\<not> in_file ?n s e k" for e k
    by (rule s'(4) [OF that(1)]) (use that(2) b z in \<open>auto simp: in_file_def\<close>)
  moreover have "usable s'" "counts s' = counts s"
    using settled_usable [OF _ s'(2)] settled_usable [OF u s1(2)] s'(2) s1(2) by (simp_all add: settled_def)
  moreover have "k_files s' = k_files s" "length (k_inodes s') = length (k_inodes s)" "k_sched s' = k_sched s"
    using f1 f2 by (simp_all add: upd_ino_def)
  ultimately show ?thesis using n' ch fb l(1) by (auto simp: wrote_def)
qed

lemma wroteD:
  assumes "wrote i p bs s s'"
  shows "ino i s' = grown (p + length bs) (ino i s)" "sound_file (ino i s') s'"
    "q < 1024 * 262663 \<Longrightarrow> file_byte (ino i s') s' q = (if p \<le> q \<and> q < p + length bs then bs ! (q - p) else file_byte (ino i s) s q)"
    "e \<noteq> 0 \<Longrightarrow> \<not> in_file (ino i s) s e m \<Longrightarrow> view s' e m = view s e m"
  using assms unfolding wrote_def by blast+

lemma wrote_trans:
  assumes w: "wrote i p bs s t" "wrote i (p + length bs) cs t s'"
  shows "wrote i p (bs @ cs) s s'"
proof -
  have n: "ino i s' = grown (p + length (bs @ cs)) (ino i s)"
    using w by (cases "ino i s") (auto simp: wrote_def grown_def)
  have f: "in_file (ino i t) t e m = in_file (ino i s) s e m" for e m using w(1) by (auto simp: wrote_def in_file_def)
  have "file_byte (ino i s') s' q = (if p \<le> q \<and> q < p + length (bs @ cs) then (bs @ cs) ! (q - p) else file_byte (ino i s) s q)"
    if "q < 1024 * 262663" for q
    using w that by (auto simp: wrote_def nth_append)
  then show ?thesis using w n f by (auto simp: wrote_def)
qed

lemma write_loop_writes:
  assumes "usable s" "sound_file (ino i s) s" "i < length (k_inodes s)" "p + length bytes < 2147483648" "p + length bytes \<le> 1024 * 262663"
    "bytes \<noteq> []" "\<forall>q. p \<le> q \<longrightarrow> q < p + length bytes \<longrightarrow> file_block (ino i s) s (q div 1024) \<noteq> 0"
  shows "\<exists>s'. write_loop i (int p) bytes dn s = Done (dn + int (length bytes), int (p + length bytes), s') \<and> wrote i p bytes s s'"
  using assms
proof (induction bytes arbitrary: s p dn rule: length_induct)
  case (1 bytes)
  define c where "c = min (1024 - p mod 1024) (length bytes)"
  have "0 < length bytes" using "1.prems"(6) by simp
  then have c: "0 < c" "c \<le> length bytes" by (simp_all add: c_def)
  have p: "p < 1024 * 262663" "file_block (ino i s) s (p div 1024) \<noteq> 0" using "1.prems"(5,7) c by auto
  obtain t where t: "write_loop i (int p) bytes dn s = write_loop i (int (p + c)) (drop c bytes) (dn + int c) t" "wrote i p (take c bytes) s t"
    using write_step [OF "1.prems"(1-4) p c_def "1.prems"(6)] by blast
  show ?case
  proof (cases "drop c bytes = []")
    case True
    then have "c = length bytes" using c(2) by simp
    then show ?thesis using t by (auto simp: write_loop.simps [of i _ "[]"])
  next
    case False
    have l: "length (drop c bytes) < length bytes" "p + c + length (drop c bytes) = p + length bytes" "int c + int (length (drop c bytes)) = int (length bytes)"
      using c by auto
    have pre: "usable t" "sound_file (ino i t) t" "i < length (k_inodes t)"
      "\<forall>q. p + c \<le> q \<longrightarrow> q < p + c + length (drop c bytes) \<longrightarrow> file_block (ino i t) t (q div 1024) \<noteq> 0"
      using t(2) "1.prems"(3,5,7) c(2) by (auto simp: wrote_def less_mult_imp_div_less mult.commute)
    have "\<exists>s'. write_loop i (int (p + c)) (drop c bytes) (dn + int c) t =
        Done (dn + int c + int (length (drop c bytes)), int (p + c + length (drop c bytes)), s') \<and> wrote i (p + c) (drop c bytes) t s'"
      using "1.IH" [rule_format, OF l(1), of t "p + c" "dn + int c"] pre False "1.prems"(4,5) unfolding l(2) by blast
    then obtain s' where s': "write_loop i (int (p + c)) (drop c bytes) (dn + int c) t = Done (dn + int (length bytes), int (p + length bytes), s')"
      "wrote i (p + c) (drop c bytes) t s'" unfolding l(2) using l(3) by (metis add.assoc)
    have "wrote i p (take c bytes @ drop c bytes) s s'" by (rule wrote_trans [OF t(2)]) (use s'(2) c(2) in simp)
    then show ?thesis using t(1) s'(1) by auto
  qed
qed

lemma times_simps [simp]:
  "file_block (n\<lparr>i_mtime := a, i_ctime := b\<rparr>) s k = file_block n s k" "meta (n\<lparr>i_mtime := a, i_ctime := b\<rparr>) s = meta n s"
  "file_byte (n\<lparr>i_mtime := a, i_ctime := b\<rparr>) s q = file_byte n s q" "readable (n\<lparr>i_mtime := a, i_ctime := b\<rparr>) 262663 s = readable n 262663 s"
proof -
  let ?n = "n\<lparr>i_mtime := a, i_ctime := b\<rparr>"
  show fb: "file_block ?n s k = file_block n s k" for k by (simp add: file_block_def)
  show m: "meta ?n s = meta n s" by (simp add: meta_def)
  show "file_byte ?n s q = file_byte n s q" by (simp add: file_byte_def Let_def fb)
  show "readable ?n 262663 s = readable n 262663 s" by (simp add: readable_def meta_ok_def fb m)
qed

lemma file_byte_view: "view s' = view s \<Longrightarrow> file_byte n s' q = file_byte n s q"
  by (simp add: file_byte_def Let_def file_block_view(1) [of s' s])

lemma readable_view:
  assumes "view s' = view s" "on_disk s' = on_disk s"
  shows "readable n 262663 s' = readable n 262663 s"
  unfolding readable_def meta_ok_def file_block_view [OF assms(1)] assms ..

text \<open>The call without a key: its loop, and the times and the position after it.\<close>

lemma file_write_plain:
  assumes "usable s" "sound_file (ino i s) s" "i < length (k_inodes s)" "f < length (k_files s)" "pos_of f s = int p"
    "bytes \<noteq> []" "p + length bytes \<le> 1024 * 262663" "\<forall>q. p \<le> q \<longrightarrow> q < p + length bytes \<longrightarrow> file_block (ino i s) s (q div 1024) \<noteq> 0"
    "is_key_set_fn c \<noteq> 1" "i_num (ino i s) \<noteq> 133" "f_flags (k_files s ! f) AND O_APPEND = 0"
  shows "\<exists>t s1. wrote i p bytes s t \<and> file_write c upath i f bytes s = Done (int (length bytes), s1) \<and>
    ino i s1 = (ino i t)\<lparr>i_mtime := now t, i_ctime := now t\<rparr> \<and> view s1 = view t \<and> on_disk s1 = on_disk t \<and> usable s1 \<and>
    k_files s1 = (k_files s)[f := (k_files s ! f)\<lparr>f_pos := int (p + length bytes)\<rparr>]"
proof -
  obtain t where t: "write_loop i (int p) bytes 0 s = Done (int (length bytes), int (p + length bytes), t)" "wrote i p bytes s t"
    using write_loop_writes [OF assms(1-3) _ assms(7,6,8), of 0] assms(7) by auto
  define s1 where "s1 = upd_ino i (\<lambda>n. n\<lparr>i_mtime := now t, i_ctime := now t\<rparr>) (moved f (p + length bytes) t)"
  have it: "i < length (k_inodes t)" "k_files t = k_files s" "usable t" using t(2) assms(3) by (auto simp: wrote_def)
  have "file_write c upath i f bytes s = Done (int (length bytes), s1)"
    using t(1) assms(5,6,9-11) it
    by (simp add: file_write_def decr_first_def Let_def s1_def moved_def upd_file_def upd_ino_def ino_def now_def)
  moreover have "ino i s1 = (ino i t)\<lparr>i_mtime := now t, i_ctime := now t\<rparr>" "view s1 = view t" "on_disk s1 = on_disk t" "usable s1"
    using it by (simp_all add: s1_def moved_def upd_ino_ino upd_file_def)
  moreover have "k_files s1 = (k_files s)[f := (k_files s ! f)\<lparr>f_pos := int (p + length bytes)\<rparr>]"
    using it by (simp add: s1_def moved_def upd_file_def upd_ino_def)
  ultimately show ?thesis using t(2) by blast
qed

text \<open>
  C5: When no key is set, writing over blocks that a file has returns the number of bytes, after which the file has these bytes
  at the position and its old bytes elsewhere, its size is at least the end of what was written and nothing outside the file
  has changed. Going back to the position and reading gives the bytes that were written.
\<close>

theorem file_write_read:
  assumes "usable s" "sound_file (ino i s) s" "i < length (k_inodes s)" "f < length (k_files s)" "pos_of f s = int p"
    "bytes \<noteq> []" "p + length bytes \<le> 1024 * 262663"
    and alloc: "\<forall>q. p \<le> q \<longrightarrow> q < p + length bytes \<longrightarrow> file_block (ino i s) s (q div 1024) \<noteq> 0"
    and "is_key_set_fn c \<noteq> 1" "i_num (ino i s) \<noteq> 133" "f_flags (k_files s ! f) AND O_APPEND = 0"
  shows "\<exists>s1. file_write c upath i f bytes s = Done (int (length bytes), s1) \<and> usable s1 \<and>
    i_size (ino i s1) = max (i_size (ino i s)) (int (p + length bytes)) \<and> pos_of f s1 = int (p + length bytes) \<and>
    (\<forall>q<1024 * 262663. file_byte (ino i s1) s1 q = (if p \<le> q \<and> q < p + length bytes then bytes ! (q - p) else file_byte (ino i s) s q)) \<and>
    (\<forall>e m. e \<noteq> 0 \<longrightarrow> \<not> in_file (ino i s) s e m \<longrightarrow> view s1 e m = view s e m) \<and>
    (\<exists>s2. file_read c upath i f (int (length bytes)) (moved f p s1) = Done (int (length bytes), bytes, s2))"
proof -
  obtain t s1 where t: "wrote i p bytes s t" and w: "file_write c upath i f bytes s = Done (int (length bytes), s1)"
    and s1: "ino i s1 = (ino i t)\<lparr>i_mtime := now t, i_ctime := now t\<rparr>" "view s1 = view t" "on_disk s1 = on_disk t" "usable s1"
      "k_files s1 = (k_files s)[f := (k_files s ! f)\<lparr>f_pos := int (p + length bytes)\<rparr>]"
    using file_write_plain [OF assms] by blast
  let ?m = "moved f p s1"
  have m: "usable ?m" "f < length (k_files ?m)" "pos_of f ?m = int p" "ino i ?m = ino i s1" "view ?m = view t" "on_disk ?m = on_disk t"
    using s1 assms(4) by (simp_all add: moved_def pos_upd_file)
  have fb: "file_byte (ino i s1) s1 q = file_byte (ino i t) t q" "file_byte (ino i s1) ?m q = file_byte (ino i t) t q" for q
    using file_byte_view [OF s1(2)] file_byte_view [OF m(5)] s1(1) by simp_all
  have r: "readable (ino i ?m) 262663 ?m" unfolding readable_view [OF m(5,6)] m(4) s1(1) times_simps using wroteD(2) [OF t] by (simp add: sound_file_def)
  have n: "i_num (ino i ?m) \<noteq> 133" using wroteD(1) [OF t] assms(10) m(4) s1(1) by (simp add: grown_def)
  have "file_bytes (ino i ?m) ?m p (length bytes) = bytes"
    by (rule nth_equalityI) (use wroteD(3) [OF t] assms(7) m(4) fb(2) in \<open>simp_all add: file_bytes_def\<close>)
  then have "\<exists>s2. file_read c upath i f (int (length bytes)) ?m = Done (int (length bytes), bytes, s2)"
    using file_read_correct [OF m(1) r m(2,3) _ assms(7,9) n] assms(6) by auto
  moreover have "pos_of f s1 = int (p + length bytes)" "i_size (ino i s1) = max (i_size (ino i s)) (int (p + length bytes))"
    using s1(1,5) wroteD(1) [OF t] assms(4) by (simp_all add: pos_of_def)
  ultimately show ?thesis using w s1(2,4) wroteD(3,4) [OF t] fb(1) by auto
qed

theorem file_write_read_witness:
  "\<exists>s1 s2. file_write crypt_init [] 0 0 [1, 2, 3] (open_file 5 (replicate 1024 7)) = Done (3, s1) \<and>
    file_read crypt_init [] 0 0 (int 3) (moved 0 5 s1) = Done (3, [1, 2, 3], s2)"
proof -
  let ?s = "open_file 5 (replicate 1024 7)"
  have r: "sound_file (ino 0 ?s) ?s" using open_file_sound [of "replicate 1024 7" 5] by (simp add: sound_file_def one_block one_meta)
  have f: "0 < length (k_inodes ?s)" "0 < length (k_files ?s)" "pos_of 0 ?s = int 5" "is_key_set_fn crypt_init \<noteq> 1" "i_num (ino 0 ?s) \<noteq> 133"
    "f_flags (k_files ?s ! 0) AND O_APPEND = 0" "[1, 2, 3] \<noteq> ([] :: byte list)"
    by (simp_all add: is_key_set_fn_def crypt_init_def one_inode_def)
  from file_write_read [OF open_file_simps(1) r f(1-3,7) _ _ f(4-6), of "[]"] show ?thesis by (auto simp: one_block)
qed

end
