(* ===== verification/EncrFile.thy ===== *)
theory EncrFile
  imports InodeTable FileRW
begin

text \<open>
  The list of encrypted files in use: \<open>check_for_encr\<close> answers whether the inode number of a file is in the list, and
  reading a file that is marked gives its plain bytes while the disk keeps the encrypted ones.
\<close>

section \<open>Inodes that are in the table\<close>

lemma spare_used_again [simp]: "spare k (used_again e i s) = spare k s"
  by (simp add: used_again_def)

text \<open>An entry that is unused, found next and clean, and the entries of an inode that is in use.\<close>

definition free_entry :: "nat \<Rightarrow> fs_state \<Rightarrow> bool" where
  "free_entry e s \<longleftrightarrow> table_ok s \<and> find_empty s = Some e \<and> fs_last_inode s \<le> NR_INODE \<and> idle e s"

definition in_table :: "nat \<Rightarrow> nat \<Rightarrow> int \<Rightarrow> fs_state \<Rightarrow> bool" where
  "in_table e i nr s \<longleftrightarrow> i < NR_INODE \<and> i \<noteq> e \<and> i_dev (ino i s) = 0x301 \<and> i_num (ino i s) = nr \<and> i_lock (ino i s) = 0 \<and>
     0 < i_count (ino i s) \<and> i_count (ino i s) < 65530"

lemma free_entryD: "free_entry e s \<Longrightarrow> e < NR_INODE" "free_entry e s \<Longrightarrow> length (k_inodes s) = NR_INODE" "free_entry e s \<Longrightarrow> i_count (ino e s) = 0"
  using find_empty_Some [of s e] by (simp_all add: free_entry_def table_ok_def)

lemma iget_entry: "free_entry e s \<Longrightarrow> in_table e i nr s \<Longrightarrow> iget 0x301 nr s = Done (i, used_again e i s)"
  by (rule iget_in_table) (auto simp: free_entry_def in_table_def)

lemma find_empty_last: "fs_last_inode s = e \<Longrightarrow> e < NR_INODE \<Longrightarrow> i_count (ino e s) = 0 \<Longrightarrow> find_empty s = Some e"
  by (simp add: find_empty_def upt_conv_Cons)

lemma free_entry_used:
  assumes f: "free_entry e s" and i: "in_table e i nr s"
  shows "free_entry e (used_again e i s)"
proof -
  note d = free_entryD [OF f]
  have ie: "i < NR_INODE" "i \<noteq> e" using i by (simp_all add: in_table_def)
  note n = used_again_ino [OF d(2,1) ie]
  have "table_ok (used_again e i s)"
    by (rule table_ok_frame [where s = s and e = e]) (use f d ie n in \<open>auto simp: free_entry_def zero_inode_def\<close>)
  moreover have "find_empty (used_again e i s) = Some e" by (rule find_empty_last) (use d ie n [of e] in \<open>simp_all add: zero_inode_def\<close>)
  ultimately show ?thesis using d(1) ie n [of e] by (simp add: free_entry_def idle_def zero_inode_def)
qed

text \<open>Inodes that agree but for the use count and the time of access.\<close>

definition same_node :: "m_inode \<Rightarrow> m_inode \<Rightarrow> bool" where
  "same_node m n \<longleftrightarrow> m\<lparr>i_count := 0, i_atime := 0\<rparr> = n\<lparr>i_count := 0, i_atime := 0\<rparr>"

lemma same_node_refl [simp]: "same_node n n" and same_node_trans: "same_node a b \<Longrightarrow> same_node b c \<Longrightarrow> same_node a c"
  by (simp_all add: same_node_def)

lemma same_node_count [simp]: "same_node (n\<lparr>i_count := x\<rparr>) n" "same_node (n\<lparr>i_atime := x\<rparr>) n"
  by (simp_all add: same_node_def)

lemma same_nodeD:
  assumes "same_node m n"
  shows "i_dev m = i_dev n" "i_zone m = i_zone n" "i_num m = i_num n" "i_mode m = i_mode n" "i_uid m = i_uid n" "i_gid m = i_gid n"
    "i_nlinks m = i_nlinks n" "i_size m = i_size n" "i_lock m = i_lock n"
  using assms by (cases m; cases n; simp add: same_node_def)+

definition valid_task :: "fs_state \<Rightarrow> bool" where
  "valid_task s \<longleftrightarrow> current (k_sched s) < length (tasks (k_sched s)) \<and> tasks (k_sched s) ! current (k_sched s) \<noteq> None"

lemma set_dirs_simps [simp]:
  "usable (set_dirs d s) = usable s" "view (set_dirs d s) = view s" "on_disk (set_dirs d s) = on_disk s" "ino i (set_dirs d s) = ino i s"
  "k_inodes (set_dirs d s) = k_inodes s" "k_files (set_dirs d s) = k_files s" "fs_last_inode (set_dirs d s) = fs_last_inode s"
  "spare k (set_dirs d s) = spare k s"
  by (simp_all add: set_dirs_def upd_task_cur_def)

lemma set_dirs_task: "valid_task s \<Longrightarrow> cur_task (set_dirs d s) = (cur_task s)\<lparr>t_root := d, t_pwd := d\<rparr>"
  by (auto simp: valid_task_def set_dirs_def upd_task_cur_def upd_cur_def upd_task_def cur_def)

lemma permission_cong:
  assumes "same_node (ino i s') (ino i s)" "t_uid (cur_task s') = t_uid (cur_task s)" "t_euid (cur_task s') = t_euid (cur_task s)"
    "t_gid (cur_task s') = t_gid (cur_task s)" "t_egid (cur_task s') = t_egid (cur_task s)"
  shows "permission i msk s' = permission i msk s"
  using same_nodeD [OF assms(1)] assms(2-) by (simp add: permission_def Let_def)

text \<open>\<open>namei\<close> of the root directory's name.\<close>

lemma namei_root:
  assumes "t_root (cur_task s) = Some r" "t_pwd (cur_task s) = Some r" "r < length (k_inodes s)" "i_count (ino r s) \<noteq> 0"
    "S_ISDIR (i_mode (ino r s))" "permission r MAY_EXEC s \<noteq> 0"
  shows "namei [SLASH] s = Done (Some r, upd_ino r (\<lambda>n. n\<lparr>i_count := u16 (i_count n + 1)\<rparr>) s)"
proof -
  let ?s = "upd_ino r (\<lambda>n. n\<lparr>i_count := u16 (i_count n + 1)\<rparr>) s"
  have "permission r MAY_EXEC ?s = permission r MAY_EXEC s" by (rule permission_cong) (use assms(3) in simp_all)
  then show ?thesis using assms
    by (simp add: namei_def dir_namei_def get_dir_def used_inode_def Let_def get_dir_loop.simps [of "[]"] basename_def)
qed

section \<open>The list\<close>

text \<open>
  The directory \<open>/\<close> (entry \<open>r\<close>) and the list (entry \<open>l\<close>, inode number \<open>nr\<close>, \<open>k\<close> blocks) as the functions on the list find them.
\<close>

definition list_ok :: "nat \<Rightarrow> nat \<Rightarrow> nat \<Rightarrow> int \<Rightarrow> nat \<Rightarrow> fs_state \<Rightarrow> bool" where
  "list_ok e r l nr k s \<longleftrightarrow> free_entry e s \<and> valid_task s \<and> in_table e r 1 s \<and> in_table e l nr s \<and> nr \<noteq> 1 \<and>
     S_ISDIR (i_mode (ino r s)) \<and> permission r MAY_EXEC s \<noteq> 0 \<and> on_disk s 0x301 (i_zone (ino r s) ! 0) \<and>
     find_list 0 (view s 0x301 (i_zone (ino r s) ! 0)) = Done (Some nr) \<and> file_ok (ino l s) k s"

lemma in_table_same: "in_table e i nr s \<Longrightarrow> same_node (ino i s') (ino i s) \<Longrightarrow> 0 < i_count (ino i s') \<Longrightarrow> i_count (ino i s') < 65530 \<Longrightarrow> in_table e i nr s'"
  using same_nodeD [of "ino i s'" "ino i s"] by (auto simp: in_table_def)

lemma free_entry_same:
  assumes f: "free_entry e s" and n: "\<And>j. same_node (ino j s') (ino j s)" "ino e s' = ino e s" "length (k_inodes s') = length (k_inodes s)" "fs_last_inode s' = e"
  shows "free_entry e s'"
proof -
  note d = free_entryD [OF f]
  have "table_ok s'" using f same_nodeD(1,3) [OF n(1)] n(3) by (simp add: free_entry_def table_ok_def)
  moreover have "find_empty s' = Some e" by (rule find_empty_last [OF n(4) d(1)]) (simp add: n(2) d(3))
  ultimately show ?thesis using f n d(1) by (simp add: free_entry_def idle_def)
qed

text \<open>What the search for the list leaves as it was.\<close>

definition list_frame :: "nat \<Rightarrow> fs_state \<Rightarrow> fs_state \<Rightarrow> bool" where
  "list_frame e s s' \<longleftrightarrow> same_view s s' \<and> on_disk s' = on_disk s \<and> (\<forall>j. j \<noteq> e \<longrightarrow> same_node (ino j s') (ino j s)) \<and>
     k_files s' = k_files s \<and> length (k_inodes s') = length (k_inodes s)"

lemma list_frame_trans: "list_frame e s t \<Longrightarrow> list_frame e t u \<Longrightarrow> list_frame e s u"
  unfolding list_frame_def same_view_def by (auto intro: same_node_trans)

lemma used_again_node:
  assumes "free_entry e s" "in_table e i nr s"
  shows "list_frame e s (used_again e i s)"
  using used_again_ino [OF free_entryD(2,1) [OF assms(1)]] assms(2) by (auto simp: in_table_def list_frame_def same_view_def)

lemma held_frame:
  assumes "held s d n b s'"
  shows "list_frame e s s'" "k_inodes s' = k_inodes s" "fs_last_inode s' = fs_last_inode s" "ino j s' = ino j s" "k_sched s' = k_sched s"
  using assms by (auto simp: held_def rest_def list_frame_def ino_def on_disk_def [abs_def])

text \<open>The state when the root directory is taken twice and the task's directories are set to it.\<close>

definition at_root :: "nat \<Rightarrow> nat \<Rightarrow> fs_state \<Rightarrow> fs_state" where
  "at_root e r s = upd_ino r (\<lambda>n. n\<lparr>i_count := u16 (i_count n + 1)\<rparr>) (set_dirs (Some r) (used_again e r s))"

lemma at_root_ok:
  assumes ok: "list_ok e r l nr k s"
  shows "iget 0x301 1 s = Done (r, used_again e r s)" "namei [SLASH] (set_dirs (Some r) (used_again e r s)) = Done (Some r, at_root e r s)"
    "list_frame e s (at_root e r s)" "free_entry e (at_root e r s)" "in_table e l nr (at_root e r s)" "spare n (at_root e r s) = spare n s"
    "view (at_root e r s) = view s" "k_sched (at_root e r s) = k_sched (set_dirs (Some r) s)"
proof -
  have f: "free_entry e s" and v: "valid_task s" and r: "in_table e r 1 s" and l: "in_table e l nr s" "l \<noteq> r" "nr \<noteq> 1"
    using ok by (auto simp: list_ok_def in_table_def)
  show "iget 0x301 1 s = Done (r, used_again e r s)" by (rule iget_entry [OF f r])
  have rt: "r < NR_INODE" "r \<noteq> e" "0 < i_count (ino r s)" "i_count (ino r s) < 65530" using r by (simp_all add: in_table_def)
  note d = free_entryD [OF f]
  note n = used_again_ino [OF d(2,1) rt(1,2)]
  let ?s1 = "used_again e r s" and ?s2 = "set_dirs (Some r) (used_again e r s)" and ?s3 = "at_root e r s"
  have v1: "valid_task ?s1" using v by (simp add: valid_task_def)
  have len: "r < length (k_inodes ?s2)" using rt(1) d(2) by simp
  have "permission r MAY_EXEC ?s2 = permission r MAY_EXEC s"
    by (rule permission_cong) (use n [of r] set_dirs_task [OF v1] in simp_all)
  then show "namei [SLASH] ?s2 = Done (Some r, ?s3)"
    unfolding at_root_def
    by (intro namei_root) (use ok set_dirs_task [OF v1] n [of r] rt len in \<open>simp_all add: list_ok_def\<close>)
  have n3: "ino j ?s3 = (if j = r then (ino r s)\<lparr>i_count := i_count (ino r s) + 2\<rparr> else if j = e then zero_inode else ino j s)" for j
    using n len rt by (simp add: at_root_def u16_id)
  have len3: "length (k_inodes ?s3) = length (k_inodes s)" by (simp add: at_root_def)
  then show "list_frame e s ?s3" using n3 by (simp add: list_frame_def same_view_def at_root_def upd_ino_def)
  show "in_table e l nr ?s3" using l n3 by (simp add: in_table_def)
  have "free_entry e ?s2"
    by (rule free_entry_same [OF free_entry_used [OF f r]]) simp_all
  then show "free_entry e ?s3"
    by (rule free_entry_same) (use len rt in \<open>simp_all add: at_root_def upd_ino_def ino_def nth_list_update\<close>)
  show "spare n ?s3 = spare n s" "view ?s3 = view s" "k_sched ?s3 = k_sched (set_dirs (Some r) s)"
    by (simp_all add: at_root_def set_dirs_def upd_task_cur_def)
qed

lemma open_list_ok:
  assumes sp: "spare (Suc m) s" and ok: "list_ok e r l nr k s"
  shows "\<exists>s'. open_list [SLASH] s = Done (l, s') \<and> spare m s' \<and> list_frame e s s'"
proof -
  note a = at_root_ok [OF ok]
  let ?s = "at_root e r s"
  have r: "i_dev (ino r ?s) = 0x301" "i_zone (ino r ?s) = i_zone (ino r s)" "on_disk ?s = on_disk s"
    using a(3) ok same_nodeD(1,2) by (auto simp: list_frame_def list_ok_def in_table_def)
  have sp1: "spare (Suc m) ?s" using a(6) sp by simp
  obtain b t where b: "bread 0x301 (i_zone (ino r s) ! 0) ?s = Done (Some b, t)" "held ?s 0x301 (i_zone (ino r s) ! 0) b t"
    using bread_usable [OF spare_usable [OF sp1], where d = "0x301" and n = "i_zone (ino r s) ! 0"] ok r(3) by (auto simp: list_ok_def)
  note h = held_frame [OF b(2)]
  have data: "b_data (buf b t) = view s 0x301 (i_zone (ino r s) ! 0)" using b(2) a(7) by (simp add: held_def)
  have f: "free_entry e t" by (rule free_entry_same [OF a(4)]) (use h a(4) in \<open>simp_all add: at_root_def upd_ino_def set_dirs_def upd_task_cur_def\<close>)
  have l: "in_table e l nr t" using a(5) h(4) by (simp add: in_table_def)
  have "open_list [SLASH] s = Done (l, used_again e l t)"
    using a(1,2) b(1) r data ok iget_entry [OF f l] by (simp add: open_list_def list_ok_def)
  moreover have "spare m (used_again e l t)" using held_spare [OF sp1 b(2)] by simp
  moreover have "list_frame e s (used_again e l t)"
    by (rule list_frame_trans [OF list_frame_trans [OF a(3) h(1)] used_again_node [OF f l]])
  ultimately show ?thesis by blast
qed

section \<open>The search for a number\<close>

definition marked :: "m_inode \<Rightarrow> fs_state \<Rightarrow> nat \<Rightarrow> nat \<Rightarrow> int \<Rightarrow> bool" where
  "marked n s c k num \<longleftrightarrow> (\<exists>b. c \<le> b \<and> b < k \<and> i_node_check (view s (i_dev n) (file_block n s b)) num = 1)"

lemma marked_step: "c < k \<Longrightarrow> marked n s c k num \<longleftrightarrow> i_node_check (view s (i_dev n) (file_block n s c)) num = 1 \<or> marked n s (Suc c) k num"
  unfolding marked_def by (metis Suc_leD Suc_leI le_neq_implies_less order_refl)

lemma marked_same:
  assumes "file_ok n k s" "same_view s s'" "on_disk s' = on_disk s" "i_dev n' = i_dev n" "i_zone n' = i_zone n"
  shows "marked n' s' c k num = marked n s c k num"
proof -
  have "file_block n' s' b = file_block n s b" if "b < k" for b using file_ok_same(2) [OF assms] file_okD(2) [OF assms(1)] that by simp
  moreover have "view s' (i_dev n) z = view s (i_dev n) z" for z using assms(2) file_okD(4) [OF assms(1)] by (simp add: same_view_def)
  ultimately show ?thesis using assms(4) by (auto simp: marked_def)
qed

lemma check_loop_ok:
  assumes "usable s" "file_ok (ino l s) k s" "c \<le> k"
  shows "\<exists>s'. check_loop num l c s = Done (if marked (ino l s) s c k num then 1 else 0, s') \<and> settled s s' \<and> same_view s s'"
  using assms
proof (induction "k - c" arbitrary: c s)
  case 0
  note o = file_okD [OF "0.prems"(2)]
  have c: "c = k" using 0 by simp
  then obtain s' where s': "bmap l (int c) s = Done (0, s')" "settled s s'" "same_view s s'"
    using bmap_reads [OF "0.prems"(1) o(1,2)] o(3) by auto
  have "check_loop num l c s = Done (0, s')" by (subst check_loop.simps) (simp add: s'(1))
  then show ?case using s' c by (auto simp: marked_def)
next
  case (Suc x)
  let ?n = "ino l s" and ?d = "i_dev (ino l s)" and ?z = "file_block (ino l s) s c"
  note o = file_okD [OF Suc.prems(2)]
  have c: "c < k" "c < 262663" using Suc.hyps(2) o(2) by simp_all
  have dv: "?d < 65536" using o(1) by (simp add: meta_ok_def)
  obtain s1 where s1: "bmap l (int c) s = Done (?z, s1)" "settled s s1" "same_view s s1" using bmap_reads [OF Suc.prems(1) o(1) c(2)] by blast
  note f1 = settled_fields [OF s1(2)]
  have u1: "usable s1" "on_disk s1 ?d ?z" using settled_usable [OF Suc.prems(1) s1(2)] o(6) [OF c(1)] f1(5) by simp_all
  obtain b s2 where b: "bread ?d ?z s1 = Done (Some b, s2)" "held s1 ?d ?z b s2" using bread_usable [OF u1(1) o(4) dv u1(2)] by blast
  have data: "b_data (buf b s2) = view s ?d ?z" "b_uptodate (buf b s2) \<noteq> 0" "view s1 ?d ?z = view s ?d ?z"
    using b(2) s1(3) o(4) by (simp_all add: held_def same_view_def)
  have "\<exists>s'. brelse (Some b) (upd_buf b (\<lambda>x. x\<lparr>b_dirt := 1\<rparr>) s2) = Done s' \<and> settled s1 s' \<and> view s' ?d ?z = b_data ((buf b s2)\<lparr>b_dirt := 1\<rparr>) \<and>
      (\<forall>e m. e \<noteq> 0 \<longrightarrow> (e, m) \<noteq> (?d, ?z) \<longrightarrow> view s' e m = view s1 e m)"
    by (rule held_modified [OF u1(1) b(2) o(4) u1(2)]) (use data in simp_all)
  then obtain t where t: "brelse (Some b) (upd_buf b (\<lambda>x. x\<lparr>b_dirt := 1\<rparr>) s2) = Done t" "settled s1 t" "view t ?d ?z = view s1 ?d ?z"
      "\<forall>e m. e \<noteq> 0 \<longrightarrow> (e, m) \<noteq> (?d, ?z) \<longrightarrow> view t e m = view s1 e m" using data by auto
  have "view t e m = view s1 e m" if "e \<noteq> 0" for e m using t(3,4) that by (cases "(e, m) = (?d, ?z)") auto
  then have st: "settled s t" "same_view s t" using settled_trans [OF s1(2) t(2)] s1(3) by (auto simp: same_view_def)
  note f2 = settled_fields [OF st(1)]
  have step: "check_loop num l c s = (if i_node_check (view s ?d ?z) num = 1 then Done (1, t) else check_loop num l (Suc c) t)"
    by (subst check_loop.simps) (simp add: s1(1) o(5) [OF c(1)] f1(4) b(1) data t(1) Let_def)
  show ?case
  proof (cases "i_node_check (view s ?d ?z) num = 1")
    case True
    then show ?thesis using step st marked_step [OF c(1)] by auto
  next
    case False
    have x: "x = k - Suc c" using Suc.hyps(2) by simp
    have ok: "file_ok (ino l t) k t" unfolding f2(4) by (rule file_ok_same [OF Suc.prems(2) st(2) f2(5) refl refl])
    obtain s' where s': "check_loop num l (Suc c) t = Done (if marked (ino l t) t (Suc c) k num then 1 else 0, s')" "settled t s'" "same_view t s'"
      using Suc.hyps(1) [OF x settled_usable [OF Suc.prems(1) st(1)] ok] c(1) by auto
    have "marked (ino l t) t (Suc c) k num = marked ?n s c k num"
      using marked_step [OF c(1)] marked_same [OF Suc.prems(2) st(2) f2(5)] f2(4) False by simp
    then have "check_loop num l c s = Done (if marked ?n s c k num then 1 else 0, s')" using step False s'(1) by simp
    then show ?thesis using settled_trans [OF st(1) s'(2)] st(2) s'(3) by (auto simp: same_view_def)
  qed
qed

lemma touch_node [simp]: "same_node (ino j (touch i s)) (ino j s)"
  by (cases "i < length (k_inodes s)"; cases "j = i") (auto simp: touch_def upd_ino_def ino_def list_update_beyond)

lemma touch_frame: "list_frame e s (touch i s)"
  by (simp add: list_frame_def same_view_def) (simp add: touch_def upd_ino_def)

lemma settled_frame: "settled s s' \<Longrightarrow> same_view s s' \<Longrightarrow> list_frame e s s'"
  using settled_fields [of s s'] by (auto simp: list_frame_def)

lemma set_dirs_frame: "list_frame e s (set_dirs d s)"
  by (simp add: list_frame_def same_view_def)

lemma check_for_encr_ok:
  assumes sp: "spare (Suc (Suc m)) s" and ok: "list_ok e r l nr k s" and i: "i \<noteq> e"
  shows "\<exists>s'. check_for_encr [SLASH] i s = Done (if marked (ino l s) s 0 k (i_num (ino i s)) then 1 else 0, s') \<and>
    usable s' \<and> list_frame e s s'"
proof -
  obtain t where t: "open_list [SLASH] s = Done (l, t)" "spare (Suc m) t" "list_frame e s t" using open_list_ok [OF sp ok] by blast
  have le: "l \<noteq> e" using ok by (simp add: list_ok_def in_table_def)
  have n: "i_dev (ino l t) = i_dev (ino l s)" "i_zone (ino l t) = i_zone (ino l s)" "i_num (ino i t) = i_num (ino i s)"
    using t(3) le i same_nodeD(1-3) by (auto simp: list_frame_def)
  have fo: "file_ok (ino l s) k s" using ok by (simp add: list_ok_def)
  have v: "same_view s t" "on_disk t = on_disk s" using t(3) by (simp_all add: list_frame_def)
  have u: "usable t" by (rule spare_usable [OF t(2)])
  obtain x where x: "check_loop (i_num (ino i t)) l 0 t = Done (if marked (ino l t) t 0 k (i_num (ino i t)) then 1 else 0, x)" "settled t x" "same_view t x"
    using check_loop_ok [OF u file_ok_same(1) [OF fo v n(1,2)], of 0] by blast
  have "check_for_encr [SLASH] i s = Done (if marked (ino l s) s 0 k (i_num (ino i s)) then 1 else 0, set_dirs None (touch l x))"
    using t(1) x(1) marked_same [OF fo v n(1,2)] n(3) by (simp add: check_for_encr_def)
  moreover have "usable (set_dirs None (touch l x))" using settled_usable [OF u x(2)] by simp
  moreover have "list_frame e t (set_dirs None (touch l x))"
    by (rule list_frame_trans [OF list_frame_trans [OF settled_frame [OF x(2,3)] touch_frame] set_dirs_frame])
  ultimately show ?thesis using list_frame_trans [OF t(3)] by blast
qed


section \<open>Reading an encrypted file\<close>

lemma file_ok_readable:
  assumes "file_ok n k s"
  shows "readable n k s"
  using file_okD [OF assms] by (simp add: readable_def)

text \<open>What an encrypted file holds for its reader.\<close>

definition plain_byte :: "crypt_state \<Rightarrow> m_inode \<Rightarrow> fs_state \<Rightarrow> nat \<Rightarrow> byte" where
  "plain_byte c n s p =
     (case buffer_decr (global_key c) (view s (i_dev n) (file_block n s (p div 1024))) 1024 of Done d \<Rightarrow> d ! (p mod 1024) | _ \<Rightarrow> 0)"


section \<open>A disk with an encrypted file\<close>

text \<open>Inode 1 is the directory with the list, inode 3, in which inode 2 is marked.\<close>

definition node :: "int \<Rightarrow> int \<Rightarrow> int \<Rightarrow> m_inode" where
  "node num mode z = (one_inode [z, 0, 0, 0, 0, 0, 0, 0, 0])\<lparr>i_num := num, i_mode := mode\<rparr>"

definition encr_disk :: "int \<Rightarrow> int \<Rightarrow> byte list" where
  "encr_disk d m = (if m = 20 then [3, 0] @ list_name @ [0] @ replicate 1008 0 else if m = 21 then [50, 32] @ replicate 1022 32
     else replicate 1024 7)"

definition encr_state :: fs_state where
  "encr_state = (fs_boot 4 encr_disk)\<lparr>k_inodes := [node 1 0x41ED 20, node 3 S_IFREG 21, node 2 S_IFREG 10] @ replicate 29 zero_inode,
     k_files := [\<lparr>f_mode = 1, f_flags = 0, f_count = 1, f_inode = Some 2, f_pos = 5\<rparr>]\<rparr>"

lemma node_simps [simp]:
  "i_dev (node num mode z) = 0x301" "i_zone (node num mode z) = [z, 0, 0, 0, 0, 0, 0, 0, 0]" "i_num (node num mode z) = num"
  "i_mode (node num mode z) = mode" "i_count (node num mode z) = 1" "i_lock (node num mode z) = 0" "i_nlinks (node num mode z) = 1"
  by (simp_all add: node_def one_inode_def)

lemma node_blocks: "file_block (node num mode z) s b = (if b = 0 then z else 0)" "meta (node num mode z) s = {0}"
  by (auto simp: file_block_def meta_def ind_def nth_Cons split: nat.splits)

lemma encr_state_simps [simp]:
  "usable encr_state" "d \<noteq> 0 \<Longrightarrow> view encr_state d = encr_disk d" "on_disk encr_state 0x301 m \<longleftrightarrow> 0 \<le> m \<and> m < 500"
  "length (k_files encr_state) = 1" "pos_of 0 encr_state = int 5" "fs_last_inode encr_state = 0" "k_sched encr_state = sched_init"
  "length (k_inodes encr_state) = NR_INODE" "ino 0 encr_state = node 1 0x41ED 20" "ino (Suc 0) encr_state = node 3 S_IFREG 21"
  "ino 2 encr_state = node 2 S_IFREG 10" "2 < j \<Longrightarrow> j < NR_INODE \<Longrightarrow> ino j encr_state = zero_inode"
  by (simp_all add: encr_state_def boot_usable boot_view boot_on_disk ino_def pos_of_def NR_INODE_def nth_Cons numeral_2_eq_2
      split: nat.split) (simp_all add: fs_boot_def buffer_init_def)

lemma boot_spare: "k \<le> n \<Longrightarrow> k \<le> 255 \<Longrightarrow> 0 < n \<Longrightarrow> spare k (fs_boot n disk)"
proof -
  assume k: "k \<le> n" "k \<le> 255" "0 < n"
  have "counts (fs_boot n disk) = replicate n 0" by (simp add: counts_def fs_boot_def buffer_init_def empty_buffer_def)
  moreover have "cache_ok (fs_boot n disk)" using k(3) by (simp add: fs_boot_def buffer_init_ok)
  ultimately show ?thesis using k by (simp add: spare_def)
qed

lemma encr_state_spare: "spare (Suc (Suc 0)) encr_state"
  using boot_spare [of 2 4 encr_disk] by (simp add: encr_state_def spare_def numeral_2_eq_2)

lemma encr_state_table: "table_ok encr_state"
proof -
  have n: "(i = 0 \<and> i_num (ino i encr_state) = 1) \<or> (i = 1 \<and> i_num (ino i encr_state) = 3) \<or> (i = 2 \<and> i_num (ino i encr_state) = 2)"
    if "i < NR_INODE" "i_dev (ino i encr_state) \<noteq> 0" for i
  proof (cases "2 < i")
    case True
    then show ?thesis using that by (simp add: zero_inode_def)
  next
    case False
    then consider "i = 0" | "i = 1" | "i = 2" by linarith
    then show ?thesis by cases simp_all
  qed
  show ?thesis unfolding table_ok_def
  proof (intro conjI allI impI)
    fix i j assume ij: "i < NR_INODE" "j < NR_INODE"
      "i_dev (ino i encr_state) \<noteq> 0 \<and> i_dev (ino i encr_state) = i_dev (ino j encr_state) \<and> i_num (ino i encr_state) = i_num (ino j encr_state)"
    show "i = j" using n [OF ij(1)] n [OF ij(2)] ij(3) by (elim conjE) (smt (verit))
  qed simp
qed

lemma encr_state_find: "find_list 0 (encr_disk 0x301 20) = Done (Some 3)"
proof -
  have "entry_inode 0 (encr_disk 0x301 20) = 3" by (simp add: encr_disk_def entry_inode_def get16_def)
  moreover have "take 13 (entry_name 0 (encr_disk 0x301 20)) = list_name"
    by (simp add: encr_disk_def entry_name_def NAME_LEN_def list_name_def take_Cons')
  moreover have "length (encr_disk 0x301 20) = 1024" by (simp add: encr_disk_def list_name_def)
  ultimately show ?thesis by (subst find_list.simps) (simp add: compare_name_def)
qed

lemma encr_state_list: "list_ok 3 0 1 3 1 encr_state"
proof -
  have "find_empty encr_state = Some 3" by (simp add: find_empty_def upt_conv_Cons NR_INODE_def zero_inode_def encr_state_simps(11) [unfolded numeral_2_eq_2])
  then have f: "free_entry 3 encr_state" using encr_state_table by (simp add: free_entry_def idle_def NR_INODE_def zero_inode_def)
  have v: "valid_task encr_state" by (simp add: valid_task_def sched_init_def)
  have p: "S_ISDIR (i_mode (ino 0 encr_state))" "permission 0 MAY_EXEC encr_state \<noteq> 0"
    by (simp_all add: S_ISDIR_def S_IFMT_def S_IFDIR_def permission_def MAY_EXEC_def cur_def sched_init_def init_task_def)
  have "file_ok (ino 1 encr_state) 1 encr_state" by (simp add: file_ok_def node_blocks meta_ok_def encr_disk_def inj_on_def)
  then show ?thesis using f v p encr_state_find by (simp add: list_ok_def in_table_def NR_INODE_def)
qed

lemma encr_state_marked: "marked (ino 1 encr_state) encr_state 0 1 (i_num (ino 2 encr_state))"
proof -
  have "i_node_check (encr_disk 0x301 21) 2 = 1" by (simp add: encr_disk_def i_node_check_def space_def u16_def)
  then show ?thesis by (simp add: marked_def node_blocks)
qed



end
