(* ===== verification/ExecProps.thy ===== *)
theory ExecProps
  imports Exec EncrFile
begin

text \<open>
  Loading a section of a program: \<open>copy_section\<close> puts the bytes of the file at the addresses of the section, as far as
  \<open>read_file_block\<close> finds the blocks.
\<close>

section \<open>A block that is read while another one is held\<close>

lemma release_under:
  assumes u: "usable s" and h: "held s d z i s1" and k: "held s1 e y b s2"
    and n: "b_count (buf i s1) < 255" "0 < e"
  shows "\<exists>s3. brelse (Some i) s2 = Done s3 \<and> held s e y b s3"
proof -
  have len: "length (fs_bufs s1) = length (fs_bufs s)" "length (fs_bufs s2) = length (fs_bufs s)" using h k by (simp_all add: held_def rest_def)
  have i: "i < length (fs_bufs s)" "b < length (fs_bufs s)" using h k len by (simp_all add: held_def)
  have c1: "counts s1 = (counts s)[i := counts s ! i + 1]" "counts s2 = (counts s1)[b := counts s1 ! b + 1]" using h k by (simp_all add: held_def)
  have ci: "0 \<le> counts s ! i" using usable_bounds [OF u i(1)] i by simp
  have "b_count (buf i s1) = counts s1 ! i" using i len by simp
  then have cs1: "b_count (buf i s1) = b_count (buf i s) + 1" using c1(1) i by simp
  have c2: "b_count (buf i s2) = counts s2 ! i" using i len by simp
  have bi: "0 < b_count (buf i s2)" "b_count (buf i s2) < 256"
    using c1 ci i n len cs1 unfolding c2 by (auto simp: nth_list_update)
  have ok: "cache_ok s2" using k by (simp add: held_def)
  have l2: "i < length (fs_bufs s2)" using i len by simp
  let ?s3 = "upd_buf i (\<lambda>b. b\<lparr>b_count := u8 (b_count b - 1)\<rparr>) s2"
  have "b_lock (buf i s2) = 0" using ok l2 by (auto simp: cache_ok_def bufs_ok_def buf_ok_def)
  then have r: "brelse (Some i) s2 = Done ?s3" using bi by (simp add: brelse_def wait_on_buffer_def)
  obtain s3 where s3: "brelse (Some i) s2 = Done s3" "cache_ok s3" "same_view s2 s3" "counts s3 = (counts s2)[i := counts s2 ! i - 1]" "rest s3 = rest s2"
    using brelse_settled [OF ok l2 bi] by blast
  have e: "s3 = ?s3" using r s3(1) by simp
  have "holds s3 e y b" "b_data (buf b s3) = b_data (buf b s2)" "b_uptodate (buf b s3) = b_uptodate (buf b s2)"
    using k l2 i len unfolding e by (auto simp: held_def holds_def)
  moreover have "counts s3 = (counts s)[b := counts s ! b + 1]"
    unfolding s3(4) c1 using i len by (intro nth_equalityI) (auto simp: nth_list_update)
  moreover have "view s1 e y = view s e y" using h n(2) by (simp add: held_def same_view_def)
  ultimately show ?thesis using s3 h k i by (intro exI [of _ s3]) (auto simp: held_def same_view_def holds_def)
qed

lemma spare_less: "spare (Suc k) s \<Longrightarrow> i < length (fs_bufs s) \<Longrightarrow> b_count (buf i s) < 255"
  using nth_mem [of i "counts s"] by (force simp: spare_def)

lemma spare_mono: "spare (Suc k) s \<Longrightarrow> spare k s"
  by (auto simp: spare_def)

lemma settled_spare: "settled s s' \<Longrightarrow> spare k s \<Longrightarrow> spare k s'"
  by (simp add: settled_def spare_def)

lemma read_ind_held:
  assumes sp: "spare (Suc (Suc m)) s" and d: "0 < dev" "dev < 65536" and z: "on_disk s dev z" "k < 512"
    and y: "get_zone k (view s dev z) = y" "y \<noteq> 0" "on_disk s dev y"
  shows "\<exists>b s'. read_file_block_ind dev z (int k) s = Done (Some b, s') \<and> held s dev y b s'"
proof -
  have u: "usable s" by (rule spare_usable [OF sp])
  obtain i s1 where i: "bread dev z s = Done (Some i, s1)" "held s dev z i s1" using bread_usable [OF u d z(1)] by blast
  have sp1: "spare (Suc m) s1" by (rule held_spare [OF sp i(2)])
  have od: "on_disk s1 dev y" using held_frame(1) [OF i(2)] y(3) by (simp add: list_frame_def)
  obtain b s2 where b: "bread dev y s1 = Done (Some b, s2)" "held s1 dev y b s2" using bread_usable [OF spare_usable [OF sp1] d od] by blast
  have "i < length (fs_bufs s1)" using i(2) by (simp add: held_def rest_def)
  from release_under [OF u i(2) b(2) spare_less [OF sp1 this] d(1)] obtain s3 where
    s3: "brelse (Some i) s2 = Done s3" "held s dev y b s3" by blast
  have "b_data (buf i s1) = view s dev z" using i(2) by (simp add: held_def)
  then have "read_file_block_ind dev z (int k) s = Done (Some b, s3)"
    using i(1) b(1) s3(1) y(1,2) z(2) by (simp add: read_file_block_ind_def Let_def)
  then show ?thesis using s3(2) by blast
qed

text \<open>The blocks up to the 512th entry of the double indirect table, of which the code takes the first table only.\<close>

lemma read_file_block_held:
  assumes sp: "spare (Suc (Suc m)) s" and ok: "meta_ok (ino i s) s" and b: "b < 1031"
    and z: "file_block (ino i s) s b = z" "z \<noteq> 0" "on_disk s (i_dev (ino i s)) z"
  shows "\<exists>h s'. read_file_block i (int b) s = Done (Some h, s') \<and> held s (i_dev (ino i s)) z h s'"
proof -
  let ?n = "ino i s" and ?d = "i_dev (ino i s)"
  have d: "0 < ?d" "?d < 65536" and od: "\<And>y. y \<in> meta ?n s \<Longrightarrow> y \<noteq> 0 \<Longrightarrow> on_disk s ?d y" using ok by (auto simp: meta_ok_def)
  have u: "usable s" by (rule spare_usable [OF sp])
  consider "b < 7" | "7 \<le> b" "b < 519" | "519 \<le> b" by linarith
  then show ?thesis
  proof cases
    case 1
    then show ?thesis using bread_usable [OF u d z(3)] z(1) by (simp add: read_file_block_def file_block_def Let_def)
  next
    case 2
    then have y: "ind s ?d (i_zone ?n ! 7) (b - 7) = z" using z(1) by (simp add: file_block_def)
    then have nz: "i_zone ?n ! 7 \<noteq> 0" using z(2) by (auto simp: ind_def)
    have "on_disk s ?d (i_zone ?n ! 7)" using od nz by (simp add: meta_def)
    from read_ind_held [OF sp d this _ _ z(2,3), of "b - 7"] y nz 2 show ?thesis
      by (simp add: read_file_block_def Let_def ind_def of_nat_diff)
  next
    case 3
    then obtain w where w: "b = 519 + w" by (metis le_Suc_ex)
    then have w512: "w < 512" using b by simp
    then have "w div 512 = 0" "w mod 512 = w" by (simp_all only: div_less mod_less)
    then have y: "ind s ?d (ind s ?d (i_zone ?n ! 8) 0) w = z" using z(1) w by (simp add: file_block_def)
    let ?t = "ind s ?d (i_zone ?n ! 8) 0"
    have nz: "?t \<noteq> 0" using y z(2) by (metis ind_def)
    then have n8: "i_zone ?n ! 8 \<noteq> 0" by (metis ind_def)
    have o: "on_disk s ?d (i_zone ?n ! 8)" "on_disk s ?d ?t" using od n8 nz by (auto simp: meta_def)
    obtain h s1 where h: "bread ?d (i_zone ?n ! 8) s = Done (Some h, s1)" "held s ?d (i_zone ?n ! 8) h s1" using bread_usable [OF u d o(1)] by blast
    obtain s2 where s2: "brelse (Some h) s1 = Done s2" "settled s s2" "same_view s s2" using held_settled [OF u h(2)] by blast
    have t: "get_zone 0 (b_data (buf h s1)) = ?t" using h(2) n8 by (simp add: held_def ind_def)
    have v: "view s2 ?d x = view s ?d x" for x using s2(3) d by (simp add: same_view_def)
    have od2: "on_disk s2 = on_disk s" by (rule settled_fields(5) [OF s2(2)])
    have "\<exists>g s'. read_file_block_ind ?d ?t (int w) s2 = Done (Some g, s') \<and> held s2 ?d z g s'"
      by (rule read_ind_held [OF settled_spare [OF s2(2) sp] d _ _ _ z(2)]) (use od2 o(2) z(3) v y nz w512 in \<open>simp_all add: ind_def\<close>)
    then obtain g s' where g: "read_file_block_ind ?d ?t (int w) s2 = Done (Some g, s')" "held s2 ?d z g s'" by blast
    have "read_file_block i (int b) s = Done (Some g, s')"
      using h(1) s2(1) t g(1) w w512 n8 by (simp add: read_file_block_def Let_def)
    moreover have "held s ?d z g s'" using g(2) s2(2,3) v by (auto simp: held_def settled_def same_view_def rest_def)
    ultimately show ?thesis by blast
  qed
qed

section \<open>Sections\<close>

lemma fold_put:
  assumes "0 \<le> dest" "dest + int m \<le> 4294967296"
  shows "fold (\<lambda>k. put_fs_byte (g k) (dest + int k)) [0..<m] um a = (if dest \<le> a \<and> a < dest + int m then g (nat (a - dest)) else um a)"
  using assms(2)
proof (induction m)
  case (Suc m)
  have "u32 (dest + int m) = dest + int m" using Suc.prems assms(1) by (simp add: u32_id)
  then show ?case using Suc by (auto simp: put_fs_byte_def)
qed auto

lemma cp_block_at:
  assumes "0 \<le> dest" "dest + int (n + 3) \<le> 4294967296" "off + n \<le> length d"
  shows "j < n \<Longrightarrow> cp_block tail d off dest (n + 3) um (dest + int j) = d ! (off + j)"
    "a < dest \<or> dest + int n + 3 \<le> a \<Longrightarrow> cp_block tail d off dest (n + 3) um a = um a"
proof -
  have m: "n \<le> 4 * ((n + 3) div 4)" "4 * ((n + 3) div 4) \<le> n + 3" by presburger+
  then have "dest + int (4 * ((n + 3) div 4)) \<le> 4294967296" using assms(2) by linarith
  note f = fold_put [OF assms(1) this]
  show "cp_block tail d off dest (n + 3) um (dest + int j) = d ! (off + j)" if "j < n"
    using that m assms(3) unfolding cp_block_def f by (simp add: nth_append)
  show "cp_block tail d off dest (n + 3) um a = um a" if "a < dest \<or> dest + int n + 3 \<le> a"
    using that m unfolding cp_block_def f by auto
qed

text \<open>The bytes \<open>p\<close>, \<dots> of a file are at the addresses \<open>dest\<close>, \<dots>; the memory before them and from 3 bytes after them is untouched.\<close>

definition loaded :: "m_inode \<Rightarrow> fs_state \<Rightarrow> nat \<Rightarrow> int \<Rightarrow> nat \<Rightarrow> umem \<Rightarrow> umem \<Rightarrow> bool" where
  "loaded n s p dest len um um' \<longleftrightarrow> (\<forall>j<len. um' (dest + int j) = file_byte n s (p + j)) \<and>
     (\<forall>a. a < dest \<or> dest + int len + 3 \<le> a \<longrightarrow> um' a = um a)"

lemma loaded_step:
  assumes c: "c \<le> len" and l: "loaded n s p dest c um um1" and r: "loaded n s (p + c) (dest + int c) (len - c) um1 um2"
  shows "loaded n s p dest len um um2"
  unfolding loaded_def
proof (intro conjI allI impI)
  fix j assume j: "j < len"
  show "um2 (dest + int j) = file_byte n s (p + j)"
  proof (cases "j < c")
    case True
    then have "um2 (dest + int j) = um1 (dest + int j)" using r by (simp add: loaded_def)
    then show ?thesis using l True by (simp add: loaded_def)
  next
    case False
    then obtain w where w: "j = c + w" by (metis le_Suc_ex not_less)
    then have "w < len - c" using j by simp
    then have "um2 (dest + int c + int w) = file_byte n s (p + c + w)" using r by (simp add: loaded_def)
    then show ?thesis by (simp add: w add.assoc)
  qed
next
  fix a assume "a < dest \<or> dest + int len + 3 \<le> a"
  then show "um2 a = um a" using l r c by (auto simp: loaded_def of_nat_diff)
qed

lemma copy_blocks_loads:
  assumes "spare (Suc (Suc m)) (ex_fs s)" "file_ok (ino i (ex_fs s)) k (ex_fs s)" "k \<le> 1031" "off < 1024" "1024 * b + off + len \<le> 1024 * k"
    "0 \<le> dest" "dest + int len + 3 \<le> 4294967296"
  shows "\<exists>s'. copy_blocks tail i (int b) off dest len s = Done (0, s') \<and> settled (ex_fs s) (ex_fs s') \<and> same_view (ex_fs s) (ex_fs s') \<and>
    loaded (ino i (ex_fs s)) (ex_fs s) (1024 * b + off) dest len (ex_um s) (ex_um s')"
  using assms
proof (induction len arbitrary: s b off dest rule: less_induct)
  case (less len)
  let ?f = "ex_fs s" and ?n = "ino i (ex_fs s)"
  let ?z = "file_block ?n ?f b"
  show ?case
  proof (cases "len = 0")
    case True
    then show ?thesis using settled_refl [OF spare_usable [OF less.prems(1)]]
      by (subst copy_blocks.simps) (simp add: same_view_def loaded_def)
  next
    case False
    note o = file_okD [OF less.prems(2)]
    have b: "b < k" "b < 1031" using less.prems(3,5) False by linarith+
    define c where "c = min len (1024 - off)"
    have c: "0 < c" "c \<le> len" "off + c \<le> 1024" using False less.prems(4) by (simp_all add: c_def)
    obtain h t where h: "read_file_block i (int b) ?f = Done (Some h, t)" "held ?f (i_dev ?n) ?z h t"
      using read_file_block_held [OF less.prems(1) o(1) b(2) refl] o(5,6) [OF b(1)] by blast
    obtain g where g: "brelse (Some h) t = Done g" "settled ?f g" "same_view ?f g" using held_settled [OF spare_usable [OF less.prems(1)] h(2)] by blast
    have data: "b_data (buf h t) = view ?f (i_dev ?n) ?z" "length (view ?f (i_dev ?n) ?z) = 1024" using h(2) o(7) [OF b(1)] by (simp_all add: held_def)
    note fg = settled_fields [OF g(2)]
    let ?um = "cp_block tail (view ?f (i_dev ?n) ?z) off dest (c + 3) (ex_um s)"
    let ?s = "s\<lparr>ex_fs := g, ex_um := ?um\<rparr>"
    have d: "dest + int (c + 3) \<le> 4294967296" "u32 (dest + int c) = dest + int c" using c less.prems(6,7) by (simp_all add: u32_id)
    have step: "copy_blocks tail i (int b) off dest len s = copy_blocks tail i (int (Suc b)) 0 (dest + int c) (len - c) ?s"
      using False less.prems(4) h(1) g(1) data(1) d(2)
      by (subst copy_blocks.simps) (simp add: c_def [symmetric] Let_def add.commute)
    have byte: "file_byte ?n ?f (1024 * b + off + j) = view ?f (i_dev ?n) ?z ! (off + j)" if "j < c" for j
    proof -
      have "(1024 * b + off + j) div 1024 = b" "(1024 * b + off + j) mod 1024 = off + j" using that c(3) by (simp_all add: add.assoc)
      then show ?thesis using o(5) [OF b(1)] by (simp add: file_byte_def)
    qed
    note cp = cp_block_at [OF less.prems(6) d(1), of off "view ?f (i_dev ?n) ?z", unfolded data(2), OF c(3), of _ tail "ex_um s"]
    have l1: "loaded ?n ?f (1024 * b + off) dest c (ex_um s) ?um" unfolding loaded_def using cp byte by simp
    have ok: "file_ok (ino i g) k g" unfolding fg(4) by (rule file_ok_same(1) [OF less.prems(2) g(3) fg(5) refl refl])
    have full: "len - c = 0 \<or> off + c = 1024" using less.prems(4) by (auto simp: c_def min_def)
    then have sz: "1024 * Suc b + 0 + (len - c) \<le> 1024 * k" using less.prems(5) b(1) c(2) by auto
    have "\<exists>s'. copy_blocks tail i (int (Suc b)) 0 (dest + int c) (len - c) ?s = Done (0, s') \<and> settled g (ex_fs s') \<and> same_view g (ex_fs s') \<and>
        loaded (ino i g) g (1024 * Suc b + 0) (dest + int c) (len - c) ?um (ex_um s')"
      using less.IH [of "len - c" ?s 0 "Suc b" "dest + int c"] settled_spare [OF g(2) less.prems(1)] ok less.prems(3,6,7) sz c by (simp add: of_nat_diff)
    then obtain s' where s': "copy_blocks tail i (int (Suc b)) 0 (dest + int c) (len - c) ?s = Done (0, s')" "settled g (ex_fs s')" "same_view g (ex_fs s')"
        "loaded (ino i g) g (1024 * Suc b + 0) (dest + int c) (len - c) ?um (ex_um s')" by blast
    have "loaded ?n ?f (1024 * b + off + c) (dest + int c) (len - c) ?um (ex_um s')"
    proof (cases "len - c = 0")
      case True
      then show ?thesis using s'(4) by (simp add: loaded_def)
    next
      case False
      then have e: "1024 * b + off + c = 1024 * Suc b" using full by simp
      have "file_byte (ino i g) g q = file_byte ?n ?f q" if "q < 1024 * k" for q
        unfolding fg(4) by (rule readable_cong(2) [OF file_ok_readable [OF less.prems(2)] g(3) fg(5) that])
      then show ?thesis using s'(4) sz unfolding loaded_def e by auto
    qed
    then show ?thesis using step s'(1) settled_trans [OF g(2) s'(2)] g(3) s'(3) loaded_step [OF c(2) l1] by (auto simp: same_view_def)
  qed
qed

text \<open>
  C7: Loading a section that lies within the file puts each byte of the section at its address; memory before the section and from
  three bytes after it (the copy moves whole words) is not touched, and the disk and the cache are as before. The file may use
  the double indirect block for its first 512 entries only, since \<open>read_file_block\<close> computes wrong indices after that.
\<close>

theorem copy_section_loads:
  assumes "spare (Suc (Suc m)) (ex_fs s)" "file_ok (ino i (ex_fs s)) k (ex_fs s)" "k \<le> 1031" "from + len \<le> 1024 * k"
    "0 \<le> dest" "dest + int len + 3 \<le> 4294967296"
  shows "\<exists>s'. copy_section tail i (int from) dest (int len) s = Done (0, s') \<and> usable (ex_fs s') \<and> same_view (ex_fs s) (ex_fs s') \<and>
    (\<forall>j<len. ex_um s' (dest + int j) = file_byte (ino i (ex_fs s)) (ex_fs s) (from + j)) \<and>
    (\<forall>a. a < dest \<or> dest + int len + 3 \<le> a \<longrightarrow> ex_um s' a = ex_um s a)"
proof -
  have e: "1024 * (from div 1024) + from mod 1024 = from" by simp
  have d: "int from div 1024 = int (from div 1024)" "nat (int from mod 1024) = from mod 1024" by (simp_all add: zdiv_int nat_mod_as_int)
  obtain s' where "copy_blocks tail i (int (from div 1024)) (from mod 1024) dest len s = Done (0, s')" "settled (ex_fs s) (ex_fs s')"
      "same_view (ex_fs s) (ex_fs s')" "loaded (ino i (ex_fs s)) (ex_fs s) from dest len (ex_um s) (ex_um s')"
    using copy_blocks_loads [OF assms(1-3) _ _ assms(5,6), of "from mod 1024" "from div 1024"] assms(4) unfolding e by auto
  then show ?thesis using settled_usable [OF spare_usable [OF assms(1)]] by (auto simp: copy_section_def d loaded_def)
qed

theorem copy_section_loads_witness:
  "\<exists>s'. copy_section [] 2 (int 100) 4096 (int 6) \<lparr>ex_fs = encr_state, ex_um = (\<lambda>_. 0)\<rparr> = Done (0, s') \<and>
    ex_um s' 4096 = 7 \<and> ex_um s' 4101 = 7 \<and> ex_um s' 4105 = 0"
proof -
  let ?s = "\<lparr>ex_fs = encr_state, ex_um = (\<lambda>_. 0)\<rparr> :: exec_state"
  have sp: "spare (Suc (Suc 0)) (ex_fs ?s)" using encr_state_spare by simp
  have ok: "file_ok (ino 2 (ex_fs ?s)) 1 (ex_fs ?s)" by (simp add: file_ok_def node_blocks meta_ok_def encr_disk_def inj_on_def)
  have b: "file_byte (ino 2 encr_state) encr_state (100 + j) = 7" if "j < 6" for j
    using that by (simp add: file_byte_def node_blocks encr_disk_def)
  obtain s' where s': "copy_section [] 2 (int 100) 4096 (int 6) ?s = Done (0, s')"
    and m: "\<forall>j<6. ex_um s' (4096 + int j) = file_byte (ino 2 encr_state) encr_state (100 + j)" and u: "\<forall>a. a < 4096 \<or> 4096 + int 6 + 3 \<le> a \<longrightarrow> ex_um s' a = 0"
    using copy_section_loads [OF sp ok, of 100 6 4096 "[]"] by auto
  have "ex_um s' (4096 + int j) = 7" if "j < 6" for j using m b that by simp
  from this [of 0] this [of 5] have "ex_um s' 4096 = 7" "ex_um s' 4101 = 7" by simp_all
  then show ?thesis using s' u by auto
qed

end
