(* ===== verification/ExitProps.thy ===== *)
theory ExitProps
  imports ExitSys ProcessProps PipeProps
begin

text \<open>
  What the end of a task means for its father: the task becomes a zombie that keeps its exit code, the father gets
  \<open>SIGCHLD\<close> and runs again when it sleeps in \<open>sys_waitpid\<close>, and its search takes the zombie away with the code.
\<close>

section \<open>What the scheduler does to a task\<close>

definition sched_touch :: "int \<Rightarrow> task_struct \<Rightarrow> task_struct \<Rightarrow> bool" where
  "sched_touch jif t u \<longleftrightarrow> u = check_alarm jif t \<or> u = recharge (check_alarm jif t)"

lemma schedule_tasks:
  assumes "tasks_ok (tasks s)"
  shows "\<exists>s'. schedule s = Some s' \<and> tasks_ok (tasks s') \<and> tasks s' ! 0 = tasks s ! 0 \<and>
    (\<forall>j. 0 < j \<longrightarrow> j < NR_TASKS \<longrightarrow> rel_option (sched_touch (jiffies s)) (tasks s ! j) (tasks s' ! j))"
proof -
  let ?ts = "each_task (check_alarm (jiffies s)) (tasks s)"
  have "tasks_ok ?ts" using assms check_alarm_ok by (intro each_task_ok)
  from sched_loop_ok [OF this] obtain n ts where l: "sched_loop ?ts = Some (n, ts)" "tasks_ok ts" and
    ts: "ts = ?ts \<or> ts = each_task recharge ?ts" by blast
  have len: "length (tasks s) = NR_TASKS" using assms by (simp add: tasks_ok_def)
  have "rel_option (sched_touch (jiffies s)) (tasks s ! j) (ts ! j)" if "0 < j" "j < NR_TASKS" for j
    using ts that len by (cases "tasks s ! j") (auto simp: nth_each_task sched_touch_def)
  moreover have "ts ! 0 = tasks s ! 0" using ts len by (auto simp: nth_each_task NR_TASKS_def)
  ultimately show ?thesis using l by (simp add: schedule_def)
qed

lemma check_alarm_keeps:
  "t_pid (check_alarm jif t) = t_pid t" "t_father (check_alarm jif t) = t_father t" "t_exit_code (check_alarm jif t) = t_exit_code t"
  "t_data_base (check_alarm jif t) = t_data_base t"
  "t_state t = TASK_ZOMBIE \<Longrightarrow> t_state (check_alarm jif t) = TASK_ZOMBIE"
  by (auto simp: check_alarm_def Let_def task_states)

lemma recharge_keeps:
  "t_pid (recharge t) = t_pid t" "t_father (recharge t) = t_father t" "t_exit_code (recharge t) = t_exit_code t"
  "t_data_base (recharge t) = t_data_base t" "t_state (recharge t) = t_state t" "t_signal (recharge t) = t_signal t"
  by (simp_all add: recharge_def)

lemma sched_touchD:
  assumes "sched_touch jif t u"
  shows "t_pid u = t_pid t" "t_father u = t_father t" "t_exit_code u = t_exit_code t" "t_data_base u = t_data_base t"
    "t_state t = TASK_ZOMBIE \<Longrightarrow> t_state u = TASK_ZOMBIE"
  using assms by (auto simp: sched_touch_def recharge_keeps check_alarm_keeps)

lemma sched_touch_wakes:
  assumes "sched_touch jif t u" "t_signal t AND b \<noteq> 0" "t_state t = TASK_INTERRUPTIBLE"
  shows "t_state u = TASK_RUNNING"
  using assms by (auto simp: sched_touch_def recharge_keeps check_alarm_def Let_def task_states or_eq_0_iff)


section \<open>The zombie and its father\<close>

definition dying :: "sched_state \<Rightarrow> task_struct \<Rightarrow> nat \<Rightarrow> task_struct \<Rightarrow> bool" where
  "dying s t p q \<longleftrightarrow> tasks_ok (tasks s) \<and> 0 < current s \<and> current s < NR_TASKS \<and> tasks s ! current s = Some t \<and> 0 < t_pid t \<and>
     0 < p \<and> p < NR_TASKS \<and> p \<noteq> current s \<and> tasks s ! p = Some q \<and> t_pid q = t_father t \<and> 0 < t_father t \<and>
     (\<forall>j u. j < NR_TASKS \<longrightarrow> tasks s ! j = Some u \<longrightarrow> t_pid u = t_pid t \<longrightarrow> j = current s)"

lemma task_ok_update [simp]:
  "task_ok (t\<lparr>t_state := x\<rparr>) = task_ok t" "task_ok (t\<lparr>t_exit_code := x\<rparr>) = task_ok t" "task_ok (t\<lparr>t_cutime := x\<rparr>) = task_ok t"
  "task_ok (t\<lparr>t_cstime := x\<rparr>) = task_ok t"
  by (simp_all add: task_ok_def)

lemma dyingD:
  assumes "dying s t p q"
  shows "length (tasks s) = NR_TASKS" "tasks s ! 0 \<noteq> None" "Some v \<in> set (tasks s) \<Longrightarrow> task_ok v"
    "0 < current s" "current s < NR_TASKS" "tasks s ! current s = Some t" "0 < t_pid t"
    "0 < p" "p < NR_TASKS" "p \<noteq> current s" "tasks s ! p = Some q" "t_pid q = t_father t" "0 < t_father t"
    "j < NR_TASKS \<Longrightarrow> tasks s ! j = Some u \<Longrightarrow> t_pid u = t_pid t \<Longrightarrow> j = current s"
  using assms unfolding dying_def tasks_ok_def by blast+

lemma kill_one_keeps:
  "t_pid (kill_one p g v c t) = t_pid t" "t_father (kill_one p g v c t) = t_father t" "t_data_base (kill_one p g v c t) = t_data_base t"
  "t_state (kill_one p g v c t) = t_state t" "task_ok (kill_one p g v c t) = task_ok t"
  by (simp_all add: kill_one_def task_ok_def)

lemma exit_task_zombie:
  assumes d: "dying (k_sched s) t p q"
  shows "\<exists>sc. exit_task code s = Done (s\<lparr>k_sched := sc\<rparr>) \<and> tasks_ok (tasks sc) \<and> current sc = current (k_sched s) \<and>
    (\<exists>u. tasks sc ! current sc = Some u \<and> t_state u = TASK_ZOMBIE \<and> t_exit_code u = code \<and> t_pid u = t_pid t \<and> t_father u = t_father t) \<and>
    tasks sc ! p = Some (q\<lparr>t_signal := t_signal q OR sig_bit SIGCHLD\<rparr>) \<and>
    (\<forall>j u. j < NR_TASKS \<longrightarrow> tasks sc ! j = Some u \<longrightarrow> t_pid u = t_pid t \<longrightarrow> j = current sc)"
proof -
  let ?s = "k_sched s" and ?N = NR_TASKS
  define s1 where "s1 = (if last_task_used_math ?s = Some (current ?s) then ?s\<lparr>last_task_used_math := None\<rparr> else ?s)"
  have s1: "tasks s1 = tasks ?s" "current s1 = current ?s" by (simp_all add: s1_def)
  define s2 where "s2 = upd_cur (\<lambda>t. t\<lparr>t_state := TASK_ZOMBIE\<rparr>) s1"
  note len = dyingD(1) [OF d] and t0 = dyingD(2) [OF d] and tk = dyingD(3) [OF d] and pos = dyingD(4) [OF d]
    and c = dyingD(5,6) [OF d] and P = dyingD(8-13) [OF d] and uniq = dyingD(14) [OF d]
  have s2: "tasks s2 = (tasks ?s)[current ?s := Some (t\<lparr>t_state := TASK_ZOMBIE\<rparr>)]" "current s2 = current ?s"
    using c by (simp_all add: s2_def upd_cur_def upd_task_def s1)
  have cur: "cur s1 = t" "cur s2 = t\<lparr>t_state := TASK_ZOMBIE\<rparr>" using c len by (simp_all add: cur_def s1 s2)
  let ?k = "kill_one (t_father t) SIGCHLD 1 (cur s2)"
  have "?N - 1 < length (tasks s2)" "current s2 < length (tasks s2)" "tasks s2 ! current s2 \<noteq> None" using c len by (auto simp: s2 NR_TASKS_def)
  from kill_loop_spec [OF this, of "t_father t" SIGCHLD 1] obtain ts where
    ts: "do_kill (t_father t) SIGCHLD 1 s2 = s2\<lparr>tasks := ts\<rparr>" "length ts = ?N"
    and nth: "\<And>j. j < ?N \<Longrightarrow> ts ! j = (if 0 < j \<and> j \<le> ?N - 1 then map_option ?k (tasks s2 ! j) else tasks s2 ! j)"
    using len by (auto simp: do_kill_def s2)
  define sc where "sc = upd_cur (\<lambda>t. t\<lparr>t_exit_code := code\<rparr>) (s2\<lparr>tasks := ts\<rparr>)"
  have run: "exit_task code s = Done (s\<lparr>k_sched := sc\<rparr>)"
    using P(6) ts(1) cur s1 by (simp add: exit_task_def Let_def sc_def flip: s1_def s2_def)
  have "ts ! current ?s = Some (?k (t\<lparr>t_state := TASK_ZOMBIE\<rparr>))"
    using nth [OF c(1)] c(1) pos len by (simp add: s2)
  then have at_c: "tasks sc ! current ?s = Some ((?k (t\<lparr>t_state := TASK_ZOMBIE\<rparr>))\<lparr>t_exit_code := code\<rparr>)" "current sc = current ?s"
    using c(1) ts(2) by (simp_all add: sc_def upd_cur_def upd_task_def s2)
  have other: "tasks sc ! j = (if j = 0 then tasks ?s ! 0 else map_option ?k (tasks ?s ! j))" if "j < ?N" "j \<noteq> current ?s" for j
    using that nth [OF that(1)] that(1) by (auto simp: sc_def upd_cur_def upd_task_def s2)
  have lsc: "length (tasks sc) = ?N" using ts(2) by (simp add: sc_def upd_cur_def upd_task_def)
  have tk: "task_ok v" if "tasks ?s ! i = Some v" "i < ?N" for i v using that len tk [of v] nth_mem [of i "tasks ?s"] by simp
  have ok: "task_ok u" if "Some u \<in> set (tasks sc)" for u
  proof -
    obtain j where j: "j < ?N" "tasks sc ! j = Some u" using \<open>Some u \<in> set (tasks sc)\<close> lsc by (metis in_set_conv_nth)
    show ?thesis
    proof (cases "j = current ?s")
      case True
      then show ?thesis using j(2) at_c(1) tk [OF c(2,1)] by (auto simp: kill_one_keeps)
    next
      case False
      then show ?thesis using j(2) other [OF j(1)] tk [OF _ j(1)] by (auto simp: kill_one_keeps split: if_splits)
    qed
  qed
  have pid: "j = current sc" if "j < ?N" "tasks sc ! j = Some u" "t_pid u = t_pid t" for j u
  proof (rule ccontr)
    assume "j \<noteq> current sc"
    with that other [OF that(1)] at_c(2) obtain v where "tasks ?s ! j = Some v" "t_pid v = t_pid t"
      by (auto simp: kill_one_keeps split: if_splits)
    from uniq [OF that(1) this] show False using \<open>j \<noteq> current sc\<close> at_c(2) by simp
  qed
  have "tasks sc ! p = Some (q\<lparr>t_signal := t_signal q OR sig_bit SIGCHLD\<rparr>)"
    using other [OF P(2,3)] P by (simp add: kill_one_def kill_target_def may_signal_def SIGCHLD_def)
  moreover have "tasks_ok (tasks sc)" using ok lsc other [of 0] t0 pos by (auto simp: tasks_ok_def NR_TASKS_def)
  moreover have "\<exists>u. tasks sc ! current sc = Some u \<and> t_state u = TASK_ZOMBIE \<and> t_exit_code u = code \<and> t_pid u = t_pid t \<and> t_father u = t_father t"
    using at_c by (simp add: kill_one_keeps)
  ultimately show ?thesis using run pid at_c(2) by blast
qed

section \<open>The search of the father\<close>

lemma wait_scan_finds:
  assumes "\<And>i. 0 < i \<Longrightarrow> i \<le> n \<Longrightarrow> wait_target pid (current s) s i \<longleftrightarrow> i = z" "0 < z" "z \<le> n"
    "t_state (the (tasks s ! z)) = TASK_ZOMBIE"
  shows "wait_scan n pid s f = (True, Some z)"
  using assms
proof (induction n)
  case (Suc n)
  show ?case
  proof (cases "z = Suc n")
    case True
    then show ?thesis using Suc.prems by simp
  next
    case False
    then have "\<not> wait_target pid (current s) s (Suc n)" using Suc.prems(1) [of "Suc n"] by simp
    then show ?thesis using Suc False by simp
  qed
qed simp

lemma release_slot:
  assumes "tasks_ok (tasks (k_sched k))" "0 < i" "i < NR_TASKS" "tasks (k_sched k) ! i \<noteq> None" "free_page (k_page k i) (k_mm k) = Done m"
  shows "\<exists>s'. release (Some i) k = Done (k\<lparr>k_mm := m, k_sched := s'\<rparr>) \<and> tasks s' ! i = None \<and> tasks_ok (tasks s')"
proof -
  let ?s = "(k_sched k)\<lparr>tasks := (tasks (k_sched k))[i := None]\<rparr>"
  have "Some v \<in> set (tasks ?s) \<Longrightarrow> Some v \<in> set (tasks (k_sched k))" for v
    using set_update_subset_insert [of "tasks (k_sched k)" i None] by auto
  then have "tasks_ok (tasks ?s)" using assms(1,2) by (auto simp: tasks_ok_def)
  from schedule_tasks [OF this] obtain s' where s': "schedule ?s = Some s'" "tasks_ok (tasks s')"
    "\<forall>j. 0 < j \<longrightarrow> j < NR_TASKS \<longrightarrow> rel_option (sched_touch (jiffies ?s)) (tasks ?s ! j) (tasks s' ! j)" by blast
  have "tasks ?s ! i = None" using assms(1,3) by (simp add: tasks_ok_def)
  then have "tasks s' ! i = None" using s'(3) assms(2,3) by (metis option.rel_distinct(1) option.exhaust)
  moreover have "release (Some i) k = Done (k\<lparr>k_mm := m, k_sched := s'\<rparr>)"
    using assms s'(1) by (simp add: release_def Let_def upd_sched_def)
  ultimately show ?thesis using s'(2) by blast
qed

lemma reap:
  assumes ok: "tasks_ok (tasks sc)" "0 < c" "c < NR_TASKS" "tasks sc ! c = Some u" "t_state u = TASK_ZOMBIE" "0 < t_pid u"
    and pp: "current sc = p" "p < NR_TASKS" "p \<noteq> c" "tasks sc ! p = Some q" "t_father u = t_pid q"
    and uniq: "\<And>j v. j < NR_TASKS \<Longrightarrow> tasks sc ! j = Some v \<Longrightarrow> t_pid v = t_pid u \<Longrightarrow> j = c"
    and k: "k_sched k = sc" "verify_area (t_data_base q) a 4 (k_mm k) = Done m" "free_page (k_page k c) m = Done m'"
  shows "\<exists>s'. sys_waitpid (t_pid u) a opt k = Done (Some (t_pid u, Some (t_exit_code u)), k\<lparr>k_mm := m', k_sched := s'\<rparr>) \<and> tasks s' ! c = None"
proof -
  have cur: "cur sc = q" using pp by (simp add: cur_def)
  have "wait_target (t_pid u) (current sc) sc i \<longleftrightarrow> i = c" if "i \<le> NR_TASKS - 1" for i
    using that uniq [of i] ok pp cur by (cases "tasks sc ! i") (auto simp: wait_target_def NR_TASKS_def)
  then have scan: "wait_scan (NR_TASKS - 1) (t_pid u) sc False = (True, Some c)"
    using ok by (intro wait_scan_finds) auto
  define f :: "task_struct \<Rightarrow> task_struct" where "f = (\<lambda>x. x\<lparr>t_cutime := s32 (t_cutime x + t_utime u), t_cstime := s32 (t_cstime x + t_stime u)\<rparr>)"
  let ?k = "upd_sched (upd_cur f) (k\<lparr>k_mm := m\<rparr>)"
  have ks: "tasks (k_sched ?k) = (tasks sc)[p := Some (f q)]" "k_mm ?k = m" "k_page ?k = k_page k"
    using pp k(1) by (simp_all add: upd_sched_def upd_cur_def upd_task_def)
  have "task_ok q" using ok(1) pp(2,4) nth_mem [of p "tasks sc"] by (simp add: tasks_ok_def)
  then have "task_ok (f q)" by (simp add: f_def)
  then have "tasks_ok (tasks (k_sched ?k))"
    using ok(1) set_update_subset_insert [of "tasks sc" p "Some (f q)"] unfolding ks by (cases p) (auto simp: tasks_ok_def nth_list_update NR_TASKS_def)
  moreover have "tasks (k_sched ?k) ! c \<noteq> None" using ks ok(4) pp(3) by simp
  ultimately obtain s' where "release (Some c) ?k = Done (?k\<lparr>k_mm := m', k_sched := s'\<rparr>)" "tasks s' ! c = None"
    using release_slot [of ?k c m'] ok(2,3) k(3) ks(2,3) by auto
  then show ?thesis
    using k(1,2) cur scan ok(4) by (intro exI [of _ s']) (simp add: sys_waitpid_def Let_def upd_sched_def f_def)
qed

text \<open>
  C19: when a task ends whose father has a slot of the table, it becomes a zombie with its exit code, a father that
  sleeps is runnable again after the scheduler has run, and the father's \<open>sys_waitpid\<close> for the task returns its number
  and the exit code and frees its slot.
\<close>

theorem exit_reaches_father:
  assumes d: "dying (k_sched s) t p q"
    and mem: "verify_area (t_data_base q) a 4 (k_mm s) = Done m" "free_page (k_page s (current (k_sched s))) m = Done m'"
  shows "\<exists>s1 sc k. exit_task code s = Done s1 \<and> schedule (k_sched s1) = Some sc \<and>
    t_state (the (tasks sc ! current (k_sched s))) = TASK_ZOMBIE \<and> (t_state q = TASK_INTERRUPTIBLE \<longrightarrow> runnable (tasks sc) p) \<and>
    sys_waitpid (t_pid t) a opt ((kstate.truncate s1)\<lparr>k_sched := sc\<lparr>current := p\<rparr>\<rparr>) = Done (Some (t_pid t, Some code), k) \<and>
    tasks (k_sched k) ! current (k_sched s) = None"
proof -
  let ?c = "current (k_sched s)" and ?g = "sched_touch"
  note c = dyingD(4-7) [OF d] and P = dyingD(8-13) [OF d]
  obtain s0 u where e: "exit_task code s = Done (s\<lparr>k_sched := s0\<rparr>)" "tasks_ok (tasks s0)" "current s0 = ?c"
    and u: "tasks s0 ! ?c = Some u" "t_state u = TASK_ZOMBIE" "t_exit_code u = code" "t_pid u = t_pid t" "t_father u = t_father t"
    and q: "tasks s0 ! p = Some (q\<lparr>t_signal := t_signal q OR sig_bit SIGCHLD\<rparr>)"
    and uniq: "\<And>j v. j < NR_TASKS \<Longrightarrow> tasks s0 ! j = Some v \<Longrightarrow> t_pid v = t_pid t \<Longrightarrow> j = ?c"
    using exit_task_zombie [OF d, of code] by metis
  obtain sc where sc: "schedule s0 = Some sc" "tasks_ok (tasks sc)" "tasks sc ! 0 = tasks s0 ! 0"
    and rel: "\<And>j. 0 < j \<Longrightarrow> j < NR_TASKS \<Longrightarrow> rel_option (?g (jiffies s0)) (tasks s0 ! j) (tasks sc ! j)"
    using schedule_tasks [OF e(2)] by blast
  obtain v where v: "tasks sc ! ?c = Some v" "?g (jiffies s0) u v" using rel [OF c(1,2)] u(1) by (auto simp: option_rel_Some1)
  obtain w where w: "tasks sc ! p = Some w" "?g (jiffies s0) (q\<lparr>t_signal := t_signal q OR sig_bit SIGCHLD\<rparr>) w"
    using rel [OF P(1,2)] q by (auto simp: option_rel_Some1)
  note vD = sched_touchD [OF v(2)] and wD = sched_touchD [OF w(2)]
  have only: "j = ?c" if j: "j < NR_TASKS" "tasks sc ! j = Some x" "t_pid x = t_pid t" for j x
  proof -
    obtain y where "tasks s0 ! j = Some y" "t_pid y = t_pid x"
      using j(1,2) sc(3) rel [of j] sched_touchD(1) by (cases "j = 0") (auto simp: option_rel_Some2)
    then show ?thesis using uniq j(1,3) by simp
  qed
  have run: "runnable (tasks sc) p" if "t_state q = TASK_INTERRUPTIBLE"
  proof -
    have m: "(t_signal q OR sig_bit SIGCHLD) AND sig_bit SIGCHLD \<noteq> 0" by (simp add: sig_bit_def SIGCHLD_def)
    from m have "t_state w = TASK_RUNNING" using that sched_touch_wakes [OF w(2), of "sig_bit SIGCHLD"] by simp
    then show ?thesis using w(1) P(1,2) sc(2) by (auto simp: runnable_def tasks_ok_def)
  qed
  let ?k = "(kstate.truncate (s\<lparr>k_sched := s0\<rparr>))\<lparr>k_sched := sc\<lparr>current := p\<rparr>\<rparr>"
  have "\<exists>s'. sys_waitpid (t_pid v) a opt ?k = Done (Some (t_pid v, Some (t_exit_code v)), ?k\<lparr>k_mm := m', k_sched := s'\<rparr>) \<and> tasks s' ! ?c = None"
  proof (rule reap [where sc = "sc\<lparr>current := p\<rparr>" and c = ?c and q = w and p = p and m = m])
    show "j = ?c" if "j < NR_TASKS" "tasks (sc\<lparr>current := p\<rparr>) ! j = Some x" "t_pid x = t_pid v" for j x
      using only [of j x] that vD(1) u(4) by simp
  qed (use sc(2) c v(1) vD u P w(1) wD mem in \<open>simp_all add: kstate.truncate_def\<close>)
  then obtain s' where "sys_waitpid (t_pid v) a opt ?k = Done (Some (t_pid v, Some (t_exit_code v)), ?k\<lparr>k_mm := m', k_sched := s'\<rparr>)"
    "tasks s' ! ?c = None" by blast
  moreover have "t_pid v = t_pid t" "t_exit_code v = code" "t_state (the (tasks sc ! ?c)) = TASK_ZOMBIE" using v(1) vD u by simp_all
  ultimately show ?thesis using e(1) sc(1) run
    by (intro exI [of _ "s\<lparr>k_sched := s0\<rparr>"] exI [of _ sc] exI [of _ "?k\<lparr>k_mm := m', k_sched := s'\<rparr>"]) simp
qed

text \<open>Task 3 in slot 2, whose father 2 in slot 1 sleeps in \<open>sys_waitpid\<close>.\<close>

definition family :: fs_state where
  "family = one_pipe\<lparr>k_sched := sched_init\<lparr>tasks := [Some init_task, Some (init_task\<lparr>t_pid := 2, t_state := TASK_INTERRUPTIBLE\<rparr>),
     Some (init_task\<lparr>t_pid := 3, t_father := 2\<rparr>)] @ replicate 61 None, current := 2\<rparr>\<rparr>"

theorem exit_reaches_father_witness:
  "\<exists>s1 sc k. exit_task 11 family = Done s1 \<and> schedule (k_sched s1) = Some sc \<and> t_state (the (tasks sc ! 2)) = TASK_ZOMBIE \<and> runnable (tasks sc) 1 \<and>
    sys_waitpid 3 4096 0 ((kstate.truncate s1)\<lparr>k_sched := sc\<lparr>current := 1\<rparr>\<rparr>) = Done (Some (3, Some 11), k) \<and> tasks (k_sched k) ! 2 = None"
proof -
  let ?t = "init_task\<lparr>t_pid := 3, t_father := 2\<rparr>" and ?q = "init_task\<lparr>t_pid := 2, t_state := TASK_INTERRUPTIBLE\<rparr>"
  have c: "current (k_sched family) = 2" "tasks (k_sched family) = [Some init_task, Some ?q, Some ?t] @ replicate 61 None"
    by (simp_all add: family_def)
  have ok: "tasks_ok (tasks (k_sched family))" unfolding c by (auto simp: tasks_ok_def NR_TASKS_def task_ok_def init_task_def)
  have "j = 2" if "j < NR_TASKS" "tasks (k_sched family) ! j = Some u" "t_pid u = 3" for j u
    using that by (cases "j < 3") (auto simp: c nth_append NR_TASKS_def init_task_def less_Suc_eq numeral_3_eq_3 split: if_splits)
  then have d: "dying (k_sched family) ?t 1 ?q"
    using ok by (simp add: dying_def c NR_TASKS_def)
  have v: "verify_area (t_data_base ?q) 4096 4 (k_mm family) = Done (k_mm family)"
    by (simp add: verify_area_def s32_def verify_loop.simps write_verify_def family_def one_pipe_def)
  have f: "free_page (k_page family (current (k_sched family))) (k_mm family) = Done (k_mm family)"
    by (simp add: free_page_def family_def one_pipe_def LOW_MEM_def)
  show ?thesis using exit_reaches_father [OF d v f, of 11 0] by (simp add: c)
qed

end
