(* ===== verification/Desc.thy ===== *)
theory Desc
  imports "HOL-Library.Word"
begin

text \<open>
  Segment descriptors and interrupt gates, as the two words of \<open>desc_struct\<close>: the macros of
  src/include/linux/sched.h and src/include/asm/system.h that pack and unpack them, and the gates that the
  initialisation in src/init/main.c installs. \<open>_set_base\<close>, \<open>_set_limit\<close> and \<open>_get_base\<close> move single bytes; here these
  are masks of the words. \<open>adr\<close> gives the addresses of the entry points, which are symbols of the assembler files.
\<close>

unbundle bit_operations_syntax

type_synonym desc = "32 word \<times> 32 word"

section \<open>Segments\<close>

definition set_base :: "32 word \<Rightarrow> desc \<Rightarrow> desc" where
  "set_base base = (\<lambda>(a, b). ((a AND 0xffff) OR push_bit 16 base,
     (b AND 0xffff00) OR (base AND 0xff000000) OR (drop_bit 16 base AND 0xff)))"

definition set_limit :: "32 word \<Rightarrow> desc \<Rightarrow> desc" where
  "set_limit limit = (\<lambda>(a, b). let l = drop_bit 12 (limit - 1) in
     ((a AND 0xffff0000) OR (l AND 0xffff),
      (b AND 0xff00ffff) OR push_bit 16 ((drop_bit 16 l AND 0xff) OR (drop_bit 16 b AND 0xf0))))"

definition get_base :: "desc \<Rightarrow> 32 word" where
  "get_base = (\<lambda>(a, b). (b AND 0xff000000) OR push_bit 16 (b AND 0xff) OR drop_bit 16 a)"

text \<open>The instruction \<open>lsl\<close> gives the last offset; bit 23 of the second word says that the limit counts pages.\<close>

definition get_limit :: "desc \<Rightarrow> 32 word" where
  "get_limit = (\<lambda>(a, b). let l = (a AND 0xffff) OR (b AND 0xf0000) in
     (if bit b 23 then push_bit 12 l OR 0xfff else l) + 1)"

text \<open>The descriptors of a task in the global table, and the selectors that the hardware knows them by.\<close>

definition set_tssldt_desc :: "32 word \<Rightarrow> 32 word \<Rightarrow> desc" where
  "set_tssldt_desc addr type = (push_bit 16 addr OR 104, (addr AND 0xff000000) OR push_bit 8 type OR (drop_bit 16 addr AND 0xff))"

definition set_tss_desc :: "32 word \<Rightarrow> desc" where "set_tss_desc addr = set_tssldt_desc addr 0x89"
definition set_ldt_desc :: "32 word \<Rightarrow> desc" where "set_ldt_desc addr = set_tssldt_desc addr 0x82"

definition FIRST_TSS_ENTRY :: nat where "FIRST_TSS_ENTRY = 4"
definition FIRST_LDT_ENTRY :: nat where "FIRST_LDT_ENTRY = FIRST_TSS_ENTRY + 1"
definition TSS :: "nat \<Rightarrow> nat" where "TSS n = n * 16 + FIRST_TSS_ENTRY * 8"
definition LDT :: "nat \<Rightarrow> nat" where "LDT n = n * 16 + FIRST_LDT_ENTRY * 8"

text \<open>\<open>str\<close>: the number of the running task from the task register.\<close>

definition str_task :: "nat \<Rightarrow> nat" where "str_task tr = (tr - FIRST_TSS_ENTRY * 8) div 16"

section \<open>Gates\<close>

definition gate :: "32 word \<Rightarrow> 32 word \<Rightarrow> 32 word \<Rightarrow> desc" where
  "gate type dpl addr =
     (0x80000 OR (addr AND 0xffff), (addr AND 0xffff0000) OR (0x8000 + push_bit 13 dpl + push_bit 8 type))"

definition set_intr_gate :: "nat \<Rightarrow> 32 word \<Rightarrow> desc list \<Rightarrow> desc list" where
  "set_intr_gate n addr idt = idt[n := gate 14 0 addr]"

definition set_trap_gate :: "nat \<Rightarrow> 32 word \<Rightarrow> desc list \<Rightarrow> desc list" where
  "set_trap_gate n addr idt = idt[n := gate 15 0 addr]"

definition set_system_gate :: "nat \<Rightarrow> 32 word \<Rightarrow> desc list \<Rightarrow> desc list" where
  "set_system_gate n addr idt = idt[n := gate 15 3 addr]"

datatype entry = Divide_error | Debug | Nmi | Int3 | Overflow | Bounds | Invalid_op | Device_not_available | Double_fault
  | Coprocessor_segment_overrun | Invalid_TSS | Segment_not_present | Stack_segment | General_protection | Page_fault
  | Reserved | Coprocessor_error | Timer_interrupt | Keyboard_interrupt | Rs1_interrupt | Rs2_interrupt | Hd_interrupt | System_call

definition trap_init :: "(entry \<Rightarrow> 32 word) \<Rightarrow> desc list \<Rightarrow> desc list" where
  "trap_init adr idt =
     (let idt = set_trap_gate 0 (adr Divide_error) idt;
          idt = set_trap_gate 1 (adr Debug) idt;
          idt = set_trap_gate 2 (adr Nmi) idt;
          idt = set_system_gate 3 (adr Int3) idt;
          idt = set_system_gate 4 (adr Overflow) idt;
          idt = set_system_gate 5 (adr Bounds) idt;
          idt = set_trap_gate 6 (adr Invalid_op) idt;
          idt = set_trap_gate 7 (adr Device_not_available) idt;
          idt = set_trap_gate 8 (adr Double_fault) idt;
          idt = set_trap_gate 9 (adr Coprocessor_segment_overrun) idt;
          idt = set_trap_gate 10 (adr Invalid_TSS) idt;
          idt = set_trap_gate 11 (adr Segment_not_present) idt;
          idt = set_trap_gate 12 (adr Stack_segment) idt;
          idt = set_trap_gate 13 (adr General_protection) idt;
          idt = set_trap_gate 14 (adr Page_fault) idt;
          idt = set_trap_gate 15 (adr Reserved) idt;
          idt = set_trap_gate 16 (adr Coprocessor_error) idt
      in fold (\<lambda>i. set_trap_gate i (adr Reserved)) [17..<32] idt)"

definition rs_gates :: "(entry \<Rightarrow> 32 word) \<Rightarrow> desc list \<Rightarrow> desc list" where
  "rs_gates adr idt = set_intr_gate 0x23 (adr Rs2_interrupt) (set_intr_gate 0x24 (adr Rs1_interrupt) idt)"

definition con_gate :: "(entry \<Rightarrow> 32 word) \<Rightarrow> desc list \<Rightarrow> desc list" where
  "con_gate adr idt = set_trap_gate 0x21 (adr Keyboard_interrupt) idt"

definition sched_gates :: "(entry \<Rightarrow> 32 word) \<Rightarrow> desc list \<Rightarrow> desc list" where
  "sched_gates adr idt = set_system_gate 0x80 (adr System_call) (set_intr_gate 0x20 (adr Timer_interrupt) idt)"

definition hd_gate :: "(entry \<Rightarrow> 32 word) \<Rightarrow> desc list \<Rightarrow> desc list" where
  "hd_gate adr idt = set_trap_gate 0x2e (adr Hd_interrupt) idt"

text \<open>The order of \<open>main\<close>: \<open>tty_init\<close>, \<open>trap_init\<close>, \<open>sched_init\<close>, \<open>hd_init\<close>.\<close>

definition init_gates :: "(entry \<Rightarrow> 32 word) \<Rightarrow> desc list \<Rightarrow> desc list" where
  "init_gates adr idt = hd_gate adr (sched_gates adr (trap_init adr (con_gate adr (rs_gates adr idt))))"

section \<open>Descriptors keep what is stored in them\<close>

lemma below32: "P 0 \<and> P 1 \<and> P 2 \<and> P 3 \<and> P 4 \<and> P 5 \<and> P 6 \<and> P 7 \<and> P 8 \<and> P 9 \<and> P 10 \<and> P 11 \<and> P 12 \<and> P 13 \<and> P 14 \<and> P 15 \<and>
    P 16 \<and> P 17 \<and> P 18 \<and> P 19 \<and> P 20 \<and> P 21 \<and> P 22 \<and> P 23 \<and> P 24 \<and> P 25 \<and> P 26 \<and> P 27 \<and> P 28 \<and> P 29 \<and> P 30 \<and> P 31
    \<Longrightarrow> n < 32 \<Longrightarrow> P (n :: nat)"
  by (cases "n < 16") (auto simp: less_Suc_eq numeral_eq_Suc)

lemma word32_eqI:
  fixes x y :: "32 word"
  assumes "\<And>n. n < 32 \<Longrightarrow> bit x n = bit y n"
  shows "x = y"
  using assms by (intro bit_word_eqI) simp

lemma no_high_bit [simp]: "32 \<le> n \<Longrightarrow> \<not> bit (x :: 32 word) n"
  using bit_imp_le_length [of x n] by auto

lemma get_set_base [simp]: "get_base (set_base x d) = x"
  by (cases d, rule word32_eqI, erule below32 [rotated]) (simp add: get_base_def set_base_def bit_simps)

lemma get_base_set_limit [simp]: "get_base (set_limit l d) = get_base d"
  by (cases d, rule word32_eqI, erule below32 [rotated]) (simp add: get_base_def set_limit_def Let_def bit_simps)

lemma limit_bits:
  fixes a b y :: "32 word"
  shows "push_bit 12 ((((a AND 0xffff0000) OR (drop_bit 12 y AND 0xffff)) AND 0xffff) OR
      (((b AND 0xff00ffff) OR push_bit 16 ((drop_bit 16 (drop_bit 12 y) AND 0xff) OR (drop_bit 16 b AND 0xf0))) AND 0xf0000)) OR 0xfff = y OR 0xfff"
  by (rule word32_eqI, erule below32 [rotated]) (simp add: bit_simps)

lemma granularity_set_limit: "bit (snd (set_limit l d)) 23 = bit (snd d) 23"
  by (cases d) (simp add: set_limit_def Let_def bit_simps)

lemma get_limit_set_limit:
  assumes "bit (snd d) 23"
  shows "get_limit (set_limit l d) = ((l - 1) OR 0xfff) + 1"
proof -
  obtain a b where d: "d = (a, b)" by fastforce
  have "bit (snd (set_limit l d)) 23" using assms granularity_set_limit by blast
  then show ?thesis using limit_bits [of a "l - 1" b] by (simp add: d set_limit_def get_limit_def Let_def)
qed

lemma page_multiple:
  fixes l :: "32 word"
  assumes "l AND 0xfff = 0"
  shows "((l - 1) OR 0xfff) + 1 = l"
proof -
  have m: "(0xfff :: 32 word) = mask 12" by (simp add: mask_eq_exp_minus_1)
  have "uint (l AND 0xfff) = 0" using assms by simp
  then have z: "uint l mod 4096 = 0" unfolding m by (simp add: take_bit_eq_mask [symmetric] unsigned_take_bit_eq take_bit_eq_mod uint_mod)
  have "uint (take_bit 12 (l - 1)) = (uint l - 1) mod 4294967296 mod 4096"
    by (simp add: take_bit_eq_mod uint_mod uint_word_ariths)
  also have "\<dots> = (uint l - 1) mod 4096" by (rule mod_mod_cancel) simp
  also have "\<dots> = 4095" using z mod_diff_left_eq [of "uint l" 4096 1] by simp
  finally have "take_bit 12 (l - 1) = mask 12" by (intro word_eq_iff_unsigned [THEN iffD2]) (simp add: mask_eq_exp_minus_1)
  then have "bit (l - 1) n" if "n < 12" for n
    using that bit_take_bit_iff [of 12 "l - 1" n] by (simp add: bit_simps)
  then have "(l - 1) OR mask 12 = l - 1" by (intro bit_word_eqI) (auto simp: bit_simps)
  then show ?thesis unfolding m by simp
qed

lemma get_limit_set_base: "get_limit (set_base x d) = get_limit d"
proof -
  obtain a b where d: "d = (a, b)" by fastforce
  have "(fst (set_base x d) AND 0xffff) OR (snd (set_base x d) AND 0xf0000) = (a AND 0xffff) OR (b AND 0xf0000)"
    by (rule word32_eqI, erule below32 [rotated]) (simp add: d set_base_def bit_simps)
  moreover have "bit (snd (set_base x d)) 23 = bit b 23" by (simp add: d set_base_def bit_simps)
  ultimately show ?thesis by (simp add: d get_limit_def Let_def split_beta)
qed

section \<open>The installed gates\<close>

text \<open>What the processor reads from a gate: the selector and the address of the entry, the type, the level that may call it, presence.\<close>

definition gate_sel :: "desc \<Rightarrow> 32 word" where "gate_sel g = drop_bit 16 (fst g)"
definition gate_addr :: "desc \<Rightarrow> 32 word" where "gate_addr g = (fst g AND 0xffff) OR (snd g AND 0xffff0000)"
definition gate_type :: "desc \<Rightarrow> 32 word" where "gate_type g = drop_bit 8 (snd g) AND 31"
definition gate_dpl :: "desc \<Rightarrow> 32 word" where "gate_dpl g = drop_bit 13 (snd g) AND 3"
definition gate_present :: "desc \<Rightarrow> bool" where "gate_present g \<longleftrightarrow> bit (snd g) 15"

lemmas gate_parts = gate_sel_def gate_addr_def gate_type_def gate_dpl_def gate_present_def

definition decodes :: "desc \<Rightarrow> 32 word \<Rightarrow> 32 word \<Rightarrow> 32 word \<Rightarrow> bool" where
  "decodes g addr type dpl \<longleftrightarrow>
     gate_present g \<and> gate_sel g = 8 \<and> gate_addr g = addr \<and> gate_type g = type \<and> gate_dpl g = dpl"

lemma gate_decodes:
  "decodes (gate 14 0 addr) addr 14 0" "decodes (gate 15 0 addr) addr 15 0" "decodes (gate 15 3 addr) addr 15 3"
proof -
  have *: "decodes (0x80000 OR (addr AND 0xffff), (addr AND 0xffff0000) OR w) addr ty dpl"
    if "drop_bit 13 w AND 3 = dpl" "drop_bit 8 w AND 31 = ty" "bit w 15" "w AND 0xffff0000 = 0" for w ty dpl :: "32 word"
  proof -
    have "gate_sel (0x80000 OR (addr AND 0xffff), x) = 8" for x
      unfolding gate_sel_def by (rule word32_eqI, erule below32 [rotated]) (simp add: bit_simps)
    moreover have "gate_addr (0x80000 OR (addr AND 0xffff), (addr AND 0xffff0000) OR w) = addr"
    proof -
      have "gate_addr (0x80000 OR (addr AND 0xffff), (addr AND 0xffff0000) OR w) = addr OR (w AND 0xffff0000)"
        unfolding gate_addr_def by (rule word32_eqI, erule below32 [rotated]) (simp add: bit_simps)
      then show ?thesis using that(4) by simp
    qed
    moreover have "drop_bit 13 ((addr AND 0xffff0000) OR w) AND 3 = drop_bit 13 w AND 3"
      "drop_bit 8 ((addr AND 0xffff0000) OR w) AND 31 = drop_bit 8 w AND 31"
      by ((rule word32_eqI, erule below32 [rotated], simp add: bit_simps)+)
    ultimately show ?thesis using that by (simp add: decodes_def gate_type_def gate_dpl_def gate_present_def bit_simps)
  qed
  show "decodes (gate 14 0 addr) addr 14 0" "decodes (gate 15 0 addr) addr 15 0" "decodes (gate 15 3 addr) addr 15 3"
    unfolding gate_def by (rule *; simp)+
qed

lemma length_gates [simp]:
  "length (set_intr_gate n a t) = length t" "length (set_trap_gate n a t) = length t" "length (set_system_gate n a t) = length t"
  "length (fold (\<lambda>i. set_trap_gate i a) xs t) = length t"
  by (simp_all add: set_intr_gate_def set_trap_gate_def set_system_gate_def) (induction xs arbitrary: t; simp add: set_trap_gate_def)

lemma nth_gate [simp]:
  "v < length t \<Longrightarrow> set_intr_gate n a t ! v = (if v = n then gate 14 0 a else t ! v)"
  "v < length t \<Longrightarrow> set_trap_gate n a t ! v = (if v = n then gate 15 0 a else t ! v)"
  "v < length t \<Longrightarrow> set_system_gate n a t ! v = (if v = n then gate 15 3 a else t ! v)"
  by (auto simp: set_intr_gate_def set_trap_gate_def set_system_gate_def nth_list_update)

lemma nth_fold_gates [simp]:
  "v < length t \<Longrightarrow> fold (\<lambda>i. set_trap_gate i a) xs t ! v = (if v \<in> set xs then gate 15 0 a else t ! v)"
  by (induction xs arbitrary: t) auto

text \<open>Which entry a vector belongs to, with the type of its gate and the level that may call it.\<close>

definition cpu_traps :: "entry list" where
  "cpu_traps = [Divide_error, Debug, Nmi, Int3, Overflow, Bounds, Invalid_op, Device_not_available, Double_fault,
     Coprocessor_segment_overrun, Invalid_TSS, Segment_not_present, Stack_segment, General_protection, Page_fault, Reserved, Coprocessor_error]"

definition entry_at :: "nat \<Rightarrow> (entry \<times> 32 word \<times> 32 word) option" where
  "entry_at v =
     (if v < 17 then Some (cpu_traps ! v, 15, if v \<in> {3, 4, 5} then 3 else 0)
      else if v < 32 then Some (Reserved, 15, 0)
      else if v = 0x20 then Some (Timer_interrupt, 14, 0)
      else if v = 0x21 then Some (Keyboard_interrupt, 15, 0)
      else if v = 0x23 then Some (Rs2_interrupt, 14, 0)
      else if v = 0x24 then Some (Rs1_interrupt, 14, 0)
      else if v = 0x2e then Some (Hd_interrupt, 15, 0)
      else if v = 0x80 then Some (System_call, 15, 3) else None)"

lemma nth_trap_init:
  assumes "v < length t"
  shows "trap_init adr t ! v = (if v < 17 then gate 15 (if v \<in> {3, 4, 5} then 3 else 0) (adr (cpu_traps ! v))
    else if v < 32 then gate 15 0 (adr Reserved) else t ! v)"
proof (cases "v < 17")
  case True
  then have "v \<in> {0, 1, 2, 3, 4, 5, 6, 7, 8, 9, 10, 11, 12, 13, 14, 15, 16}" by simp presburger
  then show ?thesis using assms by (elim insertE emptyE) (simp_all add: trap_init_def Let_def cpu_traps_def)
next
  case False
  define xs where "xs = [17..<32 :: nat]"
  have "v \<in> set xs \<longleftrightarrow> v < 32" using False by (simp only: xs_def set_upt atLeastLessThan_iff) simp
  then show ?thesis using assms False unfolding trap_init_def Let_def xs_def [symmetric] by simp
qed

text \<open>
  C40: after the initialisation every vector that the kernel uses has a present gate to its own entry point in the kernel's
  code segment, with the type and the level that the entry needs, and no other vector has changed: of the vectors that
  are installed a user program can call 3, 4, 5 and 0x80 only.
\<close>

theorem gates_installed:
  assumes "length idt = 256" "v < 256"
  shows "case entry_at v of None \<Rightarrow> init_gates adr idt ! v = idt ! v
    | Some (e, ty, dpl) \<Rightarrow> decodes (init_gates adr idt ! v) (adr e) ty dpl \<and> (dpl = 3 \<longleftrightarrow> v \<in> {3, 4, 5, 0x80})"
proof -
  have len: "length (trap_init adr t) = length t" for t by (simp add: trap_init_def Let_def)
  show ?thesis using assms len gate_decodes
    by (auto simp: init_gates_def hd_gate_def sched_gates_def con_gate_def rs_gates_def nth_trap_init entry_at_def)
qed

theorem gates_installed_witness:
  "decodes (init_gates (\<lambda>e. 0x7f31a2) (replicate 256 (0, 0)) ! 128) 0x7f31a2 15 3"
  using gates_installed [of "replicate 256 (0, 0)" 128 "\<lambda>e. 0x7f31a2"] by (simp add: entry_at_def)

text \<open>
  The base of a segment is what \<open>set_base\<close> has stored and its size is the one of \<open>set_limit\<close>, rounded up to whole
  pages; neither changes the other.
\<close>

theorem segment_roundtrip:
  assumes "bit (snd d) 23"
  shows "get_base (set_limit l (set_base x d)) = x \<and> get_limit (set_base x (set_limit l d)) = ((l - 1) OR 0xfff) + 1 \<and>
    (l AND 0xfff = 0 \<longrightarrow> get_limit (set_base x (set_limit l d)) = l)"
  using assms by (simp add: get_limit_set_base get_limit_set_limit page_multiple)

theorem segment_roundtrip_witness:
  "get_base (set_limit 0x4001 (set_base 0x8000000 (0x9f, 0xc0fa00))) = 0x8000000 \<and> get_limit (set_base 0x8000000 (set_limit 0x4001 (0x9f, 0xc0fa00))) = 0x5000"
proof -
  have "bit (snd ((0x9f, 0xc0fa00) :: desc)) 23" by simp
  from segment_roundtrip [OF this, of "0x4001" "0x8000000"] show ?thesis by simp
qed

lemma str_task_TSS: "str_task (TSS n) = n"
  by (simp add: str_task_def TSS_def)

end
