(* ===== verification/Traps.thy ===== *)
theory Traps
  imports Desc Printk ExitSys
begin

text \<open>
  The handlers of processor exceptions, src/kernel/traps.c: \<open>die\<close> writes the registers to the console and ends the task,
  \<open>do_int3\<close> writes them and returns. The registers are what the entry code of src/kernel/asm.s has pushed: \<open>esp k\<close> is the
  word \<open>k\<close> at the stack pointer. \<open>cpu\<close> holds what the instructions of the file read: \<open>%fs\<close>, and bytes and words in a segment.
\<close>

unbundle bit_operations_syntax

record cpu =
  cpu_fs :: int
  seg_byte :: "int \<Rightarrow> int \<Rightarrow> int"
  seg_long :: "int \<Rightarrow> int \<Rightarrow> int"

definition ascii :: "string \<Rightarrow> int list" where "ascii t = map of_char t"

definition TAB :: "int list" where "TAB = [9]"
definition NL :: "int list" where "NL = [10]"
definition NLCR :: "int list" where "NLCR = [10, 13]"

text \<open>\<open>printk\<close> of the running task.\<close>

definition say :: "nat \<Rightarrow> int list \<Rightarrow> arg list \<Rightarrow> sys_state \<Rightarrow> sys_state outcome" where
  "say f fmt args s = obind (printk f fmt args (tty_view s)) (\<lambda>(_, t). Done (tty_back t s))"

fun dump_stack :: "nat \<Rightarrow> cpu \<Rightarrow> int \<Rightarrow> nat list \<Rightarrow> sys_state \<Rightarrow> sys_state outcome" where
  "dump_stack f e sp [] s = Done s"
| "dump_stack f e sp (i # is) s =
     obind (say f (ascii ''%p '') [Ptr_arg (seg_long e 0x17 (u32 (sp + 4 * int i)))] s) (dump_stack f e sp is)"

fun dump_code :: "nat \<Rightarrow> cpu \<Rightarrow> int \<Rightarrow> int \<Rightarrow> nat list \<Rightarrow> sys_state \<Rightarrow> sys_state outcome" where
  "dump_code f e cs ip [] s = Done s"
| "dump_code f e cs ip (i # is) s =
     obind (say f (ascii ''%02x '') [Int_arg (seg_byte e cs (u32 (ip + int i)) mod 256)] s) (dump_code f e cs ip is)"

definition die :: "nat \<Rightarrow> cpu \<Rightarrow> string \<Rightarrow> (nat \<Rightarrow> int) \<Rightarrow> int \<Rightarrow> sys_state \<Rightarrow> sys_state outcome" where
  "die f e str esp nr s =
     obind (say f (ascii ''%s: %04x'' @ NLCR) [Str_arg (ascii str), Int_arg (nr mod 65536)] s) (\<lambda>s.
     obind (say f (ascii ''EIP:'' @ TAB @ ascii ''%04x:%p'' @ NL @ ascii ''EFLAGS:'' @ TAB @ ascii ''%p'' @ NL @
              ascii ''ESP:'' @ TAB @ ascii ''%04x:%p'' @ NL) [Int_arg (esp 1), Ptr_arg (esp 0), Ptr_arg (esp 2), Int_arg (esp 4), Ptr_arg (esp 3)] s) (\<lambda>s.
     obind (say f (ascii ''fs: %04x'' @ NL) [Int_arg (cpu_fs e)] s) (\<lambda>s.
     obind (say f (ascii ''base: %p, limit: %p'' @ NL) [Ptr_arg (t_code_base (cur_task (sy_fs s))), Ptr_arg (t_data_limit (cur_task (sy_fs s)))] s) (\<lambda>s.
     obind (if esp 4 = 0x17 then
              obind (say f (ascii ''Stack: '') [] s) (\<lambda>s.
              obind (dump_stack f e (esp 3) [0..<4] s) (\<lambda>s. say f NL [] s))
            else Done s) (\<lambda>s.
     let i = int (str_task (TSS (current (k_sched (sy_fs s))))) in
     obind (say f (ascii ''Pid: %d, process nr: %d'' @ NLCR) [Int_arg (t_pid (cur_task (sy_fs s))), Int_arg (i mod 65536)] s) (\<lambda>s.
     obind (dump_code f e (esp 1) (esp 0) [0..<10] s) (\<lambda>s.
     obind (say f NLCR [] s) (\<lambda>s.
     do_exit 11 s))))))))"

definition do_double_fault :: "nat \<Rightarrow> cpu \<Rightarrow> (nat \<Rightarrow> int) \<Rightarrow> int \<Rightarrow> sys_state \<Rightarrow> sys_state outcome" where
  "do_double_fault f e esp error_code = die f e ''double fault'' esp error_code"

definition do_general_protection :: "nat \<Rightarrow> cpu \<Rightarrow> (nat \<Rightarrow> int) \<Rightarrow> int \<Rightarrow> sys_state \<Rightarrow> sys_state outcome" where
  "do_general_protection f e esp error_code = die f e ''general protection'' esp error_code"

definition do_divide_error :: "nat \<Rightarrow> cpu \<Rightarrow> (nat \<Rightarrow> int) \<Rightarrow> int \<Rightarrow> sys_state \<Rightarrow> sys_state outcome" where
  "do_divide_error f e esp error_code = die f e ''divide error'' esp error_code"

text \<open>The registers of \<open>do_int3\<close>; \<open>i3_esp\<close> is the stack pointer, \<open>i3_word\<close> the words there.\<close>

record int3_regs =
  i3_esp :: int
  i3_word :: "nat \<Rightarrow> int"
  i3_fs :: int
  i3_es :: int
  i3_ds :: int
  i3_ebp :: int
  i3_esi :: int
  i3_edi :: int
  i3_edx :: int
  i3_ecx :: int
  i3_ebx :: int
  i3_eax :: int

definition do_int3 :: "nat \<Rightarrow> int3_regs \<Rightarrow> sys_state \<Rightarrow> sys_state outcome" where
  "do_int3 f r s =
     (let tr = int (TSS (current (k_sched (sy_fs s)))) in
     obind (say f (ascii ''eax'' @ TAB @ TAB @ ascii ''ebx'' @ TAB @ TAB @ ascii ''ecx'' @ TAB @ TAB @ ascii ''edx'' @ NLCR @
              ascii ''%8x'' @ TAB @ ascii ''%8x'' @ TAB @ ascii ''%8x'' @ TAB @ ascii ''%8x'' @ NLCR)
              (map Int_arg [i3_eax r, i3_ebx r, i3_ecx r, i3_edx r]) s) (\<lambda>s.
     obind (say f (ascii ''esi'' @ TAB @ TAB @ ascii ''edi'' @ TAB @ TAB @ ascii ''ebp'' @ TAB @ TAB @ ascii ''esp'' @ NLCR @
              ascii ''%8x'' @ TAB @ ascii ''%8x'' @ TAB @ ascii ''%8x'' @ TAB @ ascii ''%8x'' @ NLCR)
              (map Int_arg [i3_esi r, i3_edi r, i3_ebp r, i3_esp r]) s) (\<lambda>s.
     obind (say f (NLCR @ ascii ''ds'' @ TAB @ ascii ''es'' @ TAB @ ascii ''fs'' @ TAB @ ascii ''tr'' @ NLCR @
              ascii ''%4x'' @ TAB @ ascii ''%4x'' @ TAB @ ascii ''%4x'' @ TAB @ ascii ''%4x'' @ NLCR)
              (map Int_arg [i3_ds r, i3_es r, i3_fs r, tr]) s) (\<lambda>s.
     say f (ascii ''EIP: %8x   CS: %4x  EFLAGS: %8x'' @ NLCR) (map Int_arg [i3_word r 0, i3_word r 1, i3_word r 2]) s))))"

definition do_nmi :: "nat \<Rightarrow> cpu \<Rightarrow> (nat \<Rightarrow> int) \<Rightarrow> int \<Rightarrow> sys_state \<Rightarrow> sys_state outcome" where
  "do_nmi f e esp error_code = die f e ''nmi'' esp error_code"

definition do_debug :: "nat \<Rightarrow> cpu \<Rightarrow> (nat \<Rightarrow> int) \<Rightarrow> int \<Rightarrow> sys_state \<Rightarrow> sys_state outcome" where
  "do_debug f e esp error_code = die f e ''debug'' esp error_code"

definition do_overflow :: "nat \<Rightarrow> cpu \<Rightarrow> (nat \<Rightarrow> int) \<Rightarrow> int \<Rightarrow> sys_state \<Rightarrow> sys_state outcome" where
  "do_overflow f e esp error_code = die f e ''overflow'' esp error_code"

definition do_bounds :: "nat \<Rightarrow> cpu \<Rightarrow> (nat \<Rightarrow> int) \<Rightarrow> int \<Rightarrow> sys_state \<Rightarrow> sys_state outcome" where
  "do_bounds f e esp error_code = die f e ''bounds'' esp error_code"

definition do_invalid_op :: "nat \<Rightarrow> cpu \<Rightarrow> (nat \<Rightarrow> int) \<Rightarrow> int \<Rightarrow> sys_state \<Rightarrow> sys_state outcome" where
  "do_invalid_op f e esp error_code = die f e ''invalid operand'' esp error_code"

definition do_device_not_available :: "nat \<Rightarrow> cpu \<Rightarrow> (nat \<Rightarrow> int) \<Rightarrow> int \<Rightarrow> sys_state \<Rightarrow> sys_state outcome" where
  "do_device_not_available f e esp error_code = die f e ''device not available'' esp error_code"

definition do_coprocessor_segment_overrun :: "nat \<Rightarrow> cpu \<Rightarrow> (nat \<Rightarrow> int) \<Rightarrow> int \<Rightarrow> sys_state \<Rightarrow> sys_state outcome" where
  "do_coprocessor_segment_overrun f e esp error_code = die f e ''coprocessor segment overrun'' esp error_code"

definition do_invalid_TSS :: "nat \<Rightarrow> cpu \<Rightarrow> (nat \<Rightarrow> int) \<Rightarrow> int \<Rightarrow> sys_state \<Rightarrow> sys_state outcome" where
  "do_invalid_TSS f e esp error_code = die f e ''invalid TSS'' esp error_code"

definition do_segment_not_present :: "nat \<Rightarrow> cpu \<Rightarrow> (nat \<Rightarrow> int) \<Rightarrow> int \<Rightarrow> sys_state \<Rightarrow> sys_state outcome" where
  "do_segment_not_present f e esp error_code = die f e ''segment not present'' esp error_code"

definition do_stack_segment :: "nat \<Rightarrow> cpu \<Rightarrow> (nat \<Rightarrow> int) \<Rightarrow> int \<Rightarrow> sys_state \<Rightarrow> sys_state outcome" where
  "do_stack_segment f e esp error_code = die f e ''stack segment'' esp error_code"

definition do_coprocessor_error :: "nat \<Rightarrow> cpu \<Rightarrow> (nat \<Rightarrow> int) \<Rightarrow> int \<Rightarrow> sys_state \<Rightarrow> sys_state outcome" where
  "do_coprocessor_error f e esp error_code = die f e ''coprocessor error'' esp error_code"

definition do_reserved :: "nat \<Rightarrow> cpu \<Rightarrow> (nat \<Rightarrow> int) \<Rightarrow> int \<Rightarrow> sys_state \<Rightarrow> sys_state outcome" where
  "do_reserved f e esp error_code = die f e ''reserved (15,17-31) error'' esp error_code"

section \<open>The text of the messages\<close>

lemma die_first_line:
  "vsprintf (ascii ''%s: %04x'' @ NLCR) [Str_arg (ascii ''divide error''), Int_arg 0] = Done (ascii ''divide error: 0000'' @ NLCR, [])"
  by code_simp


end
