(* ===== verification/Scan.thy ===== *)
theory Scan
  imports Crypt
begin

text \<open>
  The program that turns scan codes into text, src/apps/domaci1 (scan.c, main.c), with the routines of src/apps/utils.h
  that it uses. A file is the list of the bytes that \<open>read\<close> gives one by one. A line buffer keeps what it held
  behind the new text; the bytes that were never written are parameters. The messages of the program are left out.
\<close>

section \<open>Numbers and lines, utils.h\<close>

function atoi_loop :: "byte list \<Rightarrow> nat \<Rightarrow> int \<Rightarrow> int outcome" where
  "atoi_loop buf i r =
     obind (rd buf i) (\<lambda>b.
     if 48 \<le> sint b \<and> sint b \<le> 57 then atoi_loop buf (Suc i) (s32 (s32 (r * 10) + sint b - 48)) else Done r)"
  by pat_completeness auto
termination
  by (relation "measure (\<lambda>(buf, i, r). length buf - i)") (auto simp: outcome_simps)

declare atoi_loop.simps [simp del]

definition atoi :: "byte list \<Rightarrow> int outcome" where "atoi buf = atoi_loop buf 0 0"

text \<open>The digits of \<open>itoa\<close>, least first; \<open>/\<close> and \<open>%\<close> truncate, and the loop ends when the quotient is not positive.\<close>

function itoa_loop :: "int \<Rightarrow> byte list \<Rightarrow> byte list" where
  "itoa_loop n acc =
     (let acc = acc @ [word_of_int (cmod n 10 + 48)]; n = cdiv n 10 in
      if n > 0 then itoa_loop n acc else acc)"
  by pat_completeness auto
termination
  by (relation "measure (\<lambda>(n, acc). nat n)") (auto simp: cdiv_def sgn_if split: if_splits)

declare itoa_loop.simps [simp del]

function reverse_loop :: "nat \<Rightarrow> int \<Rightarrow> byte list \<Rightarrow> byte list" where
  "reverse_loop i j buf = (if int i < j then reverse_loop (Suc i) (j - 1) (swap buf i (nat j)) else buf)"
  by pat_completeness auto
termination
  by (relation "measure (\<lambda>(i, j, buf). nat (j - int i))") auto

declare reverse_loop.simps [simp del]

definition reverse :: "byte list \<Rightarrow> nat \<Rightarrow> byte list" where
  "reverse buf len = reverse_loop 0 (int len - 1) buf"

text \<open>\<open>itoa\<close>: the returned length, and the bytes it writes, the zero included.\<close>

definition itoa :: "int \<Rightarrow> int \<times> byte list" where
  "itoa n =
     (let ds = itoa_loop (if n < 0 then s32 (- n) else n) []; ds = (if n < 0 then ds @ [45] else ds) in
      (int (length ds), reverse (ds @ [0]) (length ds)))"

text \<open>\<open>fgets\<close> reads a character before it looks whether there is room; the line, and the rest of the file.\<close>

fun fgets_loop :: "nat \<Rightarrow> byte list \<Rightarrow> byte list \<Rightarrow> byte list \<times> byte list" where
  "fgets_loop maxlen acc [] = (acc, [])"
| "fgets_loop maxlen acc (c # rest) =
     (if length acc = maxlen - 1 then (acc, rest)
      else if c \<noteq> 10 \<and> c \<noteq> 0 then fgets_loop maxlen (acc @ [c]) rest else (acc @ [c], rest))"

definition fgets :: "nat \<Rightarrow> byte list \<Rightarrow> byte list \<times> byte list" where
  "fgets maxlen file = fgets_loop maxlen [] file"

text \<open>A line in a buffer.\<close>

definition put_line :: "byte list \<Rightarrow> byte list \<Rightarrow> byte list" where
  "put_line line buf = line @ [0] @ drop (Suc (length line)) buf"

section \<open>Translation of scan codes, scan.c\<close>

record scan_state =
  first_row :: "byte list"
  second_row :: "byte list"
  mnemonic_size :: int
  mnemonic_key :: "byte list"
  mnemonic :: "byte list"
  shift_flag :: int
  ctrl_flag :: int
  alt_flag :: int
  alt_global :: int

definition SCAN_CODE_SIZE :: nat where "SCAN_CODE_SIZE = 128"

text \<open>The 128 strings of 64 bytes are one array.\<close>

definition scan_init :: scan_state where
  "scan_init = \<lparr>first_row = replicate SCAN_CODE_SIZE 0, second_row = replicate SCAN_CODE_SIZE 0, mnemonic_size = 0,
     mnemonic_key = replicate SCAN_CODE_SIZE 0, mnemonic = replicate (64 * SCAN_CODE_SIZE) 0,
     shift_flag = 0, ctrl_flag = 0, alt_flag = 0, alt_global = 0\<rparr>"

text \<open>The element of a table at \<open>%0\<close>, which nothing compares with the size.\<close>

definition at_code :: "byte list \<Rightarrow> int \<Rightarrow> byte outcome" where
  "at_code row sc = (if sc < 0 then Oob else rd row (nat sc))"

text \<open>\<open>key_search\<close>: the counter is decremented before it is compared with 0.\<close>

function key_search :: "byte \<Rightarrow> byte list \<Rightarrow> nat \<Rightarrow> int \<Rightarrow> nat option outcome" where
  "key_search ah keys ebx ecx =
     obind (rd keys ebx) (\<lambda>al.
     if al = ah then Done (Some ebx)
     else if s32 (ecx - 1) = 0 then Done None else key_search ah keys (Suc ebx) (s32 (ecx - 1)))"
  by pat_completeness auto
termination
  by (relation "measure (\<lambda>(ah, keys, ebx, ecx). length keys - ebx)") (auto simp: outcome_simps)

declare key_search.simps [simp del]

text \<open>\<open>load_to_buff\<close>: the bytes up to the zero, which is copied too.\<close>

fun load_to_buff :: "byte list \<Rightarrow> byte list outcome" where
  "load_to_buff [] = Oob"
| "load_to_buff (al # m) = (if al = 0 then Done [0] else obind (load_to_buff m) (\<lambda>bs. Done (al # bs)))"

text \<open>The result, the bytes stored at the buffer, and the new state.\<close>

type_synonym scan_result = "(int \<times> byte list \<times> scan_state) outcome"

definition plain_key :: "byte list \<Rightarrow> int \<Rightarrow> scan_state \<Rightarrow> scan_result" where
  "plain_key row sc s = obind (at_code row sc) (\<lambda>c. Done (1, [c], s))"

definition mnemonic_out :: "byte list \<Rightarrow> int \<Rightarrow> scan_state \<Rightarrow> scan_result" where
  "mnemonic_out row sc s =
     obind (at_code row sc) (\<lambda>c.
     obind (key_search c (mnemonic_key s) 0 (mnemonic_size s)) (\<lambda>k.
     case k of
       None \<Rightarrow> Done (0, [], s)
     | Some i \<Rightarrow> obind (load_to_buff (drop (64 * i) (mnemonic s))) (\<lambda>bs. Done (int (length bs), bs, s))))"

definition alt_digit :: "byte list \<Rightarrow> int \<Rightarrow> scan_state \<Rightarrow> scan_result" where
  "alt_digit row sc s =
     obind (at_code row sc) (\<lambda>c.
     Done (0, [], s\<lparr>alt_global := s32 (s32 (alt_global s * 10) + uint (c - 48))\<rparr>))"

definition process_scancode :: "int \<Rightarrow> scan_state \<Rightarrow> scan_result" where
  "process_scancode sc s =
     (if sc = 400 then Done (0, [], s)
      else if sc = 200 then Done (0, [], s\<lparr>shift_flag := 1\<rparr>)
      else if sc = 300 then Done (0, [], s\<lparr>shift_flag := 0\<rparr>)
      else if sc = 201 then Done (0, [], s\<lparr>ctrl_flag := 1\<rparr>)
      else if sc = 301 then Done (0, [], s\<lparr>ctrl_flag := 0\<rparr>)
      else if sc = 202 then Done (0, [], s\<lparr>alt_flag := 1\<rparr>)
      else if sc = 302 then Done (1, [word_of_int (alt_global s)], s\<lparr>alt_flag := 0, alt_global := 0\<rparr>)
      else if shift_flag s = 1 then
        (if alt_flag s = 1 then alt_digit (second_row s) sc s
         else if ctrl_flag s = 1 then mnemonic_out (second_row s) sc s
         else plain_key (second_row s) sc s)
      else if ctrl_flag s = 1 then mnemonic_out (first_row s) sc s
      else if alt_flag s = 1 then alt_digit (first_row s) sc s
      else plain_key (first_row s) sc s)"

text \<open>\<open>load_config\<close>: the two rows, then the number of mnemonics and one line for each; \<open>b1\<close> and \<open>b2\<close> are the line buffers.\<close>

fun copy_rows :: "nat list \<Rightarrow> byte list \<Rightarrow> byte list \<Rightarrow> scan_state \<Rightarrow> scan_state outcome" where
  "copy_rows [] b1 b2 s = Done s"
| "copy_rows (i # is) b1 b2 s =
     obind (rd b1 i) (\<lambda>x. obind (rd b2 i) (\<lambda>y.
     obind (wr (first_row s) i x) (\<lambda>f. obind (wr (second_row s) i y) (\<lambda>g.
     copy_rows is b1 b2 (s\<lparr>first_row := f, second_row := g\<rparr>)))))"

text \<open>\<open>strcpy\<close> of the text into the array at position \<open>p\<close>.\<close>

fun put_bytes_at :: "nat \<Rightarrow> byte list \<Rightarrow> byte list \<Rightarrow> byte list outcome" where
  "put_bytes_at p [] m = Done m"
| "put_bytes_at p (x # xs) m = obind (wr m p x) (put_bytes_at (Suc p) xs)"

fun load_mnemonics :: "nat \<Rightarrow> nat \<Rightarrow> byte list \<Rightarrow> byte list \<Rightarrow> scan_state \<Rightarrow> scan_state outcome" where
  "load_mnemonics 0 i b1 file s = Done s"
| "load_mnemonics (Suc k) i b1 file s =
     (let (line, file) = fgets SCAN_CODE_SIZE file; b1 = put_line line b1 in
      obind (rd b1 0) (\<lambda>c. obind (wr (mnemonic_key s) i c) (\<lambda>keys.
      let tmp = take (length line - 3) (drop 2 b1) in
      obind (put_bytes_at (64 * i) (takeWhile (\<lambda>b. b \<noteq> 0) tmp @ [0]) (mnemonic s)) (\<lambda>m.
      load_mnemonics k (Suc i) b1 file (s\<lparr>mnemonic_key := keys, mnemonic := m\<rparr>)))))"

definition load_config :: "byte list \<Rightarrow> byte list \<Rightarrow> byte list \<Rightarrow> byte list \<Rightarrow> scan_state \<Rightarrow> scan_state outcome" where
  "load_config b1 b2 tbl mn s =
     (let s = s\<lparr>shift_flag := 0, ctrl_flag := 0, alt_flag := 0\<rparr>;
          (l1, tbl) = fgets SCAN_CODE_SIZE tbl; b1 = put_line l1 b1;
          (l2, tbl) = fgets SCAN_CODE_SIZE tbl; b2 = put_line l2 b2 in
      obind (copy_rows [0..<length l1] b1 b2 s) (\<lambda>s.
      let (ln, mn) = fgets 3 mn in
      obind (atoi (ln @ [0])) (\<lambda>k.
      load_mnemonics (nat k) 0 b1 mn (s\<lparr>mnemonic_size := k\<rparr>))))"

section \<open>The loop over a file, main.c\<close>

definition OUT_BUFFER_SIZE :: nat where "OUT_BUFFER_SIZE = 1024"

definition end_of_file_check :: "byte list \<Rightarrow> bool" where
  "end_of_file_check code \<longleftrightarrow> \<not> (code ! 0 = 52 \<and> code ! 1 = 48 \<and> code ! 2 = 48)"

text \<open>\<open>printstr\<close> writes the buffer up to its zero; then the buffer is cleared.\<close>

definition show_buffer :: "byte list \<Rightarrow> byte list \<Rightarrow> byte list outcome" where
  "show_buffer bs buf =
     (if length bs > length buf then Oob
      else let buf = bs @ drop (length bs) buf in obind (strlen buf) (\<lambda>n. Done (take n buf)))"

definition empty_buff :: "byte list" where "empty_buff = replicate OUT_BUFFER_SIZE 0"

text \<open>\<open>None\<close> when the loop does not end.\<close>

partial_function (option) scan_loop :: "byte list \<Rightarrow> byte list \<Rightarrow> byte list \<Rightarrow> byte list \<Rightarrow> scan_state \<Rightarrow>
    (byte list \<times> scan_state) outcome option" where
  "scan_loop code buf file out s =
     (if end_of_file_check code then
        let (line, file) = fgets 4 file; code = put_line line code in
        case atoi code of
          Done sc \<Rightarrow>
            (case process_scancode sc s of
               Done (r, bs, s) \<Rightarrow>
                 (case show_buffer bs buf of
                    Done t \<Rightarrow> scan_loop code empty_buff file (out @ t) s
                  | _ \<Rightarrow> Some Oob)
             | _ \<Rightarrow> Some Oob)
        | _ \<Rightarrow> Some Oob
      else Some (Done (out, s)))"

declare scan_loop.simps [code]

end
