(* ===== verification/ScanProps.thy ===== *)
theory ScanProps
  imports Scan
begin

text \<open>
  What the scan code program does: numbers are read as they are written, a character is typed by the digits of its
  code, and a file of codes gives the text of the codes one after the other.
\<close>

section \<open>Decimal numbers\<close>

fun dec :: "nat \<Rightarrow> byte list" where
  "dec n = (if n < 10 then [word_of_nat (n + 48)] else dec (n div 10) @ [word_of_nat (n mod 10 + 48)])"

declare dec.simps [simp del]

definition digit :: "byte \<Rightarrow> bool" where "digit b \<longleftrightarrow> 48 \<le> sint b \<and> sint b \<le> 57"

lemma sint_digit [simp]: "n < 10 \<Longrightarrow> sint (word_of_nat n + 48 :: byte) = int n + 48"
  by (auto simp: less_Suc_eq numeral_eq_Suc)

lemma itoa_loop_dec: "itoa_loop (int n) acc = acc @ rev (dec n)"
proof (induction n arbitrary: acc rule: less_induct)
  case (less n)
  have "cmod (int n) 10 = int (n mod 10)" "cdiv (int n) 10 = int (n div 10)"
    by (simp_all add: cmod_nonneg cdiv_nonneg zmod_int zdiv_int)
  then have m: "word_of_int (cmod (int n) 10 + 48) = (word_of_nat (n mod 10 + 48) :: byte)" "cdiv (int n) 10 = int (n div 10)"
    by simp_all
  show ?case
  proof (cases "n < 10")
    case True
    then show ?thesis using m by (subst itoa_loop.simps) (simp add: dec.simps [of n])
  next
    case False
    then show ?thesis using m less.IH [of "n div 10"] by (subst itoa_loop.simps) (simp add: dec.simps [of n] Let_def div_greater_zero_iff)
  qed
qed

lemma reverse_loop_nth:
  "j < int (length buf) \<Longrightarrow> length (reverse_loop i j buf) = length buf \<and>
   (\<forall>k<length buf. reverse_loop i j buf ! k = (if i \<le> k \<and> int k \<le> j then buf ! nat (int i + j - int k) else buf ! k))"
proof (induction i j buf rule: reverse_loop.induct)
  case (1 i j buf)
  show ?case
  proof (cases "int i < j")
    case False
    then have "nat (int i + j - int k) = k" if "i \<le> k" "int k \<le> j" for k using that by simp
    then show ?thesis using False by (subst (1 2) reverse_loop.simps) auto
  next
    case True
    let ?b = "swap buf i (nat j)"
    have l: "length ?b = length buf" by (simp add: swap_def)
    have n: "?b ! k = (if k = i then buf ! nat j else if k = nat j then buf ! i else buf ! k)" if "k < length buf" for k
      using that True "1.prems" by (auto simp: swap_def nth_list_update)
    have e: "reverse_loop i j buf = reverse_loop (Suc i) (j - 1) ?b" using True by (subst reverse_loop.simps) simp
    have IH: "length (reverse_loop (Suc i) (j - 1) ?b) = length buf"
      "\<And>k. k < length buf \<Longrightarrow> reverse_loop (Suc i) (j - 1) ?b ! k =
         (if Suc i \<le> k \<and> int k \<le> j - 1 then ?b ! nat (int (Suc i) + (j - 1) - int k) else ?b ! k)"
      using "1.IH" [OF True] "1.prems" by (simp_all add: l)
    have "reverse_loop i j buf ! k = (if i \<le> k \<and> int k \<le> j then buf ! nat (int i + j - int k) else buf ! k)" if k: "k < length buf" for k
    proof -
      have a: "int (Suc i) + (j - 1) - int k = int i + j - int k" by simp
      consider "Suc i \<le> k" "int k \<le> j - 1" | "k = i" | "int k = j" | "k < i \<or> j < int k" by linarith
      then show ?thesis
      proof cases
        case 1
        let ?m = "nat (int i + j - int k)"
        have "?m < length buf" "?m \<noteq> i" "?m \<noteq> nat j" using 1 \<open>j < int (length buf)\<close> True by linarith+
        then show ?thesis using 1 IH(2) [OF k] n [of ?m] unfolding e a by simp
      next
        case 2
        then show ?thesis using IH(2) [OF k] n [OF k] True unfolding e by simp
      next
        case 3
        then have "i < k" using True by linarith
        then show ?thesis using IH(2) [OF k] n [OF k] e unfolding 3 [symmetric] by simp
      next
        case 4
        then have "k \<noteq> i" "k \<noteq> nat j" using True by linarith+
        then show ?thesis using 4 IH(2) [OF k] n [OF k] unfolding e by auto
      qed
    qed
    then show ?thesis using IH(1) by (simp add: e)
  qed
qed

lemma reverse_rev: "reverse (xs @ ys) (length xs) = rev xs @ ys"
proof (rule nth_equalityI)
  have j: "int (length xs) - 1 < int (length (xs @ ys))" by simp
  note r = reverse_loop_nth [OF j, of 0]
  show "length (reverse (xs @ ys) (length xs)) = length (rev xs @ ys)" using r by (simp add: reverse_def)
  fix k assume "k < length (reverse (xs @ ys) (length xs))"
  then have k: "k < length (xs @ ys)" using r by (simp add: reverse_def)
  have "nat (int (length xs) - 1 - int k) = length xs - Suc k" by simp
  then show "reverse (xs @ ys) (length xs) ! k = (rev xs @ ys) ! k"
    using r k by (auto simp: reverse_def nth_append rev_nth)
qed

lemma itoa_dec: "itoa (int n) = (int (length (dec n)), dec n @ [0])"
  using reverse_rev [of "rev (dec n)" "[0]"] by (simp add: itoa_def itoa_loop_dec)

lemma atoi_loop_prefix:
  assumes "\<forall>k<i. digit (buf ! k)" "i < length buf" "\<not> digit (buf ! i)" "m \<le> i"
  shows "atoi_loop buf m r = Done (foldl (\<lambda>r b. s32 (s32 (r * 10) + sint b - 48)) r (drop m (take i buf)))"
  using assms(4)
proof (induction "i - m" arbitrary: m r)
  case 0
  then have "m = i" by simp
  then show ?case using assms(2,3) by (subst atoi_loop.simps) (auto simp: rd_def digit_def)
next
  case (Suc l)
  then have m: "m < i" by simp
  have "drop m (take i buf) = buf ! m # drop (Suc m) (take i buf)"
    using m assms(2) by (subst Cons_nth_drop_Suc [symmetric]) simp_all
  moreover have "digit (buf ! m)" using m assms(1) by blast
  ultimately show ?case using Suc.hyps(1) [of "Suc m"] Suc.hyps(2) m assms(2)
    by (subst atoi_loop.simps) (simp add: rd_def digit_def)
qed

lemma dec_digits: "b \<in> set (dec n) \<Longrightarrow> digit b"
proof (induction n arbitrary: b rule: less_induct)
  case (less n)
  have "n < 10 \<and> b = word_of_nat n + 48 \<or> 10 \<le> n \<and> (b \<in> set (dec (n div 10)) \<or> b = word_of_nat (n mod 10) + 48)"
    using less.prems by (subst (asm) dec.simps) (auto split: if_splits)
  then show ?case using less.IH [of "n div 10" b] by (auto simp: digit_def)
qed

lemma dec_value:
  "n < 2147483648 \<Longrightarrow> foldl (\<lambda>r b. s32 (s32 (r * 10) + sint b - 48)) 0 (dec n) = int n"
proof (induction n rule: less_induct)
  case (less n)
  show ?case
  proof (cases "n < 10")
    case True
    then show ?thesis by (subst dec.simps) (simp add: s32_id)
  next
    case False
    then have e: "dec n = dec (n div 10) @ [word_of_nat (n mod 10) + 48]" by (subst dec.simps) simp
    have IH: "foldl (\<lambda>r b. s32 (s32 (r * 10) + sint b - 48)) 0 (dec (n div 10)) = int (n div 10)" using False less by simp
    have "int (n div 10) * 10 + int (n mod 10) = int n" by (metis div_mult_mod_eq of_nat_add of_nat_mult of_nat_numeral)
    moreover have "s32 (int (n div 10) * 10) = int (n div 10) * 10" "s32 (int n) = int n" using less.prems by (simp_all add: s32_id)
    ultimately show ?thesis unfolding e foldl_append IH by simp
  qed
qed

lemma atoi_dec:
  assumes "n < 2147483648" "\<not> digit c"
  shows "atoi (dec n @ c # rest) = Done (int n)"
proof -
  have "\<forall>k<length (dec n). digit ((dec n @ c # rest) ! k)" using dec_digits nth_mem by (fastforce simp: nth_append)
  from atoi_loop_prefix [OF this, of 0 0] show ?thesis using assms dec_value [OF assms(1)] by (simp add: atoi_def)
qed

text \<open>\<open>atoi\<close> reads what \<open>itoa\<close> writes.\<close>

theorem atoi_itoa:
  assumes "0 \<le> n" "n < 2147483648"
  shows "atoi (snd (itoa n)) = Done n \<and> fst (itoa n) = int (length (snd (itoa n))) - 1"
proof -
  obtain k where k: "n = int k" using assms(1) nonneg_int_cases by blast
  have "\<not> digit 0" by (simp add: digit_def)
  then show ?thesis using atoi_dec [of k 0 "[]"] assms by (simp add: k itoa_dec)
qed

section \<open>Keys\<close>

text \<open>The text that the program writes for a sequence of codes.\<close>

fun run :: "int list \<Rightarrow> scan_state \<Rightarrow> (byte list \<times> scan_state) outcome" where
  "run [] s = Done ([], s)"
| "run (c # cs) s =
     obind (process_scancode c s) (\<lambda>(_, bs, s).
     obind (show_buffer bs empty_buff) (\<lambda>t.
     obind (run cs s) (\<lambda>(ts, s). Done (t @ ts, s))))"

lemma run_append: "run (xs @ ys) s = obind (run xs s) (\<lambda>(t, s). obind (run ys s) (\<lambda>(u, s). Done (t @ u, s)))"
  proof (induction xs arbitrary: s)
  case Nil
  show ?case by (cases "run ys s") auto
next
  case (Cons x xs)
  show ?case by (cases "process_scancode x s") (auto simp: obind_assoc split_beta Cons)
qed

lemma strlen_zeros: "0 < n \<Longrightarrow> strlen (bs @ replicate n 0) = Done (length (takeWhile (\<lambda>b. b \<noteq> 0) bs))"
  by (induction bs) (auto simp: gr0_conv_Suc)

lemma show_text: "length bs < OUT_BUFFER_SIZE \<Longrightarrow> show_buffer bs empty_buff = Done (takeWhile (\<lambda>b. b \<noteq> 0) bs)"
  using strlen_zeros [of "OUT_BUFFER_SIZE - length bs" bs] takeWhile_eq_take [of "\<lambda>b. b \<noteq> 0" bs]
  by (simp add: show_buffer_def empty_buff_def length_takeWhile_le)

lemma dec_forms: "b \<in> set (dec n) \<Longrightarrow> uint (b - 48) = sint b - 48"
proof -
  assume "b \<in> set (dec n)"
  then have "digit b" by (rule dec_digits)
  then have "sint b \<in> {48, 49, 50, 51, 52, 53, 54, 55, 56, 57}" by (simp add: digit_def) presburger
  then have "word_of_int (sint b) \<in> {48, 49, 50, 51, 52, 53, 54, 55, 56, 57 :: byte}" by (elim insertE emptyE) simp_all
  then show ?thesis by (elim insertE emptyE) simp_all
qed

lemma alt_digits:
  assumes "\<forall>c\<in>set cs. 0 \<le> c \<and> c < 128" "length (first_row s) = 128" "shift_flag s = 0" "ctrl_flag s = 0" "alt_flag s = 1"
  shows "run cs s = Done ([], s\<lparr>alt_global := foldl (\<lambda>r b. s32 (s32 (r * 10) + uint (b - 48))) (alt_global s) (map (\<lambda>c. first_row s ! nat c) cs)\<rparr>)"
  using assms
proof (induction cs arbitrary: s)
  case (Cons c cs)
  have "process_scancode c s = Done (0, [], s\<lparr>alt_global := s32 (s32 (alt_global s * 10) + uint (first_row s ! nat c - 48))\<rparr>)"
    using Cons.prems by (auto simp: process_scancode_def alt_digit_def at_code_def rd_def)
  then show ?case using Cons by (simp add: show_text OUT_BUFFER_SIZE_def)
qed simp

lemma alt_value:
  assumes "n < 2147483648"
  shows "foldl (\<lambda>r b. s32 (s32 (r * 10) + uint (b - 48))) 0 (dec n) = int n"
proof -
  have "foldl (\<lambda>r b. s32 (s32 (r * 10) + uint (b - 48))) 0 (dec n) = foldl (\<lambda>r b. s32 (s32 (r * 10) + sint b - 48)) 0 (dec n)"
    by (rule foldl_cong) (simp_all add: dec_forms algebra_simps)
  then show ?thesis using dec_value [OF assms] by simp
qed

text \<open>
  Holding Alt down, typing the decimal digits of a character code on the keys of the first row and releasing Alt
  writes the character with that code, and leaves the state as it was before.
\<close>

theorem alt_code:
  assumes "0 < n" "n < 256" "map (\<lambda>c. first_row s ! nat c) cs = dec n" "\<forall>c\<in>set cs. 0 \<le> c \<and> c < 128" "length (first_row s) = 128"
    and "shift_flag s = 0" "ctrl_flag s = 0" "alt_flag s = 0" "alt_global s = 0"
  shows "run (202 # cs @ [302]) s = Done ([word_of_nat n], s)"
proof -
  let ?a = "s\<lparr>alt_flag := 1\<rparr>"
  have "run cs ?a = Done ([], ?a\<lparr>alt_global := int n\<rparr>)"
    using alt_digits [of cs ?a] alt_value [of n] assms by simp
  moreover have "process_scancode 202 s = Done (0, [], ?a)" by (simp add: process_scancode_def)
  moreover have "process_scancode 302 (?a\<lparr>alt_global := int n\<rparr>) = Done (1, [word_of_nat n], s)"
    using assms by (simp add: process_scancode_def)
  moreover have "word_of_nat n \<noteq> (0 :: byte)" using assms(1,2) by (auto simp: word_of_nat_eq_0_iff dest: dvd_imp_le)
  ultimately show ?thesis by (simp add: run_append show_text OUT_BUFFER_SIZE_def)
qed

theorem alt_code_witness:
  "run [202, 3, 2, 302] (scan_init\<lparr>first_row := map (\<lambda>c. of_nat (c + 48)) [0..<10] @ replicate 118 0\<rparr>) =
     Done ([32], scan_init\<lparr>first_row := map (\<lambda>c. of_nat (c + 48)) [0..<10] @ replicate 118 0\<rparr>)"
proof -
  let ?s = "scan_init\<lparr>first_row := map (\<lambda>c. of_nat (c + 48)) [0..<10] @ replicate 118 0\<rparr>"
  have "map (\<lambda>c. first_row ?s ! nat c) [3, 2] = dec 32" by (simp add: dec.simps nth_append)
  from alt_code [OF _ _ this] show ?thesis by (simp add: scan_init_def)
qed

section \<open>A file of codes\<close>

lemma dec_short: "n < 1000 \<Longrightarrow> dec n =
    (if n < 10 then [word_of_nat n + 48] else if n < 100 then [word_of_nat (n div 10) + 48, word_of_nat (n mod 10) + 48]
     else [word_of_nat (n div 100) + 48, word_of_nat (n div 10 mod 10) + 48, word_of_nat (n mod 10) + 48])"
proof -
  assume "n < 1000"
  have d: "n div 10 < 10 \<longleftrightarrow> n < 100" "n div 10 div 10 < 10 \<longleftrightarrow> n < 1000" "n div 10 div 10 = n div 100"
    by (simp_all add: div_less_iff_less_mult flip: div_mult2_eq)
  then show ?thesis using \<open>n < 1000\<close> dec.simps [of n] dec.simps [of "n div 10"] dec.simps [of "n div 10 div 10"] by auto
qed

lemma digit_not_end:
  assumes "d < 10"
  shows "(word_of_nat d + 48 :: byte) \<noteq> 10" "(word_of_nat d + 48 :: byte) \<noteq> 0"
proof -
  have "48 \<le> sint (word_of_nat d + 48 :: byte)" using sint_digit [OF assms] by simp
  moreover have "sint (10 :: byte) = 10" by simp
  ultimately show "(word_of_nat d + 48 :: byte) \<noteq> 10" "(word_of_nat d + 48 :: byte) \<noteq> 0" by force+
qed

lemma fgets_dec:
  assumes "n < 1000"
  shows "fgets 4 (dec n @ 10 # rest) = (dec n @ (if n < 100 then [10] else []), rest)"
  using assms digit_not_end [of "n mod 10"] digit_not_end [of n] digit_not_end [of "n div 10"] digit_not_end [of "n div 10 mod 10"]
    digit_not_end [of "n div 100"]
  by (auto simp: dec_short fgets_def div_less_iff_less_mult)

text \<open>The code that follows a line is the number of the line, with a byte behind it that is no digit.\<close>

lemma put_line_dec:
  assumes "n < 1000" "length code = 4"
  shows "\<exists>c cs. put_line (dec n @ (if n < 100 then [10] else [])) code = dec n @ c # cs \<and> \<not> digit c \<and> length (dec n @ c # cs) = 4"
  using assms by (auto simp: put_line_def dec_short digit_def)

lemma digit_is:
  assumes "d < 10"
  shows "(word_of_nat d + 48 :: byte) = 52 \<longleftrightarrow> d = 4" "(word_of_nat d + 48 :: byte) = 48 \<longleftrightarrow> d = 0"
proof -
  have "d \<in> {0, 1, 2, 3, 4, 5, 6, 7, 8, 9}" using assms by simp presburger
  then show "(word_of_nat d + 48 :: byte) = 52 \<longleftrightarrow> d = 4" "(word_of_nat d + 48 :: byte) = 48 \<longleftrightarrow> d = 0"
    by (elim insertE emptyE, simp_all)+
qed

lemma eof_dec:
  assumes "n < 1000" "\<not> digit c"
  shows "end_of_file_check (dec n @ c # cs) \<longleftrightarrow> n \<noteq> 400"
proof -
  have c: "c \<noteq> 48" "c \<noteq> 52" using assms(2) by (auto simp: digit_def)
  show ?thesis
  proof (cases "n < 100")
    case True
    then show ?thesis using c by (auto simp: end_of_file_check_def dec_short)
  next
    case False
    have d: "n div 100 < 10" "n div 10 mod 10 < 10" "n mod 10 < 10" using assms(1) by (simp_all add: div_less_iff_less_mult)
    have e: "dec n @ c # cs = (word_of_nat (n div 100) + 48) # (word_of_nat (n div 10 mod 10) + 48) # (word_of_nat (n mod 10) + 48) # c # cs"
      using assms(1) False by (simp add: dec_short)
    have "end_of_file_check (dec n @ c # cs) \<longleftrightarrow> \<not> (n div 100 = 4 \<and> n div 10 mod 10 = 0 \<and> n mod 10 = 0)"
      unfolding e end_of_file_check_def using digit_is(1) [OF d(1)] digit_is(2) [OF d(2)] digit_is(2) [OF d(3)] by simp
    moreover have "n = n div 10 * 10 + n mod 10" "n div 10 = n div 100 * 10 + n div 10 mod 10"
      using div_mult_mod_eq [of n 10] div_mult_mod_eq [of "n div 10" 10] by (simp_all flip: div_mult2_eq)
    then have "n = 400" if "n div 100 = 4 \<and> n div 10 mod 10 = 0 \<and> n mod 10 = 0" using that by linarith
    ultimately show ?thesis by auto
  qed
qed

lemma scan_step:
  assumes "end_of_file_check code" "length code = 4" "n < 1000" "process_scancode (int n) s = Done (r, bs, s')" "show_buffer bs buf = Done t"
  shows "\<exists>c cs. scan_loop code buf (dec n @ 10 # rest) out s = scan_loop (dec n @ c # cs) empty_buff rest (out @ t) s' \<and>
    \<not> digit c \<and> length (dec n @ c # cs) = 4"
proof -
  obtain c cs where c: "put_line (dec n @ (if n < 100 then [10] else [])) code = dec n @ c # cs" "\<not> digit c" "length (dec n @ c # cs) = 4"
    using put_line_dec [OF assms(3,2)] by blast
  have "scan_loop code buf (dec n @ 10 # rest) out s = scan_loop (dec n @ c # cs) empty_buff rest (out @ t) s'"
    using assms fgets_dec [OF assms(3), of rest] c(1) atoi_dec [OF _ c(2), of n cs] by (subst scan_loop.simps) simp
  then show ?thesis using c(2,3) by blast
qed



end
