(* ===== verification/Calls.thy ===== *)
theory Calls
  imports Prelude
begin

text \<open>
  System calls as numbers: the table of src/include/linux/sys.h, the numbers and the stubs of src/include/unistd.h, and the
  test of the number in src/kernel/system_call.s. A function pointer is the name of its function.
\<close>

definition sys_call_table :: "string list" where
  "sys_call_table =
     [''sys_setup'', ''sys_exit'', ''sys_fork'', ''sys_read'', ''sys_write'', ''sys_open'', ''sys_close'', ''sys_waitpid'',
     ''sys_creat'', ''sys_link'', ''sys_unlink'', ''sys_execve'', ''sys_chdir'', ''sys_time'', ''sys_mknod'', ''sys_chmod'',
     ''sys_chown'', ''sys_break'', ''sys_oldstat'', ''sys_lseek'', ''sys_getpid'', ''sys_mount'', ''sys_umount'', ''sys_setuid'',
     ''sys_getuid'', ''sys_stime'', ''sys_ptrace'', ''sys_alarm'', ''sys_oldfstat'', ''sys_pause'', ''sys_utime'', ''sys_stty'',
     ''sys_gtty'', ''sys_access'', ''sys_nice'', ''sys_ftime'', ''sys_sync'', ''sys_kill'', ''sys_rename'', ''sys_mkdir'',
     ''sys_rmdir'', ''sys_dup'', ''sys_pipe'', ''sys_times'', ''sys_prof'', ''sys_brk'', ''sys_setgid'', ''sys_getgid'',
     ''sys_signal'', ''sys_geteuid'', ''sys_getegid'', ''sys_acct'', ''sys_phys'', ''sys_lock'', ''sys_ioctl'', ''sys_fcntl'',
     ''sys_mpx'', ''sys_setpgid'', ''sys_ulimit'', ''sys_oldolduname'', ''sys_umask'', ''sys_chroot'', ''sys_ustat'', ''sys_dup2'',
     ''sys_getppid'', ''sys_getpgrp'', ''sys_setsid''] @
     replicate 23 ''sys_null'' @
     [''sys_switch_case'', ''sys_clear_key'', ''sys_set_key'', ''sys_generate_key_'', ''sys_encr'', ''sys_decr''] @
     replicate 4 ''sys_null'' @
     [''sys_get_i_node''] @
     replicate 5 ''sys_null'' @
     [''sys_stat'', ''sys_lstat'', ''sys_fstat''] @
     replicate 13 ''sys_null'' @
     [''sys_uname''] @
     replicate 18 ''sys_null'' @
     [''sys_getdents''] @
     replicate 53 ''sys_null'' @
     [''sys_stat64'', ''sys_lstat64'', ''sys_fstat64''] @
     replicate 22 ''sys_null'' @
     [''sys_getdents64'', ''sys_fcntl64''] @
     replicate 98 ''sys_null''"

text \<open>The constants \<open>__NR_name\<close>.\<close>

definition NR :: "(string \<times> nat) list" where
  "NR =
    [(''setup'', 0), (''exit'', 1), (''fork'', 2), (''read'', 3), (''write'', 4), (''open'', 5), (''close'', 6), (''waitpid'', 7),
     (''creat'', 8), (''link'', 9), (''unlink'', 10), (''execve'', 11), (''chdir'', 12), (''time'', 13), (''mknod'', 14), (''chmod'', 15),
     (''chown'', 16), (''break'', 17), (''oldstat'', 18), (''lseek'', 19), (''getpid'', 20), (''mount'', 21), (''umount'', 22), (''setuid'', 23),
     (''getuid'', 24), (''stime'', 25), (''ptrace'', 26), (''alarm'', 27), (''oldfstat'', 28), (''pause'', 29), (''utime'', 30), (''stty'', 31),
     (''gtty'', 32), (''access'', 33), (''nice'', 34), (''ftime'', 35), (''sync'', 36), (''kill'', 37), (''rename'', 38), (''mkdir'', 39),
     (''rmdir'', 40), (''dup'', 41), (''pipe'', 42), (''times'', 43), (''prof'', 44), (''brk'', 45), (''setgid'', 46), (''getgid'', 47),
     (''signal'', 48), (''geteuid'', 49), (''getegid'', 50), (''acct'', 51), (''phys'', 52), (''lock'', 53), (''ioctl'', 54), (''fcntl'', 55),
     (''mpx'', 56), (''setpgid'', 57), (''ulimit'', 58), (''oldolduname'', 59), (''umask'', 60), (''chroot'', 61), (''ustat'', 62), (''dup2'', 63),
     (''getppid'', 64), (''getpgrp'', 65), (''setsid'', 66), (''stat'', 106), (''lstat'', 107), (''fstat'', 108), (''uname'', 122), (''getdents'', 141),
     (''stat64'', 195), (''ltat64'', 196), (''fstat64'', 197), (''getdents64'', 220), (''fcntl64'', 221), (''switch_case'', 90), (''clear_key'', 91), (''set_key'', 92),
     (''generate_key_'', 93), (''encr'', 94), (''decr'', 95), (''get_i_node'', 100)]"

text \<open>\<open>system_call\<close>: the entry that is called for a number, \<open>None\<close> for \<open>bad_sys_call\<close>; the comparison is unsigned.\<close>

definition nr_system_calls :: int where "nr_system_calls = 319"

definition system_call_entry :: "int \<Rightarrow> string option" where
  "system_call_entry eax =
     (if u32 eax > nr_system_calls - 1 then None else Some (sys_call_table ! nat (u32 eax)))"

text \<open>A stub: \<open>int80\<close> is the interrupt with the four registers; the results are the returned value and what is stored in \<open>errno\<close>.\<close>

definition syscall_result :: "int \<times> 's \<Rightarrow> int \<times> int option \<times> 's" where
  "syscall_result = (\<lambda>(res, s). if res \<ge> 0 then (res, None, s) else (-1, Some (- res), s))"

definition syscall0 :: "(int \<Rightarrow> int \<Rightarrow> int \<Rightarrow> int \<Rightarrow> 's \<Rightarrow> int \<times> 's) \<Rightarrow> int \<Rightarrow> int \<Rightarrow> int \<Rightarrow> int \<Rightarrow> 's \<Rightarrow> int \<times> int option \<times> 's" where
  "syscall0 int80 nr ebx ecx edx s = syscall_result (int80 nr ebx ecx edx s)"

definition syscall3 :: "(int \<Rightarrow> int \<Rightarrow> int \<Rightarrow> int \<Rightarrow> 's \<Rightarrow> int \<times> 's) \<Rightarrow> int \<Rightarrow> int \<Rightarrow> int \<Rightarrow> int \<Rightarrow> 's \<Rightarrow> int \<times> int option \<times> 's" where
  "syscall3 int80 nr a b c s =
     (let (res, s) = int80 nr a b c s; errno = (if res < 0 then Some (- res) else None); res = (if res < 0 then -1 else res) in
      (res, errno, s))"

section \<open>The table and the numbers agree\<close>

lemma length_table: "length sys_call_table = 320"
  by (simp add: sys_call_table_def)

text \<open>Every number that the test lets through has an entry.\<close>

lemma entry_in_table: "system_call_entry eax = Some f \<Longrightarrow> f \<in> set sys_call_table"
  by (auto simp: system_call_entry_def nr_system_calls_def length_table u32_def split: if_splits intro!: nth_mem)

text \<open>
  Each number of \<open>unistd.h\<close> but one leads to the function of its name; 196, the number of \<open>sys_lstat64\<close>, is spelled \<open>ltat64\<close> there.
\<close>

theorem numbers_agree:
  "\<forall>(c, n) \<in> set NR. c \<noteq> ''ltat64'' \<longrightarrow> system_call_entry (int n) = Some (''sys_'' @ c)"
  by (simp add: NR_def system_call_entry_def nr_system_calls_def u32_def sys_call_table_def nth_append)

end
