(* ===== verification/TruncateProps.thy ===== *)
theory TruncateProps
  imports InodeProps
begin

text \<open>
  Truncating a file, src/fs/truncate.c: every block of the file, the indirect ones included, is free in the zone map
  afterwards, no other block is, and no other block has changed.
\<close>

section \<open>Blocks that can be freed\<close>

text \<open>The bit of a block in the zone map.\<close>

definition zpos :: "super_block \<Rightarrow> int \<Rightarrow> nat" where
  "zpos sb n = nat (n - s_firstdatazone sb + 1)"

lemma zpos_eq: "s_firstdatazone sb \<le> n \<Longrightarrow> s_firstdatazone sb \<le> k \<Longrightarrow> zpos sb n = zpos sb k \<longleftrightarrow> n = k"
  by (auto simp: zpos_def)

lemma zpos_image: "s_firstdatazone sb \<le> n \<Longrightarrow> \<forall>k\<in>K. s_firstdatazone sb \<le> k \<Longrightarrow> zpos sb n \<in> zpos sb ` K \<longleftrightarrow> n \<in> K"
  using zpos_eq by blast

text \<open>A block of the data zone whose bit is set and whose buffer nobody uses.\<close>

definition allocated :: "int \<Rightarrow> super_block \<Rightarrow> fs_state \<Rightarrow> int \<Rightarrow> bool" where
  "allocated dev sb s n \<longleftrightarrow> s_firstdatazone sb \<le> n \<and> n < s_nzones sb \<and> zpos sb n < 8192 * zslots sb \<and> zbit sb s (zpos sb n) \<and>
     (\<forall>i<length (fs_bufs s). holds s dev n i \<longrightarrow> b_count (buf i s) = 0)"

text \<open>A mounted device, with \<open>l\<close> buffers that are free; the buffers in use are valid.\<close>

definition mounted :: "int \<Rightarrow> super_block \<Rightarrow> nat \<Rightarrow> nat \<Rightarrow> fs_state \<Rightarrow> bool" where
  "mounted dev sb p l s \<longleftrightarrow> spare l s \<and> 0 < dev \<and> dev < 65536 \<and> zmap_ok dev sb s \<and> get_super dev s = Some p \<and> super p s = sb \<and>
     (\<forall>j<length (fs_bufs s). 0 < b_count (buf j s) \<longrightarrow> pinned j s)"

text \<open>A buffer in use is still that of the same block, and unless it is one of the zone map has the same contents.\<close>

definition kept :: "super_block \<Rightarrow> fs_state \<Rightarrow> fs_state \<Rightarrow> nat \<Rightarrow> bool" where
  "kept sb s t j \<longleftrightarrow> b_dev (buf j t) = b_dev (buf j s) \<and> b_blocknr (buf j t) = b_blocknr (buf j s) \<and> b_uptodate (buf j t) \<noteq> 0 \<and>
     (Some j \<notin> set (s_zmap sb) \<longrightarrow> b_data (buf j t) = b_data (buf j s))"

text \<open>The blocks of \<open>K\<close> have been freed and nothing else has changed, apart from the inode table.\<close>

definition cleared :: "int \<Rightarrow> super_block \<Rightarrow> int set \<Rightarrow> fs_state \<Rightarrow> fs_state \<Rightarrow> bool" where
  "cleared dev sb K s t \<longleftrightarrow> cache_ok t \<and> counts t = counts s \<and> rest (t\<lparr>k_inodes := k_inodes s\<rparr>) = rest s \<and> zmap_ok dev sb t \<and>
     (\<forall>m<8192 * zslots sb. zbit sb t m \<longleftrightarrow> zbit sb s m \<and> m \<notin> zpos sb ` K) \<and>
     (\<forall>e n. e \<noteq> 0 \<longrightarrow> (e = dev \<longrightarrow> s_firstdatazone sb \<le> n \<and> n \<notin> K) \<longrightarrow> view t e n = view s e n) \<and>
     (\<forall>j. pinned j s \<longrightarrow> kept sb s t j)"

lemma mountedD:
  assumes "mounted dev sb p l s"
  shows "spare l s" "0 < dev" "dev < 65536" "zmap_ok dev sb s" "get_super dev s = Some p" "super p s = sb" "cache_ok s"
    "bufs_ok s" "\<And>j. j < length (fs_bufs s) \<Longrightarrow> 0 < b_count (buf j s) \<Longrightarrow> pinned j s"
  using assms by (simp_all add: mounted_def spare_def cache_ok_def)

lemma clearedD:
  assumes "cleared dev sb K s t"
  shows "cache_ok t" "counts t = counts s" "zmap_ok dev sb t" "length (fs_bufs t) = length (fs_bufs s)" "fs_supers t = fs_supers s"
    "fs_bad t = fs_bad s" "on_disk t = on_disk s" "\<And>j. j < length (fs_bufs s) \<Longrightarrow> b_count (buf j t) = b_count (buf j s)"
    "\<And>j. pinned j s \<Longrightarrow> kept sb s t j" "k_inodes t = k_inodes s \<Longrightarrow> rest t = rest s"
proof -
  show c: "cache_ok t" "counts t = counts s" "zmap_ok dev sb t" "fs_supers t = fs_supers s" "fs_bad t = fs_bad s"
    and l: "length (fs_bufs t) = length (fs_bufs s)" and "on_disk t = on_disk s" and "pinned j s \<Longrightarrow> kept sb s t j"
    and "k_inodes t = k_inodes s \<Longrightarrow> rest t = rest s" for j
    using assms by (simp_all add: cleared_def rest_def on_disk_def [abs_def])
  show "b_count (buf j t) = b_count (buf j s)" if "j < length (fs_bufs s)" for j
    using c(2) l that by (metis nth_counts)
qed

lemma cleared_seen:
  "cleared dev sb K s t \<Longrightarrow> \<forall>m<8192 * zslots sb. zbit sb t m \<longleftrightarrow> zbit sb s m \<and> m \<notin> zpos sb ` K"
  "cleared dev sb K s t \<Longrightarrow> 0 < dev \<Longrightarrow> \<forall>n. s_firstdatazone sb \<le> n \<and> n \<notin> K \<longrightarrow> view t dev n = view s dev n"
  by (simp_all add: cleared_def)

lemma get_super_supers: "fs_supers t = fs_supers s \<Longrightarrow> get_super d t = get_super d s \<and> super p t = super p s"
  by (simp add: get_super_def super_def)

lemma cleared_mounted:
  assumes m: "mounted dev sb p l s" and c: "cleared dev sb K s t"
  shows "mounted dev sb p l t"
proof -
  note M = mountedD [OF m] and C = clearedD [OF c]
  have "pinned j t" if j: "j < length (fs_bufs t)" "0 < b_count (buf j t)" for j
    using M(9) [of j] C(9) [of j] C(4,6) C(8) [of j] j by (simp add: pinned_def kept_def)
  then show ?thesis using M C by (simp add: mounted_def spare_def get_super_supers [OF C(5)])
qed

lemma cleared_pinned: "cleared dev sb K s t \<Longrightarrow> pinned j s \<Longrightarrow> pinned j t"
  using clearedD(4,6) [of dev sb K s t] clearedD(8,9) [of dev sb K s t j] by (auto simp: pinned_def kept_def)

lemma cleared_trans:
  assumes c: "cleared dev sb K s t" and d: "cleared dev sb L t u"
  shows "cleared dev sb (K \<union> L) s u"
proof -
  have "kept sb s u j" if "pinned j s" for j
    using clearedD(9) [OF c that] clearedD(9) [OF d cleared_pinned [OF c that]] by (auto simp: kept_def)
  moreover have "rest (u\<lparr>k_inodes := k_inodes s\<rparr>) = rest s" using c d by (auto simp: cleared_def rest_def)
  ultimately show ?thesis using c d by (auto simp: cleared_def image_Un)
qed

lemma cleared_refl: "mounted dev sb p l s \<Longrightarrow> cleared dev sb {} s s"
  by (auto simp: cleared_def mounted_def spare_def kept_def pinned_def)

lemma cleared_allocated:
  assumes m: "mounted dev sb p l s" and c: "cleared dev sb K s t" and a: "allocated dev sb s n" and n: "n \<notin> K"
    and K: "\<forall>k\<in>K. s_firstdatazone sb \<le> k"
  shows "allocated dev sb t n"
proof -
  note M = mountedD [OF m] and C = clearedD [OF c]
  have "zpos sb n \<notin> zpos sb ` K" using a n K zpos_image [of sb n K] by (simp add: allocated_def)
  then have "zbit sb t (zpos sb n)" using a c by (simp add: cleared_def allocated_def)
  moreover have "b_count (buf i t) = 0" if i: "i < length (fs_bufs t)" "holds t dev n i" for i
  proof (rule ccontr)
    assume "b_count (buf i t) \<noteq> 0"
    then have b: "b_count (buf i s) \<noteq> 0" using i(1) C(4,8) by simp
    have "0 \<le> b_count (buf i s)" using M(1) i(1) C(4) by (metis spare_def nth_counts nth_mem length_counts)
    then have "pinned i s" using M(9) [of i] b i(1) C(4) by simp
    then have "holds s dev n i" using C(9) [of i] i(2) by (simp add: kept_def holds_def)
    then show False using a b i(1) C(4) by (simp add: allocated_def)
  qed
  ultimately show ?thesis using a by (simp add: allocated_def)
qed

section \<open>Freeing one block\<close>

lemma drop_buffer_eq:
  assumes ok: "cache_ok s" "0 < d" and free: "\<forall>i<length (fs_bufs s). holds s d n i \<longrightarrow> b_count (buf i s) = 0"
  shows "drop_buffer d n s = Done (case find_buffer d n s of None \<Rightarrow> s | Some i \<Rightarrow> upd_buf i (\<lambda>b. b\<lparr>b_dirt := 0, b_uptodate := 0\<rparr>) s)"
proof (cases "find_buffer d n s")
  case None
  then show ?thesis by (simp add: drop_buffer_def get_hash_table_def)
next
  case (Some i)
  then have i: "i < length (fs_bufs s)" "b_count (buf i s) = 0"
    using find_buffer_iff [of s d n i] ok free by (auto simp: cache_ok_def)
  have lock: "b_lock (buf i s) = 0" using ok i by (auto simp: cache_ok_def bufs_ok_def buf_ok_def)
  have e: "(fs_bufs s ! i)\<lparr>b_dirt := 0, b_uptodate := 0, b_count := 0\<rparr> = (fs_bufs s ! i)\<lparr>b_dirt := 0, b_uptodate := 0\<rparr>"
    using i(2) by (cases "fs_bufs s ! i") (simp add: buf_def)
  then show ?thesis using Some lock i
    by (simp add: drop_buffer_def get_hash_table_def Let_def wait_on_buffer_def brelse_def u8_def) (simp add: upd_buf_def buf_def e)
qed

lemma forget_view:
  assumes ok: "bufs_ok s" "bufs_ok (upd_buf i f s)" and i: "i < length (fs_bufs s)" "holds s d n i"
    and f: "\<And>b. b_dev (f b) = b_dev b" "\<And>b. b_blocknr (f b) = b_blocknr b" and e: "e \<noteq> 0" "(e, m) \<noteq> (d, n)"
  shows "view (upd_buf i f s) e m = view s e m"
proof -
  have h: "holds (upd_buf i f s) x y j = holds s x y j" for x y j using i(1) f by (simp add: holds_def)
  have l: "length (fs_bufs (upd_buf i f s)) = length (fs_bufs s)" "fs_disk (upd_buf i f s) = fs_disk s" by simp_all
  show ?thesis
  proof (cases "\<exists>j<length (fs_bufs s). holds s e m j")
    case True
    then obtain j where j: "j < length (fs_bufs s)" "holds s e m j" by blast
    then have "j \<noteq> i" using i(2) e(2) by (auto simp: holds_def)
    then have "buf j (upd_buf i f s) = buf j s" using i(1) by simp
    then show ?thesis using view_cached [OF ok(1) j(1) e(1) j(2)] view_cached [OF ok(2) _ e(1), of j m] j h l by simp
  next
    case False
    then show ?thesis using view_uncached [of s e m] view_uncached [of "upd_buf i f s" e m] h l by auto
  qed
qed

lemma zmap_okD:
  assumes "zmap_ok dev sb s" "k < zslots sb"
  obtains z n where "s_zmap sb ! k = Some z" "z < length (fs_bufs s)" "length (b_data (buf z s)) = 1024" "0 < b_count (buf z s)"
    "b_uptodate (buf z s) \<noteq> 0" "holds s dev n z" "n < s_firstdatazone sb" "on_disk s dev n"
  using assms unfolding zmap_ok_def by blast

text \<open>The zone map is as good after a change that keeps its buffers.\<close>

lemma zmap_ok_kept:
  assumes z: "zmap_ok dev sb s" and od: "on_disk t = on_disk s" and l: "length (fs_bufs t) = length (fs_bufs s)"
    and k: "\<And>z. Some z \<in> set (s_zmap sb) \<Longrightarrow> z < length (fs_bufs s) \<Longrightarrow> 0 < b_count (buf z s) \<Longrightarrow> b_uptodate (buf z s) \<noteq> 0 \<Longrightarrow>
      0 < b_count (buf z t) \<and> b_uptodate (buf z t) \<noteq> 0 \<and> b_dev (buf z t) = b_dev (buf z s) \<and> b_blocknr (buf z t) = b_blocknr (buf z s) \<and>
      length (b_data (buf z t)) = length (b_data (buf z s))"
  shows "zmap_ok dev sb t"
proof -
  have "\<exists>z n. s_zmap sb ! h = Some z \<and> z < length (fs_bufs t) \<and> length (b_data (buf z t)) = 1024 \<and>
      0 < b_count (buf z t) \<and> b_uptodate (buf z t) \<noteq> 0 \<and> holds t dev n z \<and> n < s_firstdatazone sb \<and> on_disk t dev n"
    if h: "h < zslots sb" for h
  proof -
    obtain z n where zn: "s_zmap sb ! h = Some z" "z < length (fs_bufs s)" "length (b_data (buf z s)) = 1024" "0 < b_count (buf z s)"
      "b_uptodate (buf z s) \<noteq> 0" "holds s dev n z" "n < s_firstdatazone sb" "on_disk s dev n" by (rule zmap_okD [OF z h])
    have "h < length (s_zmap sb)" using z h by (simp add: zmap_ok_def)
    then have "Some z \<in> set (s_zmap sb)" using zn(1) by (metis nth_mem)
    from k [OF this zn(2,4,5)] show ?thesis using zn l od by (auto simp: holds_def)
  qed
  then show ?thesis using z od unfolding zmap_ok_def by simp
qed

text \<open>Dropping the buffer is seen at that block only.\<close>

lemma drop_buffer_keeps:
  assumes ok: "cache_ok s" "0 < d" and free: "\<forall>i<length (fs_bufs s). holds s d n i \<longrightarrow> b_count (buf i s) = 0"
  shows "\<exists>t. drop_buffer d n s = Done t \<and> cache_ok t \<and> length (fs_bufs t) = length (fs_bufs s) \<and> on_disk t = on_disk s \<and>
    counts t = counts s \<and> rest t = rest s \<and> (\<forall>i<length (fs_bufs s). b_count (buf i s) \<noteq> 0 \<longrightarrow> buf i t = buf i s) \<and>
    (\<forall>e m. e \<noteq> 0 \<longrightarrow> (e, m) \<noteq> (d, n) \<longrightarrow> view t e m = view s e m)"
proof (cases "find_buffer d n s")
  case None
  then show ?thesis using drop_buffer_eq [OF ok free] ok by simp
next
  case (Some i)
  let ?t = "upd_buf i (\<lambda>b. b\<lparr>b_dirt := 0, b_uptodate := 0\<rparr>) s"
  have i: "i < length (fs_bufs s)" "holds s d n i" using find_buffer_iff [of s d n i] Some ok by (auto simp: cache_ok_def)
  have c: "cache_ok ?t" by (rule forget_ok [OF ok(1) i(1)]) simp_all
  have "counts ?t = counts s" using i(1) by (simp add: counts_def upd_buf_def map_update_same)
  moreover have "buf j ?t = buf j s" if "j < length (fs_bufs s)" "b_count (buf j s) \<noteq> 0" for j
    using that i free by (cases "j = i") auto
  moreover have "view ?t e m = view s e m" if "e \<noteq> 0" "(e, m) \<noteq> (d, n)" for e m
    by (rule forget_view [OF _ _ i _ _ that]) (use ok c in \<open>simp_all add: cache_ok_def\<close>)
  moreover have "on_disk ?t = on_disk s" by (simp add: on_disk_def [abs_def])
  moreover have "drop_buffer d n s = Done ?t" using drop_buffer_eq [OF ok free] Some by simp
  ultimately show ?thesis using c by simp
qed

text \<open>Clearing the bit of a block in the zone map.\<close>

lemma clear_bit:
  assumes m: "cache_ok s" "0 < dev" "zmap_ok dev sb s" and n: "s_firstdatazone sb \<le> n" "zpos sb n < 8192 * zslots sb"
    and z: "s_zmap sb ! (zpos sb n div 8192) = Some z"
  defines "t \<equiv> upd_buf z (\<lambda>b. b\<lparr>b_data := put_bit (zpos sb n mod 8192) False (b_data b), b_dirt := 1\<rparr>) s"
  shows "cleared dev sb {n} s t"
proof -
  let ?i = "zpos sb n div 8192" and ?j = "zpos sb n mod 8192"
  let ?g = "\<lambda>b. b\<lparr>b_data := put_bit ?j False (b_data b), b_dirt := 1\<rparr>"
  have i: "?i < zslots sb" using n(2) by (simp add: less_mult_imp_div_less mult.commute)
  obtain x where Z: "z < length (fs_bufs s)" "0 < b_count (buf z s)" "b_uptodate (buf z s) \<noteq> 0" "holds s dev x z"
    "x < s_firstdatazone sb" "on_disk s dev x" using zmap_okD [OF m(3) i] z by (metis option.inject)
  have "?i < length (s_zmap sb)" using m(3) i by (simp add: zmap_ok_def)
  then have zs: "Some z \<in> set (s_zmap sb)" using z by (metis nth_mem)
  note mo = modify_ok [OF m(1) Z(1,4) m(2) Z(6), where f = "?g", folded t_def]
  have c: "cache_ok t" and od: "on_disk t = on_disk s" by (rule mo(1) mo(4); use Z(3) in simp)+
  have v: "view t e k = view s e k" if "e \<noteq> 0" "e = dev \<longrightarrow> s_firstdatazone sb \<le> k \<and> k \<notin> {n}" for e k
    by (rule mo(3)) (use that Z(3,5) in auto)
  have f: "b_dev (buf j t) = b_dev (buf j s)" "b_blocknr (buf j t) = b_blocknr (buf j s)" "b_uptodate (buf j t) = b_uptodate (buf j s)"
    "b_count (buf j t) = b_count (buf j s)" "length (b_data (buf j t)) = length (b_data (buf j s))" "j \<noteq> z \<Longrightarrow> buf j t = buf j s"
    "length (fs_bufs t) = length (fs_bufs s)" for j using Z(1) by (simp_all add: t_def)
  have cs: "counts t = counts s" by (rule nth_equalityI) (use f in simp_all)
  have zo: "zmap_ok dev sb t" by (rule zmap_ok_kept [OF m(3) od f(7)]) (simp add: f)
  have "zbit sb t l = (l \<noteq> zpos sb n \<and> zbit sb s l)" if "l < 8192 * zslots sb" for l
  proof -
    have "zbit sb t l = (if l = 8192 * ?i + ?j then False else zbit sb s l)"
      by (rule zbit_put [OF m(3) i z _ that]) (use Z(1) f in \<open>simp_all add: t_def\<close>)
    then show ?thesis by auto
  qed
  moreover have "kept sb s t j" if "pinned j s" for j using that f zs by (cases "j = z") (simp_all add: kept_def pinned_def)
  moreover have "rest (t\<lparr>k_inodes := k_inodes s\<rparr>) = rest s" by (simp add: t_def rest_def upd_buf_def)
  ultimately show ?thesis using c cs zo v by (auto simp: cleared_def)
qed

lemma free_block_cleared:
  assumes m: "mounted dev sb p l s" and a: "allocated dev sb s n"
  shows "\<exists>t. free_block dev n s = Done t \<and> cleared dev sb {n} s t \<and> k_inodes t = k_inodes s"
proof -
  note M = mountedD [OF m]
  have A: "s_firstdatazone sb \<le> n" "n < s_nzones sb" "zpos sb n < 8192 * zslots sb" "zbit sb s (zpos sb n)"
    "\<forall>i<length (fs_bufs s). holds s dev n i \<longrightarrow> b_count (buf i s) = 0" using a by (simp_all add: allocated_def)
  obtain z where z: "s_zmap sb ! (zpos sb n div 8192) = Some z" "0 < b_count (buf z s)" "z < length (fs_bufs s)"
    using zmap_okD [OF M(4), of "zpos sb n div 8192"] A(3) by (metis less_mult_imp_div_less mult.commute)
  from drop_buffer_keeps [OF M(7,2) A(5)] obtain t where
    t: "drop_buffer dev n s = Done t" "cache_ok t" "length (fs_bufs t) = length (fs_bufs s)" "on_disk t = on_disk s" "counts t = counts s"
      "rest t = rest s" "\<forall>i<length (fs_bufs s). b_count (buf i s) \<noteq> 0 \<longrightarrow> buf i t = buf i s"
      "\<forall>e m. e \<noteq> 0 \<longrightarrow> (e, m) \<noteq> (dev, n) \<longrightarrow> view t e m = view s e m" by (elim exE conjE)
  let ?u = "upd_buf z (\<lambda>b. b\<lparr>b_data := put_bit (zpos sb n mod 8192) False (b_data b), b_dirt := 1\<rparr>) t"
  have r: "free_block dev n s = Done ?u"
    by (rule free_block_runs [OF M(7,2,4-6) A(1,2) zpos_def A(3-5) z t(1)])
  have zo: "zmap_ok dev sb t" by (rule zmap_ok_kept [OF M(4) t(4,3)]) (use t(7) in simp)
  note c = clear_bit [OF t(2) M(2) zo A(1,3) z(1)]
  have in_use: "0 < b_count (buf (the (s_zmap sb ! k)) s) \<and> the (s_zmap sb ! k) < length (fs_bufs s)" if "k < zslots sb" for k
    by (rule zmap_okD [OF M(4) that]) simp
  have "zbit sb t k = zbit sb s k" if "k < 8192 * zslots sb" for k
    using in_use [of "k div 8192"] t(7) that by (simp add: zbit_def less_mult_imp_div_less mult.commute)
  moreover have "pinned j s \<Longrightarrow> buf j t = buf j s" for j using t(7) by (simp add: pinned_def)
  moreover have "pinned j s \<Longrightarrow> pinned j t" for j using calculation(2) t(3,6) by (simp add: pinned_def rest_def)
  moreover have "fs_bad t = fs_bad s" "k_inodes t = k_inodes s" using t(6) by (simp_all add: rest_def)
  ultimately have "cleared dev sb {n} s ?u"
    using c t(5,6,8) unfolding cleared_def kept_def by auto
  then show ?thesis using r t(6) by (auto simp: rest_def upd_buf_def)
qed

section \<open>Holding an indirect block\<close>

lemma data_zone_on_disk: "zmap_ok dev sb s \<Longrightarrow> allocated dev sb s n \<Longrightarrow> on_disk s dev n"
  by (simp add: zmap_ok_def allocated_def)

lemma held_counts: "held s d n b s1 \<Longrightarrow> j < length (fs_bufs s) \<Longrightarrow> b_count (buf j s1) = b_count (buf j s) + (if j = b then 1 else 0)"
  by (subst nth_counts [symmetric]) (auto simp: held_def rest_def nth_list_update)

lemma read_mounted:
  assumes m: "mounted dev sb p (Suc (Suc l)) s" and a: "allocated dev sb s n"
  shows "\<exists>b s1. bread dev n s = Done (Some b, s1) \<and> held s dev n b s1 \<and> mounted dev sb p (Suc l) s1 \<and> pinned b s1 \<and> Some b \<notin> set (s_zmap sb) \<and>
    (\<forall>j. pinned j s \<longrightarrow> pins j s s1)"
proof -
  note M = mountedD [OF m]
  have n: "s_firstdatazone sb \<le> n" "on_disk s dev n" using a data_zone_on_disk [OF M(4)] by (simp_all add: allocated_def)
  from bread_usable [OF spare_usable [OF M(1)] M(2,3) n(2)] obtain b s1 where
    b: "bread dev n s = Done (Some b, s1)" and h: "held s dev n b s1" by blast
  have H: "cache_ok s1" "b < length (fs_bufs s)" "holds s1 dev n b" "b_uptodate (buf b s1) \<noteq> 0" "rest s1 = rest s"
    using h by (simp_all add: held_def)
  have R: "length (fs_bufs s1) = length (fs_bufs s)" "fs_bad s1 = fs_bad s" "fs_supers s1 = fs_supers s" "on_disk s1 = on_disk s"
    using H(5) by (simp_all add: rest_def on_disk_def [abs_def])
  have pn: "pins j s s1" if "pinned j s" for j by (rule bread_pins [OF b that])
  have low: "0 \<le> b_count (buf j s) \<and> b_count (buf j s) + int (Suc (Suc l)) \<le> 255" if "j < length (fs_bufs s)" for j
    using M(1) that by (metis spare_def nth_counts nth_mem length_counts)
  note cnt = held_counts [OF h]
  have pb: "pinned b s1" using H R(1,2) cnt [of b] low [of b] n(2) by (simp add: pinned_def holds_def on_disk_def)
  have all: "pinned j s1" if j: "j < length (fs_bufs s1)" "0 < b_count (buf j s1)" for j
  proof (cases "j = b")
    case False
    then have c: "b_count (buf j s1) = b_count (buf j s)" using cnt [of j] j(1) R(1) by simp
    then have "pinned j s" using M(9) [of j] j R(1) by simp
    then show ?thesis using pins_pinned pn c by blast
  qed (use pb in simp)
  have keep: "0 < b_count (buf z s1) \<and> b_uptodate (buf z s1) \<noteq> 0 \<and> b_dev (buf z s1) = b_dev (buf z s) \<and>
      b_blocknr (buf z s1) = b_blocknr (buf z s) \<and> length (b_data (buf z s1)) = length (b_data (buf z s))"
    if "z < length (fs_bufs s)" "0 < b_count (buf z s)" for z
    using pn [OF M(9) [OF that]] cnt [OF that(1)] that(2) by (auto simp: pins_def)
  have zo: "zmap_ok dev sb s1" by (rule zmap_ok_kept [OF M(4) R(4,1)]) (use keep in blast)
  have "Some b \<notin> set (s_zmap sb)"
  proof
    assume "Some b \<in> set (s_zmap sb)"
    then obtain k where k: "k < length (s_zmap sb)" "s_zmap sb ! k = Some b" by (auto simp: in_set_conv_nth)
    then have "k < zslots sb" using zo unfolding zmap_ok_def by (cases "k < zslots sb") auto
    from zmap_okD [OF zo this] k(2) H(3) n(1) show False by (force simp: holds_def)
  qed
  moreover have "mounted dev sb p (Suc l) s1"
    using held_spare [OF M(1) h] M(2,3,5,6) zo all get_super_supers [OF R(3)] by (simp add: mounted_def)
  ultimately show ?thesis using b h pb pn by blast
qed

lemma zbit_pins:
  assumes z: "zmap_ok dev sb s" and n: "k < 8192 * zslots sb"
    and p: "\<And>j. j < length (fs_bufs s) \<Longrightarrow> 0 < b_count (buf j s) \<Longrightarrow> b_data (buf j t) = b_data (buf j s)"
  shows "zbit sb t k = zbit sb s k"
proof -
  have "k div 8192 < zslots sb" using n by (simp add: less_mult_imp_div_less mult.commute)
  from zmap_okD [OF z this] p show ?thesis by (metis zbit_def option.sel)
qed

text \<open>Releasing it after more blocks have been freed.\<close>

lemma release_cleared:
  assumes m: "mounted dev sb p (Suc (Suc l)) s" and h: "held s dev n b s1" and m1: "mounted dev sb p (Suc l) s1"
    and pb: "pinned b s1" and nb: "Some b \<notin> set (s_zmap sb)" and pn: "\<forall>j. pinned j s \<longrightarrow> pins j s s1" and c: "cleared dev sb K s1 t"
  shows "\<exists>u. brelse (Some b) t = Done u \<and> cleared dev sb K s u \<and> k_inodes u = k_inodes t"
proof -
  note M = mountedD [OF m] and M1 = mountedD [OF m1] and C = clearedD [OF c]
  have H: "counts s1 = (counts s)[b := counts s ! b + 1]" "same_view s s1" "rest s1 = rest s" "b < length (fs_bufs s)"
    using h by (simp_all add: held_def)
  have L: "length (fs_bufs s1) = length (fs_bufs s)" "k_inodes s1 = k_inodes s" "on_disk s1 = on_disk s"
    using H(3) by (simp_all add: rest_def on_disk_def [abs_def])
  have bt: "b < length (fs_bufs t)" "0 < b_count (buf b t)" "b_count (buf b t) < 256"
    using C(4,8) pb L(1) H(4) by (simp_all add: pinned_def)
  from brelse_settled [OF C(1) bt] obtain u where
    u: "brelse (Some b) t = Done u" "cache_ok u" "same_view t u" "counts u = (counts t)[b := counts t ! b - 1]" "rest u = rest t" by blast
  have U: "length (fs_bufs u) = length (fs_bufs s)" "on_disk u = on_disk t" "k_inodes u = k_inodes t"
    using u(5) C(4) L(1) by (simp_all add: rest_def on_disk_def [abs_def])
  have cu: "counts u = counts s" using u(4) C(2) H(1,4) by simp
  have dt: "b_data (buf j u) = b_data (buf j t) \<and> b_dev (buf j u) = b_dev (buf j t) \<and> b_blocknr (buf j u) = b_blocknr (buf j t) \<and> b_uptodate (buf j u) \<noteq> 0"
    if "b_uptodate (buf j t) \<noteq> 0" for j using brelse_pins [OF u(1) that] by (simp add: pins_def)
  have k: "kept sb s u j" if p: "pinned j s" for j
  proof -
    have "pins j s s1" "j < length (fs_bufs s)" using pn p by (simp_all add: pinned_def)
    moreover have "0 < b_count (buf j s1)" using held_counts [OF h calculation(2)] p by (simp add: pinned_def split: if_splits)
    then have "pinned j s1" using M1(9) calculation(2) L(1) by simp
    ultimately show ?thesis using C(9) dt by (simp add: kept_def pins_def)
  qed
  have T: "pinned j t" if "j < length (fs_bufs t)" "0 < b_count (buf j t)" for j
    using mountedD(9) [OF cleared_mounted [OF m1 c]] that by blast
  have dz: "b_data (buf j u) = b_data (buf j t)" if "j < length (fs_bufs t)" "0 < b_count (buf j t)" for j
    using dt [of j] T [OF that] by (simp add: pinned_def)
  have cz: "b_count (buf j u) = b_count (buf j t)" if "j < length (fs_bufs t)" "Some j \<in> set (s_zmap sb)" for j
  proof -
    have "j \<noteq> b" using that(2) nb by blast
    then show ?thesis using u(4) that(1) U(1) C(4) L(1) by (metis nth_counts nth_list_update_neq)
  qed
  have zo: "zmap_ok dev sb u" by (rule zmap_ok_kept [OF C(3) U(2)]) (use U(1) C(4) L(1) dt cz in auto)
  have zb: "zbit sb u x = zbit sb t x \<and> zbit sb s1 x = zbit sb s x" if "x < 8192 * zslots sb" for x
    using zbit_pins [OF C(3) that dz] zbit_pins [OF M(4) that, of s1] pn M(9) by (simp add: pins_def)
  have "view u e x = view s e x" if "e \<noteq> 0" "e = dev \<longrightarrow> s_firstdatazone sb \<le> x \<and> x \<notin> K" for e x
    using c u(3) H(2) that by (simp add: cleared_def same_view_def)
  moreover have "rest (u\<lparr>k_inodes := k_inodes s\<rparr>) = rest s"
    using c u(5) H(3) L(2) by (simp add: cleared_def rest_def)
  ultimately have "cleared dev sb K s u" using u(2) cu zo zb k c by (auto simp: cleared_def)
  then show ?thesis using u(1) U(3) by blast
qed

lemma read_allocated:
  assumes h: "held s dev n b s1" and m: "mounted dev sb p (Suc (Suc l)) s" and pn: "\<forall>j. pinned j s \<longrightarrow> pins j s s1"
    and a: "allocated dev sb s k" "k \<noteq> n"
  shows "allocated dev sb s1 k"
proof -
  note M = mountedD [OF m]
  have L: "length (fs_bufs s1) = length (fs_bufs s)" "holds s1 dev n b" using h by (simp_all add: held_def rest_def)
  have "b_count (buf i s1) = 0" if i: "i < length (fs_bufs s1)" "holds s1 dev k i" for i
  proof -
    have "i \<noteq> b" using i(2) L(2) a(2) by (auto simp: holds_def)
    then have c: "b_count (buf i s1) = b_count (buf i s)" using held_counts [OF h, of i] i(1) L(1) by simp
    have "0 \<le> b_count (buf i s)" using M(1) i(1) L(1) by (metis spare_def nth_counts nth_mem length_counts)
    moreover have "\<not> 0 < b_count (buf i s)"
    proof
      assume b: "0 < b_count (buf i s)"
      then have "pins i s s1" using M(9) [of i] pn i(1) L(1) by simp
      then have "holds s dev k i" using i(2) by (simp add: pins_def holds_def)
      then show False using a(1) b i(1) L(1) by (simp add: allocated_def)
    qed
    ultimately show ?thesis using c by simp
  qed
  moreover have "zbit sb s1 (zpos sb k) = zbit sb s (zpos sb k)"
    by (rule zbit_pins [OF M(4)]) (use a(1) pn M(9) in \<open>simp_all add: allocated_def pins_def\<close>)
  ultimately show ?thesis using a(1) by (simp add: allocated_def)
qed

section \<open>The blocks of a tree\<close>

text \<open>What an indirect block points to, and the blocks below one, in the order in which they are freed.\<close>

definition entries :: "byte list \<Rightarrow> nat list \<Rightarrow> int list" where
  "entries d ks = filter (\<lambda>z. z \<noteq> 0) (map (\<lambda>k. get_zone k d) ks)"

fun tree :: "nat \<Rightarrow> int \<Rightarrow> fs_state \<Rightarrow> int \<Rightarrow> int list" where
  "tree 0 dev s n = [n]"
| "tree (Suc l) dev s n = concat (map (tree l dev s) (entries (view s dev n) [0..<512])) @ [n]"

lemma tree_self: "n \<in> set (tree l dev s n)"
  by (cases l) simp_all

lemma tree_cong: "\<forall>k\<in>set (tree l dev s n). view t dev k = view s dev k \<Longrightarrow> tree l dev t n = tree l dev s n"
proof (induction l arbitrary: n)
  case (Suc l)
  have "view t dev n = view s dev n" using Suc.prems by simp
  moreover have "tree l dev t k = tree l dev s k" if "k \<in> set (entries (view s dev n) [0..<512])" for k
    by (rule Suc.IH) (use Suc.prems that in auto)
  ultimately show ?case by (simp cong: map_cong)
qed simp

text \<open>Blocks that can all be freed, each once.\<close>

definition owned :: "int \<Rightarrow> super_block \<Rightarrow> fs_state \<Rightarrow> int list \<Rightarrow> bool" where
  "owned dev sb s ns \<longleftrightarrow> distinct ns \<and> (\<forall>n\<in>set ns. allocated dev sb s n)"

lemma owned_append: "owned dev sb s (ns @ ms) \<longleftrightarrow> owned dev sb s ns \<and> owned dev sb s ms \<and> set ns \<inter> set ms = {}"
  by (auto simp: owned_def)

lemma cleared_tree:
  assumes m: "mounted dev sb p l s" and c: "cleared dev sb K s t" and o: "owned dev sb s (tree h dev s n)" and d: "set (tree h dev s n) \<inter> K = {}"
  shows "tree h dev t n = tree h dev s n"
proof (rule tree_cong, intro ballI)
  fix k assume k: "k \<in> set (tree h dev s n)"
  then have "s_firstdatazone sb \<le> k" "k \<notin> K" using o d by (auto simp: owned_def allocated_def)
  then show "view t dev k = view s dev k" using c mountedD(2) [OF m] by (simp add: cleared_def)
qed

lemma cleared_owned:
  assumes m: "mounted dev sb p l s" and c: "cleared dev sb (set ks) s t" and o: "owned dev sb s (ks @ ns)"
  shows "owned dev sb t ns"
  using o cleared_allocated [OF m c] by (auto simp: owned_def allocated_def)

lemma owned_concat:
  "owned dev sb s (concat (map g zs)) \<Longrightarrow> z \<in> set zs \<Longrightarrow> owned dev sb s (g z)"
  by (induction zs) (auto simp: owned_append)

lemma cleared_forest:
  assumes m: "mounted dev sb p l s" and c: "cleared dev sb (set ks) s t" and o: "owned dev sb s (ks @ concat (map (tree h dev s) zs))"
  shows "concat (map (tree h dev t) zs) = concat (map (tree h dev s) zs)" "owned dev sb t (concat (map (tree h dev t) zs))"
proof -
  have "tree h dev t z = tree h dev s z" if "z \<in> set zs" for z
    by (rule cleared_tree [OF m c]) (use o owned_concat that in \<open>auto simp: owned_append\<close>)
  then show e: "concat (map (tree h dev t) zs) = concat (map (tree h dev s) zs)" by (metis (no_types, lifting) map_cong)
  show "owned dev sb t (concat (map (tree h dev t) zs))" unfolding e by (rule cleared_owned [OF m c o])
qed

section \<open>Freeing a tree\<close>

text \<open>\<open>f\<close> frees the trees of height \<open>l\<close>; it needs one free buffer for each indirect block it holds.\<close>

definition frees :: "int \<Rightarrow> super_block \<Rightarrow> nat \<Rightarrow> nat \<Rightarrow> (int \<Rightarrow> fs_state \<Rightarrow> fs_state outcome) \<Rightarrow> bool" where
  "frees dev sb p l f \<longleftrightarrow> (\<forall>s n. mounted dev sb p (Suc l) s \<longrightarrow> n \<noteq> 0 \<longrightarrow> owned dev sb s (tree l dev s n) \<longrightarrow>
     (\<exists>t. f n s = Done t \<and> cleared dev sb (set (tree l dev s n)) s t \<and> k_inodes t = k_inodes s))"

lemma free_entries_frees:
  assumes f: "frees dev sb p l f"
  shows "mounted dev sb p (Suc l) s \<Longrightarrow> pinned b s \<Longrightarrow> Some b \<notin> set (s_zmap sb) \<Longrightarrow>
    owned dev sb s (concat (map (tree l dev s) (entries (b_data (buf b s)) ks))) \<Longrightarrow>
    \<exists>t. free_entries f b ks s = Done t \<and> cleared dev sb (set (concat (map (tree l dev s) (entries (b_data (buf b s)) ks)))) s t \<and> k_inodes t = k_inodes s"
proof (induction ks arbitrary: s)
  case Nil
  then show ?case using cleared_refl by (auto simp: entries_def)
next
  case (Cons k ks)
  let ?d = "b_data (buf b s)"
  let ?z = "get_zone k ?d"
  show ?case
  proof (cases "?z = 0")
    case True
    then show ?thesis using Cons.IH [OF Cons.prems(1-3)] Cons.prems(4) by (simp add: entries_def Let_def)
  next
    case False
    have o: "owned dev sb s (tree l dev s ?z @ concat (map (tree l dev s) (entries ?d ks)))"
      using Cons.prems(4) False by (simp add: entries_def)
    from f Cons.prems(1) False o obtain t where t: "f ?z s = Done t" "cleared dev sb (set (tree l dev s ?z)) s t" "k_inodes t = k_inodes s"
      unfolding frees_def owned_append by blast
    have d: "b_data (buf b t) = ?d" using clearedD(9) [OF t(2) Cons.prems(2)] Cons.prems(3) by (simp add: kept_def)
    note F = cleared_forest [OF Cons.prems(1) t(2) o]
    from Cons.IH [OF cleared_mounted [OF Cons.prems(1) t(2)] cleared_pinned [OF t(2) Cons.prems(2)] Cons.prems(3)] F(2) d
    obtain u where u: "free_entries f b ks t = Done u" "cleared dev sb (set (concat (map (tree l dev t) (entries ?d ks)))) t u" "k_inodes u = k_inodes t"
      by auto
    have "cleared dev sb (set (tree l dev s ?z) \<union> set (concat (map (tree l dev s) (entries ?d ks)))) s u"
      by (rule cleared_trans [OF t(2)]) (use u(2) F(1) in simp)
    then show ?thesis using t u False by (simp add: entries_def Let_def)
  qed
qed

lemma free_block_frees: "frees dev sb p 0 (free_block dev)"
  using free_block_cleared by (simp add: frees_def owned_def)

lemma free_tree_frees:
  assumes f: "frees dev sb p l f"
  shows "frees dev sb p (Suc l) (free_tree f dev)"
  unfolding frees_def
proof (intro allI impI)
  fix s n
  assume m: "mounted dev sb p (Suc (Suc l)) s" and n: "n \<noteq> 0" and o: "owned dev sb s (tree (Suc l) dev s n)"
  let ?zs = "entries (view s dev n) [0..<512]"
  let ?K = "concat (map (tree l dev s) ?zs)"
  have a: "allocated dev sb s n" "n \<notin> set ?K" and ok: "owned dev sb s ?K" using o by (auto simp: owned_def)
  from read_mounted [OF m a(1)] obtain b s1 where b: "bread dev n s = Done (Some b, s1)" "held s dev n b s1" "mounted dev sb p (Suc l) s1"
    "pinned b s1" "Some b \<notin> set (s_zmap sb)" "\<forall>j. pinned j s \<longrightarrow> pins j s s1" by blast
  have d: "b_data (buf b s1) = view s dev n" and v: "same_view s s1" using b(2) by (simp_all add: held_def)
  have tr: "tree h dev s1 = tree h dev s" for h by (rule ext, rule tree_cong) (use v mountedD(2) [OF m] in \<open>simp add: same_view_def\<close>)
  then have K: "concat (map (tree l dev s1) ?zs) = ?K" by simp
  have "owned dev sb s1 ?K" using ok read_allocated [OF b(2) m b(6)] a(2) by (auto simp: owned_def)
  then obtain t where t: "free_entries f b [0..<512] s1 = Done t" "cleared dev sb (set ?K) s1 t" "k_inodes t = k_inodes s1"
    using free_entries_frees [OF f b(3-5), of "[0..<512]"] unfolding d K by blast
  from release_cleared [OF m b(2-6) t(2)] obtain u where u: "brelse (Some b) t = Done u" "cleared dev sb (set ?K) s u" "k_inodes u = k_inodes t" by blast
  have "allocated dev sb u n"
    by (rule cleared_allocated [OF m u(2) a]) (use ok in \<open>auto simp: owned_def allocated_def\<close>)
  from free_block_cleared [OF cleared_mounted [OF m u(2)] this] obtain w where
    w: "free_block dev n u = Done w" "cleared dev sb {n} u w" "k_inodes w = k_inodes u" by blast
  have "free_tree f dev n s = Done w" using n b(1) t(1) u(1) w(1) by (simp add: free_tree_def)
  moreover have "cleared dev sb (set (tree (Suc l) dev s n)) s w" using cleared_trans [OF u(2) w(2)] by simp
  moreover have "k_inodes w = k_inodes s" using w(3) u(3) t(3) b(2) by (simp add: held_def rest_def)
  ultimately show "\<exists>t. free_tree f dev n s = Done t \<and> cleared dev sb (set (tree (Suc l) dev s n)) s t \<and> k_inodes t = k_inodes s" by blast
qed

lemma free_ind_frees: "frees dev sb p 1 (free_ind dev)"
  using free_tree_frees [OF free_block_frees] by (simp add: free_ind_def [abs_def])

lemma free_dind_frees: "frees dev sb p 2 (free_dind dev)"
  using free_tree_frees [OF free_ind_frees] by (simp add: free_dind_def [abs_def] numeral_2_eq_2)

section \<open>Truncating a file\<close>

text \<open>The inode table is not looked at.\<close>

lemma inode_frame [simp]:
  "zbit sb (upd_ino i f s) = zbit sb s" "zmap_ok dev sb (upd_ino i f s) = zmap_ok dev sb s" "pinned j (upd_ino i f s) = pinned j s"
  "allocated dev sb (upd_ino i f s) = allocated dev sb s" "tree h dev (upd_ino i f s) = tree h dev s" "mounted dev sb p l (upd_ino i f s) = mounted dev sb p l s"
  "cleared dev sb K s (upd_ino i f t) = cleared dev sb K s t" "cleared dev sb K (upd_ino i f s) t = cleared dev sb K s t"
  "owned dev sb (upd_ino i f s) = owned dev sb s"
proof -
  have b: "buf j (upd_ino i f s) = buf j s" "holds (upd_ino i f s) = holds s" "length (fs_bufs (upd_ino i f s)) = length (fs_bufs s)"
    "fs_bad (upd_ino i f s) = fs_bad s" "on_disk (upd_ino i f s) = on_disk s" "get_super d (upd_ino i f s) = get_super d s"
    "super q (upd_ino i f s) = super q s" "counts (upd_ino i f s) = counts s" "view (upd_ino i f s) = view s" for j d q i f and s :: fs_state
    by (simp_all add: upd_ino_def get_super_def super_def)
  show z: "zbit sb (upd_ino i f s) = zbit sb s" for s by (simp add: zbit_def [abs_def] b)
  show k: "zmap_ok dev sb (upd_ino i f s) = zmap_ok dev sb s" for s by (simp add: zmap_ok_def b)
  show p: "pinned j (upd_ino i f s) = pinned j s" for s j by (simp add: pinned_def b)
  show a: "allocated dev sb (upd_ino i f s) = allocated dev sb s" by (simp add: allocated_def [abs_def] b z)
  show "owned dev sb (upd_ino i f s) = owned dev sb s" by (simp add: owned_def [abs_def] a)
  show "tree h dev (upd_ino i f s) = tree h dev s" by (rule ext, rule tree_cong) simp
  show "mounted dev sb p l (upd_ino i f s) = mounted dev sb p l s" by (simp add: mounted_def k p b)
  show "cleared dev sb K s (upd_ino i f t) = cleared dev sb K s t"
    by (simp add: cleared_def kept_def b k z) (simp add: upd_ino_def rest_def)
  show "cleared dev sb K (upd_ino i f s) t = cleared dev sb K s t"
    by (simp add: cleared_def kept_def b k z p) (simp add: upd_ino_def rest_def)
qed

lemma mounted_less: "mounted dev sb p (Suc l) s \<Longrightarrow> mounted dev sb p l s"
  by (auto simp: mounted_def spare_def)

definition zero_zones :: "nat list \<Rightarrow> int list \<Rightarrow> int list" where
  "zero_zones ks z = fold (\<lambda>k z. z[k := 0]) ks z"

lemma truncate_direct_frees:
  assumes "mounted dev sb p 1 s" "i < length (k_inodes s)" "i_dev (ino i s) = dev" "distinct ks"
    "owned dev sb s (filter (\<lambda>z. z \<noteq> 0) (map ((!) (i_zone (ino i s))) ks))"
  shows "\<exists>t. truncate_direct i ks s = Done t \<and> cleared dev sb (set (filter (\<lambda>z. z \<noteq> 0) (map ((!) (i_zone (ino i s))) ks))) s t \<and>
    k_inodes t = k_inodes (upd_ino i (\<lambda>n. n\<lparr>i_zone := zero_zones ks (i_zone n)\<rparr>) s)"
  using assms
proof (induction ks arbitrary: s)
  case Nil
  then show ?case using cleared_refl [OF Nil.prems(1)] by (simp add: zero_zones_def upd_ino_def ino_def)
next
  case (Cons k ks)
  let ?z = "i_zone (ino i s)"
  let ?R = "filter (\<lambda>z. z \<noteq> 0) (map ((!) ?z) ks)"
  show ?case
  proof (cases "?z ! k = 0")
    case True
    then have "?z[k := 0] = ?z" by (metis list_update_id)
    then have "k_inodes (upd_ino i (\<lambda>n. n\<lparr>i_zone := zero_zones (k # ks) (i_zone n)\<rparr>) s) = k_inodes (upd_ino i (\<lambda>n. n\<lparr>i_zone := zero_zones ks (i_zone n)\<rparr>) s)"
      by (simp add: zero_zones_def upd_ino_def ino_def)
    then show ?thesis using Cons.IH [OF Cons.prems(1-3)] Cons.prems(4,5) True by (simp add: Let_def)
  next
    case False
    have o: "owned dev sb s ([?z ! k] @ ?R)" using Cons.prems(5) False by simp
    from free_block_cleared [OF Cons.prems(1), of "?z ! k"] o obtain t where
      t: "free_block dev (?z ! k) s = Done t" "cleared dev sb {?z ! k} s t" "k_inodes t = k_inodes s" by (auto simp: owned_def)
    let ?t = "upd_ino i (\<lambda>n. n\<lparr>i_zone := (i_zone n)[k := 0]\<rparr>) t"
    have it: "ino i t = ino i s" using t(3) by (simp add: ino_def)
    have l: "i < length (k_inodes ?t)" "ino i ?t = (ino i s)\<lparr>i_zone := ?z[k := 0]\<rparr>" using Cons.prems(2) t(3) it by (simp_all add: upd_ino_def ino_def)
    have R: "filter (\<lambda>z. z \<noteq> 0) (map ((!) (i_zone (ino i ?t))) ks) = ?R"
    proof -
      have "?z[k := 0] ! x = ?z ! x" if "x \<in> set ks" for x using that Cons.prems(4) by (metis distinct.simps(2) nth_list_update_neq)
      then show ?thesis unfolding l(2) by (simp cong: map_cong)
    qed
    have "owned dev sb t ?R" using cleared_owned [OF Cons.prems(1), of "[?z ! k]" t] t(2) o by simp
    then have ot: "owned dev sb ?t ?R" by simp
    have mt: "mounted dev sb p 1 ?t" using cleared_mounted [OF Cons.prems(1) t(2)] by simp
    have dt: "i_dev (ino i ?t) = dev" "distinct ks" using l(2) Cons.prems(3,4) by simp_all
    from Cons.IH [OF mt l(1) dt, unfolded R, OF ot] obtain u where u: "truncate_direct i ks ?t = Done u" "cleared dev sb (set ?R) ?t u"
      "k_inodes u = k_inodes (upd_ino i (\<lambda>n. n\<lparr>i_zone := zero_zones ks (i_zone n)\<rparr>) ?t)" by blast
    have "k_inodes u = k_inodes (upd_ino i (\<lambda>n. n\<lparr>i_zone := zero_zones (k # ks) (i_zone n)\<rparr>) s)"
      using u(3) t(3) Cons.prems(2) by (simp add: zero_zones_def upd_ino_def ino_def)
    then show ?thesis using t(1) u(1) cleared_trans [OF t(2), of "set ?R" u] u(2) Cons.prems(3) False by (simp add: Let_def)
  qed
qed

lemma frees_opt:
  assumes f: "frees dev sb p l f" "\<And>s. f 0 s = Done s" and m: "mounted dev sb p (Suc l) s"
    and o: "owned dev sb s (concat (map (tree l dev s) (filter (\<lambda>z. z \<noteq> 0) [n])))"
  shows "\<exists>t. f n s = Done t \<and> cleared dev sb (set (concat (map (tree l dev s) (filter (\<lambda>z. z \<noteq> 0) [n])))) s t \<and> k_inodes t = k_inodes s"
proof (cases "n = 0")
  case True
  then show ?thesis using f(2) cleared_refl [OF m] by simp
next
  case False
  then show ?thesis using f(1) m o by (simp add: frees_def)
qed

text \<open>The blocks of a file: the seven direct ones, those of the indirect block and those of the double indirect block.\<close>

definition file_blocks :: "int \<Rightarrow> fs_state \<Rightarrow> int list \<Rightarrow> int list" where
  "file_blocks dev s z = filter (\<lambda>n. n \<noteq> 0) (map ((!) z) [0..<7]) @
     concat (map (tree 1 dev s) (filter (\<lambda>n. n \<noteq> 0) [z ! 7])) @ concat (map (tree 2 dev s) (filter (\<lambda>n. n \<noteq> 0) [z ! 8]))"

lemma zero_zones_all: "length z = 9 \<Longrightarrow> (zero_zones [0..<7] z)[7 := 0, 8 := 0] = replicate 9 0"
  by (rule nth_equalityI) (auto simp: zero_zones_def upt_rec nth_list_update less_Suc_eq numeral_eq_Suc)

text \<open>
  C28: truncating a file of a mounted device, whose blocks are allocated, different and not in use, returns; all of
  its blocks, those of the indirect and double indirect trees included, are free in the zone map, no other bit has changed, every
  other block of the data zone has its contents, and the inode has no zones and size 0.
\<close>

theorem truncate_frees:
  assumes m: "mounted dev sb p 3 s" and i: "i < length (k_inodes s)" "i_dev (ino i s) = dev" "length (i_zone (ino i s)) = 9"
      "S_ISREG (i_mode (ino i s)) \<or> S_ISDIR (i_mode (ino i s))"
    and o: "owned dev sb s (file_blocks dev s (i_zone (ino i s)))"
  shows "\<exists>t. truncate i s = Done t \<and> cache_ok t \<and> counts t = counts s \<and>
    (\<forall>m<8192 * zslots sb. zbit sb t m \<longleftrightarrow> zbit sb s m \<and> m \<notin> zpos sb ` set (file_blocks dev s (i_zone (ino i s)))) \<and>
    (\<forall>n. s_firstdatazone sb \<le> n \<and> n \<notin> set (file_blocks dev s (i_zone (ino i s))) \<longrightarrow> view t dev n = view s dev n) \<and>
    k_inodes t = (k_inodes s)[i := (ino i s)\<lparr>i_zone := replicate 9 0, i_size := 0, i_dirt := 1, i_mtime := now s, i_ctime := now s\<rparr>]"
proof -
  let ?z = "i_zone (ino i s)"
  define A b c where "A = filter (\<lambda>n. n \<noteq> 0) (map ((!) ?z) [0..<7])" and "b = filter (\<lambda>n. n \<noteq> 0) [?z ! 7]" and "c = filter (\<lambda>n. n \<noteq> 0) [?z ! 8]"
  let ?B = "\<lambda>s. concat (map (tree 1 dev s) b)" and ?C = "\<lambda>s. concat (map (tree 2 dev s) c)"
  have F: "file_blocks dev s ?z = A @ ?B s @ ?C s" by (simp only: file_blocks_def A_def b_def c_def)
  have m2: "mounted dev sb p (Suc 1) s" and m3: "mounted dev sb p (Suc 2) s" using mounted_less [of dev sb p 2] m by (simp_all add: numeral_3_eq_3 numeral_2_eq_2)
  have m1: "mounted dev sb p 1 s" by (rule mounted_less [OF m2])
  have o: "owned dev sb s (A @ ?B s @ ?C s)" using o by (simp only: F)
  then have oA: "owned dev sb s A" and oB: "owned dev sb s (A @ ?B s)" by (unfold owned_append set_append) blast+
  from truncate_direct_frees [OF m1 i(1,2) distinct_upt [of 0 7], folded A_def, OF oA] obtain t1 where
    t1: "truncate_direct i [0..<7] s = Done t1" "cleared dev sb (set A) s t1"
      "k_inodes t1 = k_inodes (upd_ino i (\<lambda>n. n\<lparr>i_zone := zero_zones [0..<7] (i_zone n)\<rparr>) s)" by blast
  have n1: "ino i t1 = (ino i s)\<lparr>i_zone := zero_zones [0..<7] ?z\<rparr>" using t1(3) i(1) by (simp add: ino_def upd_ino_def)
  have "zero_zones [0..<7] ?z ! 7 = ?z ! 7" "zero_zones [0..<7] ?z ! 8 = ?z ! 8" by (simp_all add: zero_zones_def upt_rec)
  then have z1: "i_zone (ino i t1) ! 7 = ?z ! 7" "i_zone (ino i t1) ! 8 = ?z ! 8" "i_dev (ino i t1) = dev" using i(2) n1 by simp_all
  have f1: "free_ind dev 0 v = Done v" "free_dind dev 0 v = Done v" for v by (simp_all add: free_ind_def free_dind_def free_tree_def)
  note B1 = cleared_forest [OF m1 t1(2) oB]
  from frees_opt [OF free_ind_frees f1(1) cleared_mounted [OF m2 t1(2)], of "?z ! 7", folded b_def, OF B1(2), unfolded B1(1)] obtain t2 where
    t2: "free_ind dev (?z ! 7) t1 = Done t2" "cleared dev sb (set (?B s)) t1 t2" "k_inodes t2 = k_inodes t1" by blast
  have c2: "cleared dev sb (set (A @ ?B s)) s t2" using cleared_trans [OF t1(2) t2(2)] by (simp only: set_append)
  note C2 = cleared_forest [OF m1 c2 o [folded append_assoc]]
  from frees_opt [OF free_dind_frees f1(2) cleared_mounted [OF m3 c2], of "?z ! 8", folded c_def, OF C2(2), unfolded C2(1)] obtain t3 where
    t3: "free_dind dev (?z ! 8) t2 = Done t3" "cleared dev sb (set (?C s)) t2 t3" "k_inodes t3 = k_inodes t2" by blast
  have c3: "cleared dev sb (set (A @ ?B s @ ?C s)) s t3" using cleared_trans [OF c2 t3(2)] by (simp only: set_append Un_assoc)
  let ?t = "upd_ino i (\<lambda>n. n\<lparr>i_zone := (i_zone n)[7 := 0, 8 := 0], i_size := 0, i_dirt := 1, i_mtime := now t3, i_ctime := now t3\<rparr>) t3"
  have ct: "cleared dev sb (set (A @ ?B s @ ?C s)) s ?t" using c3 by (simp only: inode_frame)
  have e: "ino i t2 = ino i t1" "ino i t3 = ino i t1" using t2(3) t3(3) by (simp_all add: ino_def)
  have r: "truncate i s = Done ?t" using i(4) t1(1) t2(1) t3(1) z1 e by (simp add: truncate_def)
  have "now t3 = now s" using c3 by (simp add: cleared_def rest_def now_def)
  then have k: "k_inodes ?t = (k_inodes s)[i := (ino i s)\<lparr>i_zone := replicate 9 0, i_size := 0, i_dirt := 1, i_mtime := now s, i_ctime := now s\<rparr>]"
    using t1(3) t2(3) t3(3) i(1) zero_zones_all [OF i(3)] by (simp add: upd_ino_def ino_def)
  show ?thesis unfolding F
    by (intro exI [of _ ?t] conjI r k clearedD(1,2) [OF ct] cleared_seen(1) [OF ct] cleared_seen(2) [OF ct mountedD(2) [OF m]])
qed

text \<open>A disk with a file of one direct block, 5, an indirect block, 6, with one entry, 7, and a double indirect block, 8, with one entry, 9, of one entry, 10.\<close>

definition pointer :: "int \<Rightarrow> byte list" where "pointer n = word_of_int n # replicate 1023 0"

definition tree_disk :: "int \<Rightarrow> int \<Rightarrow> byte list" where
  "tree_disk d n = (if n = 2 then pointer 127 else if n = 6 then pointer 7 else if n = 8 then pointer 9 else if n = 9 then pointer 10 else pointer 0)"

definition tree_super :: super_block where
  "tree_super = \<lparr>s_ninodes = 32, s_nzones = 100, s_imap_blocks = 1, s_zmap_blocks = 1, s_firstdatazone = 5,
     s_log_zone_size = 0, s_max_size = 1000, s_magic = SUPER_MAGIC, s_imap = replicate 8 None,
     s_zmap = Some 0 # replicate 7 None, s_dev = 0x301, s_isup = None, s_imount = None, s_time = 0, s_rd_only = 0, s_dirt = 0\<rparr>"

definition tree_file :: fs_state where
  "tree_file =
     fs_boot 5 tree_disk
        \<lparr>fs_bufs := empty_buffer\<lparr>b_data := pointer 127, b_dev := 0x301, b_blocknr := 2, b_uptodate := 1, b_count := 1\<rparr> # replicate 4 empty_buffer,
         fs_hash := (replicate NR_HASH [])[hashfn 0x301 2 := [0]],
         fs_supers := [tree_super],
         k_inodes := [zero_inode\<lparr>i_mode := 0x81A4, i_size := 530000, i_dev := 0x301, i_count := 1, i_nlinks := 1, i_num := 2,
           i_zone := [5, 0, 0, 0, 0, 0, 0, 6, 8]\<rparr>]\<rparr>"

lemma tree_file_fields:
  "fs_bufs tree_file = empty_buffer\<lparr>b_data := pointer 127, b_dev := 0x301, b_blocknr := 2, b_uptodate := 1, b_count := 1\<rparr> # replicate 4 empty_buffer"
  "fs_disk tree_file = tree_disk" "fs_bad tree_file = (\<lambda>_ _. False)" "fs_nr_sects tree_file = (\<lambda>_. 1000)" "fs_supers tree_file = [tree_super]"
  "fs_free tree_file = [0..<5]" "fs_hash tree_file = (replicate NR_HASH [])[hashfn 0x301 2 := [0]]"
  by (simp_all add: tree_file_def fs_boot_def buffer_init_def Let_def)

lemma tree_file_buf:
  "buf 0 tree_file = empty_buffer\<lparr>b_data := pointer 127, b_dev := 0x301, b_blocknr := 2, b_uptodate := 1, b_count := 1\<rparr>"
  "0 < i \<Longrightarrow> i < 5 \<Longrightarrow> buf i tree_file = empty_buffer" "length (fs_bufs tree_file) = 5"
  by (simp_all add: buf_def tree_file_fields nth_Cons')

lemma tree_file_holds: "i < 5 \<Longrightarrow> d \<noteq> 0 \<Longrightarrow> holds tree_file d n i \<longleftrightarrow> i = 0 \<and> d = 0x301 \<and> n = 2"
  by (cases "i = 0") (auto simp: holds_def tree_file_buf empty_buffer_def)

lemma tree_file_on_disk: "on_disk tree_file 0x301 n \<longleftrightarrow> 0 \<le> n \<and> n < 500"
  by (auto simp: on_disk_def tree_file_fields MAJOR_def MINOR_def NR_HD_def u32_def)

lemma tree_file_view: "n \<noteq> 2 \<Longrightarrow> view tree_file 0x301 n = tree_disk 0x301 n"
  by (subst view_uncached) (simp_all add: tree_file_buf(3) tree_file_holds tree_file_fields)

lemma tree_file_ok: "cache_ok tree_file"
proof -
  have "buf_ok tree_file (buf i tree_file)" if "i < 5" for i
    using that by (cases "i = 0") (auto simp: buf_ok_def tree_file_buf tree_file_fields empty_buffer_def tree_disk_def)
  then have "bufs_ok tree_file" unfolding bufs_ok_def tree_file_buf(3) using tree_file_holds by blast
  moreover have h: "fs_hash tree_file ! h = (if h = hashfn 0x301 2 then [0] else [])" if "h < NR_HASH" for h
    using that by (simp add: tree_file_fields(7) nth_list_update)
  have "i \<in> set (fs_hash tree_file ! h) \<longleftrightarrow> i < 5 \<and> b_dev (buf i tree_file) \<noteq> 0 \<and> hashfn (b_dev (buf i tree_file)) (b_blocknr (buf i tree_file)) = h"
    if "h < NR_HASH" for h i
    unfolding h [OF that] by (cases "i = 0"; cases "i < 5") (auto simp: tree_file_buf, simp add: empty_buffer_def)
  then have "queues_ok tree_file"
    unfolding queues_ok_def tree_file_buf(3) by (simp add: h tree_file_fields(6)) (simp add: tree_file_fields(7) atLeast0LessThan)
  ultimately show ?thesis by (simp add: cache_ok_def)
qed

lemma pointer_entries: "0 < n \<Longrightarrow> n < 256 \<Longrightarrow> entries (pointer n) [0..<512] = [n]"
proof -
  assume n: "0 < n" "n < 256"
  have u: "uint (word_of_int n :: byte) = n" using n by (simp add: uint_word_of_int)
  have "get_zone k (pointer n) = (if k = 0 then n else 0)" if "k < 512" for k
    using that u by (simp add: get_zone_def get16_def pointer_def nth_Cons')
  moreover have "[0..<512::nat] = 0 # [1..<512]" by (subst upt_conv_Cons) (simp_all del: upt_rec_numeral)
  ultimately show ?thesis using n(1) by (simp add: entries_def filter_empty_conv del: upt_conv_Cons_Cons upt_rec_numeral)
qed

lemma tree_file_tree:
  "n \<noteq> 2 \<Longrightarrow> tree_disk 0x301 n = pointer k \<Longrightarrow> 0 < k \<Longrightarrow> k < 256 \<Longrightarrow> tree (Suc l) 0x301 tree_file n = tree l 0x301 tree_file k @ [n]"
  by (simp add: tree_file_view pointer_entries del: upt_rec_numeral)

lemma tree_file_blocks: "file_blocks 0x301 tree_file [5, 0, 0, 0, 0, 0, 0, 6, 8] = [5, 7, 6, 10, 9, 8]"
proof -
  have "tree (Suc 0) 0x301 tree_file 6 = tree 0 0x301 tree_file 7 @ [6]" by (rule tree_file_tree) (simp_all add: tree_disk_def)
  moreover have "tree (Suc 0) 0x301 tree_file 9 = tree 0 0x301 tree_file 10 @ [9]" by (rule tree_file_tree) (simp_all add: tree_disk_def)
  moreover have "tree (Suc (Suc 0)) 0x301 tree_file 8 = tree (Suc 0) 0x301 tree_file 9 @ [8]" by (rule tree_file_tree) (simp_all add: tree_disk_def)
  ultimately have "tree (Suc 0) 0x301 tree_file 6 = [7, 6]" "tree 2 0x301 tree_file 8 = [10, 9, 8]" by (simp_all only: tree.simps append.simps numeral_2_eq_2)
  then show ?thesis by (simp add: file_blocks_def upt_rec del: tree.simps)
qed

lemma tree_file_mounted: "mounted 0x301 tree_super 0 3 tree_file"
proof -
  have z: "zslots tree_super = 1" "s_zmap tree_super = Some 0 # replicate 7 None" "s_firstdatazone tree_super = 5" "s_nzones tree_super = 100"
    by (simp_all add: zslots_def tree_super_def)
  have "zmap_ok 0x301 tree_super tree_file"
    unfolding zmap_ok_def z
    by (auto simp: tree_file_buf tree_file_holds tree_file_on_disk pointer_def nth_Cons')
  moreover have "counts tree_file = [1, 0, 0, 0, 0]" by (simp add: counts_def tree_file_fields empty_buffer_def numeral_eq_Suc)
  then have "spare 3 tree_file" using tree_file_ok by (simp add: spare_def)
  moreover have "pinned j tree_file" if "j < 5" "0 < b_count (buf j tree_file)" for j
    using that by (cases "j = 0") (auto simp: pinned_def tree_file_buf tree_file_fields(3) empty_buffer_def)
  ultimately show ?thesis by (simp add: mounted_def tree_file_buf(3) get_super_def super_def tree_file_fields(5)) (simp add: tree_super_def)
qed

lemma tree_file_allocated: "n \<in> {5, 6, 7, 8, 9, 10} \<Longrightarrow> allocated 0x301 tree_super tree_file n"
  by (auto simp: allocated_def zpos_def zbit_def zslots_def tree_super_def tree_file_buf tree_file_holds get_bit_def pointer_def bit_simps)

theorem truncate_frees_witness:
  "\<exists>t. truncate 0 tree_file = Done t \<and> cache_ok t \<and> counts t = counts tree_file \<and>
    (\<forall>m<8192 * zslots tree_super. zbit tree_super t m \<longleftrightarrow> zbit tree_super tree_file m \<and> m \<notin> zpos tree_super ` set [5, 7, 6, 10, 9, 8]) \<and>
    (\<forall>n. s_firstdatazone tree_super \<le> n \<and> n \<notin> set [5, 7, 6, 10, 9, 8] \<longrightarrow> view t 0x301 n = view tree_file 0x301 n) \<and>
    k_inodes t = (k_inodes tree_file)[0 := (ino 0 tree_file)\<lparr>i_zone := replicate 9 0, i_size := 0, i_dirt := 1,
      i_mtime := now tree_file, i_ctime := now tree_file\<rparr>]"
proof -
  have i: "length (k_inodes tree_file) = 1" "i_dev (ino 0 tree_file) = 0x301" "i_zone (ino 0 tree_file) = [5, 0, 0, 0, 0, 0, 0, 6, 8]"
    "i_mode (ino 0 tree_file) = 0x81A4" by (simp_all add: tree_file_def ino_def)
  have "owned 0x301 tree_super tree_file [5, 7, 6, 10, 9, 8]" using tree_file_allocated by (simp add: owned_def)
  then have o: "owned 0x301 tree_super tree_file (file_blocks 0x301 tree_file (i_zone (ino 0 tree_file)))" by (simp only: i(3) tree_file_blocks)
  have "S_ISREG (i_mode (ino 0 tree_file))" by (simp add: i(4) S_ISREG_def S_IFMT_def S_IFREG_def)
  with truncate_frees [OF tree_file_mounted _ i(2) _ _ o] i(1) show ?thesis
    unfolding i(3) tree_file_blocks by simp
qed

end
