(* ===== verification/Spec2Isabelle.thy ===== *)
theory Spec2Isabelle
  imports EncrList KeyGen KeySys TtyProps MemoryProps ProcessProps Mktime Printk CStringProps BitmapProps PipeProps OpenSys FileProps HdProps Super
    Dirents ExitSys InodeTable ToolProps DirProps FileRW EncrFile ExecProps ExitProps Traps ScanProps Calls TruncateProps
begin

text \<open>
  A verification of the kernel in this repository: Linux 0.01 with a file cipher added to it.

  \<^bold>\<open>The program.\<close> The kernel (\<^verbatim>\<open>src/kernel\<close>, \<^verbatim>\<open>src/mm\<close>, \<^verbatim>\<open>src/fs\<close>) runs tasks that it switches in
  \<^verbatim>\<open>schedule\<close>, gives them memory by pages, a file system on a hard disk that is read through a cache of
  buffers, pipes, and terminals. Added are a key (\<^verbatim>\<open>sys_set_key\<close>, \<^verbatim>\<open>sys_clear_key\<close>, \<^verbatim>\<open>sys_generate_key\<close>), a columnar
  transposition with that key on the blocks of a file (\<^verbatim>\<open>sys_encr\<close>, \<^verbatim>\<open>sys_decr\<close>), and a list of the encrypted
  inodes that is kept in a file. The parts call each other as the theories below import each other: system calls on
  files use path names, path names use inodes, inodes use the bitmaps and the block map, all of them use the buffer
  cache, and everything that waits uses the scheduler.

  \<^bold>\<open>How C is modelled.\<close> \<^verbatim>\<open>Prelude\<close> has the result type \<open>outcome\<close>: \<open>Done\<close> with a value, \<open>Oob\<close> for a read or write
  outside an array, \<open>Panic\<close> for the kernel's \<^verbatim>\<open>panic\<close>, and the other ways in which a run stops, with
  \<open>obind\<close> for sequencing. An \<^verbatim>\<open>int\<close> or \<^verbatim>\<open>long\<close> whose overflow matters is an \<open>int\<close> cut to its width by \<open>u8\<close>, \<open>u16\<close>, \<open>u32\<close>
  or \<open>s32\<close>; bytes are \<open>8 word\<close>. The static variables of a file are a record that its operations take and return.
  A pointer to an element of a table is its index; \<open>None\<close> is the null pointer. A loop of the code is a recursive
  function; where its end is not plain from the code the recursion has a measure, or a bound with a
  lemma that the bound is enough.

  \<^bold>\<open>Theories.\<close>
  \<^item> \<^verbatim>\<open>KeySort\<close>, \<^verbatim>\<open>Crypt\<close>, \<^verbatim>\<open>KeyGen\<close>, \<^verbatim>\<open>KeySys\<close>, \<^verbatim>\<open>EncrList\<close> (\<^verbatim>\<open>kernel/sys.c\<close>): the quicksort of the key, the cipher on a block,
    the system calls on the key, and the text of the list of encrypted inodes. Decryption inverts encryption; encryption is
    the reading of the columns in the order of the key; the key calls keep the key usable; marking is found again.
  \<^item> \<^verbatim>\<open>Console\<close>, \<^verbatim>\<open>ConsoleWf\<close>, \<^verbatim>\<open>ConsoleSpec\<close>, \<^verbatim>\<open>Tool\<close>, \<^verbatim>\<open>ToolProps\<close> (\<^verbatim>\<open>kernel/console.c\<close>): the VT102 state machine on the video
    memory, and the tool window with the list of files and the clipboard; no sequence of characters leaves the screen, the
    operations are those of a grid of cells, and the window stays in its frame.
  \<^item> \<^verbatim>\<open>Sched\<close>, \<^verbatim>\<open>Process\<close>, \<^verbatim>\<open>ProcessProps\<close> (\<^verbatim>\<open>kernel/sched.c\<close>, \<^verbatim>\<open>fork.c\<close>, \<^verbatim>\<open>exit.c\<close>, parts of \<^verbatim>\<open>sys.c\<close>): tasks, sleeping and waking, fork,
    kill and wait. \<^verbatim>\<open>ExitSys\<close>, \<^verbatim>\<open>ExitProps\<close> (\<^verbatim>\<open>exit.c\<close>): the end of a task over the files, the terminals and the memory; a task that
    ends wakes its father, whose \<open>sys_waitpid\<close> takes the exit code.
  \<^item> \<^verbatim>\<open>Desc\<close>, \<^verbatim>\<open>Traps\<close>, \<^verbatim>\<open>Calls\<close> (\<^verbatim>\<open>include/asm/system.h\<close>, \<^verbatim>\<open>include/linux/sched.h\<close>, \<^verbatim>\<open>kernel/traps.c\<close>, \<^verbatim>\<open>include/linux/sys.h\<close>,
    \<^verbatim>\<open>include/unistd.h\<close>): segment descriptors and interrupt gates as words, the handlers of exceptions, the table of system calls and
    the numbers. The gates that the initialisation installs lead to their entries; user programs can call four of them.
    The base and the limit in \<open>task_struct\<close> are what \<open>set_base\<close> and \<open>set_limit\<close> store (lemma \<open>segment_roundtrip\<close>).
  \<^item> \<^verbatim>\<open>Memory\<close>, \<^verbatim>\<open>MemoryProps\<close> (\<^verbatim>\<open>mm/memory.c\<close>): the page map, page tables and copy on write; the use counts agree with the tables.
  \<^item> \<^verbatim>\<open>Mktime\<close>, \<^verbatim>\<open>Vsprintf\<close>, \<^verbatim>\<open>Printk\<close>, \<^verbatim>\<open>CString\<close>, \<^verbatim>\<open>CStringProps\<close>: the calendar, formatted printing (\<^verbatim>\<open>vsprintf.c\<close>, \<^verbatim>\<open>printk.c\<close>, \<^verbatim>\<open>panic.c\<close>)
    and the string functions of \<^verbatim>\<open>include/string.h\<close>.
  \<^item> \<^verbatim>\<open>Fifo\<close>, \<^verbatim>\<open>TtyQueue\<close>, \<^verbatim>\<open>Tty\<close>, \<^verbatim>\<open>TtyProps\<close> (\<^verbatim>\<open>tty.h\<close>, \<^verbatim>\<open>tty_io.c\<close>, \<^verbatim>\<open>tty_ioctl.c\<close>, \<^verbatim>\<open>serial.c\<close>): the ring queues as an instance of an abstract queue,
    line editing, reading and writing of terminals.
  \<^item> \<^verbatim>\<open>FsTypes\<close>, \<^verbatim>\<open>Buffer\<close>, \<^verbatim>\<open>BufferProps\<close>, \<^verbatim>\<open>CacheOps\<close> (\<^verbatim>\<open>fs/buffer.c\<close>): the cache is transparent: what \<open>bread\<close> gives is the contents of the
    block, whichever buffers are reused. \<open>view\<close> is a block as the kernel sees it; \<open>cache_frame\<close> covers what changes outside the cache.
  \<^item> \<^verbatim>\<open>HdDriver\<close>, \<^verbatim>\<open>HdProps\<close> (\<^verbatim>\<open>kernel/hd.c\<close>): the queue of requests, the registers of the controller and its interrupts. The queue is a chain
    without loops, a request is queued in the order of the elevator, a block is on the cylinder, head and sector of its number.
  \<^item> \<^verbatim>\<open>Bitmap\<close>, \<^verbatim>\<open>BitmapProps\<close> (\<^verbatim>\<open>fs/bitmap.c\<close>), \<^verbatim>\<open>Inode\<close>, \<^verbatim>\<open>InodeProps\<close>, \<^verbatim>\<open>InodeTable\<close>, \<^verbatim>\<open>TruncateProps\<close> (\<^verbatim>\<open>fs/inode.c\<close>, \<^verbatim>\<open>truncate.c\<close>), \<^verbatim>\<open>Super\<close> (\<^verbatim>\<open>super.c\<close>):
    allocation of blocks and inodes, the block map, the table of inodes, mounting. An inode that is written is read again; an inode of
    a device has one entry of the table; truncating a file frees the blocks of the file, the indirect ones included, and no other.
  \<^item> \<^verbatim>\<open>Namei\<close>, \<^verbatim>\<open>NameiSys\<close>, \<^verbatim>\<open>DirProps\<close> (\<^verbatim>\<open>fs/namei.c\<close>), \<^verbatim>\<open>FileDev\<close>, \<^verbatim>\<open>FileProps\<close>, \<^verbatim>\<open>FileRW\<close>, \<^verbatim>\<open>EncrFile\<close> (\<^verbatim>\<open>file_dev.c\<close>, \<^verbatim>\<open>block_dev.c\<close>, the
    file cipher of \<^verbatim>\<open>sys.c\<close>), \<^verbatim>\<open>Pipe\<close>, \<^verbatim>\<open>PipeProps\<close> (\<^verbatim>\<open>pipe.c\<close>), \<^verbatim>\<open>OpenSys\<close> (\<^verbatim>\<open>open.c\<close>, \<^verbatim>\<open>read_write.c\<close>, \<^verbatim>\<open>fcntl.c\<close>, \<^verbatim>\<open>char_dev.c\<close>, \<^verbatim>\<open>stat.c\<close>,
    \<^verbatim>\<open>ioctl.c\<close>), \<^verbatim>\<open>Dirents\<close> (\<^verbatim>\<open>sys_getdents.c\<close>). A directory is searched for its first entry of a name; what is written to a file is read
    again; encrypting a file and decrypting it gives every block of the disk back, and a file in the list of encrypted files is read as
    plain text and left as it was; a pipe gives the bytes in the order in which they were written.
  \<^item> \<^verbatim>\<open>Exec\<close>, \<^verbatim>\<open>ExecProps\<close> (\<^verbatim>\<open>fs/exec.c\<close>, \<^verbatim>\<open>include/elf.h\<close>): the arguments, the loader and \<open>do_execve\<close>; a section is loaded as it is in the file.
  \<^item> \<^verbatim>\<open>Scan\<close>, \<^verbatim>\<open>ScanProps\<close> (\<^verbatim>\<open>apps/domaci1\<close>, \<^verbatim>\<open>apps/utils.h\<close>): the user program that turns scan codes into text; a file of codes gives the text of
    its codes, and the digits of a character code typed with Alt give the character.

  \<^bold>\<open>Interfaces.\<close> The locale \<open>fifo\<close> states what a bounded queue promises; it is interpreted for the terminal queues (with the
  operations at the other end, \<open>char_queue\<close>) and for the ring of a pipe. The locale \<open>block_cipher\<close> states that two directions of a cipher
  invert each other; \<open>file_cipher\<close> extends it to a pass over the blocks of a file and is interpreted twice, for encryption before
  decryption (\<^verbatim>\<open>sys_encr\<close>, \<^verbatim>\<open>sys_decr\<close>) and for decryption before encryption (\<^verbatim>\<open>file_read\<close> of an encrypted file).

  \<^bold>\<open>Bounds and parameters.\<close> The searches for a free buffer and for the place of a request, the walk over directory entries and the scans for
  the zero of a user string have a bound, with \<open>Fuel\<close> when it is used up; the theorems say that the bound given is enough.
  The number of rounds of \<open>tty_write\<close> and \<open>tty_read\<close> is a parameter; \<open>tty_read_delivers\<close> shows from which value on the result is there.
  What the hardware answers is a parameter: the ports of the controller (\<open>io\<close>), the contents of the disk and the blocks that cannot be read.
  Bytes that the code reads without having written them (the rest of a stack buffer, the memory after a block) are parameters too:
  \<open>stale\<close>, \<open>tail\<close>, \<open>upath\<close>. \<open>spare n s\<close> says that \<open>n\<close> buffers of the cache are not in use; the system calls of the cipher keep buffers
  they have taken, so their theorems need it.

  \<^bold>\<open>Not modelled.\<close> The assembler files, apart from the test of the number of a system call; the messages that the file system prints
  while it goes on; the fork and the first programs of \<^verbatim>\<open>init\<close> in \<^verbatim>\<open>init/main.c\<close>; the instances of the stubs in \<^verbatim>\<open>src/lib\<close>; the example
  programs under \<^verbatim>\<open>src/apps\<close> other than the one above, which ask for a number and print; and \<^verbatim>\<open>tools/build.c\<close>, which runs on the host.
\<close>

end
